(* ===== verification/Prelude.thy ===== *)
theory Prelude
  imports Main "HOL-Library.Word" "HOL-Library.Signed_Division" "HOL-Library.AList"
begin

text \<open>
  Shared vocabulary of the development: Go's clock and its signed 64-bit integers, byte
  strings, the \<open>error\<close> values, and the generic facts on lists, association lists and maps the
  component theories share.

  Conventions. A Go \<open>string\<close> is a sequence of bytes and is modelled by \<open>string\<close>, a list of
  8-bit \<open>char\<close>s, so \<open>len(s)\<close> is \<open>length s\<close>. A \<open>time.Time\<close> is the number of nanoseconds
  since the epoch as an \<open>int\<close>; a \<open>time.Duration\<close> and an \<open>int64\<close> are \<open>int\<close>s, and where the code's
  arithmetic can leave 64 bits the wrap-around (\<open>wrap64\<close>) or the saturation (\<open>time_sub\<close>) is written out.
\<close>

named_theorems go_arith \<open>reading the modelled 64-bit arithmetic as arithmetic on int\<close>
named_theorems inv_intros \<open>an operation keeps the invariant of its component\<close>
named_theorems frame_simps \<open>an operation leaves a field alone\<close>

section \<open>Time and signed 64-bit integers\<close>

type_synonym time = int
type_synonym duration = int

abbreviation Nanosecond :: duration where "Nanosecond \<equiv> 1"
abbreviation Millisecond :: duration where "Millisecond \<equiv> 1000000"
abbreviation Second :: duration where "Second \<equiv> 1000000000"
abbreviation Minute :: duration where "Minute \<equiv> 60 * Second"
abbreviation Hour :: duration where "Hour \<equiv> 60 * Minute"

definition max_int64 :: int where "max_int64 = 2 ^ 63 - 1"
definition min_int64 :: int where "min_int64 = - (2 ^ 63)"

text \<open>Two's complement wrap-around of Go's \<open>int64\<close> (and of \<open>int\<close> on a 64-bit platform).\<close>

definition wrap64 :: "int \<Rightarrow> int" where
  "wrap64 x = (x + 2 ^ 63) mod 2 ^ 64 - 2 ^ 63"

definition int64_ok :: "int \<Rightarrow> bool" where
  "int64_ok x \<longleftrightarrow> min_int64 \<le> x \<and> x \<le> max_int64"

lemma wrap64_eq_sint: "wrap64 x = sint (word_of_int x :: 64 word)"
  by (simp add: wrap64_def sint_sbintrunc' signed_take_bit_eq_take_bit_shift take_bit_eq_mod)

lemma wrap64_id [go_arith]: "int64_ok x \<Longrightarrow> wrap64 x = x"
  by (simp add: wrap64_def int64_ok_def min_int64_def max_int64_def)

lemma int64_ok_wrap64 [simp]: "int64_ok (wrap64 x)"
  by (simp add: wrap64_def int64_ok_def min_int64_def max_int64_def)

text \<open>\<open>t.Sub(u)\<close> saturates at the ends of \<open>Duration\<close>; \<open>t.Before(u)\<close> and \<open>t.Add(d)\<close> do not.\<close>

definition time_sub :: "time \<Rightarrow> time \<Rightarrow> duration" where
  "time_sub t u = max min_int64 (min max_int64 (t - u))"

definition time_before :: "time \<Rightarrow> time \<Rightarrow> bool" where
  "time_before t u \<longleftrightarrow> t < u"

definition time_add :: "time \<Rightarrow> duration \<Rightarrow> time" where
  "time_add t d = t + d"

lemma time_sub_le [go_arith]:
  "min_int64 \<le> d \<Longrightarrow> d < max_int64 \<Longrightarrow> time_sub t u \<le> d \<longleftrightarrow> t - u \<le> d"
  by (auto simp: time_sub_def)

lemma time_sub_gt [go_arith]:
  "min_int64 \<le> d \<Longrightarrow> d < max_int64 \<Longrightarrow> d < time_sub t u \<longleftrightarrow> d < t - u"
  by (auto simp: time_sub_def)

lemma time_sub_less [go_arith]:
  "min_int64 < d \<Longrightarrow> d \<le> max_int64 \<Longrightarrow> time_sub t u < d \<longleftrightarrow> t - u < d"
  by (auto simp: time_sub_def)

lemma time_before_iff [simp]: "time_before t u \<longleftrightarrow> t < u"
  by (simp add: time_before_def)

lemma time_add_eq [simp]: "time_add t d = t + d"
  by (simp add: time_add_def)

text \<open>\<open>t.UnixMilli()\<close> rounds towards minus infinity, \<open>d.Milliseconds()\<close> truncates towards zero.\<close>

definition unix_milli :: "time \<Rightarrow> int" where
  "unix_milli t = t div Millisecond"

definition UnixMilli_time :: "int \<Rightarrow> time" where
  "UnixMilli_time ms = ms * Millisecond"

definition milliseconds :: "duration \<Rightarrow> int" where
  "milliseconds d = d sdiv Millisecond"

lemma unix_milli_mono: "t \<le> u \<Longrightarrow> unix_milli t \<le> unix_milli u"
  by (simp add: unix_milli_def zdiv_mono1)

section \<open>Byte strings\<close>

definition has_prefix :: "string \<Rightarrow> string \<Rightarrow> bool" where
  "has_prefix s p \<longleftrightarrow> take (length p) s = p"

definition has_suffix :: "string \<Rightarrow> string \<Rightarrow> bool" where
  "has_suffix s p \<longleftrightarrow> length p \<le> length s \<and> drop (length s - length p) s = p"

fun str_contains :: "string \<Rightarrow> string \<Rightarrow> bool" where
  "str_contains [] sub = (sub = [])"
| "str_contains (c # cs) sub = (has_prefix (c # cs) sub \<or> str_contains cs sub)"

text \<open>\<open>strings.Join\<close> and \<open>strings.Split\<close> with a one-byte separator.\<close>

fun str_join :: "string \<Rightarrow> string list \<Rightarrow> string" where
  "str_join sep [] = []"
| "str_join sep [x] = x"
| "str_join sep (x # y # ys) = x @ sep @ str_join sep (y # ys)"

fun str_split :: "char \<Rightarrow> string \<Rightarrow> string list" where
  "str_split c [] = [[]]"
| "str_split c (d # ds) =
     (if d = c then [] # str_split c ds
      else (case str_split c ds of [] \<Rightarrow> [[d]] | w # ws \<Rightarrow> (d # w) # ws))"

lemma str_split_nonempty [simp]: "str_split c s \<noteq> []"
  by (induction s) (auto split: list.splits)

lemma str_join_Cons: "xs \<noteq> [] \<Longrightarrow> str_join sep (x # xs) = x @ sep @ str_join sep xs"
  by (cases xs) auto

lemma str_join_Cons_char:
  "str_join sep ((d # w) # ws) = d # str_join sep (w # ws)"
  by (cases ws) auto

text \<open>Splitting and joining are inverse.\<close>

lemma join_split: "str_join [c] (str_split c s) = s"
proof (induction s)
  case (Cons d ds)
  then show ?case
    by (cases "str_split c ds") (auto simp: str_join_Cons str_join_Cons_char simp del: str_join.simps(3))
qed simp

lemma split_no_sep: "w \<in> set (str_split c s) \<Longrightarrow> c \<notin> set w"
  by (induction s arbitrary: w) (auto split: if_splits list.splits)

lemma str_split_singleton: "c \<notin> set s \<Longrightarrow> str_split c s = [s]"
  by (induction s) auto

lemma str_split_append:
  "c \<notin> set w \<Longrightarrow> str_split c (w @ c # s) = w # str_split c s"
  by (induction w) auto

lemma split_join:
  "ws \<noteq> [] \<Longrightarrow> (\<And>w. w \<in> set ws \<Longrightarrow> c \<notin> set w) \<Longrightarrow> str_split c (str_join [c] ws) = ws"
  by (induction "[c]" ws rule: str_join.induct) (auto simp: str_split_singleton str_split_append)

lemma join_append:
  "xs \<noteq> [] \<Longrightarrow> ys \<noteq> [] \<Longrightarrow> str_join sep (xs @ ys) = str_join sep xs @ sep @ str_join sep ys"
  by (induction sep xs rule: str_join.induct) (auto simp: str_join_Cons)

text \<open>ASCII lower case of a byte; \<open>strings.ToLower\<close> agrees with it on ASCII input.\<close>

definition to_lower_char :: "char \<Rightarrow> char" where
  "to_lower_char c = (let n = of_char c :: nat in if 65 \<le> n \<and> n \<le> 90 then char_of (n + 32) else c)"

definition to_lower :: "string \<Rightarrow> string" where
  "to_lower = map to_lower_char"

definition trim_suffix :: "string \<Rightarrow> string \<Rightarrow> string" where
  "trim_suffix s suf = (if has_suffix s suf then take (length s - length suf) s else s)"

lemma has_prefix_append [simp]: "has_prefix (p @ s) p"
  by (simp add: has_prefix_def)

lemma has_suffix_append [simp]: "has_suffix (s @ p) p"
  by (simp add: has_suffix_def)

lemma has_suffix_iff: "has_suffix s p \<longleftrightarrow> (\<exists>r. s = r @ p)"
proof
  assume "has_suffix s p"
  then have "s = take (length s - length p) s @ p"
    by (metis append_take_drop_id has_suffix_def)
  then show "\<exists>r. s = r @ p" ..
qed auto

lemma has_prefix_iff: "has_prefix s p \<longleftrightarrow> (\<exists>r. s = p @ r)"
  by (metis append_eq_conv_conj append_take_drop_id has_prefix_def)

section \<open>Keeping the first element for each key\<close>

text \<open>
  The loop \<open>if !seen[key(x)] { seen[key(x)] = true; out = append(out, x) }\<close>, which several
  merge functions run, with the set of keys seen so far as the accumulator.
\<close>

fun keep_first :: "('a \<Rightarrow> 'k) \<Rightarrow> 'k set \<Rightarrow> 'a list \<Rightarrow> 'a list" where
  "keep_first f seen [] = []"
| "keep_first f seen (x # xs) =
     (if f x \<in> seen then keep_first f seen xs
      else x # keep_first f (insert (f x) seen) xs)"

lemma set_keep_first_subset: "set (keep_first f seen xs) \<subseteq> set xs"
  by (induction xs arbitrary: seen) auto

lemma keys_keep_first: "f ` set (keep_first f seen xs) = f ` set xs - seen"
  by (induction xs arbitrary: seen) auto

lemma distinct_keep_first: "distinct (map f (keep_first f seen xs))"
proof (induction xs arbitrary: seen)
  case (Cons x xs)
  have "f x \<notin> f ` set (keep_first f (insert (f x) seen) xs)"
    unfolding keys_keep_first by simp
  with Cons.IH show ?case by simp
qed simp

lemma keep_first_append:
  "keep_first f seen (xs @ ys) = keep_first f seen xs @ keep_first f (seen \<union> f ` set xs) ys"
  by (induction xs arbitrary: seen) (auto simp: insert_absorb)

lemma keep_first_id: "distinct (map f xs) \<Longrightarrow> f ` set xs \<inter> seen = {} \<Longrightarrow> keep_first f seen xs = xs"
  by (induction xs arbitrary: seen) (auto simp: image_iff)

end
