(* ===== verification/Types.thy ===== *)
theory Types
  imports Prelude
begin

text \<open>
  The shared data structures of \<open>types/types.go\<close> and \<open>types/safety_config.go\<close>: the normalised
  message, the policy, batching, queue, deduplication and outbound configurations, and their
  defaults. A Go struct is a record; a pointer that may be nil is an \<open>option\<close>; the string
  constants of \<open>RejectReason\<close> are the constructors of a datatype, with \<open>reason_string\<close> their
  wire form. Fields that occur in several structs carry a prefix (\<open>ov\<close>, \<open>cq\<close>, \<open>mb\<close>, ...).
\<close>

section \<open>Messages\<close>

record AtUser =
  DingtalkID :: string
  StaffID :: string

record Resource =
  ResourceType :: string
  DownloadCode :: string
  FileName :: string
  Recognition :: string

record Mention =
  MentionKey :: string
  UserID :: string
  MentionName :: string
  IsBot :: bool
  IsAll :: bool

text \<open>
  \<open>IncomingMessage\<close> holds its own kind: \<open>BatchedSources\<close> lists the messages a batch was merged
  from. The record carries every other field, the datatype ties the knot. \<open>Content\<close> and
  \<open>Raw\<close> are \<open>json.RawMessage\<close>, that is bytes.
\<close>

record message_fields =
  ConversationID :: string
  ConversationKind :: string
  ConversationTitle :: string
  SenderID :: string
  SenderStaffID :: string
  SenderNick :: string
  SenderCorpID :: string
  Text :: string
  MsgType :: string
  Content :: string
  Resources :: "Resource list"
  Mentions :: "Mention list"
  MentionAll :: bool
  AtUsers :: "AtUser list"
  SessionWebhook :: string
  WebhookExpiredAt :: int
  MsgID :: string
  CreateAt :: int
  IsAdmin :: bool
  IsInAtList :: bool
  Raw :: string

datatype IncomingMessage =
  Message (body: message_fields) (BatchedSources: "IncomingMessage list")

abbreviation msg_id :: "IncomingMessage \<Rightarrow> string" where "msg_id m \<equiv> MsgID (body m)"
abbreviation msg_text :: "IncomingMessage \<Rightarrow> string" where "msg_text m \<equiv> Text (body m)"
abbreviation msg_chat :: "IncomingMessage \<Rightarrow> string" where "msg_chat m \<equiv> ConversationID (body m)"

definition ConversationTypeDM :: string where "ConversationTypeDM = ''dm''"
definition ConversationTypeGroup :: string where "ConversationTypeGroup = ''group''"

text \<open>The zero value of the struct, for building concrete messages.\<close>

definition empty_fields :: message_fields where
  "empty_fields = \<lparr>ConversationID = [], ConversationKind = [], ConversationTitle = [],
     SenderID = [], SenderStaffID = [], SenderNick = [], SenderCorpID = [], Text = [],
     MsgType = [], Content = [], Resources = [], Mentions = [], MentionAll = False,
     AtUsers = [], SessionWebhook = [], WebhookExpiredAt = 0, MsgID = [], CreateAt = 0,
     IsAdmin = False, IsInAtList = False, Raw = []\<rparr>"

text \<open>A group message with a given id, conversation and text, for concrete instances.\<close>

definition sample_msg :: "string \<Rightarrow> string \<Rightarrow> string \<Rightarrow> IncomingMessage" where
  "sample_msg i chat txt = Message (empty_fields\<lparr>MsgID := i, ConversationID := chat, Text := txt,
     MsgType := ''text'', ConversationKind := ConversationTypeGroup\<rparr>) []"

section \<open>Policy\<close>

text \<open>\<open>ReasonNone\<close> is the zero value of the string type, carried by an allowing decision.\<close>

datatype RejectReason =
    ReasonNone
  | GroupNotAllowed | GroupBlocked | GroupDisabled | NoMention | MentionAllBlocked
  | DMDisabled | DMNotAllowed | DMBlocked | SenderNotAllowed | SenderBlocked
  | Stale | Duplicate | SelfSent | LockContention | GroupDisabledByOverride | SenderDenied

fun reason_string :: "RejectReason \<Rightarrow> string" where
  "reason_string ReasonNone = ''''"
| "reason_string GroupNotAllowed = ''group_not_allowed''"
| "reason_string GroupBlocked = ''group_blocked''"
| "reason_string GroupDisabled = ''group_disabled''"
| "reason_string NoMention = ''no_mention''"
| "reason_string MentionAllBlocked = ''mention_all_blocked''"
| "reason_string DMDisabled = ''dm_disabled''"
| "reason_string DMNotAllowed = ''dm_not_allowed''"
| "reason_string DMBlocked = ''dm_blocked''"
| "reason_string SenderNotAllowed = ''sender_not_allowed''"
| "reason_string SenderBlocked = ''sender_blocked''"
| "reason_string Stale = ''stale''"
| "reason_string Duplicate = ''duplicate''"
| "reason_string SelfSent = ''self_sent''"
| "reason_string LockContention = ''lock_contention''"
| "reason_string GroupDisabledByOverride = ''group_disabled_by_override''"
| "reason_string SenderDenied = ''sender_denied''"

record GroupOverride =
  ovEnabled :: "bool option"
  ovRequireMention :: "bool option"
  ovRespondToMentionAll :: "bool option"
  ovAllowFrom :: "string list"
  ovBlockFrom :: "string list"

record PolicyConfig =
  GroupAllowlist :: "string list"
  GroupBlocklist :: "string list"
  RequireMention :: "bool option"
  RespondToMentionAll :: "bool option"
  DMMode :: string
  DMAllowlist :: "string list"
  DMBlocklist :: "string list"
  GroupOverrides :: "string \<rightharpoonup> GroupOverride"
  AllowFrom :: "string list"
  DenyFrom :: "string list"
  Admins :: "string list"

definition zero_PolicyConfig :: PolicyConfig where
  "zero_PolicyConfig = \<lparr>GroupAllowlist = [], GroupBlocklist = [], RequireMention = None,
     RespondToMentionAll = None, DMMode = '''', DMAllowlist = [], DMBlocklist = [],
     GroupOverrides = Map.empty, AllowFrom = [], DenyFrom = [], Admins = []\<rparr>"

record PolicyDecision =
  Allowed :: bool
  Reason :: RejectReason

record RejectEvent =
  reMessageID :: string
  reChatID :: string
  reSenderID :: string
  reReason :: RejectReason

section \<open>Batching, queues, deduplication\<close>

record BatchConfig =
  DelayMs :: duration
  LongThresholdChars :: int
  LongDelayMs :: duration
  MaxMessages :: int
  MaxChars :: int

definition DefaultBatchConfig :: BatchConfig where
  "DefaultBatchConfig = \<lparr>DelayMs = 600 * Millisecond, LongThresholdChars = 1000,
     LongDelayMs = 2 * Second, MaxMessages = 8, MaxChars = 4000\<rparr>"

record BatchedDispatch =
  bdMessage :: IncomingMessage
  bdSourceIDs :: "string list"

text \<open>\<open>BatchedMessage\<close> has the same two fields and is what the user's \<open>OnBatch\<close> handler receives.\<close>

record BatchedMessage =
  bmMessage :: IncomingMessage
  bmSourceIDs :: "string list"

record ChatQueueConfig =
  cqEnabled :: bool

definition DefaultChatQueueConfig :: ChatQueueConfig where
  "DefaultChatQueueConfig = \<lparr>cqEnabled = True\<rparr>"

record MediaBatchConfig =
  mbEnabled :: bool
  mbDelayMs :: int
  mbMaxItems :: int

definition DefaultMediaBatchConfig :: MediaBatchConfig where
  "DefaultMediaBatchConfig = \<lparr>mbEnabled = False, mbDelayMs = 800, mbMaxItems = 9\<rparr>"

record DedupConfig =
  TTL :: duration
  MaxEntries :: int
  SweepInterval :: duration

definition DefaultDedupTTL :: duration where "DefaultDedupTTL = 5 * Minute"

definition DefaultDedupConfigExtended :: DedupConfig where
  "DefaultDedupConfigExtended = \<lparr>TTL = 12 * Hour, MaxEntries = 5000, SweepInterval = 5 * Minute\<rparr>"

definition DefaultPolicyConfigExtended :: PolicyConfig where
  "DefaultPolicyConfigExtended = zero_PolicyConfig\<lparr>DMMode := ''open''\<rparr>"

record SafetyConfig =
  Dedup :: DedupConfig
  Policy :: PolicyConfig
  TextBatch :: BatchConfig
  MediaBatch :: MediaBatchConfig
  ChatQueueCfg :: ChatQueueConfig
  StaleWindow :: duration
  LockTTL :: duration
  DropSelfSent :: bool
  MarkAfterHandler :: bool

definition DefaultSafetyConfig :: SafetyConfig where
  "DefaultSafetyConfig = \<lparr>Dedup = DefaultDedupConfigExtended, Policy = DefaultPolicyConfigExtended,
     TextBatch = DefaultBatchConfig, MediaBatch = DefaultMediaBatchConfig,
     ChatQueueCfg = DefaultChatQueueConfig, StaleWindow = 30 * Minute, LockTTL = 5 * Minute,
     DropSelfSent = True, MarkAfterHandler = False\<rparr>"

record BotIdentity =
  RobotCode :: string
  RobotName :: string
  Avatar :: string

section \<open>Facts about the shared data\<close>

text \<open>The wire names of the reject reasons are distinct, so consumers can tell them apart.\<close>

definition all_reasons :: "RejectReason list" where
  "all_reasons = [ReasonNone, GroupNotAllowed, GroupBlocked, GroupDisabled, NoMention,
     MentionAllBlocked, DMDisabled, DMNotAllowed, DMBlocked, SenderNotAllowed, SenderBlocked,
     Stale, Duplicate, SelfSent, LockContention, GroupDisabledByOverride, SenderDenied]"

lemma find_reason_string: "find (\<lambda>r'. reason_string r' = reason_string r) all_reasons = Some r"
  by (cases r) (simp_all add: all_reasons_def)

lemma reason_string_inj: "reason_string r = reason_string r' \<Longrightarrow> r = r'"
  by (metis find_reason_string option.inject)

end
