(* ===== verification/DedupContract.thy ===== *)
theory DedupContract
  imports Prelude
begin

text \<open>
  The interface the safety pipeline needs from a deduplication store, as a locale: a query and a
  mark operation over lists of keys, and the predicate \<open>known\<close> they are about. Both
  deduplicators of the repository provide it, \<open>SeenCache\<close> (in its memory tier) and the older
  \<open>Deduper\<close>; the consequences a caller relies on are proved once, here.

  \<open>fits s ks\<close> is the provider's condition under which marking \<open>ks\<close> evicts none of them.
\<close>

locale dedup_store =
  fixes query :: "time \<Rightarrow> string list \<Rightarrow> 's \<Rightarrow> bool \<times> 's"
    and mark :: "time \<Rightarrow> string list \<Rightarrow> 's \<Rightarrow> 's"
    and known :: "'s \<Rightarrow> time \<Rightarrow> string \<Rightarrow> bool"
    and fits :: "'s \<Rightarrow> string list \<Rightarrow> bool"
    and ttl :: "'s \<Rightarrow> duration"
    and invar :: "'s \<Rightarrow> bool"
  assumes query_iff: "invar s \<Longrightarrow> fst (query now ks s) \<longleftrightarrow> (\<exists>k \<in> set ks. k \<noteq> '''' \<and> known s now k)"
    and query_known: "invar s \<Longrightarrow> now \<le> now' \<Longrightarrow> known (snd (query now ks s)) now' k \<longleftrightarrow> known s now' k"
    and query_fits: "invar s \<Longrightarrow> fits s ks' \<Longrightarrow> fits (snd (query now ks s)) ks'"
    and query_ttl: "invar s \<Longrightarrow> ttl (snd (query now ks s)) = ttl s"
    and mark_known: "invar s \<Longrightarrow> fits s ks \<Longrightarrow> k \<in> set ks \<Longrightarrow> k \<noteq> '''' \<Longrightarrow> now' < now + ttl s
      \<Longrightarrow> known (mark now ks s) now' k"
    and mark_only: "invar s \<Longrightarrow> known (mark now ks s) now' k \<Longrightarrow> k \<in> set ks \<or> known s now' k"
    and invar_query: "invar s \<Longrightarrow> invar (snd (query now ks s))"
    and invar_mark: "invar s \<Longrightarrow> invar (mark now ks s)"
begin

text \<open>The combined operation the code calls \<open>CheckAndMark\<close>.\<close>

definition check_and_mark :: "time \<Rightarrow> time \<Rightarrow> string list \<Rightarrow> 's \<Rightarrow> bool \<times> 's" where
  "check_and_mark t t' ks s =
     (let (b, s') = query t ks s in if b then (True, s') else (False, mark t' ks s'))"

lemma check_and_mark_fst: "fst (check_and_mark t t' ks s) = fst (query t ks s)"
  by (simp add: check_and_mark_def split: prod.split)

lemma check_and_mark_snd:
  "snd (check_and_mark t t' ks s) =
     (if fst (query t ks s) then snd (query t ks s) else mark t' ks (snd (query t ks s)))"
  by (simp add: check_and_mark_def split: prod.split)

lemma invar_check_and_mark: "invar s \<Longrightarrow> invar (snd (check_and_mark t t' ks s))"
  by (simp add: check_and_mark_snd invar_query invar_mark)

text \<open>A first sight marks every key, so a redelivery that shares one key is reported.\<close>

lemma redelivery_reported:
  assumes "invar s" and "fits s ks" and "t \<le> t'"
    and "\<not> fst (check_and_mark t t' ks s)"
    and "k \<in> set ks" and "k \<in> set ks'" and "k \<noteq> ''''"
    and "u < t' + ttl s"
  shows "fst (check_and_mark u u' ks' (snd (check_and_mark t t' ks s)))"
proof -
  let ?s1 = "snd (query t ks s)"
  have eq: "snd (check_and_mark t t' ks s) = mark t' ks ?s1"
    using assms(4) by (simp add: check_and_mark_snd check_and_mark_fst)
  have "known (mark t' ks ?s1) u k"
    using assms by (intro mark_known) (simp_all add: invar_query query_fits query_ttl)
  then show ?thesis
    using assms invar_check_and_mark [OF assms(1), of t t' ks]
    by (auto simp: check_and_mark_fst query_iff eq)
qed

text \<open>No false positives: a delivery none of whose keys was marked or known passes.\<close>

lemma fresh_passes:
  assumes "invar s" and "\<And>k. k \<in> set ks' \<Longrightarrow> k \<noteq> '''' \<Longrightarrow> k \<notin> set ks \<and> \<not> known s u k"
    and "t \<le> u"
  shows "\<not> fst (check_and_mark u u' ks' (snd (check_and_mark t t' ks s)))"
proof -
  let ?s1 = "snd (query t ks s)"
  have "\<not> known (snd (check_and_mark t t' ks s)) u k" if "k \<in> set ks'" "k \<noteq> ''''" for k
    using that assms mark_only [OF invar_query [OF assms(1)], of t' ks t ks u k]
    by (auto simp: check_and_mark_snd query_known)
  then show ?thesis
    using invar_check_and_mark [OF assms(1), of t t' ks]
    by (auto simp: check_and_mark_fst query_iff)
qed

text \<open>Marking only after the handler succeeded: an unmarked failure can be redelivered.\<close>

lemma unmarked_passes_again:
  assumes "invar s" and "t \<le> u" and "\<And>k. k \<in> set ks \<Longrightarrow> k \<noteq> '''' \<Longrightarrow> \<not> known s u k"
  shows "\<not> fst (query u ks (snd (query t ks s)))"
  using assms invar_query [OF assms(1), of t ks]
  by (auto simp: query_iff query_known)

end

end
