(* ===== verification/Dedup.thy ===== *)
theory Dedup
  imports Types DedupContract "HOL-Library.Multiset"
begin

text \<open>
  \<open>internal/safety/dedup.go\<close>: the older deduplicator, a map from keys to marking times with the
  insertion order kept in a slice. \<open>seen\<close> is the Go map as an association list with distinct
  keys, \<open>order\<close> the slice. \<open>for k := range d.seen\<close> visits the keys in an order Go does not
  specify, so \<open>sweep\<close> takes that order as an argument.
\<close>

record Deduper =
  ddCfg :: DedupConfig
  ddSeen :: "(string \<times> time) list"
  order :: "string list"
  stopSweep :: bool

definition NewDeduperWithConfig :: "DedupConfig \<Rightarrow> Deduper" where
  "NewDeduperWithConfig cfg =
     \<lparr>ddCfg = \<lparr>TTL = (if TTL cfg \<le> 0 then DefaultDedupTTL else TTL cfg),
               MaxEntries = (if MaxEntries cfg \<le> 0 then 10000 else MaxEntries cfg),
               SweepInterval = (if SweepInterval cfg \<le> 0 then 5 * Minute else SweepInterval cfg)\<rparr>,
      ddSeen = [], order = [], stopSweep = False\<rparr>"

definition NewDeduper :: "duration \<Rightarrow> Deduper" where
  "NewDeduper ttl =
     NewDeduperWithConfig \<lparr>TTL = ttl, MaxEntries = 10000, SweepInterval = 5 * Minute\<rparr>"

definition dd_sweep :: "time \<Rightarrow> string list \<Rightarrow> Deduper \<Rightarrow> Deduper" where
  "dd_sweep now iteration d =
     (let seen' = filter (\<lambda>(k, ts). \<not> time_sub now ts > TTL (ddCfg d)) (ddSeen d)
      in d\<lparr>ddSeen := seen', order := filter (\<lambda>k. map_of seen' k \<noteq> None) iteration\<rparr>)"

text \<open>The three loops of \<open>CheckAndMark\<close>: the duplicate test, the marking, the eviction.\<close>

definition dd_fresh :: "Deduper \<Rightarrow> time \<Rightarrow> string \<Rightarrow> bool" where
  "dd_fresh d now k \<longleftrightarrow>
     (case map_of (ddSeen d) k of Some ts \<Rightarrow> time_sub now ts \<le> TTL (ddCfg d) | None \<Rightarrow> False)"

fun dd_duplicate :: "time \<Rightarrow> string list \<Rightarrow> Deduper \<Rightarrow> bool" where
  "dd_duplicate now [] d = False"
| "dd_duplicate now (k # ks) d =
     (if k = '''' then dd_duplicate now ks d
      else if dd_fresh d now k then True else dd_duplicate now ks d)"

fun dd_mark_loop :: "time \<Rightarrow> string list \<Rightarrow> Deduper \<Rightarrow> Deduper" where
  "dd_mark_loop now [] d = d"
| "dd_mark_loop now (k # ks) d =
     (if k \<noteq> '''' then
        (let d1 = (if map_of (ddSeen d) k = None then d\<lparr>order := order d @ [k]\<rparr> else d)
         in dd_mark_loop now ks (d1\<lparr>ddSeen := AList.update k now (ddSeen d1)\<rparr>))
      else dd_mark_loop now ks d)"

function dd_evict :: "Deduper \<Rightarrow> Deduper" where
  "dd_evict d =
     (if int (length (ddSeen d)) > MaxEntries (ddCfg d) \<and> order d \<noteq> []
      then dd_evict (d\<lparr>order := tl (order d), ddSeen := AList.delete (hd (order d)) (ddSeen d)\<rparr>)
      else d)"
  by pat_completeness auto
termination by (relation "measure (\<lambda>d. length (order d))") auto

declare dd_evict.simps [simp del]

definition dd_mark :: "time \<Rightarrow> string list \<Rightarrow> Deduper \<Rightarrow> Deduper" where
  "dd_mark now keys d = dd_evict (dd_mark_loop now keys d)"

definition Deduper_CheckAndMark :: "time \<Rightarrow> string list \<Rightarrow> Deduper \<Rightarrow> bool \<times> Deduper" where
  "Deduper_CheckAndMark now keys d =
     (if dd_duplicate now keys d then (True, d) else (False, dd_mark now keys d))"

definition dd_Dispose :: "Deduper \<Rightarrow> Deduper" where
  "dd_Dispose d = (if stopSweep d then d else d\<lparr>stopSweep := True\<rparr>)"

section \<open>Invariant\<close>

text \<open>The slice lists exactly the keys of the map, once each.\<close>

definition dd_linked :: "Deduper \<Rightarrow> bool" where
  "dd_linked d \<longleftrightarrow> distinct (order d) \<and> distinct (map fst (ddSeen d)) \<and>
     set (order d) = fst ` set (ddSeen d) \<and> 0 < TTL (ddCfg d) \<and> 0 < MaxEntries (ddCfg d)"

definition dd_inv :: "Deduper \<Rightarrow> bool" where
  "dd_inv d \<longleftrightarrow> dd_linked d \<and> int (length (ddSeen d)) \<le> MaxEntries (ddCfg d)"

lemma dd_inv_new [inv_intros]: "dd_inv (NewDeduperWithConfig cfg)"
  by (simp add: dd_inv_def dd_linked_def NewDeduperWithConfig_def DefaultDedupTTL_def)

lemma dd_length_order: "dd_linked d \<Longrightarrow> length (order d) = length (ddSeen d)"
  by (metis dd_linked_def distinct_card length_map list.set_map)

lemma dd_mark_loop_cfg [frame_simps]: "ddCfg (dd_mark_loop now ks d) = ddCfg d"
  by (induction now ks d rule: dd_mark_loop.induct) (auto simp: Let_def)

lemma keys_update: "fst ` set (AList.update k v al) = insert k (fst ` set al)"
  using dom_update [of k v al] by simp

lemma dd_linked_mark_loop: "dd_linked d \<Longrightarrow> dd_linked (dd_mark_loop now ks d)"
proof (induction now ks d rule: dd_mark_loop.induct)
  case (2 now k ks d)
  let ?d1 = "if map_of (ddSeen d) k = None then d\<lparr>order := order d @ [k]\<rparr> else d"
  have "dd_linked (?d1\<lparr>ddSeen := AList.update k now (ddSeen ?d1)\<rparr>)"
    using "2.prems" keys_update [of k now "ddSeen d"]
    by (simp add: dd_linked_def map_of_eq_None_iff distinct_update insert_absorb)
  with 2 show ?case by (auto simp: Let_def)
qed simp

text \<open>An induction rule for facts the loop body keeps.\<close>

abbreviation dd_evict_step :: "Deduper \<Rightarrow> Deduper" where
  "dd_evict_step d \<equiv> d\<lparr>order := tl (order d), ddSeen := AList.delete (hd (order d)) (ddSeen d)\<rparr>"

lemma dd_evict_induct:
  assumes "\<And>d. order d \<noteq> [] \<Longrightarrow> P (dd_evict_step d) (dd_evict d) \<Longrightarrow> P d (dd_evict d)" and "\<And>d. P d d"
  shows "P d (dd_evict d)"
proof (induction d rule: dd_evict.induct)
  case (1 d)
  show ?case
  proof (cases "int (length (ddSeen d)) > MaxEntries (ddCfg d) \<and> order d \<noteq> []")
    case True
    then have "dd_evict d = dd_evict (dd_evict_step d)" by (subst dd_evict.simps) simp
    then show ?thesis using "1.IH" [OF True] True assms(1) [of d] by simp
  next
    case False
    then have "dd_evict d = d" by (subst dd_evict.simps) auto
    then show ?thesis using assms(2) by simp
  qed
qed

lemma dd_evict_cfg [frame_simps]: "ddCfg (dd_evict d) = ddCfg d"
  by (rule dd_evict_induct [where P = "\<lambda>d d'. ddCfg d' = ddCfg d"]) auto

lemma dd_linked_evict_step:
  assumes "dd_linked d" and "order d \<noteq> []"
  shows "dd_linked (d\<lparr>order := tl (order d), ddSeen := AList.delete (hd (order d)) (ddSeen d)\<rparr>)"
proof -
  obtain k ks where o: "order d = k # ks" using assms(2) by (cases "order d") auto
  have "fst ` set (AList.delete k (ddSeen d)) = fst ` set (ddSeen d) - {k}"
    by (metis AList.delete_keys list.set_map removeAll_filter_not_eq set_removeAll)
  then show ?thesis
    using assms(1) by (auto simp: dd_linked_def o distinct_delete)
qed

lemma dd_linked_evict: "dd_linked d \<Longrightarrow> dd_linked (dd_evict d)"
  by (rule dd_evict_induct [where P = "\<lambda>d d'. dd_linked d \<longrightarrow> dd_linked d'", THEN mp])
     (use dd_linked_evict_step in auto)

lemma dd_evict_bound:
  "dd_linked d \<Longrightarrow> int (length (ddSeen (dd_evict d))) \<le> MaxEntries (ddCfg d)"
proof (induction d rule: dd_evict.induct)
  case (1 d)
  show ?case
  proof (cases "int (length (ddSeen d)) > MaxEntries (ddCfg d) \<and> order d \<noteq> []")
    case True
    then show ?thesis using 1 dd_linked_evict_step [of d] by (subst dd_evict.simps) simp
  next
    case False
    have "order d = [] \<Longrightarrow> length (ddSeen d) = 0" using dd_length_order [OF "1.prems"] by simp
    then show ?thesis using False "1.prems" by (subst dd_evict.simps) (auto simp: dd_linked_def)
  qed
qed

lemma dd_inv_mark [inv_intros]: "dd_inv d \<Longrightarrow> dd_inv (dd_mark now ks d)"
  unfolding dd_inv_def dd_mark_def
  using dd_linked_mark_loop [of d now ks] dd_linked_evict [of "dd_mark_loop now ks d"]
    dd_evict_bound [of "dd_mark_loop now ks d"] by (simp add: frame_simps)

lemma dd_inv_CheckAndMark [inv_intros]: "dd_inv d \<Longrightarrow> dd_inv (snd (Deduper_CheckAndMark now ks d))"
  by (simp add: Deduper_CheckAndMark_def inv_intros)

lemma dd_inv_sweep [inv_intros]:
  assumes "dd_inv d" and "distinct iteration" and "set iteration = fst ` set (ddSeen d)"
  shows "dd_inv (dd_sweep now iteration d)"
proof -
  let ?s = "filter (\<lambda>(k, ts). \<not> time_sub now ts > TTL (ddCfg d)) (ddSeen d)"
  have "int (length ?s) \<le> MaxEntries (ddCfg d)"
    using assms(1) length_filter_le [of _ "ddSeen d"] unfolding dd_inv_def
    by (meson of_nat_le_iff order.trans)
  moreover have "set (filter (\<lambda>k. map_of ?s k \<noteq> None) iteration) = fst ` set ?s"
    using assms(3) by (auto simp: map_of_eq_None_iff image_iff)
  ultimately show ?thesis
    using assms by (simp add: dd_inv_def dd_linked_def dd_sweep_def Let_def distinct_map_filter)
qed

section \<open>What a call reports\<close>

lemma dd_duplicate_iff: "dd_duplicate now ks d \<longleftrightarrow> (\<exists>k \<in> set ks. k \<noteq> '''' \<and> dd_fresh d now k)"
  by (induction ks) auto

lemma dd_mark_loop_seen:
  "map_of (ddSeen (dd_mark_loop now ks d)) k =
     (if k \<in> set ks \<and> k \<noteq> '''' then Some now else map_of (ddSeen d) k)"
  by (induction now ks d rule: dd_mark_loop.induct) (auto simp: Let_def update_conv')

lemma map_of_delete_le: "map_of (AList.delete k' al) k = Some x \<Longrightarrow> map_of al k = Some x"
  by (simp add: delete_conv' split: if_splits)

lemma dd_evict_seen: "map_of (ddSeen (dd_evict d)) k = Some x \<Longrightarrow> map_of (ddSeen d) k = Some x"
  by (rule dd_evict_induct
        [where P = "\<lambda>d d'. map_of (ddSeen d') k = Some x \<longrightarrow> map_of (ddSeen d) k = Some x", THEN mp])
     (auto dest: map_of_delete_le)

definition dd_fits :: "Deduper \<Rightarrow> string list \<Rightarrow> bool" where
  "dd_fits d ks \<longleftrightarrow> int (card (fst ` set (ddSeen d) \<union> set ks)) \<le> MaxEntries (ddCfg d)"

lemma dd_no_evict:
  assumes "dd_inv d" and "dd_fits d ks"
  shows "dd_mark now ks d = dd_mark_loop now ks d"
proof -
  let ?d = "dd_mark_loop now ks d"
  have "distinct (map fst (ddSeen ?d))"
    using assms(1) dd_linked_mark_loop by (simp add: dd_inv_def dd_linked_def)
  then have "length (ddSeen ?d) = card (fst ` set (ddSeen ?d))"
    by (metis distinct_card length_map list.set_map)
  also have "fst ` set (ddSeen ?d) \<subseteq> fst ` set (ddSeen d) \<union> set ks"
  proof
    fix k assume "k \<in> fst ` set (ddSeen ?d)"
    then have "map_of (ddSeen ?d) k \<noteq> None" by (simp add: map_of_eq_None_iff)
    then show "k \<in> fst ` set (ddSeen d) \<union> set ks"
      by (metis UnCI dd_mark_loop_seen map_of_eq_None_iff)
  qed
  then have "card (fst ` set (ddSeen ?d)) \<le> card (fst ` set (ddSeen d) \<union> set ks)"
    by (intro card_mono) auto
  finally have "int (length (ddSeen ?d)) \<le> MaxEntries (ddCfg ?d)"
    using assms(2) by (simp add: dd_fits_def frame_simps)
  then show ?thesis unfolding dd_mark_def by (subst dd_evict.simps) simp
qed

interpretation dd: dedup_store "\<lambda>now ks d. (dd_duplicate now ks d, d)" dd_mark dd_fresh dd_fits
  "\<lambda>d. TTL (ddCfg d)" dd_inv
proof unfold_locales
  fix s :: Deduper and now now' ks k
  show "dd_inv s \<Longrightarrow> dd_fits s ks \<Longrightarrow> k \<in> set ks \<Longrightarrow> k \<noteq> [] \<Longrightarrow>
      now' < now + TTL (ddCfg s) \<Longrightarrow> dd_fresh (dd_mark now ks s) now' k"
    by (simp add: dd_no_evict dd_fresh_def dd_mark_loop_seen frame_simps time_sub_def
        min_int64_def dd_inv_def dd_linked_def)
  show "dd_inv s \<Longrightarrow> dd_fresh (dd_mark now ks s) now' k \<Longrightarrow> k \<in> set ks \<or> dd_fresh s now' k"
    using dd_evict_seen [of "dd_mark_loop now ks s" k]
    by (auto simp: dd_mark_def dd_fresh_def dd_mark_loop_seen frame_simps split: option.splits if_splits)
qed (simp_all add: dd_duplicate_iff inv_intros)

lemma Deduper_CheckAndMark_contract:
  "Deduper_CheckAndMark now ks d = dd.check_and_mark now now ks d"
  by (simp add: Deduper_CheckAndMark_def dd.check_and_mark_def)

section \<open>Properties\<close>

text \<open>
  A redelivery is reported. If a call marked its keys without overflowing the table, any call
  within the TTL that shares one non-empty key with it is told it is a duplicate.
\<close>

theorem deduper_redelivery:
  assumes "dd_inv d" and "dd_fits d ks" and "\<not> fst (Deduper_CheckAndMark t ks d)"
    and "k \<in> set ks" and "k \<in> set ks'" and "k \<noteq> []" and "u < t + TTL (ddCfg d)"
  shows "fst (Deduper_CheckAndMark u ks' (snd (Deduper_CheckAndMark t ks d)))"
  using assms unfolding Deduper_CheckAndMark_contract
  by (intro dd.redelivery_reported [where k = k]) auto

theorem deduper_redelivery_witness:
  "fst (Deduper_CheckAndMark 250 [''b''] (snd (Deduper_CheckAndMark 10 [''a'', [], ''b''] (NewDeduper 300))))"
  by (rule deduper_redelivery [where k = "''b''"])
     (auto simp: dd_inv_def dd_linked_def NewDeduper_def dd_fits_def NewDeduperWithConfig_def
        Deduper_CheckAndMark_def dd_fresh_def)

text \<open>Any sequence of calls and sweeps; a sweep carries the map iteration order.\<close>

datatype dd_op = dd_Check time "string list" | dd_Sweep time "string list \<Rightarrow> string list"

fun dd_run :: "dd_op list \<Rightarrow> Deduper \<Rightarrow> Deduper" where
  "dd_run [] d = d"
| "dd_run (dd_Check t ks # ops) d = dd_run ops (snd (Deduper_CheckAndMark t ks d))"
| "dd_run (dd_Sweep t perm # ops) d = dd_run ops (dd_sweep t (perm (map fst (ddSeen d))) d)"

definition permutes_keys :: "dd_op \<Rightarrow> bool" where
  "permutes_keys op \<longleftrightarrow>
     (case op of dd_Check _ _ \<Rightarrow> True | dd_Sweep _ perm \<Rightarrow> (\<forall>ks. mset (perm ks) = mset ks))"

lemma dd_inv_run:
  "dd_inv d \<Longrightarrow> (\<And>op. op \<in> set ops \<Longrightarrow> permutes_keys op) \<Longrightarrow> dd_inv (dd_run ops d)"
proof (induction ops d rule: dd_run.induct)
  case (3 t perm ops d)
  have m: "mset (perm (map fst (ddSeen d))) = mset (map fst (ddSeen d))"
    using "3.prems"(2) [of "dd_Sweep t perm"] by (simp add: permutes_keys_def)
  have "distinct (map fst (ddSeen d))" using "3.prems"(1) by (simp add: dd_inv_def dd_linked_def)
  moreover have "set (perm (map fst (ddSeen d))) = fst ` set (ddSeen d)"
    using mset_eq_setD [OF m] by simp
  ultimately have "dd_inv (dd_sweep t (perm (map fst (ddSeen d))) d)"
    using "3.prems"(1) mset_eq_imp_distinct_iff [OF m] by (intro dd_inv_sweep) auto
  with 3 show ?case by simp
qed (simp_all add: inv_intros)

text \<open>
  The table never exceeds \<open>MaxEntries\<close>, and its insertion order lists each of its keys exactly
  once, after any sequence of calls and sweeps, whatever order Go's map iteration takes in a sweep.
\<close>

theorem deduper_bounded:
  assumes "\<And>op. op \<in> set ops \<Longrightarrow> permutes_keys op"
  shows "let d = dd_run ops (NewDeduperWithConfig cfg)
         in int (length (ddSeen d)) \<le> MaxEntries (ddCfg d) \<and> distinct (order d)
            \<and> set (order d) = fst ` set (ddSeen d)"
  using dd_inv_run [OF dd_inv_new assms, of ops cfg] by (simp add: Let_def dd_inv_def dd_linked_def)

theorem deduper_bounded_witness:
  "let d = dd_run [dd_Check 1 [''a'', ''b''], dd_Sweep 2 rev, dd_Check 3 [''c'']]
             (NewDeduperWithConfig \<lparr>TTL = 50, MaxEntries = 2, SweepInterval = 0\<rparr>)
   in int (length (ddSeen d)) \<le> MaxEntries (ddCfg d) \<and> distinct (order d)
            \<and> set (order d) = fst ` set (ddSeen d)"
  by (rule deduper_bounded) (auto simp: permutes_keys_def)

text \<open>
  The eviction order is the order of first insertion, not of last use: a key that expired and
  was marked again keeps its old place at the front, is evicted by the next insertion, and its
  redelivery is then not reported although its mark is two nanoseconds old.
\<close>

lemma deduper_evicts_recent_mark:
  "let d0 = NewDeduperWithConfig \<lparr>TTL = 10, MaxEntries = 2, SweepInterval = 0\<rparr>;
       d1 = snd (Deduper_CheckAndMark 0 [''a''] d0);
       d2 = snd (Deduper_CheckAndMark 1 [''b''] d1);
       d3 = snd (Deduper_CheckAndMark 20 [''a''] d2);
       d4 = snd (Deduper_CheckAndMark 21 [''c''] d3)
   in \<not> fst (Deduper_CheckAndMark 22 [''a''] d4) \<and> map fst (ddSeen d4) = [''b'', ''c'']"
  by code_simp

end
