(* ===== verification/ChatQueue.thy ===== *)
theory ChatQueue
  imports Types
begin

text \<open>
  \<open>internal/safety/chat_queue.go\<close>: one queue per conversation, which batches messages in a buffer
  with a debounce timer and runs its tasks one after the other on a worker goroutine.

  A task is a Go closure; the model keeps what the closure captured: a flush task its handler
  (an element of the type \<open>'h\<close>) and its dispatch, a \<open>Run\<close> task the caller's function (an element of
  \<open>'a\<close>), and the marker of \<open>FlushNow\<close>. The operations that run under the mutex are functions on the
  record \<open>ChatQueue\<close> that return the tasks they send to the channel, in order. The channel itself,
  its capacity of 100, the senders that wait for room, the worker and \<open>Dispose\<close> are the step relation
  \<open>cq_step\<close>, whose steps interleave arbitrarily. Contexts are not modelled.
\<close>

section \<open>Merging a batch\<close>

definition mention_key :: "Mention \<Rightarrow> string" where
  "mention_key m = (if UserID m = '''' then MentionName m else UserID m)"

text \<open>\<open>enqueueFlush\<close> calls it on a non-empty batch only; the Go code indexes the last element.\<close>

definition mergeBatchMessages :: "IncomingMessage list \<Rightarrow> IncomingMessage" where
  "mergeBatchMessages batch =
     (if length batch = 1 then hd batch
      else
        (let lst = last batch;
             contents = filter (\<lambda>t. t \<noteq> '''') (map msg_text batch);
             content = str_join [CHR 0x0A, CHR 0x0A] contents;
             mentionAll = list_ex (\<lambda>m. MentionAll (body m)) batch;
             resources = keep_first DownloadCode {} (concat (map (\<lambda>m. Resources (body m)) batch));
             mentions = keep_first mention_key {} (concat (map (\<lambda>m. Mentions (body m)) batch))
         in Message ((body lst)\<lparr>Text := content, MentionAll := mentionAll,
              Resources := resources, Mentions := mentions\<rparr>) (BatchedSources lst)))"

definition extractMessageIDs :: "IncomingMessage list \<Rightarrow> string list" where
  "extractMessageIDs batch = map msg_id batch"

section \<open>The queue\<close>

datatype ('h, 'a) cq_task = FlushTask 'h BatchedDispatch | RunTask 'a | DoneTask

record ('h, 'a) ChatQueue =
  cqScope :: string
  cqBatchCfg :: BatchConfig
  cqMediaBatch :: "MediaBatchConfig option"
  serialOnly :: bool
  buffer :: "IncomingMessage list"
  bufferChars :: int
  timer :: "duration option"
  pendingHandler :: "'h option"
  tasks :: "('h, 'a) cq_task list"
  closed :: bool

definition NewChatQueue ::
  "string \<Rightarrow> BatchConfig \<Rightarrow> MediaBatchConfig option \<Rightarrow> bool \<Rightarrow> ('h, 'a) ChatQueue" where
  "NewChatQueue scope cfg media serial =
     \<lparr>cqScope = scope, cqBatchCfg = cfg, cqMediaBatch = media, serialOnly = serial, buffer = [],
      bufferChars = 0, timer = None, pendingHandler = None, tasks = [], closed = False\<rparr>"

text \<open>The capacity of the channel made by \<open>make(chan func(), 100)\<close>.\<close>

definition tasks_cap :: nat where "tasks_cap = 100"

definition clearTimer :: "('h, 'a) ChatQueue \<Rightarrow> ('h, 'a) ChatQueue" where
  "clearTimer cq = cq\<lparr>timer := None\<rparr>"

definition enqueueFlush ::
  "('h, 'a) ChatQueue \<Rightarrow> ('h, 'a) ChatQueue \<times> ('h, 'a) cq_task list" where
  "enqueueFlush cq =
     (if buffer cq = [] then (cq, [])
      else
        (let batch = buffer cq;
             cq' = cq\<lparr>buffer := [], bufferChars := 0, pendingHandler := None\<rparr>
         in case pendingHandler cq of
              None \<Rightarrow> (cq', [])
            | Some h \<Rightarrow>
                if serialOnly cq
                then (cq', map (\<lambda>m. FlushTask h \<lparr>bdMessage = m, bdSourceIDs = [msg_id m]\<rparr>) batch)
                else (cq', [FlushTask h \<lparr>bdMessage = mergeBatchMessages batch,
                                         bdSourceIDs = extractMessageIDs batch\<rparr>])))"

definition Push ::
  "IncomingMessage \<Rightarrow> 'h \<Rightarrow> ('h, 'a) ChatQueue \<Rightarrow> ('h, 'a) ChatQueue \<times> ('h, 'a) cq_task list" where
  "Push msg handler cq =
     (let cq1 = cq\<lparr>buffer := buffer cq @ [msg],
                   bufferChars := bufferChars cq + int (length (msg_text msg)),
                   pendingHandler := (case pendingHandler cq of None \<Rightarrow> Some handler | Some h \<Rightarrow> Some h)\<rparr>;
          cfg = cqBatchCfg cq1
      in if int (length (buffer cq1)) \<ge> MaxMessages cfg \<or> bufferChars cq1 \<ge> MaxChars cfg
         then enqueueFlush (clearTimer cq1)
         else if DelayMs cfg \<le> 0 \<or> serialOnly cq1
         then enqueueFlush (clearTimer cq1)
         else
           (let cq2 = clearTimer cq1;
                delay1 = (if bufferChars cq2 \<ge> LongThresholdChars cfg then LongDelayMs cfg else DelayMs cfg);
                delay2 = (case cqMediaBatch cq2 of
                            None \<Rightarrow> delay1
                          | Some mb \<Rightarrow> if mbEnabled mb \<and> Resources (body msg) \<noteq> []
                                       then mbDelayMs mb * Millisecond else delay1)
            in (cq2\<lparr>timer := Some delay2\<rparr>, [])))"

text \<open>
  The body of the timer callback. Stopping a timer does not stop a callback that already waits for
  the mutex, so the step relation lets it run at any time, armed or not.
\<close>

definition timer_callback :: "('h, 'a) ChatQueue \<Rightarrow> ('h, 'a) ChatQueue \<times> ('h, 'a) cq_task list" where
  "timer_callback cq = enqueueFlush (cq\<lparr>timer := None\<rparr>)"

text \<open>The first half of \<open>Run\<close> and of \<open>FlushNow\<close>, under the mutex.\<close>

definition flush_pending :: "('h, 'a) ChatQueue \<Rightarrow> ('h, 'a) ChatQueue \<times> ('h, 'a) cq_task list" where
  "flush_pending cq = (if buffer cq \<noteq> [] then enqueueFlush (clearTimer cq) else (cq, []))"

definition cq_Dispose :: "('h, 'a) ChatQueue \<Rightarrow> ('h, 'a) ChatQueue" where
  "cq_Dispose cq = (if closed cq then cq else clearTimer (cq\<lparr>closed := True\<rparr>))"

section \<open>The concurrent queue\<close>

text \<open>
  \<open>sending\<close> holds the tasks the goroutine inside the mutex has still to send, \<open>epilogue\<close> the task a
  \<open>Run\<close> or \<open>FlushNow\<close> sends after unlocking, \<open>waiters\<close> the tasks of such callers that have
  unlocked; \<open>running\<close> is the task in the worker, \<open>executed\<close> the log of finished tasks. \<open>panicked\<close>
  records a send on the closed channel, \<open>workerGone\<close> that the worker returned.
\<close>

record ('h, 'a) cq_world =
  queue :: "('h, 'a) ChatQueue"
  sending :: "('h, 'a) cq_task list"
  epilogue :: "('h, 'a) cq_task option"
  waiters :: "('h, 'a) cq_task list"
  running :: "('h, 'a) cq_task option"
  executed :: "('h, 'a) cq_task list"
  panicked :: bool
  workerGone :: bool

definition init_world :: "('h, 'a) ChatQueue \<Rightarrow> ('h, 'a) cq_world" where
  "init_world cq = \<lparr>queue = cq, sending = [], epilogue = None, waiters = [], running = None,
     executed = [], panicked = False, workerGone = False\<rparr>"

definition mutex_free :: "('h, 'a) cq_world \<Rightarrow> bool" where
  "mutex_free w \<longleftrightarrow> sending w = [] \<and> epilogue w = None"

datatype ('h, 'a) cq_event =
    EvPush IncomingMessage 'h | EvRun 'a | EvFlushNow | EvTimer | EvDispose
  | EvSend | EvUnlock | EvSendWaiter nat | EvTake | EvFinish | EvWorkerExit | EvPanic

text \<open>What the goroutine in the mutex leaves to do after a critical section.\<close>

definition enter ::
  "('h, 'a) ChatQueue \<times> ('h, 'a) cq_task list \<Rightarrow> ('h, 'a) cq_task option \<Rightarrow>
   ('h, 'a) cq_world \<Rightarrow> ('h, 'a) cq_world" where
  "enter r e w = w\<lparr>queue := fst r, sending := snd r, epilogue := e\<rparr>"

definition chan_send :: "('h, 'a) cq_task \<Rightarrow> ('h, 'a) cq_world \<Rightarrow> ('h, 'a) cq_world" where
  "chan_send t w = w\<lparr>queue := (queue w)\<lparr>tasks := tasks (queue w) @ [t]\<rparr>\<rparr>"

definition room :: "('h, 'a) cq_world \<Rightarrow> bool" where
  "room w \<longleftrightarrow> length (tasks (queue w)) < tasks_cap \<and> \<not> closed (queue w)"

inductive cq_step :: "('h, 'a) cq_world \<Rightarrow> ('h, 'a) cq_event \<Rightarrow> ('h, 'a) cq_world \<Rightarrow> bool" where
  push: "mutex_free w \<Longrightarrow> cq_step w (EvPush msg h) (enter (Push msg h (queue w)) None w)"
| run: "mutex_free w \<Longrightarrow> cq_step w (EvRun a) (enter (flush_pending (queue w)) (Some (RunTask a)) w)"
| flush_now: "mutex_free w \<Longrightarrow> cq_step w EvFlushNow (enter (flush_pending (queue w)) (Some DoneTask) w)"
| timer: "mutex_free w \<Longrightarrow> cq_step w EvTimer (enter (timer_callback (queue w)) None w)"
| dispose: "mutex_free w \<Longrightarrow> cq_step w EvDispose (w\<lparr>queue := cq_Dispose (queue w)\<rparr>)"
| send: "sending w = t # ts \<Longrightarrow> room w \<Longrightarrow> cq_step w EvSend (chan_send t (w\<lparr>sending := ts\<rparr>))"
| unlock: "sending w = [] \<Longrightarrow> epilogue w = Some t
    \<Longrightarrow> cq_step w EvUnlock (w\<lparr>epilogue := None, waiters := waiters w @ [t]\<rparr>)"
| send_waiter: "i < length (waiters w) \<Longrightarrow> room w
    \<Longrightarrow> cq_step w (EvSendWaiter i)
          (chan_send (waiters w ! i) (w\<lparr>waiters := take i (waiters w) @ drop (Suc i) (waiters w)\<rparr>))"
| take_task: "running w = None \<Longrightarrow> \<not> workerGone w \<Longrightarrow> tasks (queue w) = t # ts
    \<Longrightarrow> cq_step w EvTake (w\<lparr>queue := (queue w)\<lparr>tasks := ts\<rparr>, running := Some t\<rparr>)"
| finish: "running w = Some t
    \<Longrightarrow> cq_step w EvFinish (w\<lparr>running := None, executed := executed w @ [t]\<rparr>)"
| worker_exit: "running w = None \<Longrightarrow> closed (queue w) \<Longrightarrow> cq_step w EvWorkerExit (w\<lparr>workerGone := True\<rparr>)"
| panic: "sending w \<noteq> [] \<or> waiters w \<noteq> [] \<Longrightarrow> closed (queue w)
    \<Longrightarrow> cq_step w EvPanic (w\<lparr>panicked := True\<rparr>)"

inductive_cases cq_stepE: "cq_step w e w'"

inductive_simps cq_step_simps:
  "cq_step w (EvPush msg h) w'" "cq_step w (EvRun a) w'" "cq_step w EvFlushNow w'"
  "cq_step w EvTimer w'" "cq_step w EvDispose w'" "cq_step w EvSend w'" "cq_step w EvUnlock w'"
  "cq_step w (EvSendWaiter i) w'" "cq_step w EvTake w'" "cq_step w EvFinish w'"
  "cq_step w EvWorkerExit w'" "cq_step w EvPanic w'"

text \<open>Executions from a new queue, with the events they consist of.\<close>

inductive cq_exec :: "('h, 'a) cq_world \<Rightarrow> ('h, 'a) cq_event list \<Rightarrow> ('h, 'a) cq_world \<Rightarrow> bool" where
  exec_nil: "cq_exec w [] w"
| exec_step: "cq_exec w es w' \<Longrightarrow> cq_step w' e w'' \<Longrightarrow> cq_exec w (es @ [e]) w''"


section \<open>What one critical section does to the buffer\<close>

text \<open>
  The specification side: a batch is a non-empty list of pushed messages with their handlers, and
  \<open>batch_task\<close> is the single task it becomes, run by the handler of its first message.
\<close>

definition batch_task :: "(IncomingMessage \<times> 'h) list \<Rightarrow> ('h, 'a) cq_task" where
  "batch_task b = FlushTask (snd (hd b))
     \<lparr>bdMessage = mergeBatchMessages (map fst b), bdSourceIDs = extractMessageIDs (map fst b)\<rparr>"

text \<open>\<open>holds rest cq\<close>: the queue's buffer holds exactly \<open>rest\<close>, within its limits, with a timer set.\<close>

definition holds :: "(IncomingMessage \<times> 'h) list \<Rightarrow> ('h, 'a) ChatQueue \<Rightarrow> bool" where
  "holds rest cq \<longleftrightarrow>
     buffer cq = map fst rest
     \<and> pendingHandler cq = (if rest = [] then None else Some (snd (hd rest)))
     \<and> bufferChars cq = (\<Sum>m \<leftarrow> buffer cq. int (length (msg_text m)))
     \<and> (rest \<noteq> [] \<longrightarrow> int (length rest) < MaxMessages (cqBatchCfg cq)
          \<and> bufferChars cq < MaxChars (cqBatchCfg cq) \<and> \<not> serialOnly cq
          \<and> 0 < DelayMs (cqBatchCfg cq) \<and> (timer cq \<noteq> None \<or> closed cq))"

text \<open>What a critical section leaves alone.\<close>

definition same_setup :: "('h, 'a) ChatQueue \<Rightarrow> ('h, 'a) ChatQueue \<Rightarrow> bool" where
  "same_setup cq cq' \<longleftrightarrow> tasks cq' = tasks cq \<and> closed cq' = closed cq \<and> serialOnly cq' = serialOnly cq
     \<and> cqBatchCfg cq' = cqBatchCfg cq"

lemma holds_new: "holds [] (NewChatQueue scope cfg media serial)"
  by (simp add: holds_def NewChatQueue_def)

lemma merge_single [simp]: "mergeBatchMessages [m] = m"
  by (simp add: mergeBatchMessages_def)

lemma flush_holds:
  assumes "buffer cq = map fst rest" "pendingHandler cq = (if rest = [] then None else Some (snd (hd rest)))"
    and "rest = [] \<Longrightarrow> bufferChars cq = 0" and "serialOnly cq \<Longrightarrow> length rest \<le> 1"
  shows "holds [] (fst (enqueueFlush cq))"
    and "snd (enqueueFlush cq) = (if rest = [] then [] else [batch_task rest])"
    and "same_setup cq (fst (enqueueFlush cq))"
proof -
  have one: "rest = [hd rest]" if "serialOnly cq" "rest \<noteq> []"
    using that assms(4) by (cases rest) auto
  show "holds [] (fst (enqueueFlush cq))" "same_setup cq (fst (enqueueFlush cq))"
    using assms(1-3) by (auto simp: enqueueFlush_def Let_def holds_def same_setup_def split: if_splits)
  show "snd (enqueueFlush cq) = (if rest = [] then [] else [batch_task rest])"
    using assms(1,2) one
    by (cases "serialOnly cq"; cases rest) (auto simp: enqueueFlush_def batch_task_def extractMessageIDs_def)
qed

lemma flush_pending_holds:
  assumes "holds rest cq"
  shows "holds [] (fst (flush_pending cq))"
    and "snd (flush_pending cq) = (if rest = [] then [] else [batch_task rest])"
    and "same_setup cq (fst (flush_pending cq))"
  using assms flush_holds [of "clearTimer cq" rest]
  by (auto simp: flush_pending_def holds_def clearTimer_def same_setup_def)

lemma timer_callback_holds:
  assumes "holds rest cq"
  shows "holds [] (fst (timer_callback cq))"
    and "snd (timer_callback cq) = (if rest = [] then [] else [batch_task rest])"
    and "same_setup cq (fst (timer_callback cq))"
  using assms flush_holds [of "cq\<lparr>timer := None\<rparr>" rest]
  by (auto simp: timer_callback_def holds_def same_setup_def)

lemma dispose_holds: "holds rest cq \<Longrightarrow> holds rest (cq_Dispose cq)"
  by (auto simp: holds_def cq_Dispose_def clearTimer_def)

text \<open>A push appends to the buffer, or turns the whole buffer with the new message into one batch.\<close>

lemma Push_holds:
  assumes "holds rest cq"
  shows "(snd (Push m h cq) = [] \<and> holds (rest @ [(m, h)]) (fst (Push m h cq)))
       \<or> (snd (Push m h cq) = [batch_task (rest @ [(m, h)])] \<and> holds [] (fst (Push m h cq)))"
    and "same_setup cq (fst (Push m h cq))"
proof -
  let ?rest = "rest @ [(m, h)]"
  let ?cq1 = "cq\<lparr>buffer := buffer cq @ [m], bufferChars := bufferChars cq + int (length (msg_text m)),
      pendingHandler := (case pendingHandler cq of None \<Rightarrow> Some h | Some h' \<Rightarrow> Some h')\<rparr>"
  let ?flush = "int (length (buffer ?cq1)) \<ge> MaxMessages (cqBatchCfg cq) \<or>
    bufferChars ?cq1 \<ge> MaxChars (cqBatchCfg cq) \<or> DelayMs (cqBatchCfg cq) \<le> 0 \<or> serialOnly cq"
  have h: "pendingHandler ?cq1 = Some (snd (hd ?rest))" "buffer ?cq1 = map fst ?rest"
    "bufferChars ?cq1 = (\<Sum>m \<leftarrow> map fst ?rest. int (length (msg_text m)))"
    and s: "serialOnly cq \<Longrightarrow> length ?rest \<le> 1"
    using assms by (auto simp: holds_def hd_append)
  have flush: "Push m h cq = enqueueFlush (clearTimer ?cq1)" if ?flush
    using that by (auto simp: Push_def Let_def)
  have keep: "snd (Push m h cq) = []" "holds ?rest (fst (Push m h cq))" "same_setup cq (fst (Push m h cq))"
    if "\<not> ?flush"
    using that h by (simp_all add: Push_def Let_def clearTimer_def holds_def same_setup_def)
  have fl: "holds [] (fst (enqueueFlush (clearTimer ?cq1)))"
    "snd (enqueueFlush (clearTimer ?cq1)) = [batch_task ?rest]"
    "same_setup cq (fst (enqueueFlush (clearTimer ?cq1)))"
    using flush_holds [of "clearTimer ?cq1" ?rest] h s
    by (simp_all add: clearTimer_def same_setup_def)
  show "(snd (Push m h cq) = [] \<and> holds ?rest (fst (Push m h cq)))
       \<or> (snd (Push m h cq) = [batch_task ?rest] \<and> holds [] (fst (Push m h cq)))"
    using flush fl keep by (cases ?flush) auto
  show "same_setup cq (fst (Push m h cq))"
    using flush fl keep by (cases ?flush) auto
qed

section \<open>The invariant of an execution\<close>

fun pushes :: "('h, 'a) cq_event list \<Rightarrow> (IncomingMessage \<times> 'h) list" where
  "pushes [] = []"
| "pushes (EvPush m h # es) = (m, h) # pushes es"
| "pushes (_ # es) = pushes es"

fun is_flush :: "('h, 'a) cq_task \<Rightarrow> bool" where
  "is_flush (FlushTask h d) = True"
| "is_flush _ = False"

text \<open>Every task on its way through the channel, oldest first.\<close>

definition task_log :: "('h, 'a) cq_world \<Rightarrow> ('h, 'a) cq_task list" where
  "task_log w = executed w @ (case running w of None \<Rightarrow> [] | Some t \<Rightarrow> [t]) @ tasks (queue w) @ sending w"

definition cq_inv :: "('h, 'a) cq_world \<Rightarrow> (IncomingMessage \<times> 'h) list \<Rightarrow> bool" where
  "cq_inv w ps \<longleftrightarrow>
     (\<exists>bs rest. concat bs @ rest = ps \<and> filter is_flush (task_log w) = map batch_task bs
        \<and> [] \<notin> set bs
        \<and> (\<forall>b \<in> set bs. length b = 1 \<or> int (length b) \<le> MaxMessages (cqBatchCfg (queue w)) \<and> \<not> serialOnly (queue w))
        \<and> holds rest (queue w))
     \<and> (\<forall>t \<in> set (waiters w) \<union> set_option (epilogue w). \<not> is_flush t)
     \<and> length (tasks (queue w)) \<le> tasks_cap"

lemma pushes_append [simp]: "pushes (xs @ ys) = pushes xs @ pushes ys"
  by (induction xs rule: pushes.induct) auto

lemma is_flush_batch_task [simp]: "is_flush (batch_task b)"
  by (simp add: batch_task_def)

lemma cq_inv_init: "cq_inv (init_world (NewChatQueue scope cfg media serial)) []"
proof -
  have "holds [] (NewChatQueue scope cfg media serial)" by (rule holds_new)
  then show ?thesis
    by (auto simp: cq_inv_def init_world_def task_log_def NewChatQueue_def intro!: exI [of _ "[]"])
qed

text \<open>The three ways a step touches the buffer: it keeps it, appends to it, or turns it into a batch.\<close>

lemma cq_inv_critical:
  assumes inv: "cq_inv w ps" and free: "mutex_free w" and same: "same_setup (queue w) cq'"
    and e: "\<forall>t \<in> set_option ep. \<not> is_flush t"
    and step: "\<And>rest. holds rest (queue w) \<Longrightarrow>
        (ts = [] \<and> holds (rest @ new) cq') \<or> (ts = [batch_task (rest @ new)] \<and> rest @ new \<noteq> [] \<and> holds [] cq')"
    and new: "length new \<le> 1"
  shows "cq_inv (enter (cq', ts) ep w) (ps @ new)"
proof -
  from inv obtain bs rest where b: "concat bs @ rest = ps" "filter is_flush (task_log w) = map batch_task bs"
    "[] \<notin> set bs"
    "\<forall>b \<in> set bs. length b = 1 \<or> int (length b) \<le> MaxMessages (cqBatchCfg (queue w)) \<and> \<not> serialOnly (queue w)"
    "holds rest (queue w)"
    by (auto simp: cq_inv_def)
  let ?w = "enter (cq', ts) ep w"
  have log: "task_log ?w = task_log w @ ts"
    using free same by (simp add: task_log_def enter_def mutex_free_def same_setup_def)
  have size: "length (rest @ new) = 1 \<or> int (length (rest @ new)) \<le> MaxMessages (cqBatchCfg (queue w))
      \<and> \<not> serialOnly (queue w)" if "rest @ new \<noteq> []"
    using that b(5) new by (cases "rest = []"; cases new) (auto simp: holds_def)
  have "\<exists>bs rest'. concat bs @ rest' = ps @ new \<and> filter is_flush (task_log ?w) = map batch_task bs
      \<and> [] \<notin> set bs
      \<and> (\<forall>b \<in> set bs. length b = 1 \<or> int (length b) \<le> MaxMessages (cqBatchCfg cq') \<and> \<not> serialOnly cq')
      \<and> holds rest' cq'"
    using step [OF b(5)]
  proof (elim disjE conjE)
    assume "ts = []" "holds (rest @ new) cq'"
    then show ?thesis
      using b same log by (intro exI [of _ bs] exI [of _ "rest @ new"]) (auto simp: same_setup_def)
  next
    assume "ts = [batch_task (rest @ new)]" "rest @ new \<noteq> []" "holds [] cq'"
    then show ?thesis
      using b same log size
      by (intro exI [of _ "bs @ [rest @ new]"] exI [of _ "[]"]) (auto simp: same_setup_def)
  qed
  then show ?thesis
    using inv same e by (auto simp: cq_inv_def enter_def same_setup_def)
qed


lemma cq_inv_flush:
  assumes inv: "cq_inv w ps" and free: "mutex_free w" and ep: "\<forall>t \<in> set_option ep. \<not> is_flush t"
    and flush: "\<And>rest. holds rest (queue w) \<Longrightarrow> holds [] (fst r)"
      "\<And>rest. holds rest (queue w) \<Longrightarrow> snd r = (if rest = [] then [] else [batch_task rest])"
      "\<And>rest. holds rest (queue w) \<Longrightarrow> same_setup (queue w) (fst r)"
  shows "cq_inv (enter r ep w) ps"
proof -
  obtain rest0 where rest0: "holds rest0 (queue w)" using inv by (auto simp: cq_inv_def)
  have "cq_inv (enter (fst r, snd r) ep w) (ps @ [])"
  proof (rule cq_inv_critical [OF inv free flush(3) [OF rest0] ep])
    show "(snd r = [] \<and> holds (rest @ []) (fst r)) \<or> (snd r = [batch_task (rest @ [])] \<and> rest @ [] \<noteq> [] \<and> holds [] (fst r))"
      if "holds rest (queue w)" for rest
      using flush [OF that] by auto
  qed simp
  then show ?thesis by simp
qed

text \<open>A step that only moves tasks along keeps the buffer, the batches and the order of the flushes.\<close>

lemma cq_inv_move:
  assumes "cq_inv w ps" and "serialOnly (queue w') = serialOnly (queue w)"
    and "cqBatchCfg (queue w') = cqBatchCfg (queue w)"
    and "\<And>rest. holds rest (queue w) \<Longrightarrow> holds rest (queue w')"
    and "filter is_flush (task_log w') = filter is_flush (task_log w)"
    and "set (waiters w') \<union> set_option (epilogue w') \<subseteq> set (waiters w) \<union> set_option (epilogue w)"
    and "length (tasks (queue w')) \<le> tasks_cap"
  shows "cq_inv w' ps"
  using assms unfolding cq_inv_def by simp blast

lemma holds_tasks [simp]: "holds rest (cq\<lparr>tasks := ts\<rparr>) = holds rest cq"
  by (simp add: holds_def)

lemma same_setup_refl [simp]: "same_setup cq cq"
  by (simp add: same_setup_def)

lemma cq_inv_step:
  assumes inv: "cq_inv w ps" and "cq_step w e w'"
  shows "cq_inv w' (ps @ pushes [e])"
  using assms(2)
proof cases
  case (push msg h)
  have "cq_inv (enter (fst (Push msg h (queue w)), snd (Push msg h (queue w))) None w) (ps @ [(msg, h)])"
  proof (rule cq_inv_critical [OF inv push(3)])
    show "\<And>rest. holds rest (queue w) \<Longrightarrow> (snd (Push msg h (queue w)) = [] \<and> holds (rest @ [(msg, h)]) (fst (Push msg h (queue w))))
      \<or> (snd (Push msg h (queue w)) = [batch_task (rest @ [(msg, h)])] \<and> rest @ [(msg, h)] \<noteq> [] \<and> holds [] (fst (Push msg h (queue w))))"
      using Push_holds(1) by fastforce
    show "same_setup (queue w) (fst (Push msg h (queue w)))"
      using inv Push_holds(2) by (auto simp: cq_inv_def)
  qed auto
  then show ?thesis using push by simp
next
  case (run a)
  then show ?thesis
    using cq_inv_flush [OF inv, of "Some (RunTask a)", OF _ _ flush_pending_holds] by auto
next
  case flush_now
  then show ?thesis
    using cq_inv_flush [OF inv, of "Some DoneTask", OF _ _ flush_pending_holds] by auto
next
  case timer
  then show ?thesis
    using cq_inv_flush [OF inv, of None, OF _ _ timer_callback_holds] by auto
next
  case dispose
  have "cq_inv w' ps"
    using inv dispose dispose_holds [of _ "queue w"]
    by (intro cq_inv_move [OF inv]) (auto simp: task_log_def cq_Dispose_def clearTimer_def cq_inv_def)
  then show ?thesis using dispose by simp
next
  case (send t ts)
  have "cq_inv w' ps"
    using send by (intro cq_inv_move [OF inv])
      (auto simp: chan_send_def same_setup_def task_log_def room_def)
  then show ?thesis using send by simp
next
  case (unlock t)
  have "cq_inv w' ps"
    using inv unlock by (intro cq_inv_move [OF inv]) (auto simp: task_log_def cq_inv_def)
  then show ?thesis using unlock by simp
next
  case (send_waiter i)
  have nf: "\<not> is_flush (waiters w ! i)"
    using inv send_waiter by (auto simp: cq_inv_def)
  have "cq_inv w' ps"
    using send_waiter nf by (intro cq_inv_move [OF inv])
      (auto simp: chan_send_def same_setup_def task_log_def room_def dest: in_set_takeD in_set_dropD)
  then show ?thesis using send_waiter by simp
next
  case (take_task t ts)
  have "cq_inv w' ps"
    using inv take_task by (intro cq_inv_move [OF inv]) (auto simp: same_setup_def task_log_def cq_inv_def)
  then show ?thesis using take_task by simp
next
  case (finish t)
  have "cq_inv w' ps"
    using inv finish by (intro cq_inv_move [OF inv]) (auto simp: same_setup_def task_log_def cq_inv_def)
  then show ?thesis using finish by simp
next
  case worker_exit
  have "cq_inv w' ps"
    using inv worker_exit by (intro cq_inv_move [OF inv]) (auto simp: same_setup_def task_log_def cq_inv_def)
  then show ?thesis using worker_exit by simp
next
  case panic
  have "cq_inv w' ps"
    using inv panic by (intro cq_inv_move [OF inv]) (auto simp: same_setup_def task_log_def cq_inv_def)
  then show ?thesis using panic by simp
qed

lemma cq_inv_exec:
  assumes "cq_exec w es w'" and "cq_inv w ps"
  shows "cq_inv w' (ps @ pushes es)"
  using assms
  by (induction rule: cq_exec.induct) (auto dest: cq_inv_step simp: append_assoc [symmetric] simp del: append_assoc)


section \<open>Progress\<close>

text \<open>
  The internal steps, those of the goroutines already in the queue and of the worker. Each of
  them uses up one unit of \<open>work\<close>, and as long as the queue is open and some work is left, one of
  them is enabled: whatever the schedule, the queue drains within \<open>work w\<close> internal steps.
\<close>

fun internal :: "('h, 'a) cq_event \<Rightarrow> bool" where
  "internal EvSend = True" | "internal EvUnlock = True" | "internal (EvSendWaiter i) = True"
| "internal EvTake = True" | "internal EvFinish = True" | "internal _ = False"

definition work :: "('h, 'a) cq_world \<Rightarrow> nat" where
  "work w = 3 * length (sending w) + (if epilogue w = None then 0 else 4) + 3 * length (waiters w)
     + 2 * length (tasks (queue w)) + (if running w = None then 0 else 1)"

definition open_queue :: "('h, 'a) cq_world \<Rightarrow> bool" where
  "open_queue w \<longleftrightarrow> \<not> closed (queue w) \<and> \<not> workerGone w"

lemma work_zero:
  "work w = 0 \<longleftrightarrow> sending w = [] \<and> epilogue w = None \<and> waiters w = [] \<and> tasks (queue w) = [] \<and> running w = None"
  by (auto simp: work_def)

lemma internal_work: "cq_step w e w' \<Longrightarrow> internal e \<Longrightarrow> work w = Suc (work w')"
  by (elim cq_stepE) (auto simp: work_def chan_send_def enter_def)

lemma internal_open: "cq_step w e w' \<Longrightarrow> internal e \<Longrightarrow> open_queue w \<Longrightarrow> open_queue w'"
  by (elim cq_stepE) (auto simp: open_queue_def chan_send_def)

lemma internal_buffer: "cq_step w e w' \<Longrightarrow> internal e \<Longrightarrow> buffer (queue w') = buffer (queue w)"
  by (elim cq_stepE) (auto simp: chan_send_def)

lemma internal_pushes: "list_all internal es \<Longrightarrow> pushes es = []"
  by (induction es rule: pushes.induct) auto

lemma internal_enabled:
  assumes "open_queue w" and "work w \<noteq> 0"
  shows "\<exists>e w'. internal e \<and> cq_step w e w'"
proof -
  have room: "room w" if "tasks (queue w) = []"
    using that assms(1) by (simp add: room_def tasks_cap_def open_queue_def)
  consider (run) t where "running w = Some t" | (take) t ts where "running w = None" "tasks (queue w) = t # ts"
    | (send) t ts where "tasks (queue w) = []" "sending w = t # ts"
    | (unlock) t where "sending w = []" "epilogue w = Some t"
    | (waiter) "tasks (queue w) = []" "waiters w \<noteq> []"
    using assms(2) by (cases "running w"; cases "tasks (queue w)"; cases "sending w"; cases "epilogue w";
      cases "waiters w") (auto simp: work_zero)
  then show ?thesis
  proof cases
    case run
    then show ?thesis by (intro exI [of _ EvFinish]) (auto simp: cq_step_simps)
  next
    case take
    then show ?thesis using assms(1)
      by (intro exI [of _ EvTake]) (auto simp: cq_step_simps open_queue_def)
  next
    case send
    then show ?thesis using room by (intro exI [of _ EvSend]) (auto simp: cq_step_simps)
  next
    case unlock
    then show ?thesis by (intro exI [of _ EvUnlock]) (auto simp: cq_step_simps)
  next
    case waiter
    then show ?thesis using room by (intro exI [of _ "EvSendWaiter 0"]) (auto simp: cq_step_simps)
  qed
qed

lemma cq_exec_append: "cq_exec w1 es2 w2 \<Longrightarrow> cq_exec w0 es1 w1 \<Longrightarrow> cq_exec w0 (es1 @ es2) w2"
  by (induction rule: cq_exec.induct) (auto simp: append_assoc [symmetric] simp del: append_assoc intro: cq_exec.intros)

lemma cq_exec_single: "cq_step w e w' \<Longrightarrow> cq_exec w [e] w'"
  using exec_step [OF exec_nil] by fastforce

lemma internal_run_bounded:
  "cq_exec w es w' \<Longrightarrow> list_all internal es \<Longrightarrow> work w = length es + work w'"
  by (induction rule: cq_exec.induct) (auto dest: internal_work)

lemma internal_run_buffer:
  "cq_exec w es w' \<Longrightarrow> list_all internal es \<Longrightarrow> buffer (queue w') = buffer (queue w)"
  by (induction rule: cq_exec.induct) (auto dest: internal_buffer)

lemma drains:
  "open_queue w \<Longrightarrow> \<exists>es w'. list_all internal es \<and> cq_exec w es w' \<and> work w' = 0 \<and> open_queue w'"
proof (induction "work w" arbitrary: w)
  case 0
  then show ?case by (intro exI [of _ "[]"] exI [of _ w]) (auto intro: exec_nil)
next
  case (Suc n)
  then obtain e w1 where e: "internal e" "cq_step w e w1" using internal_enabled by fastforce
  then have "n = work w1" "open_queue w1" using Suc internal_work internal_open by fastforce+
  then obtain es w' where "list_all internal es" "cq_exec w1 es w'" "work w' = 0" "open_queue w'"
    using Suc.hyps(1) by blast
  then show ?case using e cq_exec_append [OF _ cq_exec_single [OF e(2)], of es w']
    by (intro exI [of _ "e # es"]) auto
qed

lemma internal_run_open:
  "cq_exec w es w' \<Longrightarrow> list_all internal es \<Longrightarrow> open_queue w \<Longrightarrow> open_queue w'"
  by (induction rule: cq_exec.induct) (auto dest: internal_open)

lemma idle_log: "work w = 0 \<Longrightarrow> task_log w = executed w"
  by (simp add: work_zero task_log_def)

section \<open>The manager\<close>

record ('h, 'a) ChatQueueManager =
  cmBatchCfg :: BatchConfig
  cmMediaBatch :: "MediaBatchConfig option"
  cmQueueCfg :: ChatQueueConfig
  queues :: "string \<rightharpoonup> ('h, 'a) cq_world"

definition NewChatQueueManager ::
  "BatchConfig \<Rightarrow> ChatQueueConfig option \<Rightarrow> MediaBatchConfig option \<Rightarrow> ('h, 'a) ChatQueueManager" where
  "NewChatQueueManager cfg qcfg media =
     \<lparr>cmBatchCfg = cfg, cmMediaBatch = media,
      cmQueueCfg = (case qcfg of None \<Rightarrow> \<lparr>cqEnabled = False\<rparr> | Some c \<Rightarrow> c), queues = Map.empty\<rparr>"

definition cqm_Enabled :: "('h, 'a) ChatQueueManager \<Rightarrow> bool" where
  "cqm_Enabled m = cqEnabled (cmQueueCfg m)"

definition getOrCreate ::
  "string \<Rightarrow> bool \<Rightarrow> ('h, 'a) ChatQueueManager \<Rightarrow> ('h, 'a) ChatQueueManager \<times> ('h, 'a) cq_world" where
  "getOrCreate scope serial m =
     (case queues m scope of
        Some w \<Rightarrow> (m, w)
      | None \<Rightarrow>
          (let w = init_world (NewChatQueue scope (cmBatchCfg m) (cmMediaBatch m) serial)
           in (m\<lparr>queues := (queues m)(scope \<mapsto> w)\<rparr>, w)))"

text \<open>The mode in which an event of the manager creates its queue: \<open>Push\<close> batches, \<open>Run\<close> does not.\<close>

fun creates :: "('h, 'a) cq_event \<Rightarrow> bool option" where
  "creates (EvPush m h) = Some False"
| "creates (EvRun a) = Some True"
| "creates _ = None"

text \<open>
  A step of the manager is a step of the queue of one scope, which \<open>Push\<close> and \<open>Run\<close> create on
  demand. \<open>FlushAll\<close> is an \<open>EvFlushNow\<close> for every scope it finds, in any order.
\<close>

inductive cqm_step ::
  "('h, 'a) ChatQueueManager \<Rightarrow> string \<times> ('h, 'a) cq_event \<Rightarrow> ('h, 'a) ChatQueueManager \<Rightarrow> bool" where
  creating: "creates e = Some serial \<Longrightarrow> getOrCreate s serial m = (m1, w) \<Longrightarrow> cq_step w e w'
    \<Longrightarrow> cqm_step m (s, e) (m1\<lparr>queues := (queues m1)(s \<mapsto> w')\<rparr>)"
| existing: "creates e = None \<Longrightarrow> queues m s = Some w \<Longrightarrow> cq_step w e w'
    \<Longrightarrow> cqm_step m (s, e) (m\<lparr>queues := (queues m)(s \<mapsto> w')\<rparr>)"

inductive_cases cqm_stepE: "cqm_step m (s, e) m'"

inductive cqm_exec ::
  "('h, 'a) ChatQueueManager \<Rightarrow> (string \<times> ('h, 'a) cq_event) list \<Rightarrow> ('h, 'a) ChatQueueManager \<Rightarrow> bool" where
  mexec_nil: "cqm_exec m [] m"
| mexec_step: "cqm_exec m es m' \<Longrightarrow> cqm_step m' (s, e) m'' \<Longrightarrow> cqm_exec m (es @ [(s, e)]) m''"

definition FlushAll_events :: "string list \<Rightarrow> ('h, 'a) ChatQueueManager \<Rightarrow> (string \<times> ('h, 'a) cq_event) list" where
  "FlushAll_events scopes m = map (\<lambda>s. (s, EvFlushNow)) (filter (\<lambda>s. queues m s \<noteq> None) scopes)"

text \<open>The last part of the manager's \<open>Dispose\<close>: every queue is closed and forgotten.\<close>

definition cqm_Dispose ::
  "('h, 'a) ChatQueueManager \<Rightarrow> ('h, 'a) ChatQueueManager \<times> (string \<rightharpoonup> ('h, 'a) cq_world)" where
  "cqm_Dispose m =
     (m\<lparr>queues := Map.empty\<rparr>,
      \<lambda>s. map_option (\<lambda>w. w\<lparr>queue := cq_Dispose (queue w)\<rparr>) (queues m s))"

text \<open>The events of one scope, and the invariant of every scope's queue.\<close>

definition scope_events :: "string \<Rightarrow> (string \<times> ('h, 'a) cq_event) list \<Rightarrow> ('h, 'a) cq_event list" where
  "scope_events s es = map snd (filter (\<lambda>p. fst p = s) es)"

lemma scope_events_snoc [simp]:
  "scope_events s (es @ [(s', e)]) = scope_events s es @ (if s' = s then [e] else [])"
  by (simp add: scope_events_def)

definition cqm_inv :: "('h, 'a) ChatQueueManager \<Rightarrow> (string \<times> ('h, 'a) cq_event) list \<Rightarrow> bool" where
  "cqm_inv m es \<longleftrightarrow>
     (\<forall>s. case queues m s of
            None \<Rightarrow> scope_events s es = []
          | Some w \<Rightarrow> \<exists>serial. cq_exec (init_world (NewChatQueue s (cmBatchCfg m) (cmMediaBatch m) serial))
                                 (scope_events s es) w)"

lemma cqm_invD:
  assumes "cqm_inv m es"
  shows "queues m s = None \<Longrightarrow> scope_events s es = []"
    and "queues m s = Some w \<Longrightarrow> \<exists>b. cq_exec (init_world (NewChatQueue s (cmBatchCfg m) (cmMediaBatch m) b)) (scope_events s es) w"
  using assms unfolding cqm_inv_def by (auto dest!: spec [of _ s])

lemma cqm_step_other: "cqm_step m (s, e) m' \<Longrightarrow> s' \<noteq> s \<Longrightarrow> queues m' s' = queues m s'"
  by (elim cqm_stepE) (auto simp: getOrCreate_def Let_def split: option.splits)

lemma cqm_step_cfg: "cqm_step m (s, e) m' \<Longrightarrow> cmBatchCfg m' = cmBatchCfg m \<and> cmMediaBatch m' = cmMediaBatch m"
  by (elim cqm_stepE) (auto simp: getOrCreate_def Let_def split: option.splits)

lemma cqm_inv_step:
  assumes "cqm_inv m es" and "cqm_step m (s, e) m'"
  shows "cqm_inv m' (es @ [(s, e)])"
proof -
  note cfg = cqm_step_cfg [OF assms(2)]
  have "\<exists>serial w. queues m' s = Some w \<and>
      cq_exec (init_world (NewChatQueue s (cmBatchCfg m) (cmMediaBatch m) serial)) (scope_events s es @ [e]) w"
    using assms(2)
  proof cases
    case 1: (creating serial m1 w w')
    show ?thesis
    proof (cases "queues m s")
      case None
      then have "w = init_world (NewChatQueue s (cmBatchCfg m) (cmMediaBatch m) serial)"
        using 1 by (auto simp: getOrCreate_def Let_def)
      moreover have "scope_events s es = []" using cqm_invD(1) [OF assms(1) None] .
      ultimately show ?thesis using 1 by (auto intro: cq_exec_single)
    next
      case (Some w0)
      then have "w = w0" using 1 by (auto simp: getOrCreate_def)
      moreover obtain b where "cq_exec (init_world (NewChatQueue s (cmBatchCfg m) (cmMediaBatch m) b)) (scope_events s es) w0"
        using cqm_invD(2) [OF assms(1) Some] by blast
      ultimately show ?thesis using 1 by (auto intro: cq_exec.exec_step)
    qed
  next
    case 2: (existing w w')
    then obtain b where "cq_exec (init_world (NewChatQueue s (cmBatchCfg m) (cmMediaBatch m) b)) (scope_events s es) w"
      using cqm_invD(2) [OF assms(1)] by blast
    then show ?thesis using 2 by (auto intro: cq_exec.exec_step)
  qed
  then obtain serial w where this_scope: "queues m' s = Some w"
    "cq_exec (init_world (NewChatQueue s (cmBatchCfg m') (cmMediaBatch m') serial)) (scope_events s es @ [e]) w"
    using cfg by auto
  show ?thesis
    unfolding cqm_inv_def
  proof
    fix s'
    show "case queues m' s' of None \<Rightarrow> scope_events s' (es @ [(s, e)]) = []
      | Some w \<Rightarrow> \<exists>b. cq_exec (init_world (NewChatQueue s' (cmBatchCfg m') (cmMediaBatch m') b)) (scope_events s' (es @ [(s, e)])) w"
    proof (cases "s' = s")
      case False
      then show ?thesis
        using cqm_invD [OF assms(1), of s'] cqm_step_other [OF assms(2) False] cfg by (auto split: option.split)
    qed (use this_scope in auto)
  qed
qed

lemma cqm_inv_exec: "cqm_exec m es m' \<Longrightarrow> cqm_inv m [] \<Longrightarrow> cqm_inv m' es"
  by (induction rule: cqm_exec.induct) (auto intro: cqm_inv_step)

lemma cqm_inv_new: "cqm_inv (NewChatQueueManager cfg qcfg media) []"
  by (simp add: cqm_inv_def NewChatQueueManager_def scope_events_def)


section \<open>Running the model\<close>

text \<open>The step relation is deterministic once the event is given; \<open>cq_do\<close> computes the step.\<close>

fun cq_do :: "('h, 'a) cq_event \<Rightarrow> ('h, 'a) cq_world \<Rightarrow> ('h, 'a) cq_world option" where
  "cq_do (EvPush msg h) w = (if mutex_free w then Some (enter (Push msg h (queue w)) None w) else None)"
| "cq_do (EvRun a) w =
     (if mutex_free w then Some (enter (flush_pending (queue w)) (Some (RunTask a)) w) else None)"
| "cq_do EvFlushNow w =
     (if mutex_free w then Some (enter (flush_pending (queue w)) (Some DoneTask) w) else None)"
| "cq_do EvTimer w = (if mutex_free w then Some (enter (timer_callback (queue w)) None w) else None)"
| "cq_do EvDispose w = (if mutex_free w then Some (w\<lparr>queue := cq_Dispose (queue w)\<rparr>) else None)"
| "cq_do EvSend w =
     (case sending w of [] \<Rightarrow> None
      | t # ts \<Rightarrow> if room w then Some (chan_send t (w\<lparr>sending := ts\<rparr>)) else None)"
| "cq_do EvUnlock w =
     (case epilogue w of None \<Rightarrow> None
      | Some t \<Rightarrow> if sending w = [] then Some (w\<lparr>epilogue := None, waiters := waiters w @ [t]\<rparr>) else None)"
| "cq_do (EvSendWaiter i) w =
     (if i < length (waiters w) \<and> room w
      then Some (chan_send (waiters w ! i) (w\<lparr>waiters := take i (waiters w) @ drop (Suc i) (waiters w)\<rparr>))
      else None)"
| "cq_do EvTake w =
     (case tasks (queue w) of [] \<Rightarrow> None
      | t # ts \<Rightarrow> if running w = None \<and> \<not> workerGone w
                 then Some (w\<lparr>queue := (queue w)\<lparr>tasks := ts\<rparr>, running := Some t\<rparr>) else None)"
| "cq_do EvFinish w =
     (case running w of None \<Rightarrow> None
      | Some t \<Rightarrow> Some (w\<lparr>running := None, executed := executed w @ [t]\<rparr>))"
| "cq_do EvWorkerExit w =
     (if running w = None \<and> closed (queue w) then Some (w\<lparr>workerGone := True\<rparr>) else None)"
| "cq_do EvPanic w =
     (if (sending w \<noteq> [] \<or> waiters w \<noteq> []) \<and> closed (queue w) then Some (w\<lparr>panicked := True\<rparr>) else None)"

lemma cq_do_iff: "cq_step w e w' \<longleftrightarrow> cq_do e w = Some w'"
  by (cases e) (auto simp: cq_step_simps split: list.splits option.splits)

definition cqm_do ::
  "string \<times> ('h, 'a) cq_event \<Rightarrow> ('h, 'a) ChatQueueManager \<Rightarrow> ('h, 'a) ChatQueueManager option" where
  "cqm_do ev m =
     (let (s, e) = ev in
      case creates e of
        Some serial \<Rightarrow>
          (let (m1, w) = getOrCreate s serial m
           in map_option (\<lambda>w'. m1\<lparr>queues := (queues m1)(s \<mapsto> w')\<rparr>) (cq_do e w))
      | None \<Rightarrow>
          (case queues m s of None \<Rightarrow> None
           | Some w \<Rightarrow> map_option (\<lambda>w'. m\<lparr>queues := (queues m)(s \<mapsto> w')\<rparr>) (cq_do e w)))"

lemma cqm_do_step: "cqm_do (s, e) m = Some m' \<Longrightarrow> cqm_step m (s, e) m'"
  by (auto simp: cqm_do_def cq_do_iff [symmetric] Let_def split: option.splits prod.splits
      intro: cqm_step.creating cqm_step.existing)

fun cqm_run ::
  "(string \<times> ('h, 'a) cq_event) list \<Rightarrow> ('h, 'a) ChatQueueManager \<Rightarrow> ('h, 'a) ChatQueueManager option" where
  "cqm_run [] m = Some m"
| "cqm_run (ev # es) m = (case cqm_do ev m of None \<Rightarrow> None | Some m' \<Rightarrow> cqm_run es m')"

lemma cqm_exec_Cons: "cqm_exec m' es m'' \<Longrightarrow> cqm_step m (s, e) m' \<Longrightarrow> cqm_exec m ((s, e) # es) m''"
proof (induction rule: cqm_exec.induct)
  case (mexec_nil m')
  then show ?case using mexec_step [OF cqm_exec.mexec_nil] by fastforce
next
  case (mexec_step m' es m1 s' e' m2)
  then show ?case using cqm_exec.mexec_step [of m "(s, e) # es" m1 s' e' m2] by simp
qed

lemma cqm_run_exec: "cqm_run es m = Some m' \<Longrightarrow> cqm_exec m es m'"
proof (induction es arbitrary: m)
  case (Cons ev es)
  then show ?case
    by (cases ev) (auto split: option.splits intro: cqm_exec_Cons dest: cqm_do_step)
qed (auto intro: cqm_exec.mexec_nil)

lemma enqueueFlush_frame [frame_simps]:
  "cqBatchCfg (fst (enqueueFlush cq)) = cqBatchCfg cq" "serialOnly (fst (enqueueFlush cq)) = serialOnly cq"
  "closed (fst (enqueueFlush cq)) = closed cq"
  by (auto simp: enqueueFlush_def Let_def split: option.splits)

lemma cq_step_cfg: "cq_step w e w' \<Longrightarrow> cqBatchCfg (queue w') = cqBatchCfg (queue w)"
  by (elim cq_stepE)
    (auto simp: enter_def Push_def flush_pending_def timer_callback_def clearTimer_def cq_Dispose_def
      chan_send_def Let_def frame_simps)

lemma cq_exec_cfg: "cq_exec w es w' \<Longrightarrow> cqBatchCfg (queue w') = cqBatchCfg (queue w)"
  by (induction rule: cq_exec.induct) (auto dest: cq_step_cfg)

lemma cqm_exec_cfg: "cqm_exec m es m' \<Longrightarrow> cmBatchCfg m' = cmBatchCfg m"
  by (induction rule: cqm_exec.induct) (auto dest: cqm_step_cfg)

text \<open>The invariant of one scope's queue, from an execution of the manager.\<close>

lemma scope_inv:
  assumes "cqm_exec (NewChatQueueManager cfg qcfg media) es m" and "queues m s = Some w"
  shows "cq_inv w (pushes (scope_events s es))" and "cqBatchCfg (queue w) = cfg"
proof -
  obtain b where b: "cq_exec (init_world (NewChatQueue s (cmBatchCfg m) (cmMediaBatch m) b)) (scope_events s es) w"
    using cqm_invD(2) [OF cqm_inv_exec [OF assms(1) cqm_inv_new] assms(2)] by blast
  then show "cq_inv w (pushes (scope_events s es))"
    using cq_inv_exec [OF b cq_inv_init] by simp
  have "cmBatchCfg m = cfg" using cqm_exec_cfg [OF assms(1)] by (simp add: NewChatQueueManager_def)
  then show "cqBatchCfg (queue w) = cfg"
    using cq_exec_cfg [OF b] by (simp add: init_world_def NewChatQueue_def)
qed


section \<open>Properties\<close>

text \<open>
  C9. Order and conservation, for every conversation and every interleaving of pushes, runs, timers,
  flushes, the worker and the disposal: the messages pushed to a scope, in the order in which they
  were pushed, are exactly the batches that entered the channel, oldest first, followed by the
  buffer. Nothing is lost, duplicated or reordered, each batch is one task that carries the merge
  and the ids of its messages and goes to the handler of its first message, and no batch exceeds
  \<open>MaxMessages\<close>.
\<close>

theorem chat_queue_fifo:
  assumes "cqm_exec (NewChatQueueManager cfg qcfg media) es m" and "queues m s = Some w"
  shows "\<exists>bs rest. concat bs @ rest = pushes (scope_events s es)
     \<and> filter is_flush (task_log w) = map batch_task bs \<and> map fst rest = buffer (queue w)
     \<and> [] \<notin> set bs \<and> (\<forall>b \<in> set bs. length b = 1 \<or> int (length b) \<le> MaxMessages cfg \<and> \<not> serialOnly (queue w))"
  using scope_inv [OF assms] unfolding cq_inv_def holds_def by metis

definition demo_batch_cfg :: BatchConfig where
  "demo_batch_cfg = \<lparr>DelayMs = 600, LongThresholdChars = 10, LongDelayMs = 2000, MaxMessages = 2, MaxChars = 40\<rparr>"

definition demo_events :: "(string \<times> (nat, nat) cq_event) list" where
  "demo_events = [(''c'', EvPush (sample_msg ''m1'' ''c'' ''hi'') 0), (''d'', EvRun 7),
     (''c'', EvPush (sample_msg ''m2'' ''c'' ''you'') 1), (''d'', EvUnlock), (''c'', EvSend),
     (''c'', EvPush (sample_msg ''m3'' ''c'' ''there'') 2), (''c'', EvTake)]"

definition demo_manager :: "(nat, nat) ChatQueueManager" where
  "demo_manager = the (cqm_run demo_events (NewChatQueueManager demo_batch_cfg None None))"

definition demo_world :: "(nat, nat) cq_world" where
  "demo_world = the (queues demo_manager ''c'')"

lemmas demo_run_simps = demo_events_def demo_batch_cfg_def NewChatQueueManager_def cqm_do_def
  getOrCreate_def init_world_def NewChatQueue_def mutex_free_def enter_def Push_def clearTimer_def
  enqueueFlush_def flush_pending_def chan_send_def room_def tasks_cap_def sample_msg_def
  empty_fields_def extractMessageIDs_def

lemma demo_run: "cqm_run demo_events (NewChatQueueManager demo_batch_cfg None None) = Some demo_manager"
  and demo_queue: "queues demo_manager ''c'' = Some demo_world"
  and demo_running: "filter is_flush (task_log demo_world) \<noteq> [] \<and> buffer (queue demo_world) \<noteq> []
    \<and> \<not> closed (queue demo_world)"
  by (simp_all add: demo_manager_def demo_world_def demo_run_simps Let_def task_log_def)

theorem chat_queue_fifo_witness:
  "\<exists>bs rest. concat bs @ rest = pushes (scope_events ''c'' demo_events)
     \<and> filter is_flush (task_log demo_world) = map batch_task bs \<and> map fst rest = buffer (queue demo_world)
     \<and> [] \<notin> set bs \<and> (\<forall>b \<in> set bs. length b = 1 \<or> int (length b) \<le> MaxMessages demo_batch_cfg \<and> \<not> serialOnly (queue demo_world))"
  by (rule chat_queue_fifo [OF cqm_run_exec [OF demo_run] demo_queue])

text \<open>
  C24. Bounds: at every moment the channel holds at most its 100 tasks, a buffer that is waiting
  holds fewer than \<open>MaxMessages\<close> messages and fewer than \<open>MaxChars\<close> bytes, counts its bytes
  correctly, and, unless the queue has been closed, has its flush timer armed, so that no message can be
  stranded in it.
\<close>

theorem chat_queue_bounds:
  assumes "cqm_exec (NewChatQueueManager cfg qcfg media) es m" and "queues m s = Some w"
  shows "length (tasks (queue w)) \<le> 100
    \<and> bufferChars (queue w) = (\<Sum>m \<leftarrow> buffer (queue w). int (length (msg_text m)))
    \<and> (buffer (queue w) \<noteq> [] \<longrightarrow>
         int (length (buffer (queue w))) < MaxMessages cfg \<and> bufferChars (queue w) < MaxChars cfg
         \<and> (timer (queue w) \<noteq> None \<or> closed (queue w)))"
  using scope_inv [OF assms] by (auto simp: cq_inv_def holds_def tasks_cap_def)

theorem chat_queue_bounds_witness:
  "length (tasks (queue demo_world)) \<le> 100
    \<and> bufferChars (queue demo_world) = (\<Sum>m \<leftarrow> buffer (queue demo_world). int (length (msg_text m)))
    \<and> (int (length (buffer (queue demo_world))) < MaxMessages demo_batch_cfg
         \<and> bufferChars (queue demo_world) < MaxChars demo_batch_cfg
         \<and> timer (queue demo_world) \<noteq> None)"
  using chat_queue_bounds [OF cqm_run_exec [OF demo_run] demo_queue] demo_running by simp

lemma stopped_log:
  assumes "cq_inv w ps" and "work w = 0"
  shows "\<exists>bs rest. concat bs @ rest = ps \<and> map fst rest = buffer (queue w)
    \<and> filter is_flush (executed w) = map batch_task bs \<and> (rest = [] \<or> timer (queue w) \<noteq> None \<or> closed (queue w))"
proof -
  obtain bs rest where "concat bs @ rest = ps" "filter is_flush (task_log w) = map batch_task bs" "holds rest (queue w)"
    using assms(1) unfolding cq_inv_def by blast
  then show ?thesis
    using idle_log [OF assms(2)] by (intro exI [of _ bs] exI [of _ rest]) (auto simp: holds_def)
qed

lemma timer_empties:
  assumes "cq_inv w ps" and "cq_step w EvTimer w'"
  shows "buffer (queue w') = []"
proof -
  obtain rest where "holds rest (queue w)" using assms(1) unfolding cq_inv_def by blast
  then have "holds [] (fst (timer_callback (queue w)))" by (rule timer_callback_holds(1))
  then show ?thesis using assms(2) by (simp add: cq_step_simps enter_def holds_def)
qed

text \<open>
  C20. Progress: from every state of an open queue, any schedule of the goroutines already inside it
  stops after at most \<open>work w\<close> steps, and a schedule that stops exists. A schedule that has stopped has
  handed every message pushed so far to its handler, in order, but for those in the buffer, whose flush timer is
  armed then; the timer can run, and when it has, and the goroutines have stopped again, the messages of
  the buffer have been handed over as well.
\<close>

theorem chat_queue_drains:
  assumes "cqm_exec (NewChatQueueManager cfg qcfg media) es m" and "queues m s = Some w" and "open_queue w"
  shows "(\<exists>es' w'. list_all internal es' \<and> cq_exec w es' w' \<and> work w' = 0)
    \<and> (\<forall>es' w'. list_all internal es' \<and> cq_exec w es' w' \<longrightarrow>
         length es' \<le> work w
         \<and> (work w' = 0 \<or> (\<exists>e w''. internal e \<and> cq_step w' e w''))
         \<and> (work w' = 0 \<longrightarrow>
              (\<exists>bs rest. concat bs @ rest = pushes (scope_events s es) \<and> map fst rest = buffer (queue w')
                 \<and> filter is_flush (executed w') = map batch_task bs \<and> (rest = [] \<or> timer (queue w') \<noteq> None))
              \<and> (\<exists>w1. cq_step w' EvTimer w1)
              \<and> (\<forall>w1 es'' w''. cq_step w' EvTimer w1 \<and> list_all internal es'' \<and> cq_exec w1 es'' w'' \<and> work w'' = 0 \<longrightarrow>
                   (\<exists>bs. concat bs = pushes (scope_events s es) \<and> filter is_flush (executed w'') = map batch_task bs))))"
proof (intro conjI allI impI)
  show "\<exists>es' w'. list_all internal es' \<and> cq_exec w es' w' \<and> work w' = 0"
    using drains [OF assms(3)] by blast
next
  fix es' w' assume run: "list_all internal es' \<and> cq_exec w es' w'"
  let ?ps = "pushes (scope_events s es)"
  have inv: "cq_inv w' ?ps"
    using cq_inv_exec [of w es' w'] run scope_inv(1) [OF assms(1,2)] internal_pushes by fastforce
  have opened: "open_queue w'" using run internal_run_open [OF _ _ assms(3)] by blast
  show "length es' \<le> work w" using run internal_run_bounded by fastforce
  show "work w' = 0 \<or> (\<exists>e w''. internal e \<and> cq_step w' e w'')" using opened internal_enabled by blast
  assume idle: "work w' = 0"
  then show "\<exists>bs rest. concat bs @ rest = ?ps \<and> map fst rest = buffer (queue w')
      \<and> filter is_flush (executed w') = map batch_task bs \<and> (rest = [] \<or> timer (queue w') \<noteq> None)"
    using stopped_log [OF inv] opened unfolding open_queue_def by blast
  show "\<exists>w1. cq_step w' EvTimer w1" using idle by (auto simp: cq_step_simps work_zero mutex_free_def)
  fix w1 es'' w'' assume fired: "cq_step w' EvTimer w1 \<and> list_all internal es'' \<and> cq_exec w1 es'' w'' \<and> work w'' = 0"
  have inv1: "cq_inv w1 ?ps" using cq_inv_exec [OF cq_exec_single inv, of EvTimer w1] fired by simp
  then have "cq_inv w'' ?ps" using cq_inv_exec [of w1 es'' w''] fired internal_pushes by fastforce
  moreover have "buffer (queue w'') = []"
    using fired timer_empties [OF inv] internal_run_buffer by metis
  ultimately show "\<exists>bs. concat bs = ?ps \<and> filter is_flush (executed w'') = map batch_task bs"
    using stopped_log [of w'' ?ps] fired by fastforce
qed

text \<open>The state of the demonstration, run until it stops, with the third message still in the buffer.\<close>

definition demo_stopped :: "(nat, nat) cq_world" where
  "demo_stopped = the (cq_do EvFinish demo_world)"

lemma demo_stops: "cq_exec demo_world [EvFinish] demo_stopped" and demo_stopped_work: "work demo_stopped = 0"
  and demo_stopped_buffer: "buffer (queue demo_stopped) = [sample_msg ''m3'' ''c'' ''there'']"
proof -
  have "cq_do EvFinish demo_world = Some demo_stopped"
    by (simp add: demo_stopped_def demo_world_def demo_manager_def demo_run_simps Let_def)
  then show "cq_exec demo_world [EvFinish] demo_stopped" by (intro cq_exec_single) (simp add: cq_do_iff)
qed (simp_all add: demo_stopped_def demo_world_def demo_manager_def demo_run_simps Let_def work_def)

theorem chat_queue_drains_witness:
  "(\<exists>es' w'. list_all internal es' \<and> cq_exec demo_world es' w' \<and> work w' = 0)
   \<and> (\<exists>bs rest. concat bs @ rest = pushes (scope_events ''c'' demo_events)
       \<and> map fst rest = [sample_msg ''m3'' ''c'' ''there'']
       \<and> filter is_flush (executed demo_stopped) = map batch_task bs \<and> timer (queue demo_stopped) \<noteq> None)"
proof -
  have "open_queue demo_world"
    by (simp add: open_queue_def demo_world_def demo_manager_def demo_run_simps Let_def)
  note drains = chat_queue_drains [OF cqm_run_exec [OF demo_run] demo_queue this]
  have "list_all internal [EvFinish :: (nat, nat) cq_event]" by simp
  then obtain bs rest where "concat bs @ rest = pushes (scope_events ''c'' demo_events)"
    "map fst rest = buffer (queue demo_stopped)" "filter is_flush (executed demo_stopped) = map batch_task bs"
    "rest = [] \<or> timer (queue demo_stopped) \<noteq> None"
    using drains demo_stops demo_stopped_work by meson
  moreover from this demo_stopped_buffer have "timer (queue demo_stopped) \<noteq> None" "map fst rest = [sample_msg ''m3'' ''c'' ''there'']"
    by auto
  ultimately have "\<exists>bs rest. concat bs @ rest = pushes (scope_events ''c'' demo_events)
      \<and> map fst rest = [sample_msg ''m3'' ''c'' ''there'']
      \<and> filter is_flush (executed demo_stopped) = map batch_task bs \<and> timer (queue demo_stopped) \<noteq> None"
    by (intro exI [of _ bs] exI [of _ rest] conjI)
  with conjunct1 [OF drains] show ?thesis by (rule conjI)
qed

text \<open>
  What a merged batch contains. Its text is the non-empty texts in order, separated by a blank
  line, it is addressed like the last message, it mentions everybody iff some message did, and its
  resources and mentions are those of the messages, each download code and each mentioned user once.
\<close>

theorem merge_contents:
  assumes "2 \<le> length batch"
  shows "let m = mergeBatchMessages batch in
     msg_text m = str_join [CHR 0x0A, CHR 0x0A] (filter (\<lambda>t. t \<noteq> []) (map msg_text batch))
   \<and> (body m)\<lparr>Text := [], MentionAll := False, Resources := [], Mentions := []\<rparr>
       = (body (last batch))\<lparr>Text := [], MentionAll := False, Resources := [], Mentions := []\<rparr>
   \<and> MentionAll (body m) = (\<exists>b \<in> set batch. MentionAll (body b))
   \<and> distinct (map DownloadCode (Resources (body m)))
   \<and> DownloadCode ` set (Resources (body m)) = (\<Union>b \<in> set batch. DownloadCode ` set (Resources (body b)))
   \<and> set (Resources (body m)) \<subseteq> (\<Union>b \<in> set batch. set (Resources (body b)))
   \<and> distinct (map mention_key (Mentions (body m)))
   \<and> mention_key ` set (Mentions (body m)) = (\<Union>b \<in> set batch. mention_key ` set (Mentions (body b)))"
  using assms set_keep_first_subset [of DownloadCode "{}" "concat (map (\<lambda>m. Resources (body m)) batch)"]
  by (simp add: mergeBatchMessages_def Let_def list_ex_iff distinct_keep_first keys_keep_first image_UN)

theorem merge_contents_witness:
  "let batch = [sample_msg ''m1'' ''c'' ''hi'', sample_msg ''m2'' ''c'' [], sample_msg ''m3'' ''c'' ''you''];
       m = mergeBatchMessages batch in
     msg_text m = ''hi'' @ [CHR 0x0A, CHR 0x0A] @ ''you'' \<and> msg_id m = ''m3''"
proof -
  let ?batch = "[sample_msg ''m1'' ''c'' ''hi'', sample_msg ''m2'' ''c'' [], sample_msg ''m3'' ''c'' ''you'']"
  note m = merge_contents [of ?batch, unfolded Let_def]
  have "msg_text (mergeBatchMessages ?batch) = ''hi'' @ [CHR 0x0A, CHR 0x0A] @ ''you''"
    using conjunct1 [OF m] by (simp add: sample_msg_def empty_fields_def)
  moreover have "msg_id (mergeBatchMessages ?batch) = ''m3''"
    using conjunct1 [OF conjunct2 [OF m], THEN arg_cong [where f = MsgID]]
    by (simp add: sample_msg_def empty_fields_def)
  ultimately show ?thesis unfolding Let_def by blast
qed

text \<open>A queue that a \<open>Run\<close> created stays serial: later pushes to it are never batched.\<close>

lemma first_mode_wins:
  "queues m s = Some w \<Longrightarrow> getOrCreate s serial m = (m, w)"
  by (simp add: getOrCreate_def)

end
