(* ===== verification/Coalescer.thy ===== *)
theory Coalescer
  imports Prelude
begin

text \<open>
  The contract of the components that hold messages back to merge them: each event puts its input
  at the end of what the component holds, and only ever moves messages from the front of what it
  holds to its output. Order and conservation over whole runs follow once, here; the message
  batcher and the media pipeline interpret the locale, once per scope and once per batch key.
\<close>

locale coalescer =
  fixes step :: "'e \<Rightarrow> 's \<Rightarrow> 's option"
    and out :: "'s \<Rightarrow> 'm list"
    and held :: "'s \<Rightarrow> 'm list"
    and input :: "'e \<Rightarrow> 'm list"
    and ok :: "'e \<Rightarrow> bool"
    and inv :: "'s \<Rightarrow> bool"
  assumes step_conserves: "step e s = Some s' \<Longrightarrow> ok e \<Longrightarrow> inv s
      \<Longrightarrow> out s' @ held s' = out s @ held s @ input e"
    and step_inv: "step e s = Some s' \<Longrightarrow> ok e \<Longrightarrow> inv s \<Longrightarrow> inv s'"
begin

primrec run :: "'e list \<Rightarrow> 's \<Rightarrow> 's option" where
  "run [] s = Some s"
| "run (e # es) s = (case step e s of None \<Rightarrow> None | Some s' \<Rightarrow> run es s')"

lemma run_conserves:
  "run es s = Some s' \<Longrightarrow> list_all ok es \<Longrightarrow> inv s \<Longrightarrow> out s' @ held s' = out s @ held s @ concat (map input es)"
proof (induction es arbitrary: s)
  case (Cons e es)
  then obtain s1 where "step e s = Some s1" "run es s1 = Some s'" by (auto split: option.splits)
  then show ?case using Cons step_conserves [of e s s1] step_inv [of e s s1] by auto
qed simp

text \<open>The output is always a prefix of the input, and all of it when nothing is held.\<close>

lemma run_in_order:
  assumes "run es s = Some s'" and "list_all ok es" and "inv s" and "out s = []" and "held s = []"
  shows "take (length (out s')) (concat (map input es)) = out s'"
    and "held s' = [] \<Longrightarrow> out s' = concat (map input es)"
  using run_conserves [OF assms(1-3)] assms(4,5) by (metis append_Nil append_eq_conv_conj, simp)

lemma run_inv: "run es s = Some s' \<Longrightarrow> list_all ok es \<Longrightarrow> inv s \<Longrightarrow> inv s'"
proof (induction es arbitrary: s)
  case (Cons e es)
  then obtain s1 where "step e s = Some s1" "run es s1 = Some s'" by (auto split: option.splits)
  then show ?case using Cons step_inv [of e s s1] by auto
qed simp

lemma run_appended: "run (es @ fs) s = Option.bind (run es s) (run fs)"
  by (induction es arbitrary: s) (auto split: option.split)

end

end
