(* ===== verification/Batching.thy ===== *)
theory Batching
  imports ChatQueue Coalescer "HOL-Library.Multiset"
begin

text \<open>
  \<open>internal/safety/batching.go\<close>: the stand-alone message batcher. Unlike \<open>ChatQueue\<close> it has no worker:
  every flush is a goroutine of its own, which takes the whole buffer under the mutex and calls
  the handler after unlocking it. The model therefore keeps the number of flush goroutines that
  have not yet taken the buffer, and the batches taken whose handler call is still to come.
\<close>

section \<open>Merging\<close>

fun joinTexts_loop :: "string \<Rightarrow> string list \<Rightarrow> string" where
  "joinTexts_loop result [] = result"
| "joinTexts_loop result (t # ts) = joinTexts_loop (result @ [CHR 0x0A, CHR 0x0A] @ t) ts"

definition joinTexts :: "string list \<Rightarrow> string" where
  "joinTexts texts =
     (case texts of [] \<Rightarrow> [] | [t] \<Rightarrow> t | t # ts \<Rightarrow> joinTexts_loop t ts)"

definition mergeMessages :: "IncomingMessage list \<Rightarrow> IncomingMessage option" where
  "mergeMessages msgs =
     (if msgs = [] then None
      else if length msgs = 1 then Some (hd msgs)
      else
        (let lst = last msgs;
             texts = filter (\<lambda>t. t \<noteq> []) (map msg_text msgs);
             merged = (if texts \<noteq> [] then (body lst)\<lparr>Text := joinTexts texts\<rparr> else body lst)
         in Some (Message merged (BatchedSources lst))))"

lemma joinTexts_loop_join: "joinTexts_loop r ts = r @ concat (map (\<lambda>t. [CHR 0x0A, CHR 0x0A] @ t) ts)"
  by (induction ts arbitrary: r) auto

lemma str_join_concat: "str_join sep (t # ts) = t @ concat (map (\<lambda>t. sep @ t) ts)"
  by (induction ts arbitrary: t) auto

lemma joinTexts_eq: "joinTexts ts = str_join [CHR 0x0A, CHR 0x0A] ts"
  by (cases ts rule: remdups_adj.cases) (auto simp: joinTexts_def joinTexts_loop_join str_join_concat)

section \<open>One pipeline\<close>

record chatPipeline =
  cpCfg :: BatchConfig
  cpScope :: string
  cpBuffer :: "IncomingMessage list"
  cpChars :: int
  cpTimer :: "duration option"

definition newChatPipeline :: "BatchConfig \<Rightarrow> string \<Rightarrow> chatPipeline" where
  "newChatPipeline cfg scope =
     \<lparr>cpCfg = cfg, cpScope = scope, cpBuffer = [], cpChars = 0, cpTimer = None\<rparr>"

definition cp_clearTimer :: "chatPipeline \<Rightarrow> chatPipeline" where
  "cp_clearTimer p = p\<lparr>cpTimer := None\<rparr>"

text \<open>\<open>Push\<close> returns whether it starts a flush goroutine.\<close>

definition cp_Push :: "IncomingMessage \<Rightarrow> chatPipeline \<Rightarrow> chatPipeline \<times> bool" where
  "cp_Push msg p =
     (let p1 = p\<lparr>cpBuffer := cpBuffer p @ [msg], cpChars := cpChars p + int (length (msg_text msg))\<rparr>;
          cfg = cpCfg p1
      in if int (length (cpBuffer p1)) \<ge> MaxMessages cfg \<or> cpChars p1 \<ge> MaxChars cfg
         then (cp_clearTimer p1, True)
         else
           (let delay = (if cpChars p1 \<ge> LongThresholdChars cfg then LongDelayMs cfg else DelayMs cfg)
            in ((cp_clearTimer p1)\<lparr>cpTimer := Some delay\<rparr>, False)))"

definition cp_timer_callback :: "chatPipeline \<Rightarrow> chatPipeline \<times> bool" where
  "cp_timer_callback p = (p\<lparr>cpTimer := None\<rparr>, True)"

text \<open>The first half of \<open>FlushNow\<close>; its caller then runs \<open>flush\<close> itself.\<close>

definition cp_FlushNow :: "chatPipeline \<Rightarrow> chatPipeline \<times> bool" where
  "cp_FlushNow p = (if cpBuffer p = [] then (p, False) else (cp_clearTimer p, True))"

text \<open>The critical section of \<open>flush\<close>: the batch it took, if any, as the handler will receive it.\<close>

definition cp_flush :: "chatPipeline \<Rightarrow> chatPipeline \<times> IncomingMessage list" where
  "cp_flush p = (if cpBuffer p = [] then (p, []) else (p\<lparr>cpBuffer := [], cpChars := 0\<rparr>, cpBuffer p))"

definition cp_dispatch :: "IncomingMessage list \<Rightarrow> BatchedMessage" where
  "cp_dispatch batch = \<lparr>bmMessage = the (mergeMessages batch), bmSourceIDs = map msg_id batch\<rparr>"

definition cp_Dispose :: "chatPipeline \<Rightarrow> chatPipeline" where
  "cp_Dispose p = (cp_clearTimer p)\<lparr>cpBuffer := []\<rparr>"

section \<open>The batcher\<close>

text \<open>
  \<open>goroutines s\<close> counts the flush goroutines of scope \<open>s\<close> that have not taken the buffer yet,
  \<open>in_flight\<close> lists the batches taken whose handler call is pending, \<open>taken\<close> logs every batch in
  the order taken and \<open>handled\<close> the handler calls in the order made.
\<close>

record MessageBatcher =
  mbtCfg :: BatchConfig
  pipelines :: "string \<rightharpoonup> chatPipeline"
  goroutines :: "string \<Rightarrow> nat"
  in_flight :: "(string \<times> IncomingMessage list) list"
  taken :: "(string \<times> IncomingMessage list) list"
  handled :: "BatchedMessage list"

definition NewMessageBatcher :: "BatchConfig \<Rightarrow> MessageBatcher" where
  "NewMessageBatcher cfg = \<lparr>mbtCfg = cfg, pipelines = Map.empty, goroutines = (\<lambda>_. 0),
     in_flight = [], taken = [], handled = []\<rparr>"

definition batch_scope :: "IncomingMessage \<Rightarrow> string" where
  "batch_scope msg = (if msg_chat msg = [] then msg_id msg else msg_chat msg)"

definition mbt_getOrCreate :: "string \<Rightarrow> MessageBatcher \<Rightarrow> chatPipeline" where
  "mbt_getOrCreate scope b =
     (case pipelines b scope of Some p \<Rightarrow> p | None \<Rightarrow> newChatPipeline (mbtCfg b) scope)"

definition spawn :: "string \<Rightarrow> chatPipeline \<times> bool \<Rightarrow> MessageBatcher \<Rightarrow> MessageBatcher" where
  "spawn scope r b = b\<lparr>pipelines := (pipelines b)(scope \<mapsto> fst r),
     goroutines := (goroutines b)(scope := goroutines b scope + (if snd r then 1 else 0))\<rparr>"

datatype mbt_event =
    MPush IncomingMessage | MTimer string | MFlushNow string | MTake string | MHandle nat | MDispose

fun mbt_step :: "mbt_event \<Rightarrow> MessageBatcher \<Rightarrow> MessageBatcher option" where
  "mbt_step (MPush msg) b =
     Some (spawn (batch_scope msg) (cp_Push msg (mbt_getOrCreate (batch_scope msg) b)) b)"
| "mbt_step (MTimer s) b =
     (case pipelines b s of None \<Rightarrow> None | Some p \<Rightarrow> Some (spawn s (cp_timer_callback p) b))"
| "mbt_step (MFlushNow s) b =
     (case pipelines b s of None \<Rightarrow> None | Some p \<Rightarrow> Some (spawn s (cp_FlushNow p) b))"
| "mbt_step (MTake s) b =
     (case pipelines b s of
        None \<Rightarrow> None
      | Some p \<Rightarrow>
          if goroutines b s = 0 then None
          else
            (let (p', batch) = cp_flush p;
                 b' = b\<lparr>pipelines := (pipelines b)(s \<mapsto> p'), goroutines := (goroutines b)(s := goroutines b s - 1)\<rparr>
             in Some (if batch = [] then b'
                      else b'\<lparr>in_flight := in_flight b' @ [(s, batch)], taken := taken b' @ [(s, batch)]\<rparr>)))"
| "mbt_step (MHandle i) b =
     (if i < length (in_flight b)
      then Some (b\<lparr>in_flight := take i (in_flight b) @ drop (Suc i) (in_flight b),
                   handled := handled b @ [cp_dispatch (snd (in_flight b ! i))]\<rparr>)
      else None)"
| "mbt_step MDispose b = Some (b\<lparr>pipelines := Map.empty\<rparr>)"

fun mbt_run :: "mbt_event list \<Rightarrow> MessageBatcher \<Rightarrow> MessageBatcher option" where
  "mbt_run [] b = Some b"
| "mbt_run (e # es) b = (case mbt_step e b of None \<Rightarrow> None | Some b' \<Rightarrow> mbt_run es b')"

section \<open>Invariant\<close>

fun pushed_to :: "string \<Rightarrow> mbt_event list \<Rightarrow> IncomingMessage list" where
  "pushed_to s [] = []"
| "pushed_to s (MPush m # es) = (if batch_scope m = s then m # pushed_to s es else pushed_to s es)"
| "pushed_to s (_ # es) = pushed_to s es"

definition buffer_of :: "string \<Rightarrow> MessageBatcher \<Rightarrow> IncomingMessage list" where
  "buffer_of s b = (case pipelines b s of None \<Rightarrow> [] | Some p \<Rightarrow> cpBuffer p)"

definition taken_of :: "string \<Rightarrow> MessageBatcher \<Rightarrow> IncomingMessage list list" where
  "taken_of s b = map snd (filter (\<lambda>p. fst p = s) (taken b))"

definition cp_ok :: "BatchConfig \<Rightarrow> nat \<Rightarrow> chatPipeline \<Rightarrow> bool" where
  "cp_ok cfg n p \<longleftrightarrow> cpCfg p = cfg
     \<and> cpChars p = (\<Sum>m \<leftarrow> cpBuffer p. int (length (msg_text m)))
     \<and> (cpBuffer p \<noteq> [] \<longrightarrow> cpTimer p \<noteq> None \<or> 0 < n)"

definition pipelines_ok :: "MessageBatcher \<Rightarrow> bool" where
  "pipelines_ok b \<longleftrightarrow> (\<forall>s p. pipelines b s = Some p \<longrightarrow> cp_ok (mbtCfg b) (goroutines b s) p)"

definition all_handled_once :: "MessageBatcher \<Rightarrow> bool" where
  "all_handled_once b \<longleftrightarrow>
     mset (handled b) + mset (map (cp_dispatch \<circ> snd) (in_flight b)) = mset (map (cp_dispatch \<circ> snd) (taken b))"

definition mbt_inv :: "MessageBatcher \<Rightarrow> bool" where
  "mbt_inv b \<longleftrightarrow> pipelines_ok b \<and> all_handled_once b"

lemma mbt_inv_new: "mbt_inv (NewMessageBatcher cfg)"
  by (simp add: mbt_inv_def pipelines_ok_def all_handled_once_def NewMessageBatcher_def)

lemma mset_nth_split: "i < length xs \<Longrightarrow> mset xs = add_mset (xs ! i) (mset (take i xs @ drop (Suc i) xs))"
  by (metis id_take_nth_drop mset_append mset.simps(2) union_mset_add_mset_right)

lemma pipelines_ok_spawn:
  "pipelines_ok b \<Longrightarrow> cp_ok (mbtCfg b) (goroutines b s + (if snd r then 1 else 0)) (fst r) \<Longrightarrow> pipelines_ok (spawn s r b)"
  by (cases "snd r") (simp_all add: pipelines_ok_def spawn_def)

lemma cp_ok_getOrCreate: "pipelines_ok b \<Longrightarrow> cp_ok (mbtCfg b) (goroutines b s) (mbt_getOrCreate s b)"
  by (simp add: pipelines_ok_def mbt_getOrCreate_def newChatPipeline_def cp_ok_def split: option.split)

lemma cp_ok_Push: "cp_ok cfg n p \<Longrightarrow> cp_ok cfg (n + (if snd (cp_Push m p) then 1 else 0)) (fst (cp_Push m p))"
  by (simp add: cp_ok_def cp_Push_def cp_clearTimer_def Let_def)

lemma cp_ok_callback:
  "cp_ok cfg n p \<Longrightarrow> cp_ok cfg (n + (if snd (cp_timer_callback p) then 1 else 0)) (fst (cp_timer_callback p))"
  "cp_ok cfg n p \<Longrightarrow> cp_ok cfg (n + (if snd (cp_FlushNow p) then 1 else 0)) (fst (cp_FlushNow p))"
  by (simp_all add: cp_ok_def cp_timer_callback_def cp_FlushNow_def cp_clearTimer_def)

lemma cp_ok_flush: "cp_ok cfg n p \<Longrightarrow> cp_ok cfg k (fst (cp_flush p))"
  by (simp add: cp_ok_def cp_flush_def)

lemma pipelines_ok_step:
  assumes ok: "pipelines_ok b" and step: "mbt_step e b = Some b'"
  shows "pipelines_ok b'"
proof (cases e)
  case (MPush m)
  then show ?thesis
    using step pipelines_ok_spawn [OF ok cp_ok_Push [OF cp_ok_getOrCreate [OF ok]]] by auto
next
  case (MTimer s)
  then show ?thesis
    using step ok pipelines_ok_spawn [OF ok cp_ok_callback(1)]
    by (auto simp: pipelines_ok_def [of b] split: option.splits)
next
  case (MFlushNow s)
  then show ?thesis
    using step ok pipelines_ok_spawn [OF ok cp_ok_callback(2)]
    by (auto simp: pipelines_ok_def [of b] split: option.splits)
next
  case (MTake s)
  then show ?thesis
    using step ok cp_ok_flush
    by (auto simp: pipelines_ok_def Let_def split: option.splits if_splits prod.splits) (metis fst_conv)+
qed (use step ok in \<open>auto simp: pipelines_ok_def split: if_splits\<close>)

lemma handled_once_step:
  assumes ok: "all_handled_once b" and step: "mbt_step e b = Some b'"
  shows "all_handled_once b'"
proof (cases e)
  case (MHandle i)
  then show ?thesis
    using step ok mset_nth_split [of i "map (cp_dispatch \<circ> snd) (in_flight b)"]
    by (auto simp: all_handled_once_def take_map drop_map split: if_splits)
qed (use step ok in \<open>auto simp: all_handled_once_def spawn_def cp_flush_def Let_def split: option.splits if_splits\<close>)

lemma mbt_inv_step: "mbt_inv b \<Longrightarrow> mbt_step e b = Some b' \<Longrightarrow> mbt_inv b'"
  by (auto simp: mbt_inv_def intro: pipelines_ok_step handled_once_step)

lemma mbt_inv_run: "mbt_run es b = Some b' \<Longrightarrow> mbt_inv b \<Longrightarrow> mbt_inv b'"
  by (induction es b rule: mbt_run.induct) (auto split: option.splits dest: mbt_inv_step)

text \<open>A step appends the pushed message to what its scope has taken and buffered, and nothing else.\<close>

lemma mbt_conserves:
  "mbt_step e b = Some b' \<Longrightarrow> e \<noteq> MDispose \<Longrightarrow>
   concat (taken_of s b') @ buffer_of s b' = concat (taken_of s b) @ buffer_of s b @ pushed_to s [e]"
  by (cases e) (auto simp: spawn_def cp_Push_def cp_clearTimer_def mbt_getOrCreate_def cp_flush_def
      cp_timer_callback_def cp_FlushNow_def newChatPipeline_def taken_of_def buffer_of_def Let_def
      split: option.splits if_splits)

lemma pushed_to_Cons: "pushed_to s (e # es) = pushed_to s [e] @ pushed_to s es"
  by (cases e) auto

interpretation mbt: coalescer mbt_step "\<lambda>b. concat (taken_of s b)" "buffer_of s"
  "\<lambda>e. pushed_to s [e]" "\<lambda>e. e \<noteq> MDispose" mbt_inv for s
  by unfold_locales (simp_all add: mbt_conserves mbt_inv_step)

lemma mbt_run_eq: "mbt_run es b = mbt.run es b"
  by (induction es arbitrary: b) (auto split: option.split)

lemma pushed_to_concat: "pushed_to s es = concat (map (\<lambda>e. pushed_to s [e]) es)"
  by (induction es) (simp, metis concat.simps(2) list.simps(9) pushed_to_Cons)

lemma mbt_run_conserves:
  "mbt_run es b = Some b' \<Longrightarrow> MDispose \<notin> set es \<Longrightarrow> mbt_inv b \<Longrightarrow>
   concat (taken_of s b') @ buffer_of s b' = concat (taken_of s b) @ buffer_of s b @ pushed_to s es"
  using mbt.run_conserves [of es b b' s]
  by (simp add: mbt_run_eq pushed_to_concat [of s es] list_all_iff) (metis (full_types))

section \<open>Properties\<close>

text \<open>
  The two merge functions of the code agree on the text and on every field but the resources,
  the mentions and the mention-all flag: those the batcher takes from the last message only.
\<close>

theorem merge_functions_agree:
  assumes "batch \<noteq> []"
  shows "\<exists>m. mergeMessages batch = Some m
    \<and> msg_text m = msg_text (mergeBatchMessages batch)
    \<and> body m = (body (mergeBatchMessages batch))\<lparr>MentionAll := MentionAll (body (last batch)),
        Resources := Resources (body (last batch)), Mentions := Mentions (body (last batch))\<rparr>"
proof (cases "length batch = 1")
  case True
  then obtain m where "batch = [m]" by (cases batch) auto
  then show ?thesis by (simp add: mergeMessages_def)
next
  case False
  have "msg_text (last batch) = []" if "filter (\<lambda>t. t \<noteq> []) (map msg_text batch) = []"
    using that assms by (auto simp: filter_empty_conv)
  then show ?thesis
    using False assms
    by (cases "filter (\<lambda>t. t \<noteq> []) (map msg_text batch) = []")
      (simp_all add: mergeMessages_def mergeBatchMessages_def Let_def joinTexts_eq)
qed

theorem merge_functions_agree_witness:
  "\<exists>m. mergeMessages [sample_msg ''m1'' ''c'' ''a'', sample_msg ''m2'' ''c'' ''b''] = Some m
    \<and> msg_text m = msg_text (mergeBatchMessages [sample_msg ''m1'' ''c'' ''a'', sample_msg ''m2'' ''c'' ''b''])"
  using merge_functions_agree [of "[sample_msg ''m1'' ''c'' ''a'', sample_msg ''m2'' ''c'' ''b'']"] by blast

text \<open>
  The batcher conserves messages: for every scope and every interleaving before its disposal, the
  batches taken so far followed by the buffer are the pushed messages in order; a non-empty
  buffer has a timer or a flush goroutine to empty it; and every batch taken is handled exactly
  once or still on its way to the handler.
\<close>

theorem batcher_conserves:
  assumes "mbt_run es (NewMessageBatcher cfg) = Some b" and "MDispose \<notin> set es"
  shows "concat (taken_of s b) @ buffer_of s b = pushed_to s es
    \<and> (buffer_of s b \<noteq> [] \<longrightarrow> (\<exists>p. pipelines b s = Some p \<and> (cpTimer p \<noteq> None \<or> 0 < goroutines b s)))
    \<and> mset (handled b) + mset (map (cp_dispatch \<circ> snd) (in_flight b)) = mset (map (cp_dispatch \<circ> snd) (taken b))"
proof -
  have "mbt_inv b" using mbt_inv_run [OF assms(1) mbt_inv_new] .
  moreover have "concat (taken_of s b) @ buffer_of s b = pushed_to s es"
    using mbt_run_conserves [OF assms mbt_inv_new, of s]
    by (simp add: NewMessageBatcher_def taken_of_def buffer_of_def)
  ultimately show ?thesis
    by (auto simp: mbt_inv_def pipelines_ok_def all_handled_once_def cp_ok_def buffer_of_def split: option.splits)
qed

text \<open>A run in which the second of two batches of one conversation is handled before the first.\<close>

definition batcher_demo :: "mbt_event list" where
  "batcher_demo = [MPush (sample_msg ''m1'' ''c'' ''a''), MPush (sample_msg ''m2'' ''c'' ''b''), MTake ''c'',
     MPush (sample_msg ''m3'' ''c'' ''d''), MFlushNow ''c'', MTake ''c'', MHandle 1, MHandle 0]"

definition batcher_demo_end :: MessageBatcher where
  "batcher_demo_end = the (mbt_run batcher_demo (NewMessageBatcher demo_batch_cfg))"

lemma batcher_demo_run: "mbt_run batcher_demo (NewMessageBatcher demo_batch_cfg) = Some batcher_demo_end"
  and batches_out_of_order: "map bmSourceIDs (handled batcher_demo_end) = [[''m3''], [''m1'', ''m2'']]"
  by (simp_all add: batcher_demo_end_def batcher_demo_def NewMessageBatcher_def demo_batch_cfg_def spawn_def
      cp_Push_def cp_clearTimer_def mbt_getOrCreate_def cp_flush_def cp_FlushNow_def cp_dispatch_def
      newChatPipeline_def batch_scope_def sample_msg_def empty_fields_def Let_def)

theorem batcher_conserves_witness:
  "concat (taken_of ''c'' batcher_demo_end) @ buffer_of ''c'' batcher_demo_end
     = [sample_msg ''m1'' ''c'' ''a'', sample_msg ''m2'' ''c'' ''b'', sample_msg ''m3'' ''c'' ''d'']"
  using batcher_conserves [OF batcher_demo_run, of "''c''"]
  by (simp add: batcher_demo_def batch_scope_def sample_msg_def empty_fields_def)

end
