(* ===== verification/StaleDetector.thy ===== *)
theory StaleDetector
  imports Types
begin

text \<open>
  \<open>internal/safety/stale_detector.go\<close>: messages older than a window are stale. The clock is the
  argument \<open>now\<close>; \<open>CreateAt\<close> is in milliseconds, and zero or negative means unknown.
\<close>

record StaleDetector =
  window :: duration

definition NewStaleDetector :: "duration \<Rightarrow> StaleDetector" where
  "NewStaleDetector w = \<lparr>window = (if w \<le> 0 then 30 * Minute else w)\<rparr>"

definition IsStale :: "StaleDetector \<Rightarrow> time \<Rightarrow> int \<Rightarrow> bool" where
  "IsStale s now createAtMs =
     (if createAtMs \<le> 0 then False
      else let createTime = UnixMilli_time createAtMs; age = time_sub now createTime
           in age > window s)"

lemma NewStaleDetector_pos: "0 < window (NewStaleDetector w)"
  by (simp add: NewStaleDetector_def)

lemma window_NewStaleDetector: "0 < w \<Longrightarrow> window (NewStaleDetector w) = w"
  by (simp add: NewStaleDetector_def)

lemma IsStale_unknown: "createAtMs \<le> 0 \<Longrightarrow> \<not> IsStale s now createAtMs"
  by (simp add: IsStale_def)

text \<open>In a detector with a representable window the saturating subtraction does not show.\<close>

lemma IsStale_iff:
  assumes "0 \<le> window s" and "window s < max_int64"
  shows "IsStale s now ms \<longleftrightarrow> 0 < ms \<and> window s < now - ms * Millisecond"
  using assms by (auto simp: IsStale_def UnixMilli_time_def Let_def time_sub_gt min_int64_def)

text \<open>Once stale, always stale: a redelivery cannot pass the filter its predecessor failed.\<close>

lemma IsStale_mono: "IsStale s now ms \<Longrightarrow> now \<le> now' \<Longrightarrow> IsStale s now' ms"
  by (auto simp: IsStale_def Let_def time_sub_def split: if_splits)

section \<open>Properties\<close>

text \<open>
  A message is stale exactly when its creation time is known and lies more than the window (30
  minutes by default) in the past; a message from the future, or one without a time, is never stale.
\<close>

theorem stale_iff:
  assumes "w < max_int64"
  shows "IsStale (NewStaleDetector w) now createAtMs \<longleftrightarrow>
     0 < createAtMs \<and> (if w \<le> 0 then 30 * Minute else w) < now - createAtMs * Millisecond"
  using assms NewStaleDetector_pos [of w]
  by (subst IsStale_iff) (auto simp: NewStaleDetector_def max_int64_def)

theorem stale_iff_witness:
  "IsStale (NewStaleDetector 0) (10 * Hour) (unix_milli (9 * Hour))
   \<and> \<not> IsStale (NewStaleDetector (2 * Hour)) (10 * Hour) (unix_milli (9 * Hour))"
  by (simp add: stale_iff max_int64_def unix_milli_def)

end
