(* ===== verification/PolicyGate.thy ===== *)
theory PolicyGate
  imports Types
begin

text \<open>
  \<open>internal/safety/policy_gate.go\<close>: the admission policy. \<open>Evaluate\<close> and its helpers are
  translated check by check. Below them stands an independent specification: a list of named
  checks in order, each with the condition under which it rejects, and the theorem that
  \<open>Evaluate\<close> reports exactly the least violated check.
\<close>

section \<open>The gate\<close>

record PolicyGate =
  gateCfg :: PolicyConfig
  gateBot :: "BotIdentity option"

definition NewPolicyGate :: "PolicyConfig \<Rightarrow> PolicyGate" where
  "NewPolicyGate c = \<lparr>gateCfg = c, gateBot = None\<rparr>"

definition NewPolicyGateWithBot :: "PolicyConfig \<Rightarrow> BotIdentity option \<Rightarrow> PolicyGate" where
  "NewPolicyGateWithBot c b = \<lparr>gateCfg = c, gateBot = b\<rparr>"

definition UpdateConfig :: "PolicyConfig \<Rightarrow> PolicyGate \<Rightarrow> PolicyGate" where
  "UpdateConfig c pg = pg\<lparr>gateCfg := c\<rparr>"

definition GetConfig :: "PolicyGate \<Rightarrow> PolicyConfig" where
  "GetConfig pg = gateCfg pg"

definition SetBotIdentity :: "BotIdentity option \<Rightarrow> PolicyGate \<Rightarrow> PolicyGate" where
  "SetBotIdentity b pg = pg\<lparr>gateBot := b\<rparr>"

definition GetBotIdentity :: "PolicyGate \<Rightarrow> BotIdentity option" where
  "GetBotIdentity pg = gateBot pg"

text \<open>The loops \<open>for _, id := range xs { if id == x { return true } }\<close>.\<close>

fun in_list :: "string \<Rightarrow> string list \<Rightarrow> bool" where
  "in_list x [] = False"
| "in_list x (y # ys) = (if y = x then True else in_list x ys)"

definition isAdmin :: "PolicyGate \<Rightarrow> string \<Rightarrow> bool" where
  "isAdmin pg staffID = (if staffID = '''' then False else in_list staffID (Admins (gateCfg pg)))"

definition isDenied :: "PolicyGate \<Rightarrow> string \<Rightarrow> bool" where
  "isDenied pg staffID = (if staffID = '''' then False else in_list staffID (DenyFrom (gateCfg pg)))"

definition isInAllowFrom :: "PolicyGate \<Rightarrow> string \<Rightarrow> bool" where
  "isInAllowFrom pg staffID =
     (if staffID = '''' then False else in_list staffID (AllowFrom (gateCfg pg)))"

abbreviation allow :: PolicyDecision where
  "allow \<equiv> \<lparr>Allowed = True, Reason = ReasonNone\<rparr>"

abbreviation reject :: "RejectReason \<Rightarrow> PolicyDecision" where
  "reject r \<equiv> \<lparr>Allowed = False, Reason = r\<rparr>"

definition evaluateGroup :: "PolicyGate \<Rightarrow> message_fields \<Rightarrow> PolicyDecision" where
  "evaluateGroup pg msg =
    (let cfg = gateCfg pg in
     if in_list (ConversationID msg) (GroupBlocklist cfg) then reject GroupBlocked
     else
       let ov = GroupOverrides cfg (ConversationID msg) in
       if GroupAllowlist cfg \<noteq> [] \<and> \<not> in_list (ConversationID msg) (GroupAllowlist cfg) \<and> ov = None
       then reject GroupNotAllowed
       else if (case ov of Some g \<Rightarrow> ovEnabled g = Some False | None \<Rightarrow> False)
       then reject GroupDisabled
       else
         let requireMention =
               (case Option.bind ov ovRequireMention of
                  Some b \<Rightarrow> b
                | None \<Rightarrow> (case RequireMention cfg of Some b \<Rightarrow> b | None \<Rightarrow> True))
         in
         if requireMention \<and> \<not> IsInAtList msg then reject NoMention
         else if (case ov of Some g \<Rightarrow> in_list (SenderID msg) (ovBlockFrom g) | None \<Rightarrow> False)
         then reject SenderBlocked
         else if (case ov of
                    Some g \<Rightarrow> ovAllowFrom g \<noteq> [] \<and> \<not> in_list (SenderID msg) (ovAllowFrom g)
                  | None \<Rightarrow> False)
         then reject SenderNotAllowed
         else
           let respondToMentionAll =
                 (case Option.bind ov ovRespondToMentionAll of
                    Some b \<Rightarrow> b
                  | None \<Rightarrow> (case RespondToMentionAll cfg of Some b \<Rightarrow> b | None \<Rightarrow> False))
           in
           if MentionAll msg \<and> \<not> respondToMentionAll then reject MentionAllBlocked
           else allow)"

definition evaluateDM :: "PolicyGate \<Rightarrow> message_fields \<Rightarrow> PolicyDecision" where
  "evaluateDM pg msg =
    (let cfg = gateCfg pg;
         mode = (if DMMode cfg = '''' then ''open'' else DMMode cfg)
     in
     if mode = ''disabled'' then reject DMDisabled
     else if mode = ''allowlist'' then
       (if \<not> in_list (SenderID msg) (DMAllowlist cfg) then reject DMNotAllowed else allow)
     else if mode = ''blocklist'' then
       (if in_list (SenderID msg) (DMBlocklist cfg) then reject DMBlocked else allow)
     else allow)"

definition Evaluate :: "PolicyGate \<Rightarrow> message_fields \<Rightarrow> PolicyDecision" where
  "Evaluate pg msg =
    (if isAdmin pg (SenderStaffID msg) then allow
     else if isDenied pg (SenderStaffID msg) then reject SenderDenied
     else if AllowFrom (gateCfg pg) \<noteq> [] \<and> \<not> isInAllowFrom pg (SenderStaffID msg)
     then reject SenderNotAllowed
     else if ConversationKind msg = ConversationTypeGroup then evaluateGroup pg msg
     else evaluateDM pg msg)"

lemma in_list_iff [simp]: "in_list x xs \<longleftrightarrow> x \<in> set xs"
  by (induction xs) auto

section \<open>The specification: the least violated check\<close>

text \<open>One constructor per check of the policy, in the documented order of evaluation.\<close>

datatype policy_check =
    CkSenderDenied | CkSenderAllow
  | CkGroupBlocked | CkGroupAllow | CkGroupEnabled | CkMention | CkGroupSenderBlocked
  | CkGroupSenderAllow | CkMentionAll
  | CkDMDisabled | CkDMAllow | CkDMBlocked

definition policy_checks :: "policy_check list" where
  "policy_checks = [CkSenderDenied, CkSenderAllow, CkGroupBlocked, CkGroupAllow, CkGroupEnabled,
     CkMention, CkGroupSenderBlocked, CkGroupSenderAllow, CkMentionAll,
     CkDMDisabled, CkDMAllow, CkDMBlocked]"

fun check_rank :: "policy_check \<Rightarrow> nat" where
  "check_rank CkSenderDenied = 0"
| "check_rank CkSenderAllow = 1"
| "check_rank CkGroupBlocked = 2"
| "check_rank CkGroupAllow = 3"
| "check_rank CkGroupEnabled = 4"
| "check_rank CkMention = 5"
| "check_rank CkGroupSenderBlocked = 6"
| "check_rank CkGroupSenderAllow = 7"
| "check_rank CkMentionAll = 8"
| "check_rank CkDMDisabled = 9"
| "check_rank CkDMAllow = 10"
| "check_rank CkDMBlocked = 11"

lemma check_rank_inj: "check_rank c = check_rank d \<Longrightarrow> c = d"
  by (cases c) (cases d; simp)+

text \<open>Checks are ordered by their place in the evaluation.\<close>

instantiation policy_check :: linorder
begin

definition less_eq_policy_check :: "policy_check \<Rightarrow> policy_check \<Rightarrow> bool" where
  "c \<le> d \<longleftrightarrow> check_rank c \<le> check_rank d"

definition less_policy_check :: "policy_check \<Rightarrow> policy_check \<Rightarrow> bool" where
  "c < d \<longleftrightarrow> check_rank c < check_rank d"

instance
  by standard (auto simp: less_eq_policy_check_def less_policy_check_def dest: check_rank_inj)

end

fun check_reason :: "policy_check \<Rightarrow> RejectReason" where
  "check_reason CkSenderDenied = SenderDenied"
| "check_reason CkSenderAllow = SenderNotAllowed"
| "check_reason CkGroupBlocked = GroupBlocked"
| "check_reason CkGroupAllow = GroupNotAllowed"
| "check_reason CkGroupEnabled = GroupDisabled"
| "check_reason CkMention = NoMention"
| "check_reason CkGroupSenderBlocked = SenderBlocked"
| "check_reason CkGroupSenderAllow = SenderNotAllowed"
| "check_reason CkMentionAll = MentionAllBlocked"
| "check_reason CkDMDisabled = DMDisabled"
| "check_reason CkDMAllow = DMNotAllowed"
| "check_reason CkDMBlocked = DMBlocked"

text \<open>The effective value of a tri-state setting: the group's, else the global one, else a default.\<close>

definition effective :: "bool \<Rightarrow> bool option \<Rightarrow> bool option \<Rightarrow> bool" where
  "effective dflt global grp = (case grp of Some b \<Rightarrow> b | None \<Rightarrow> (case global of Some b \<Rightarrow> b | None \<Rightarrow> dflt))"

abbreviation is_group :: "message_fields \<Rightarrow> bool" where
  "is_group msg \<equiv> ConversationKind msg = ConversationTypeGroup"

text \<open>When a check rejects a message, each stated on its own, without the order of the others.\<close>

fun violated :: "PolicyConfig \<Rightarrow> message_fields \<Rightarrow> policy_check \<Rightarrow> bool" where
  "violated cfg msg CkSenderDenied =
     (SenderStaffID msg \<noteq> '''' \<and> SenderStaffID msg \<in> set (DenyFrom cfg))"
| "violated cfg msg CkSenderAllow =
     (AllowFrom cfg \<noteq> [] \<and> (SenderStaffID msg = '''' \<or> SenderStaffID msg \<notin> set (AllowFrom cfg)))"
| "violated cfg msg CkGroupBlocked =
     (is_group msg \<and> ConversationID msg \<in> set (GroupBlocklist cfg))"
| "violated cfg msg CkGroupAllow =
     (is_group msg \<and> GroupAllowlist cfg \<noteq> [] \<and> ConversationID msg \<notin> set (GroupAllowlist cfg)
      \<and> ConversationID msg \<notin> dom (GroupOverrides cfg))"
| "violated cfg msg CkGroupEnabled =
     (is_group msg \<and> Option.bind (GroupOverrides cfg (ConversationID msg)) ovEnabled = Some False)"
| "violated cfg msg CkMention =
     (is_group msg \<and> \<not> IsInAtList msg
      \<and> effective True (RequireMention cfg) (Option.bind (GroupOverrides cfg (ConversationID msg)) ovRequireMention))"
| "violated cfg msg CkGroupSenderBlocked =
     (is_group msg \<and> (case GroupOverrides cfg (ConversationID msg) of
        None \<Rightarrow> False | Some g \<Rightarrow> SenderID msg \<in> set (ovBlockFrom g)))"
| "violated cfg msg CkGroupSenderAllow =
     (is_group msg \<and> (case GroupOverrides cfg (ConversationID msg) of
        None \<Rightarrow> False | Some g \<Rightarrow> ovAllowFrom g \<noteq> [] \<and> SenderID msg \<notin> set (ovAllowFrom g)))"
| "violated cfg msg CkMentionAll =
     (is_group msg \<and> MentionAll msg
      \<and> \<not> effective False (RespondToMentionAll cfg) (Option.bind (GroupOverrides cfg (ConversationID msg)) ovRespondToMentionAll))"
| "violated cfg msg CkDMDisabled = (\<not> is_group msg \<and> DMMode cfg = ''disabled'')"
| "violated cfg msg CkDMAllow =
     (\<not> is_group msg \<and> DMMode cfg = ''allowlist'' \<and> SenderID msg \<notin> set (DMAllowlist cfg))"
| "violated cfg msg CkDMBlocked =
     (\<not> is_group msg \<and> DMMode cfg = ''blocklist'' \<and> SenderID msg \<in> set (DMBlocklist cfg))"

definition policy_admin :: "PolicyConfig \<Rightarrow> message_fields \<Rightarrow> bool" where
  "policy_admin cfg msg \<longleftrightarrow> SenderStaffID msg \<noteq> '''' \<and> SenderStaffID msg \<in> set (Admins cfg)"

definition policy_spec :: "PolicyConfig \<Rightarrow> message_fields \<Rightarrow> PolicyDecision" where
  "policy_spec cfg msg =
     (let vs = filter (violated cfg msg) policy_checks in
      if policy_admin cfg msg \<or> vs = [] then allow
      else reject (check_reason (Min (set vs))))"

section \<open>Evaluate meets the specification\<close>

lemma policy_checks_complete: "c \<in> set policy_checks"
  by (cases c) (simp_all add: policy_checks_def)

lemma sorted_policy_checks: "sorted policy_checks"
  by (simp add: policy_checks_def less_eq_policy_check_def)

lemma Min_sorted_hd: "sorted xs \<Longrightarrow> xs \<noteq> [] \<Longrightarrow> Min (set xs) = hd (xs :: policy_check list)"
  by (cases xs) (auto intro: Min_eqI)

definition first_violation :: "PolicyConfig \<Rightarrow> message_fields \<Rightarrow> policy_check option" where
  "first_violation cfg msg = find (violated cfg msg) policy_checks"

lemma find_eq_hd_filter: "find P xs = (case filter P xs of [] \<Rightarrow> None | x # _ \<Rightarrow> Some x)"
  by (induction xs) auto

lemma policy_spec_find:
  "policy_spec cfg msg =
     (if policy_admin cfg msg then allow
      else case first_violation cfg msg of None \<Rightarrow> allow | Some c \<Rightarrow> reject (check_reason c))"
proof -
  let ?vs = "filter (violated cfg msg) policy_checks"
  have "sorted ?vs"
    using sorted_policy_checks by (rule sorted_wrt_filter)
  then show ?thesis
    using Min_sorted_hd [of ?vs] unfolding policy_spec_def Let_def first_violation_def find_eq_hd_filter
    by (cases ?vs) (simp_all del: set_filter)
qed

lemma case_find:
  "(case find P [] of None \<Rightarrow> a | Some c \<Rightarrow> f c) = a"
  "(case find P (x # xs) of None \<Rightarrow> a | Some c \<Rightarrow> f c) =
     (if P x then f x else case find P xs of None \<Rightarrow> a | Some c \<Rightarrow> f c)"
  by auto

lemma evaluateDM_find:
  "\<not> is_group msg \<Longrightarrow>
   evaluateDM pg msg = (case find (violated (gateCfg pg) msg) [CkDMDisabled, CkDMAllow, CkDMBlocked]
     of None \<Rightarrow> allow | Some c \<Rightarrow> reject (check_reason c))"
  by (auto simp: evaluateDM_def Let_def)

lemma evaluateGroup_find:
  assumes "is_group msg"
  shows "evaluateGroup pg msg = (case find (violated (gateCfg pg) msg)
       [CkGroupBlocked, CkGroupAllow, CkGroupEnabled, CkMention, CkGroupSenderBlocked,
        CkGroupSenderAllow, CkMentionAll]
     of None \<Rightarrow> allow | Some c \<Rightarrow> reject (check_reason c))"
proof (cases "GroupOverrides (gateCfg pg) (ConversationID msg)")
  case None
  with assms show ?thesis
    unfolding case_find evaluateGroup_def Let_def
    by (simp add: effective_def dom_def conj_commute cong: if_cong split del: if_split)
next
  case (Some g)
  with assms show ?thesis
    unfolding case_find evaluateGroup_def Let_def
    by (simp add: effective_def dom_def conj_commute cong: if_cong split del: if_split)
qed

lemma Evaluate_spec: "Evaluate pg msg = policy_spec (gateCfg pg) msg"
proof (cases "is_group msg")
  case True
  then show ?thesis
    unfolding Evaluate_def policy_spec_find first_violation_def policy_checks_def
    by (simp add: evaluateGroup_find isAdmin_def isDenied_def isInAllowFrom_def policy_admin_def
        split: option.split)
next
  case False
  then show ?thesis
    unfolding Evaluate_def policy_spec_find first_violation_def policy_checks_def
    by (simp add: evaluateDM_find isAdmin_def isDenied_def isInAllowFrom_def policy_admin_def
        split: option.split)
qed

section \<open>Properties\<close>

text \<open>
  C12. A message passes the policy exactly when its sender is an administrator or none of the twelve
  documented checks objects; otherwise it is rejected for the least violated check, in the
  documented order (deny list, allow list, group block list, group allow list, group disabled,
  mention, group senders, mention-all, direct-message mode).
\<close>

theorem policy_decision:
  "(Allowed (Evaluate pg msg) \<longleftrightarrow> policy_admin (gateCfg pg) msg \<or> (\<forall>c. \<not> violated (gateCfg pg) msg c))
   \<and> (\<not> Allowed (Evaluate pg msg) \<longrightarrow>
        (\<exists>c. violated (gateCfg pg) msg c \<and> Reason (Evaluate pg msg) = check_reason c
             \<and> (\<forall>c'. violated (gateCfg pg) msg c' \<longrightarrow> c \<le> c')))"
proof -
  let ?vs = "filter (violated (gateCfg pg) msg) policy_checks"
  have vs: "c \<in> set ?vs \<longleftrightarrow> violated (gateCfg pg) msg c" for c
    using policy_checks_complete by simp
  have min: "violated (gateCfg pg) msg (Min (set ?vs)) \<and> (\<forall>c'. violated (gateCfg pg) msg c' \<longrightarrow> Min (set ?vs) \<le> c')"
    if "?vs \<noteq> []"
    using that vs Min_in [of "set ?vs"] Min_le [of "set ?vs"] by (metis List.finite_set set_empty)
  have empty: "?vs = [] \<longleftrightarrow> (\<forall>c. \<not> violated (gateCfg pg) msg c)"
    using vs by (metis empty_iff list.set(1) list.set_intros(1) neq_Nil_conv)
  show ?thesis
  proof (cases "policy_admin (gateCfg pg) msg \<or> ?vs = []")
    case True
    then have "Evaluate pg msg = allow" by (auto simp: Evaluate_spec policy_spec_def Let_def)
    with True empty show ?thesis by simp
  next
    case False
    then have "Evaluate pg msg = reject (check_reason (Min (set ?vs)))"
      by (simp add: Evaluate_spec policy_spec_def Let_def)
    with False empty min show ?thesis by auto
  qed
qed

definition demo_policy :: PolicyConfig where
  "demo_policy = zero_PolicyConfig\<lparr>DenyFrom := [''s1'', ''s2''], Admins := [''s2''], GroupBlocklist := [''g'']\<rparr>"

theorem policy_decision_witness:
  "Allowed (Evaluate (NewPolicyGate demo_policy) (empty_fields\<lparr>SenderStaffID := ''s2'', ConversationID := ''g''\<rparr>))
   \<and> (\<exists>c. violated demo_policy (empty_fields\<lparr>SenderStaffID := ''s1''\<rparr>) c
        \<and> Reason (Evaluate (NewPolicyGate demo_policy) (empty_fields\<lparr>SenderStaffID := ''s1''\<rparr>)) = check_reason c)"
proof -
  have "policy_admin demo_policy (empty_fields\<lparr>SenderStaffID := ''s2'', ConversationID := ''g''\<rparr>)"
    by (simp add: policy_admin_def demo_policy_def)
  moreover have "\<not> Allowed (Evaluate (NewPolicyGate demo_policy) (empty_fields\<lparr>SenderStaffID := ''s1''\<rparr>))"
    by (simp add: Evaluate_def isAdmin_def isDenied_def demo_policy_def NewPolicyGate_def zero_PolicyConfig_def)
  ultimately show ?thesis
    using policy_decision [of "NewPolicyGate demo_policy" "empty_fields\<lparr>SenderStaffID := ''s2'', ConversationID := ''g''\<rparr>"]
      policy_decision [of "NewPolicyGate demo_policy" "empty_fields\<lparr>SenderStaffID := ''s1''\<rparr>"]
    by (simp add: NewPolicyGate_def) blast
qed

text \<open>An unknown direct-message mode, a misspelt one for instance, lets everybody in.\<close>

lemma unknown_dm_mode_is_open:
  "DMMode (gateCfg pg) \<notin> {''disabled'', ''allowlist'', ''blocklist''} \<Longrightarrow> Allowed (evaluateDM pg msg)"
  by (simp add: evaluateDM_def Let_def)

text \<open>A group with an override entry passes the allow list even when the entry is empty.\<close>

lemma override_entry_allows:
  "GroupOverrides cfg (ConversationID msg) = Some g \<Longrightarrow> \<not> violated cfg msg CkGroupAllow"
  by (simp add: dom_def)

end
