(* ===== verification/SeenCache.thy ===== *)
theory SeenCache
  imports Types DedupContract
begin

text \<open>
  \<open>internal/safety/seen_cache.go\<close>: the deduplication cache of the safety pipeline, a TTL cache
  with LRU eviction and an optional shared Redis tier.

  The Go structure is a map from keys to nodes of a doubly linked list. The model keeps both: the
  list \<open>evictList\<close> holds node addresses, front first; \<open>node\<close> is the store of node values
  (\<open>elem.Value\<close>); \<open>items\<close> maps a key to the address of its node. The invariant \<open>sc_inv\<close> says
  the two structures agree, and \<open>lru\<close> reads them as an association list, on which the
  operations are described by the short reference functions \<open>lru_has\<close> and \<open>lru_add\<close>.

  Redis is not part of the repository: the client is a record of functions over a state of
  type \<open>'r\<close>, passed to the operations that call it. The readings of \<open>time.Now()\<close> are arguments.
\<close>

section \<open>The cache\<close>

record cacheEntry =
  entry_key :: string
  expiresAt :: time

record 'r SeenCache =
  scCfg :: DedupConfig
  items :: "string \<rightharpoonup> nat"
  evictList :: "nat list"
  node :: "nat \<Rightarrow> cacheEntry"
  nextNode :: nat
  redis :: "'r option"
  redisPrefix :: string
  sweepStopped :: bool

record 'r RedisClient =
  Exists :: "'r \<Rightarrow> time \<Rightarrow> string \<Rightarrow> bool"
  SetEx :: "'r \<Rightarrow> time \<Rightarrow> string \<Rightarrow> string \<Rightarrow> duration \<Rightarrow> 'r"
  RedisClose :: "'r \<Rightarrow> 'r"

definition fillDedupConfig :: "DedupConfig \<Rightarrow> DedupConfig" where
  "fillDedupConfig c =
     \<lparr>TTL = (if TTL c \<le> 0 then 12 * Hour else TTL c),
      MaxEntries = (if MaxEntries c \<le> 0 then 5000 else MaxEntries c),
      SweepInterval = (if SweepInterval c \<le> 0 then 5 * Minute else SweepInterval c)\<rparr>"

definition NewSeenCache :: "DedupConfig \<Rightarrow> 'r option \<Rightarrow> string \<Rightarrow> 'r SeenCache" where
  "NewSeenCache c r prefix =
     \<lparr>scCfg = fillDedupConfig c, items = Map.empty, evictList = [],
      node = (\<lambda>_. \<lparr>entry_key = '''', expiresAt = 0\<rparr>), nextNode = 0, redis = r,
      redisPrefix = (if prefix = '''' then ''dd:seen:'' else prefix), sweepStopped = False\<rparr>"

text \<open>\<open>container/list\<close>: \<open>MoveToFront\<close>, and \<open>Remove\<close> with the deletion from the map that always goes with it.\<close>

definition MoveToFront :: "nat \<Rightarrow> 'r SeenCache \<Rightarrow> 'r SeenCache" where
  "MoveToFront el sc = sc\<lparr>evictList := el # remove1 el (evictList sc)\<rparr>"

definition remove_elem :: "nat \<Rightarrow> string \<Rightarrow> 'r SeenCache \<Rightarrow> 'r SeenCache" where
  "remove_elem el k sc = sc\<lparr>evictList := remove1 el (evictList sc), items := (items sc)(k := None)\<rparr>"

text \<open>
  The eviction loop of \<open>addToMemory\<close>. The test for an empty list only matters for a negative
  \<open>MaxEntries\<close>, for which the Go loop would not end; \<open>fillDedupConfig\<close> makes it positive.
\<close>

function evict :: "'r SeenCache \<Rightarrow> 'r SeenCache" where
  "evict sc =
     (if evictList sc \<noteq> [] \<and> int (length (evictList sc)) > MaxEntries (scCfg sc)
      then evict (let oldest = last (evictList sc) in remove_elem oldest (entry_key (node sc oldest)) sc)
      else sc)"
  by pat_completeness auto
termination
  by (relation "measure (\<lambda>sc. length (evictList sc))")
     (auto simp: remove_elem_def Let_def length_remove1)

declare evict.simps [simp del]

definition addToMemory :: "string \<Rightarrow> time \<Rightarrow> 'r SeenCache \<Rightarrow> 'r SeenCache" where
  "addToMemory k expiry sc =
     (case items sc k of
        Some el \<Rightarrow>
          (let sc' = MoveToFront el sc
           in sc'\<lparr>node := (node sc')(el := (node sc' el)\<lparr>expiresAt := expiry\<rparr>)\<rparr>)
      | None \<Rightarrow>
          (let el = nextNode sc;
               sc' = sc\<lparr>node := (node sc)(el := \<lparr>entry_key = k, expiresAt = expiry\<rparr>),
                        nextNode := Suc el,
                        evictList := el # evictList sc,
                        items := (items sc)(k \<mapsto> el)\<rparr>
           in evict sc'))"

text \<open>The two passes of \<open>Has\<close>: memory, then Redis.\<close>

fun has_memory :: "time \<Rightarrow> string list \<Rightarrow> 'r SeenCache \<Rightarrow> bool \<times> 'r SeenCache" where
  "has_memory now [] sc = (False, sc)"
| "has_memory now (k # ks) sc =
     (if k = '''' then has_memory now ks sc
      else case items sc k of
             None \<Rightarrow> has_memory now ks sc
           | Some el \<Rightarrow>
               if time_before now (expiresAt (node sc el)) then (True, MoveToFront el sc)
               else has_memory now ks (remove_elem el k sc))"

fun has_redis :: "'r RedisClient \<Rightarrow> 'r \<Rightarrow> time \<Rightarrow> string list \<Rightarrow> 'r SeenCache \<Rightarrow> bool \<times> 'r SeenCache" where
  "has_redis rc r now [] sc = (False, sc)"
| "has_redis rc r now (k # ks) sc =
     (if k = '''' then has_redis rc r now ks sc
      else if Exists rc r now (redisPrefix sc @ k)
      then (True, addToMemory k (time_add now (TTL (scCfg sc))) sc)
      else has_redis rc r now ks sc)"

definition Has :: "'r RedisClient \<Rightarrow> time \<Rightarrow> string list \<Rightarrow> 'r SeenCache \<Rightarrow> bool \<times> 'r SeenCache" where
  "Has rc now keys sc =
     (case has_memory now keys sc of
        (True, sc') \<Rightarrow> (True, sc')
      | (False, sc') \<Rightarrow>
          (case redis sc' of
             None \<Rightarrow> (False, sc')
           | Some r \<Rightarrow> has_redis rc r now keys sc'))"

fun add_keys :: "'r RedisClient \<Rightarrow> time \<Rightarrow> time \<Rightarrow> string list \<Rightarrow> 'r SeenCache \<Rightarrow> 'r SeenCache" where
  "add_keys rc now expiry [] sc = sc"
| "add_keys rc now expiry (k # ks) sc =
     (if k = '''' then add_keys rc now expiry ks sc
      else let sc1 = addToMemory k expiry sc;
               sc2 = (case redis sc1 of
                        None \<Rightarrow> sc1
                      | Some r \<Rightarrow> sc1\<lparr>redis := Some (SetEx rc r now (redisPrefix sc1 @ k) ''1'' (TTL (scCfg sc1)))\<rparr>)
           in add_keys rc now expiry ks sc2)"

definition Add :: "'r RedisClient \<Rightarrow> time \<Rightarrow> string list \<Rightarrow> 'r SeenCache \<Rightarrow> 'r SeenCache" where
  "Add rc now keys sc = add_keys rc now (time_add now (TTL (scCfg sc))) keys sc"

text \<open>\<open>CheckAndMark\<close> takes the lock twice, so the clock is read twice and other calls may run between.\<close>

definition CheckAndMark ::
  "'r RedisClient \<Rightarrow> time \<Rightarrow> time \<Rightarrow> string list \<Rightarrow> 'r SeenCache \<Rightarrow> bool \<times> 'r SeenCache" where
  "CheckAndMark rc now_has now_add keys sc =
     (case Has rc now_has keys sc of
        (True, sc') \<Rightarrow> (True, sc')
      | (False, sc') \<Rightarrow> (False, Add rc now_add keys sc'))"

text \<open>\<open>sweep\<close> walks from the back and stops at the first entry that has not expired.\<close>

fun sweep_from :: "time \<Rightarrow> nat list \<Rightarrow> 'r SeenCache \<Rightarrow> 'r SeenCache" where
  "sweep_from now [] sc = sc"
| "sweep_from now (el # prevs) sc =
     (if time_before now (expiresAt (node sc el)) then sc
      else sweep_from now prevs (remove_elem el (entry_key (node sc el)) sc))"

definition sweep :: "time \<Rightarrow> 'r SeenCache \<Rightarrow> 'r SeenCache" where
  "sweep now sc = sweep_from now (rev (evictList sc)) sc"

definition Dispose :: "'r RedisClient \<Rightarrow> 'r SeenCache \<Rightarrow> 'r SeenCache" where
  "Dispose rc sc = sc\<lparr>sweepStopped := True, redis := map_option (RedisClose rc) (redis sc)\<rparr>"

section \<open>The structural invariant\<close>

definition sc_inv :: "'r SeenCache \<Rightarrow> bool" where
  "sc_inv sc \<longleftrightarrow>
     distinct (evictList sc)
     \<and> (\<forall>k el. items sc k = Some el \<longleftrightarrow> el \<in> set (evictList sc) \<and> entry_key (node sc el) = k)
     \<and> (\<forall>el \<in> set (evictList sc). el < nextNode sc)
     \<and> int (length (evictList sc)) \<le> MaxEntries (scCfg sc)
     \<and> 0 < MaxEntries (scCfg sc)"

text \<open>The invariant without the capacity bound, which holds inside \<open>addToMemory\<close> before the eviction.\<close>

definition sc_linked :: "'r SeenCache \<Rightarrow> bool" where
  "sc_linked sc \<longleftrightarrow>
     distinct (evictList sc)
     \<and> (\<forall>k el. items sc k = Some el \<longleftrightarrow> el \<in> set (evictList sc) \<and> entry_key (node sc el) = k)
     \<and> (\<forall>el \<in> set (evictList sc). el < nextNode sc)"

lemma sc_inv_linked:
  "sc_inv sc \<longleftrightarrow> sc_linked sc \<and> int (length (evictList sc)) \<le> MaxEntries (scCfg sc) \<and> 0 < MaxEntries (scCfg sc)"
  by (auto simp: sc_inv_def sc_linked_def)

lemma sc_inv_new [simp]: "sc_inv (NewSeenCache c r p)"
  by (simp add: sc_inv_def NewSeenCache_def fillDedupConfig_def)

text \<open>The cache as an association list from keys to expiry times, most recently used first.\<close>

definition lru :: "'r SeenCache \<Rightarrow> (string \<times> time) list" where
  "lru sc = map (\<lambda>el. (entry_key (node sc el), expiresAt (node sc el))) (evictList sc)"

definition lru_remove :: "string \<Rightarrow> (string \<times> time) list \<Rightarrow> (string \<times> time) list" where
  "lru_remove k l = filter (\<lambda>p. fst p \<noteq> k) l"

definition lru_add :: "nat \<Rightarrow> string \<Rightarrow> time \<Rightarrow> (string \<times> time) list \<Rightarrow> (string \<times> time) list" where
  "lru_add cap k e l = take cap ((k, e) # lru_remove k l)"

fun lru_has :: "time \<Rightarrow> string list \<Rightarrow> (string \<times> time) list \<Rightarrow> bool \<times> (string \<times> time) list" where
  "lru_has now [] l = (False, l)"
| "lru_has now (k # ks) l =
     (if k = '''' then lru_has now ks l
      else case map_of l k of
             None \<Rightarrow> lru_has now ks l
           | Some e \<Rightarrow> if now < e then (True, (k, e) # lru_remove k l)
                       else lru_has now ks (lru_remove k l))"

abbreviation sc_cap :: "'r SeenCache \<Rightarrow> nat" where
  "sc_cap sc \<equiv> nat (MaxEntries (scCfg sc))"

lemma sc_linkedD:
  assumes "sc_linked sc"
  shows "distinct (evictList sc)"
    and "items sc k = Some el \<longleftrightarrow> el \<in> set (evictList sc) \<and> entry_key (node sc el) = k"
    and "el \<in> set (evictList sc) \<Longrightarrow> el < nextNode sc"
  using assms by (auto simp: sc_linked_def)

lemma sc_linked_key_inj:
  "sc_linked sc \<Longrightarrow> inj_on (\<lambda>el. entry_key (node sc el)) (set (evictList sc))"
  by (rule inj_onI) (metis option.inject sc_linkedD(2))

lemma distinct_lru_keys: "sc_linked sc \<Longrightarrow> distinct (map fst (lru sc))"
  by (simp add: lru_def distinct_map sc_linked_key_inj sc_linkedD(1) comp_def)

lemma map_of_lru:
  assumes "sc_linked sc"
  shows "map_of (lru sc) k = map_option (\<lambda>el. expiresAt (node sc el)) (items sc k)"
proof (cases "items sc k")
  case None
  have "entry_key (node sc el) \<noteq> k" if "el \<in> set (evictList sc)" for el
    using that None sc_linkedD(2) [OF assms, of k el] by auto
  then have "k \<notin> fst ` set (lru sc)"
    by (force simp: lru_def)
  with None show ?thesis by (simp add: map_of_eq_None_iff)
next
  case (Some el)
  then have "(k, expiresAt (node sc el)) \<in> set (lru sc)"
    using sc_linkedD(2) [OF assms, of k el] by (auto simp: lru_def)
  with Some show ?thesis
    using distinct_lru_keys [OF assms] by (simp add: map_of_is_SomeI)
qed

section \<open>Every operation refines its reference function\<close>

lemma filter_eq_remove1:
  "distinct xs \<Longrightarrow> (\<And>y. y \<in> set xs \<Longrightarrow> P y \<longleftrightarrow> y \<noteq> x) \<Longrightarrow> filter P xs = remove1 x xs"
proof -
  assume "distinct xs" and "\<And>y. y \<in> set xs \<Longrightarrow> P y \<longleftrightarrow> y \<noteq> x"
  then have "filter P xs = filter (\<lambda>y. x \<noteq> y) xs"
    by (intro filter_cong) auto
  with \<open>distinct xs\<close> show ?thesis
    by (simp add: distinct_remove1_removeAll removeAll_filter_not_eq)
qed

lemma lru_remove_elem:
  assumes "sc_linked sc" and "items sc k = Some el"
  shows "map (\<lambda>el. (entry_key (node sc el), expiresAt (node sc el))) (remove1 el (evictList sc))
       = lru_remove k (lru sc)"
proof -
  have "filter (\<lambda>x. entry_key (node sc x) \<noteq> k) (evictList sc) = remove1 el (evictList sc)"
  proof (rule filter_eq_remove1)
    show "distinct (evictList sc)" using assms(1) by (rule sc_linkedD(1))
    show "entry_key (node sc y) \<noteq> k \<longleftrightarrow> y \<noteq> el" if "y \<in> set (evictList sc)" for y
      using that assms(2) sc_linkedD(2) [OF assms(1), of k] by (metis option.inject)
  qed
  then show ?thesis
    by (simp add: lru_remove_def lru_def filter_map comp_def)
qed

lemma linked_MoveToFront:
  assumes "sc_linked sc" and "items sc k = Some el"
  shows "sc_linked (MoveToFront el sc)"
    and "lru (MoveToFront el sc) = (k, expiresAt (node sc el)) # lru_remove k (lru sc)"
proof -
  have el: "el \<in> set (evictList sc)" "entry_key (node sc el) = k" "distinct (evictList sc)"
    using assms sc_linkedD by blast+
  then show "sc_linked (MoveToFront el sc)"
    using assms(1) by (auto simp: sc_linked_def MoveToFront_def)
  show "lru (MoveToFront el sc) = (k, expiresAt (node sc el)) # lru_remove k (lru sc)"
    using el(2) lru_remove_elem [OF assms] by (simp add: lru_def MoveToFront_def)
qed

lemma linked_remove_elem:
  assumes "sc_linked sc" and "items sc k = Some el"
  shows "sc_linked (remove_elem el k sc)"
    and "lru (remove_elem el k sc) = lru_remove k (lru sc)"
proof -
  have el: "el \<in> set (evictList sc)" "entry_key (node sc el) = k" "distinct (evictList sc)"
    using assms sc_linkedD by blast+
  have "entry_key (node sc y) \<noteq> k" if "y \<in> set (evictList sc)" "y \<noteq> el" for y
    using that assms sc_linkedD(2) by (metis option.inject)
  with el show "sc_linked (remove_elem el k sc)"
    using assms(1) by (auto simp: sc_linked_def remove_elem_def)
  show "lru (remove_elem el k sc) = lru_remove k (lru sc)"
    using lru_remove_elem [OF assms] by (simp add: lru_def remove_elem_def)
qed

lemma items_node: "sc_linked sc \<Longrightarrow> el \<in> set (evictList sc) \<Longrightarrow> items sc (entry_key (node sc el)) = Some el"
  by (simp add: sc_linkedD(2))

lemma remove_elem_frame [frame_simps]:
  "scCfg (remove_elem el k sc) = scCfg sc" "node (remove_elem el k sc) = node sc"
  "redis (remove_elem el k sc) = redis sc" "redisPrefix (remove_elem el k sc) = redisPrefix sc"
  "evictList (remove_elem el k sc) = remove1 el (evictList sc)"
  by (simp_all add: remove_elem_def)

lemma MoveToFront_frame [frame_simps]:
  "scCfg (MoveToFront el sc) = scCfg sc" "node (MoveToFront el sc) = node sc"
  "redis (MoveToFront el sc) = redis sc" "redisPrefix (MoveToFront el sc) = redisPrefix sc"
  "items (MoveToFront el sc) = items sc"
  by (simp_all add: MoveToFront_def)

lemma evict_frame [frame_simps]:
  "scCfg (evict sc) = scCfg sc" "redis (evict sc) = redis sc" "redisPrefix (evict sc) = redisPrefix sc"
proof (induction sc rule: evict.induct)
  case (1 sc)
  { case 1 then show ?case using "1.IH"(1) by (subst evict.simps) (auto simp: Let_def frame_simps)
  next case 2 then show ?case using "1.IH"(2) by (subst evict.simps) (auto simp: Let_def frame_simps)
  next case 3 then show ?case using "1.IH"(3) by (subst evict.simps) (auto simp: Let_def frame_simps) }
qed

lemma lru_remove_last:
  assumes "sc_linked sc" and "evictList sc \<noteq> []"
  shows "lru_remove (entry_key (node sc (last (evictList sc)))) (lru sc) = butlast (lru sc)"
proof -
  let ?el = "last (evictList sc)"
  have "items sc (entry_key (node sc ?el)) = Some ?el"
    using assms by (simp add: items_node)
  note lru_remove_elem [OF assms(1) this, symmetric]
  moreover have "remove1 ?el (evictList sc) = butlast (evictList sc)"
  proof -
    have "evictList sc = butlast (evictList sc) @ [?el]" using assms(2) by simp
    moreover have "?el \<notin> set (butlast (evictList sc))"
      using sc_linkedD(1) [OF assms(1)] calculation by (metis distinct_append disjoint_iff list.set_intros(1))
    ultimately show ?thesis
      by (metis remove1_append remove1.simps(2) append_Nil2)
  qed
  ultimately show ?thesis by (simp add: lru_def map_butlast)
qed

lemma length_lru [simp]: "length (lru sc) = length (evictList sc)"
  by (simp add: lru_def)

lemma evict_lru:
  assumes "sc_linked sc" and "0 < MaxEntries (scCfg sc)"
  shows "sc_linked (evict sc) \<and> lru (evict sc) = take (sc_cap sc) (lru sc)"
  using assms
proof (induction sc rule: evict.induct)
  case (1 sc)
  show ?case
  proof (cases "evictList sc \<noteq> [] \<and> int (length (evictList sc)) > MaxEntries (scCfg sc)")
    case True
    let ?el = "last (evictList sc)"
    let ?sc = "remove_elem ?el (entry_key (node sc ?el)) sc"
    have it: "items sc (entry_key (node sc ?el)) = Some ?el"
      using True "1.prems"(1) by (simp add: items_node)
    have "evict sc = evict ?sc"
      using True by (subst evict.simps) (simp add: Let_def)
    moreover have "lru ?sc = butlast (lru sc)"
      using linked_remove_elem(2) [OF "1.prems"(1) it] lru_remove_last [OF "1.prems"(1)] True by simp
    moreover have "take (sc_cap sc) (butlast (lru sc)) = take (sc_cap sc) (lru sc)"
      using True "1.prems"(2) by (intro take_butlast) auto
    ultimately show ?thesis
      using "1.IH" [OF True] linked_remove_elem(1) [OF "1.prems"(1) it] "1.prems"(2)
      by (simp add: Let_def frame_simps)
  next
    case False
    then have "evict sc = sc" by (subst evict.simps) auto
    with False "1.prems" show ?thesis by auto
  qed
qed

lemma addToMemory_frame [frame_simps]:
  "scCfg (addToMemory k e sc) = scCfg sc" "redis (addToMemory k e sc) = redis sc"
  "redisPrefix (addToMemory k e sc) = redisPrefix sc"
  by (auto simp: addToMemory_def Let_def frame_simps split: option.splits)

lemma addToMemory_refines:
  assumes "sc_inv sc"
  shows "sc_inv (addToMemory k e sc) \<and> lru (addToMemory k e sc) = lru_add (sc_cap sc) k e (lru sc)"
proof (cases "items sc k")
  case None
  let ?el = "nextNode sc"
  let ?sc = "sc\<lparr>node := (node sc)(?el := \<lparr>entry_key = k, expiresAt = e\<rparr>), nextNode := Suc ?el,
                 evictList := ?el # evictList sc, items := (items sc)(k \<mapsto> ?el)\<rparr>"
  from assms have l: "sc_linked sc" and cap: "0 < MaxEntries (scCfg sc)"
    by (auto simp: sc_inv_linked)
  have nk: "entry_key (node sc el) \<noteq> k" if "el \<in> set (evictList sc)" for el
    using that None items_node [OF l] by force
  have fresh: "?el \<notin> set (evictList sc)" using sc_linkedD(3) [OF l] by blast
  have l': "sc_linked ?sc"
    using l fresh nk by (auto simp: sc_linked_def less_Suc_eq)
  have "lru ?sc = (k, e) # lru sc"
    using fresh by (auto simp: lru_def intro!: map_cong)
  moreover have "lru_remove k (lru sc) = lru sc"
    using nk by (auto simp: lru_remove_def lru_def filter_id_conv)
  moreover have "addToMemory k e sc = evict ?sc"
    using None by (simp add: addToMemory_def Let_def)
  moreover have "sc_linked (evict ?sc) \<and> lru (evict ?sc) = take (sc_cap sc) (lru ?sc)"
    using evict_lru [OF l'] cap by simp
  moreover have "int (length (evictList (evict ?sc))) \<le> MaxEntries (scCfg sc)"
    using calculation(4) cap length_lru [of "evict ?sc"] by simp
  ultimately show ?thesis
    using cap by (simp add: sc_inv_linked lru_add_def frame_simps)
next
  case (Some el)
  from assms have l: "sc_linked sc" and cap: "0 < MaxEntries (scCfg sc)"
    and len: "int (length (evictList sc)) \<le> MaxEntries (scCfg sc)"
    by (auto simp: sc_inv_linked)
  have el: "el \<in> set (evictList sc)" "entry_key (node sc el) = k" "distinct (evictList sc)"
    using l Some sc_linkedD by blast+
  let ?m = "MoveToFront el sc"
  have eq: "addToMemory k e sc = ?m\<lparr>node := (node ?m)(el := (node ?m el)\<lparr>expiresAt := e\<rparr>)\<rparr>"
    using Some by (simp add: addToMemory_def Let_def)
  have "sc_linked (addToMemory k e sc)"
    unfolding eq using linked_MoveToFront(1) [OF l Some] by (auto simp: sc_linked_def)
  moreover have lru': "lru (addToMemory k e sc) = (k, e) # lru_remove k (lru sc)"
    unfolding eq lru_remove_elem [OF l Some, symmetric]
    using el by (auto simp: lru_def MoveToFront_def intro!: map_cong)
  moreover have len': "length (evictList (addToMemory k e sc)) = length (evictList sc)"
    unfolding eq using el(1) length_pos_if_in_set [OF el(1)] by (simp add: MoveToFront_def length_remove1)
  moreover from lru' len' have "length ((k, e) # lru_remove k (lru sc)) \<le> sc_cap sc"
    using len length_lru [of "addToMemory k e sc"] by simp
  ultimately show ?thesis
    using cap len by (simp add: sc_inv_linked lru_add_def frame_simps)
qed

lemma sc_inv_MoveToFront [inv_intros]:
  "sc_inv sc \<Longrightarrow> items sc k = Some el \<Longrightarrow> sc_inv (MoveToFront el sc)"
  using linked_MoveToFront(1) [of sc k el] sc_linkedD(2) [of sc k el]
  by (auto simp: sc_inv_linked MoveToFront_def length_remove1 length_pos_if_in_set Suc_pred)

lemma sc_inv_remove_elem [inv_intros]:
  "sc_inv sc \<Longrightarrow> items sc k = Some el \<Longrightarrow> sc_inv (remove_elem el k sc)"
  using linked_remove_elem(1) [of sc k el]
  by (auto simp: sc_inv_linked frame_simps length_remove1)

lemma sc_inv_addToMemory [inv_intros]: "sc_inv sc \<Longrightarrow> sc_inv (addToMemory k e sc)"
  by (simp add: addToMemory_refines)

lemma has_memory_refines:
  assumes "sc_inv sc"
  shows "sc_inv (snd (has_memory now ks sc))
       \<and> fst (has_memory now ks sc) = fst (lru_has now ks (lru sc))
       \<and> lru (snd (has_memory now ks sc)) = snd (lru_has now ks (lru sc))
       \<and> scCfg (snd (has_memory now ks sc)) = scCfg sc
       \<and> redis (snd (has_memory now ks sc)) = redis sc
       \<and> redisPrefix (snd (has_memory now ks sc)) = redisPrefix sc"
  using assms
proof (induction now ks sc rule: has_memory.induct)
  case (2 now k ks sc)
  have l: "sc_linked sc" using "2.prems" by (simp add: sc_inv_linked)
  consider "k = ''''" | "k \<noteq> ''''" "items sc k = None"
    | el where "k \<noteq> ''''" "items sc k = Some el" by blast
  then show ?case
  proof cases
    case 3
    note refs = linked_MoveToFront(2) [OF l 3(2)] linked_remove_elem(2) [OF l 3(2)]
      map_of_lru [OF l, of k]
    show ?thesis
    proof (cases "now < expiresAt (node sc el)")
      case True
      then show ?thesis
        using 3 refs sc_inv_MoveToFront [OF "2.prems" 3(2)] by (simp add: frame_simps)
    next
      case False
      then show ?thesis
        using 3 refs sc_inv_remove_elem [OF "2.prems" 3(2)] "2.IH"(3) [OF 3]
        by (simp add: frame_simps)
    qed
  qed (use 2 map_of_lru [OF l, of k] in simp_all)
qed simp

section \<open>What a lookup finds\<close>

text \<open>A key is live when memory holds it with an expiry time that has not been reached.\<close>

definition lru_live :: "(string \<times> time) list \<Rightarrow> time \<Rightarrow> string \<Rightarrow> bool" where
  "lru_live l now k \<longleftrightarrow> (case map_of l k of None \<Rightarrow> False | Some e \<Rightarrow> now < e)"

definition live :: "'r SeenCache \<Rightarrow> time \<Rightarrow> string \<Rightarrow> bool" where
  "live sc now k \<longleftrightarrow> lru_live (lru sc) now k"

lemma map_of_lru_remove [simp]: "map_of (lru_remove k l) k' = (if k' = k then None else map_of l k')"
  by (induction l) (auto simp: lru_remove_def)

lemma set_lru_remove: "set (lru_remove k l) = {p \<in> set l. fst p \<noteq> k}"
  by (simp add: lru_remove_def)

lemma lru_has_iff:
  "fst (lru_has now ks l) \<longleftrightarrow> (\<exists>k \<in> set ks. k \<noteq> '''' \<and> lru_live l now k)"
proof (induction now ks l rule: lru_has.induct)
  case (2 now k ks l)
  consider "k = ''''" | "k \<noteq> ''''" "map_of l k = None" | e where "k \<noteq> ''''" "map_of l k = Some e"
    by blast
  then show ?case
  proof cases
    case 3
    then show ?thesis
      using "2.IH"(3) [OF 3] by (cases "now < e") (auto simp: lru_live_def split: option.splits if_splits)
  qed (use 2 in \<open>auto simp: lru_live_def\<close>)
qed simp

text \<open>A lookup changes nothing about which keys are live now or later.\<close>

lemma lru_has_live:
  "now \<le> now' \<Longrightarrow> lru_live (snd (lru_has now ks l)) now' k = lru_live l now' k"
proof (induction now ks l rule: lru_has.induct)
  case (2 now k' ks l)
  consider "k' = ''''" | "k' \<noteq> ''''" "map_of l k' = None" | e where "k' \<noteq> ''''" "map_of l k' = Some e"
    by blast
  then show ?case
  proof cases
    case 3
    then show ?thesis
      using "2.IH"(3) [OF 3] "2.prems" by (auto simp: lru_live_def split: option.splits)
  qed (use 2 in simp_all)
qed simp

lemma Has_no_redis:
  assumes "sc_inv sc" and "redis sc = None"
  shows "fst (Has rc now ks sc) \<longleftrightarrow> (\<exists>k \<in> set ks. k \<noteq> '''' \<and> live sc now k)"
    and "snd (Has rc now ks sc) = snd (has_memory now ks sc)"
proof -
  have r: "redis (snd (has_memory now ks sc)) = None"
    using has_memory_refines [OF assms(1)] assms(2) by simp
  obtain b sc' where h: "has_memory now ks sc = (b, sc')" by fastforce
  with r have H: "Has rc now ks sc = (b, sc')"
    by (cases b) (simp_all add: Has_def)
  from h H show "snd (Has rc now ks sc) = snd (has_memory now ks sc)" by simp
  from h H show "fst (Has rc now ks sc) \<longleftrightarrow> (\<exists>k \<in> set ks. k \<noteq> '''' \<and> live sc now k)"
    using has_memory_refines [OF assms(1), of now ks] by (simp add: live_def lru_has_iff)
qed

section \<open>Retention: a marked key survives until it expires or is pushed out\<close>

text \<open>
  \<open>shielded T k e l\<close>: the list holds \<open>k\<close> with expiry \<open>e\<close>, and only keys of \<open>T\<close> stand before it.
  Touching a key of \<open>T\<close> keeps that, so \<open>k\<close> is evicted only after as many distinct other
  keys as the capacity have been touched.
\<close>

definition shielded :: "string set \<Rightarrow> string \<Rightarrow> time \<Rightarrow> (string \<times> time) list \<Rightarrow> bool" where
  "shielded T k e l \<longleftrightarrow> (\<exists>xs ys. l = xs @ (k, e) # ys \<and> fst ` set xs \<subseteq> T)"

lemma shieldedI: "l = xs @ (k, e) # ys \<Longrightarrow> fst ` set xs \<subseteq> T \<Longrightarrow> shielded T k e l"
  by (auto simp: shielded_def)

lemma shielded_front: "shielded T k e ((k, e) # l)"
  by (rule shieldedI [of _ "[]"]) auto

lemma shielded_map_of:
  assumes "shielded T k e l" and "k \<notin> T"
  shows "map_of l k = Some e"
proof -
  obtain xs ys where l: "l = xs @ (k, e) # ys" and "fst ` set xs \<subseteq> T"
    using assms(1) by (auto simp: shielded_def)
  then have "map_of xs k = None" using assms(2) by (auto simp: map_of_eq_None_iff)
  then show ?thesis by (simp add: l map_add_def)
qed

lemma shielded_remove:
  assumes "shielded T k e l" and "k' \<noteq> k"
  shows "shielded T k e (lru_remove k' l)"
proof -
  from assms(1) obtain xs ys where "l = xs @ (k, e) # ys" "fst ` set xs \<subseteq> T"
    by (auto simp: shielded_def)
  with assms(2) show ?thesis
    by (intro shieldedI [of _ "lru_remove k' xs" k e "lru_remove k' ys"])
       (auto simp: lru_remove_def)
qed

lemma shielded_Cons:
  assumes "shielded T k e l" and "k' \<in> T"
  shows "shielded T k e ((k', e') # l)"
proof -
  from assms(1) obtain xs ys where "l = xs @ (k, e) # ys" "fst ` set xs \<subseteq> T"
    by (auto simp: shielded_def)
  with assms(2) show ?thesis
    by (intro shieldedI [of _ "(k', e') # xs" k e ys]) auto
qed

lemma shielded_take:
  assumes "shielded T k e l" and "distinct (map fst l)" and "finite T" and "card T < cap"
  shows "shielded T k e (take cap l)"
proof -
  obtain xs ys where l: "l = xs @ (k, e) # ys" and xs: "fst ` set xs \<subseteq> T"
    using assms(1) by (auto simp: shielded_def)
  have "distinct (map fst xs)" using assms(2) by (simp add: l)
  then have "length xs = card (fst ` set xs)"
    by (metis distinct_card length_map set_map)
  also have "\<dots> \<le> card T" using assms(3) xs by (rule card_mono)
  finally have "take cap l = xs @ (k, e) # take (cap - Suc (length xs)) ys"
    using assms(4) by (simp add: l take_Cons')
  then show ?thesis using xs by (rule shieldedI)
qed

lemma distinct_lru_remove: "distinct (map fst l) \<Longrightarrow> distinct (map fst (lru_remove k l))"
  by (induction l) (auto simp: lru_remove_def)

lemma distinct_touch: "distinct (map fst l) \<Longrightarrow> distinct (map fst ((k, e) # lru_remove k l))"
  using distinct_lru_remove [of l k] by (auto simp: set_lru_remove)

lemma shielded_touch:
  assumes "shielded T k e l" and "k' \<in> T" and "k \<notin> T"
  shows "shielded T k e ((k', e') # lru_remove k' l)"
  using assms by (intro shielded_Cons shielded_remove) auto

lemma shielded_lru_add:
  assumes "shielded T k e l" and "distinct (map fst l)" and "finite T" and "card T < cap"
    and "k' \<in> T" and "k \<notin> T"
  shows "shielded T k e (lru_add cap k' e' l)"
  unfolding lru_add_def using assms
  by (intro shielded_take shielded_touch distinct_touch) auto

section \<open>Operations in sequence\<close>

text \<open>
  The critical sections of the cache. Any interleaving of goroutines calling \<open>Has\<close>, \<open>Add\<close>,
  \<open>CheckAndMark\<close> and the sweeper is a sequence of these, because each runs under the mutex.
\<close>

datatype seen_op = HasOp time "string list" | AddOp time "string list" | SweepOp time

fun op_time :: "seen_op \<Rightarrow> time" where
  "op_time (HasOp t ks) = t"
| "op_time (AddOp t ks) = t"
| "op_time (SweepOp t) = t"

fun op_keys :: "seen_op \<Rightarrow> string set" where
  "op_keys (HasOp t ks) = set ks"
| "op_keys (AddOp t ks) = set ks"
| "op_keys (SweepOp t) = {}"

fun run_op :: "'r RedisClient \<Rightarrow> seen_op \<Rightarrow> 'r SeenCache \<Rightarrow> 'r SeenCache" where
  "run_op rc (HasOp t ks) sc = snd (Has rc t ks sc)"
| "run_op rc (AddOp t ks) sc = Add rc t ks sc"
| "run_op rc (SweepOp t) sc = sweep t sc"

definition run_ops :: "'r RedisClient \<Rightarrow> seen_op list \<Rightarrow> 'r SeenCache \<Rightarrow> 'r SeenCache" where
  "run_ops rc ops sc = fold (run_op rc) ops sc"

text \<open>The Redis field plays no part in the memory tier.\<close>

lemma redis_irrelevant [simp]:
  "lru (sc\<lparr>redis := x\<rparr>) = lru sc" "sc_inv (sc\<lparr>redis := x\<rparr>) = sc_inv sc"
  by (simp_all add: lru_def sc_inv_def)

lemma has_redis_or:
  "has_redis rc r now ks sc = (False, sc) \<or>
   (\<exists>k \<in> set ks. k \<noteq> '''' \<and> Exists rc r now (redisPrefix sc @ k)
      \<and> has_redis rc r now ks sc = (True, addToMemory k (now + TTL (scCfg sc)) sc))"
  by (induction rc r now ks sc rule: has_redis.induct) auto

lemma Has_cases:
  assumes "sc_inv sc"
  obtains "snd (Has rc now ks sc) = snd (has_memory now ks sc)"
  | k where "k \<in> set ks" "k \<noteq> ''''"
      "snd (Has rc now ks sc) = addToMemory k (now + TTL (scCfg sc)) (snd (has_memory now ks sc))"
proof -
  obtain b sc' where h: "has_memory now ks sc = (b, sc')" by fastforce
  have cfg: "scCfg sc' = scCfg sc"
    using has_memory_refines [OF assms, of now ks] h by simp
  show ?thesis
  proof (cases "redis sc'")
    case None
    with h have "snd (Has rc now ks sc) = snd (has_memory now ks sc)"
      by (cases b) (simp_all add: Has_def)
    then show ?thesis by (rule that(1))
  next
    case (Some r)
    show ?thesis
      using h Some cfg that has_redis_or [of rc r now ks sc'] by (cases b) (auto simp: Has_def)
  qed
qed

lemma Has_frame [frame_simps]:
  assumes "sc_inv sc"
  shows "scCfg (snd (Has rc now ks sc)) = scCfg sc" "redis (snd (Has rc now ks sc)) = redis sc"
    "redisPrefix (snd (Has rc now ks sc)) = redisPrefix sc"
  using has_memory_refines [OF assms, of now ks]
  by (cases rule: Has_cases [OF assms, of rc now ks]; simp add: frame_simps)+

lemma sc_inv_Has [inv_intros]:
  assumes "sc_inv sc"
  shows "sc_inv (snd (Has rc now ks sc))"
  using has_memory_refines [OF assms, of now ks]
  by (cases rule: Has_cases [OF assms, of rc now ks]) (simp_all add: sc_inv_addToMemory)

lemma add_keys_frame [frame_simps]:
  "scCfg (add_keys rc now e ks sc) = scCfg sc" "redisPrefix (add_keys rc now e ks sc) = redisPrefix sc"
  by (induction rc now e ks sc rule: add_keys.induct)
     (auto simp: frame_simps Let_def split: option.splits)

lemma add_keys_no_redis:
  "redis sc = None \<Longrightarrow> redis (add_keys rc now e ks sc) = None"
  by (induction rc now e ks sc rule: add_keys.induct) (auto simp: frame_simps Let_def)

lemma add_keys_refines:
  assumes "sc_inv sc"
  shows "sc_inv (add_keys rc now e ks sc)
       \<and> lru (add_keys rc now e ks sc)
         = fold (\<lambda>k. lru_add (sc_cap sc) k e) (filter (\<lambda>k. k \<noteq> '''') ks) (lru sc)"
  using assms
proof (induction rc now e ks sc rule: add_keys.induct)
  case (2 rc now e k ks sc)
  then show ?case
    using addToMemory_refines [OF "2.prems", of k e]
    by (auto simp: Let_def frame_simps split: option.splits)
qed simp

lemma sc_inv_Add [inv_intros]: "sc_inv sc \<Longrightarrow> sc_inv (Add rc now ks sc)"
  by (simp add: Add_def add_keys_refines)

lemma Add_frame [frame_simps]:
  "scCfg (Add rc now ks sc) = scCfg sc" "redisPrefix (Add rc now ks sc) = redisPrefix sc"
  by (simp_all add: Add_def frame_simps)

section \<open>Sweeping\<close>

lemma sweep_from_refines:
  assumes "sc_inv sc" and "evictList sc = rev els"
  shows "sc_inv (sweep_from now els sc)
       \<and> lru (sweep_from now els sc) = rev (dropWhile (\<lambda>p. snd p \<le> now) (rev (lru sc)))
       \<and> scCfg (sweep_from now els sc) = scCfg sc"
  using assms
proof (induction now els sc rule: sweep_from.induct)
  case (2 now el prevs sc)
  have l: "sc_linked sc" using "2.prems"(1) by (simp add: sc_inv_linked)
  have rev: "rev (lru sc) = (entry_key (node sc el), expiresAt (node sc el)) #
      map (\<lambda>el. (entry_key (node sc el), expiresAt (node sc el))) prevs"
    using "2.prems"(2) by (simp add: lru_def rev_map)
  show ?case
  proof (cases "now < expiresAt (node sc el)")
    case True
    then have "dropWhile (\<lambda>p. snd p \<le> now) (rev (lru sc)) = rev (lru sc)"
      unfolding rev by simp
    with True "2.prems"(1) show ?thesis by simp
  next
    case False
    let ?k = "entry_key (node sc el)"
    let ?sc = "remove_elem el ?k sc"
    have it: "items sc ?k = Some el"
      using l "2.prems"(2) by (simp add: items_node)
    have ev: "evictList ?sc = rev prevs"
      using "2.prems" sc_linkedD(1) [OF l] by (simp add: frame_simps remove1_append)
    have "rev (lru sc) = (?k, expiresAt (node sc el)) # rev (lru ?sc)"
      unfolding rev using ev by (simp add: lru_def frame_simps flip: rev_map)
    then show ?thesis
      using False "2.IH" [OF _ sc_inv_remove_elem [OF "2.prems"(1) it] ev]
      by (simp add: frame_simps)
  qed
qed (simp add: lru_def)

lemma sweep_refines:
  assumes "sc_inv sc"
  shows "sc_inv (sweep now sc)"
    and "lru (sweep now sc) = rev (dropWhile (\<lambda>p. snd p \<le> now) (rev (lru sc)))"
    and "scCfg (sweep now sc) = scCfg sc"
  using sweep_from_refines [OF assms, of "rev (evictList sc)" now] by (simp_all add: sweep_def)

lemma sc_inv_sweep [inv_intros]: "sc_inv sc \<Longrightarrow> sc_inv (sweep now sc)"
  by (rule sweep_refines)

lemma sc_inv_run_op [inv_intros]: "sc_inv sc \<Longrightarrow> sc_inv (run_op rc op sc)"
  by (cases op) (auto intro: inv_intros)

lemma scCfg_run_op [frame_simps]: "sc_inv sc \<Longrightarrow> scCfg (run_op rc op sc) = scCfg sc"
  by (cases op) (auto simp: frame_simps sweep_refines)

lemma sc_inv_run_ops [inv_intros]: "sc_inv sc \<Longrightarrow> sc_inv (run_ops rc ops sc)"
  unfolding run_ops_def by (induction ops arbitrary: sc) (auto intro: inv_intros)

section \<open>A key stays marked through any sequence of operations\<close>

text \<open>
  \<open>guarded T k e\<close>: the cache is well formed and holds \<open>k\<close> with an expiry of at least \<open>e\<close>,
  behind keys of \<open>T\<close> only.
\<close>

definition guarded :: "string set \<Rightarrow> string \<Rightarrow> time \<Rightarrow> 'r SeenCache \<Rightarrow> bool" where
  "guarded T k e sc \<longleftrightarrow> sc_inv sc \<and> (\<exists>e' \<ge> e. shielded T k e' (lru sc))"

lemma guardedI: "sc_inv sc \<Longrightarrow> e \<le> e' \<Longrightarrow> shielded T k e' (lru sc) \<Longrightarrow> guarded T k e sc"
  by (auto simp: guarded_def)

lemma guarded_live: "guarded T k e sc \<Longrightarrow> k \<notin> T \<Longrightarrow> now < e \<Longrightarrow> live sc now k"
  by (auto simp: guarded_def live_def lru_live_def dest: shielded_map_of)

lemma sc_inv_distinct: "sc_inv sc \<Longrightarrow> distinct (map fst (lru sc))"
  by (simp add: sc_inv_linked distinct_lru_keys)

lemma lru_add_front: "0 < cap \<Longrightarrow> shielded T k e (lru_add cap k e l)"
  by (cases cap) (auto simp: lru_add_def intro: shielded_front)

lemma sc_inv_cap: "sc_inv sc \<Longrightarrow> 0 < sc_cap sc"
  by (simp add: sc_inv_def)

lemma addToMemory_guards: "sc_inv sc \<Longrightarrow> e \<le> e' \<Longrightarrow> guarded T k e (addToMemory k e' sc)"
  using addToMemory_refines [of sc k e'] lru_add_front [OF sc_inv_cap, of sc T k e' "lru sc"]
  by (intro guardedI [of _ e e']) simp_all

lemma addToMemory_guarded:
  assumes "guarded T k e sc" and "finite T" and "card T < sc_cap sc" and "k \<notin> T"
    and "k' \<in> insert k T" and "e \<le> e''"
  shows "guarded T k e (addToMemory k' e'' sc)"
proof (cases "k' = k")
  case True
  from assms(1) have "sc_inv sc" by (simp add: guarded_def)
  with True assms(6) show ?thesis by (simp add: addToMemory_guards)
next
  case False
  with assms obtain e' where "sc_inv sc" "e \<le> e'" "shielded T k e' (lru sc)"
    by (auto simp: guarded_def)
  with assms False show ?thesis
    using addToMemory_refines [of sc k' e''] shielded_lru_add [of T k e' "lru sc" "sc_cap sc" k' e'']
    by (intro guardedI [of _ e e']) (auto intro: sc_inv_distinct)
qed

lemma lru_has_shielded:
  assumes "shielded T k e l" and "k \<notin> T" and "set ks \<subseteq> insert k T" and "now < e"
  shows "shielded T k e (snd (lru_has now ks l))"
  using assms
proof (induction now ks l rule: lru_has.induct)
  case (2 now k' ks l)
  consider "k' = ''''" | "k' \<noteq> ''''" "map_of l k' = None" | e' where "k' \<noteq> ''''" "map_of l k' = Some e'"
    by blast
  then show ?case
  proof cases
    case 3
    show ?thesis
    proof (cases "k' = k")
      case True
      with 3 "2.prems" shielded_map_of [OF "2.prems"(1,2)] show ?thesis
        by (auto intro: shielded_front)
    next
      case False
      with "2.prems" have "shielded T k e (lru_remove k' l)" "shielded T k e ((k', e') # lru_remove k' l)"
        by (auto intro: shielded_remove shielded_touch)
      with 3 "2.IH"(3) [OF 3] "2.prems" show ?thesis by auto
    qed
  qed (use 2 in auto)
qed simp

lemma Has_guarded:
  assumes "guarded T k e sc" and "finite T" and "card T < sc_cap sc" and "k \<notin> T"
    and "set ks \<subseteq> insert k T" and "now < e" and "e \<le> now + TTL (scCfg sc)"
  shows "guarded T k e (snd (Has rc now ks sc))"
proof -
  obtain e' where inv: "sc_inv sc" and e': "e \<le> e'" "shielded T k e' (lru sc)"
    using assms(1) by (auto simp: guarded_def)
  note m = has_memory_refines [OF inv, of now ks]
  have g: "guarded T k e (snd (has_memory now ks sc))"
    using m e' lru_has_shielded [of T k e' "lru sc" ks now] assms
    by (intro guardedI [of _ e e']) auto
  from inv show ?thesis
  proof (cases rule: Has_cases [of sc rc now ks])
    case 1
    with g show ?thesis by simp
  next
    case (2 k')
    then show ?thesis
      using g m assms by (auto intro!: addToMemory_guarded)
  qed
qed

lemma add_keys_guarded:
  assumes "guarded T k e sc" and "finite T" and "card T < sc_cap sc" and "k \<notin> T"
    and "set ks \<subseteq> insert k T" and "e \<le> e'"
  shows "guarded T k e (add_keys rc now e' ks sc)"
  using assms
proof (induction rc now e' ks sc rule: add_keys.induct)
  case (2 rc now e' k' ks sc)
  have red: "guarded T k e (s\<lparr>redis := x\<rparr>) = guarded T k e s" for s :: "'a SeenCache" and x
    by (simp add: guarded_def)
  have "guarded T k e (addToMemory k' e' sc)"
    using "2.prems" by (intro addToMemory_guarded) auto
  with 2 show ?case by (auto simp: Let_def frame_simps red split: option.splits)
qed simp

lemma add_keys_guards:
  assumes "sc_inv sc" and "finite T" and "card T < sc_cap sc" and "k \<notin> T" and "k \<noteq> ''''"
    and "k \<in> set ks" and "set ks \<subseteq> insert k T" and "e \<le> e'"
  shows "guarded T k e (add_keys rc now e' ks sc)"
  using assms
proof (induction rc now e' ks sc rule: add_keys.induct)
  case (2 rc now e' k' ks sc)
  define sc1 where "sc1 = addToMemory k' e' sc"
  define sc2 where "sc2 = (case redis sc1 of None \<Rightarrow> sc1
     | Some r \<Rightarrow> sc1\<lparr>redis := Some (SetEx rc r now (redisPrefix sc1 @ k') ''1'' (TTL (scCfg sc1)))\<rparr>)"
  have inv: "sc_inv sc2" and cfg: "scCfg sc2 = scCfg sc" and lru: "lru sc2 = lru sc1"
    using "2.prems"(1)
    by (auto simp: sc1_def sc2_def frame_simps intro: inv_intros split: option.splits)
  have step: "add_keys rc now e' (k' # ks) sc = add_keys rc now e' ks sc2" if "k' \<noteq> ''''"
    using that unfolding sc2_def sc1_def by (simp add: Let_def)
  consider "k' = ''''" | "k' \<noteq> ''''" "k' = k" | "k' \<noteq> ''''" "k' \<noteq> k" by blast
  then show ?case
  proof cases
    case 2
    have "guarded T k e sc2"
      using addToMemory_guards [OF "2.prems"(1,8), of T k] 2(2) inv lru
      by (simp add: guarded_def sc1_def)
    then have "guarded T k e (add_keys rc now e' ks sc2)"
      using "2.prems" cfg by (intro add_keys_guarded) auto
    with step 2(1) show ?thesis by simp
  next
    case 3
    have "guarded T k e (add_keys rc now e' ks sc2)"
      using "2.IH"(2) [OF 3(1) sc1_def sc2_def] "2.prems" inv cfg 3(2) by simp
    with step 3(1) show ?thesis by simp
  qed (use 2 in auto)
qed simp

lemma sweep_guarded:
  assumes "guarded T k e sc" and "now < e"
  shows "guarded T k e (sweep now sc)"
proof -
  obtain e' xs ys where inv: "sc_inv sc" and e': "e \<le> e'"
    and l: "lru sc = xs @ (k, e') # ys" "fst ` set xs \<subseteq> T"
    using assms(1) by (auto simp: guarded_def shielded_def)
  let ?P = "\<lambda>p :: string \<times> time. snd p \<le> now"
  have "dropWhile ?P (rev ys @ (k, e') # rev xs) = dropWhile ?P (rev ys) @ (k, e') # rev xs"
    using e' assms(2) by (induction "rev ys" arbitrary: ys) (auto simp: dropWhile_append3 dropWhile_append2 dropWhile_append)
  then have "lru (sweep now sc) = xs @ (k, e') # rev (dropWhile ?P (rev ys))"
    by (simp add: sweep_refines(2) [OF inv] l(1))
  then show ?thesis
    using inv e' l(2) by (auto simp: guarded_def shielded_def intro: inv_intros)
qed

text \<open>The window in which an operation may run without ending the protection of a key marked at \<open>t0\<close>.\<close>

definition in_window :: "time \<Rightarrow> duration \<Rightarrow> string set \<Rightarrow> seen_op \<Rightarrow> bool" where
  "in_window t0 d ks op \<longleftrightarrow> t0 \<le> op_time op \<and> op_time op < t0 + d \<and> op_keys op \<subseteq> ks"

lemma run_op_guarded:
  assumes "guarded T k (t0 + TTL (scCfg sc)) sc" and "finite T" and "card T < sc_cap sc" and "k \<notin> T"
    and "in_window t0 (TTL (scCfg sc)) (insert k T) op"
  shows "guarded T k (t0 + TTL (scCfg sc)) (run_op rc op sc)"
  using assms
  by (cases op)
     (auto simp: in_window_def Add_def intro!: Has_guarded add_keys_guarded sweep_guarded)

lemma run_ops_guarded:
  assumes "guarded T k (t0 + TTL (scCfg sc)) sc" and "finite T" and "card T < sc_cap sc" and "k \<notin> T"
    and "\<And>op. op \<in> set ops \<Longrightarrow> in_window t0 (TTL (scCfg sc)) (insert k T) op"
  shows "guarded T k (t0 + TTL (scCfg sc)) (run_ops rc ops sc)"
  using assms
proof (induction ops arbitrary: sc)
  case (Cons op ops)
  have inv: "sc_inv sc" using Cons.prems(1) by (simp add: guarded_def)
  have cfg: "scCfg (run_op rc op sc) = scCfg sc" by (rule scCfg_run_op [OF inv])
  have "guarded T k (t0 + TTL (scCfg (run_op rc op sc))) (run_op rc op sc)"
    unfolding cfg using Cons.prems by (intro run_op_guarded) auto
  then have "guarded T k (t0 + TTL (scCfg (run_op rc op sc))) (run_ops rc ops (run_op rc op sc))"
    using Cons.prems cfg by (intro Cons.IH) auto
  then show ?case by (simp add: run_ops_def cfg)
qed (simp add: run_ops_def)

lemma Has_hit:
  assumes "sc_inv sc" and "live sc now k" and "k \<in> set ks" and "k \<noteq> ''''"
  shows "fst (Has rc now ks sc)"
proof -
  obtain b sc' where h: "has_memory now ks sc = (b, sc')" by fastforce
  then have "b" using has_memory_refines [OF assms(1), of now ks] assms by (auto simp: live_def lru_has_iff)
  with h show ?thesis by (simp add: Has_def)
qed

section \<open>The cache provides the deduplication contract\<close>

definition memory_only :: "'r SeenCache \<Rightarrow> bool" where
  "memory_only sc \<longleftrightarrow> sc_inv sc \<and> redis sc = None"

definition marks_fit :: "'r SeenCache \<Rightarrow> string list \<Rightarrow> bool" where
  "marks_fit sc ks \<longleftrightarrow> int (card (set ks)) \<le> MaxEntries (scCfg sc)"

lemma Add_marks:
  assumes "sc_inv sc" and "marks_fit sc ks" and "k \<in> set ks" and "k \<noteq> ''''"
    and "now' < now + TTL (scCfg sc)"
  shows "live (Add rc now ks sc) now' k"
proof (rule guarded_live)
  have "card (set ks - {k}) < card (set ks)" using assms(3) by (intro psubset_card_mono) auto
  then have "card (set ks - {k}) < sc_cap sc" using assms(2) by (simp add: marks_fit_def)
  then show "guarded (set ks - {k}) k (now + TTL (scCfg sc)) (Add rc now ks sc)"
    unfolding Add_def using assms by (intro add_keys_guards) auto
qed (use assms in auto)

lemma lru_add_only: "map_of (lru_add cap k e l) k' = Some x \<Longrightarrow> distinct (map fst l) \<Longrightarrow>
   (k' = k \<and> x = e) \<or> map_of l k' = Some x"
proof -
  assume "map_of (lru_add cap k e l) k' = Some x" and d: "distinct (map fst l)"
  then have "(k', x) \<in> set ((k, e) # lru_remove k l)"
    by (auto simp: lru_add_def dest!: map_of_SomeD in_set_takeD)
  then show ?thesis using d by (auto simp: set_lru_remove)
qed

lemma distinct_lru_add: "distinct (map fst l) \<Longrightarrow> distinct (map fst (lru_add cap k e l))"
  by (simp only: lru_add_def distinct_touch distinct_take flip: take_map)

lemma fold_lru_add_only:
  "map_of (fold (\<lambda>k. lru_add cap k e) ks l) k' = Some x \<Longrightarrow> distinct (map fst l) \<Longrightarrow>
   k' \<in> set ks \<or> map_of l k' = Some x"
proof (induction ks arbitrary: l)
  case (Cons k ks)
  then show ?case
    using Cons.IH [of "lru_add cap k e l"] distinct_lru_add [of l cap k e]
      lru_add_only [of cap k e l k' x] by auto
qed simp

lemma Add_only:
  assumes "sc_inv sc" and "live (Add rc now ks sc) now' k"
  shows "k \<in> set ks \<or> live sc now' k"
proof -
  obtain x where "map_of (lru (Add rc now ks sc)) k = Some x" "now' < x"
    using assms(2) by (auto simp: live_def lru_live_def split: option.splits)
  then show ?thesis
    using fold_lru_add_only [of "sc_cap sc" "now + TTL (scCfg sc)" "filter (\<lambda>k. k \<noteq> []) ks" "lru sc" k x]
      assms(1) sc_inv_distinct [OF assms(1)]
    by (auto simp: live_def lru_live_def Add_def add_keys_refines simp del: map_of_eq_Some_iff)
qed

interpretation seen: dedup_store "Has rc" "Add rc" live marks_fit "\<lambda>sc. TTL (scCfg sc)" memory_only
proof unfold_locales
  fix s :: "'a SeenCache" and now now' ks ks' k
  show "memory_only s \<Longrightarrow> fst (Has rc now ks s) \<longleftrightarrow> (\<exists>k \<in> set ks. k \<noteq> [] \<and> live s now k)"
    by (simp add: memory_only_def Has_no_redis)
  show "memory_only s \<Longrightarrow> now \<le> now' \<Longrightarrow> live (snd (Has rc now ks s)) now' k = live s now' k"
    using has_memory_refines [of s now ks]
    by (simp add: memory_only_def Has_no_redis live_def lru_has_live)
  show "memory_only s \<Longrightarrow> marks_fit s ks' \<Longrightarrow> marks_fit (snd (Has rc now ks s)) ks'"
    by (simp add: marks_fit_def memory_only_def frame_simps)
  show "memory_only s \<Longrightarrow> TTL (scCfg (snd (Has rc now ks s))) = TTL (scCfg s)"
    by (simp add: memory_only_def frame_simps)
  show "memory_only s \<Longrightarrow> marks_fit s ks \<Longrightarrow> k \<in> set ks \<Longrightarrow> k \<noteq> [] \<Longrightarrow>
      now' < now + TTL (scCfg s) \<Longrightarrow> live (Add rc now ks s) now' k"
    by (simp add: memory_only_def Add_marks)
  show "memory_only s \<Longrightarrow> live (Add rc now ks s) now' k \<Longrightarrow> k \<in> set ks \<or> live s now' k"
    unfolding memory_only_def using Add_only by blast
  show "memory_only s \<Longrightarrow> memory_only (snd (Has rc now ks s))"
    by (simp add: memory_only_def frame_simps inv_intros)
  show "memory_only s \<Longrightarrow> memory_only (Add rc now ks s)"
    by (simp add: memory_only_def inv_intros Add_def add_keys_no_redis add_keys_refines)
qed

lemma CheckAndMark_contract: "CheckAndMark rc t t' ks sc = seen.check_and_mark rc t t' ks sc"
  by (simp add: CheckAndMark_def seen.check_and_mark_def split: prod.split bool.split)

lemma scCfg_run_ops [frame_simps]: "sc_inv sc \<Longrightarrow> scCfg (run_ops rc ops sc) = scCfg sc"
  unfolding run_ops_def
  by (induction ops arbitrary: sc) (simp_all add: scCfg_run_op [of _ rc] sc_inv_run_op [of _ rc])

lemma scCfg_new [simp]: "scCfg (NewSeenCache c r p) = fillDedupConfig c"
  by (simp add: NewSeenCache_def)

lemma redis_new [simp]: "redis (NewSeenCache c r p) = r"
  by (simp add: NewSeenCache_def)

lemma run_ops_append: "run_ops rc (xs @ ys) sc = run_ops rc ys (run_ops rc xs sc)"
  by (simp add: run_ops_def)

lemma run_ops_Cons: "run_ops rc (x # xs) sc = run_ops rc xs (run_op rc x sc)"
  by (simp add: run_ops_def)

lemma TTL_fill_pos: "0 < TTL (fillDedupConfig c)"
  by (simp add: fillDedupConfig_def)

lemma sweep_live:
  assumes "sc_inv sc" and "now \<le> now'"
  shows "live (sweep now sc) now' k = live sc now' k"
proof -
  let ?P = "\<lambda>p :: string \<times> time. snd p \<le> now"
  define ys where "ys = rev (takeWhile ?P (rev (lru sc)))"
  have split: "lru sc = lru (sweep now sc) @ ys"
    unfolding sweep_refines(2) [OF assms(1)] ys_def
    by (metis rev_append rev_rev_ident takeWhile_dropWhile_id)
  have "snd p \<le> now" if "p \<in> set ys" for p
    using that by (auto simp: ys_def dest: set_takeWhileD)
  then have dead: "\<not> now' < x" if "map_of ys k = Some x" for x
    using that assms(2) by (force dest: map_of_SomeD)
  have "distinct (map fst (lru sc))" using assms(1) by (rule sc_inv_distinct)
  then have "map_of (lru (sweep now sc)) k = None \<or> map_of ys k = None"
    unfolding split by (auto simp: map_of_eq_None_iff)
  moreover have "map_of (lru sc) k = (map_of ys ++ map_of (lru (sweep now sc))) k"
    using split by (metis map_of_append)
  ultimately show ?thesis
    using dead unfolding live_def lru_live_def by (auto simp: map_add_def split: option.splits)
qed

text \<open>The state a new cache reaches through a list of operations.\<close>

definition seen_after :: "'r RedisClient \<Rightarrow> DedupConfig \<Rightarrow> 'r option \<Rightarrow> string \<Rightarrow> seen_op list \<Rightarrow> 'r SeenCache" where
  "seen_after rc cfg r p ops = run_ops rc ops (NewSeenCache cfg r p)"

section \<open>The Redis tier\<close>

lemma add_keys_redis_keeps:
  assumes "\<And>r t t' key v d. t \<le> t' \<Longrightarrow> t' < t + d \<Longrightarrow> Exists rc (SetEx rc r t key v d) t' key"
    and "\<And>r t t' key key' v d. key' \<noteq> key \<Longrightarrow> Exists rc (SetEx rc r t key' v d) t' key = Exists rc r t' key"
    and "redis sc = Some r" and "t0 \<le> now" and "now < t0 + TTL (scCfg sc)"
    and "Exists rc r now (redisPrefix sc @ k)"
  shows "\<exists>r'. redis (add_keys rc t0 e ks sc) = Some r' \<and> Exists rc r' now (redisPrefix sc @ k)"
  using assms(3-)
proof (induction ks arbitrary: sc r)
  case (Cons k' ks)
  let ?sc = "(addToMemory k' e sc)\<lparr>redis := Some (SetEx rc r t0 (redisPrefix sc @ k') ''1'' (TTL (scCfg sc)))\<rparr>"
  have "Exists rc (SetEx rc r t0 (redisPrefix sc @ k') ''1'' (TTL (scCfg sc))) now (redisPrefix sc @ k)"
    using Cons.prems assms(1) assms(2) [of "redisPrefix sc @ k'" "redisPrefix sc @ k"] by (cases "k' = k") auto
  then show ?case
    using Cons.prems Cons.IH [of sc r] Cons.IH [of ?sc] by (auto simp: Let_def frame_simps)
qed simp

lemma add_keys_redis_marks:
  assumes "\<And>r t t' key v d. t \<le> t' \<Longrightarrow> t' < t + d \<Longrightarrow> Exists rc (SetEx rc r t key v d) t' key"
    and "\<And>r t t' key key' v d. key' \<noteq> key \<Longrightarrow> Exists rc (SetEx rc r t key' v d) t' key = Exists rc r t' key"
    and "redis sc = Some r" and "k \<in> set ks" and "k \<noteq> ''''" and "t0 \<le> now" and "now < t0 + TTL (scCfg sc)"
  shows "\<exists>r'. redis (add_keys rc t0 e ks sc) = Some r' \<and> Exists rc r' now (redisPrefix sc @ k)"
  using assms(3-)
proof (induction ks arbitrary: sc r)
  case (Cons k' ks)
  let ?sc = "(addToMemory k' e sc)\<lparr>redis := Some (SetEx rc r t0 (redisPrefix sc @ k') ''1'' (TTL (scCfg sc)))\<rparr>"
  consider "k' = ''''" | "k' = k" "k' \<noteq> ''''" | "k' \<noteq> k" "k' \<noteq> ''''" by blast
  then show ?case
  proof cases
    case 2
    then show ?thesis
      using Cons.prems assms(1) add_keys_redis_keeps [OF assms(1,2), of ?sc _ t0 now k]
      by (auto simp: Let_def frame_simps)
  qed (use Cons.prems Cons.IH [of sc r] Cons.IH [of ?sc] in \<open>auto simp: Let_def frame_simps\<close>)
qed simp

lemma has_redis_hit:
  "k \<in> set ks \<Longrightarrow> k \<noteq> '''' \<Longrightarrow> Exists rc r now (redisPrefix sc @ k) \<Longrightarrow> fst (has_redis rc r now ks sc)"
  by (induction ks) auto

lemma Has_redis_hit:
  assumes "sc_inv sc" and "redis sc = Some r" and "k \<in> set ks" and "k \<noteq> ''''"
    and "Exists rc r now (redisPrefix sc @ k)"
  shows "fst (Has rc now ks sc)"
proof -
  obtain b sc' where h: "has_memory now ks sc = (b, sc')" by fastforce
  with has_memory_refines [OF assms(1), of now ks] assms(2)
  have "redis sc' = Some r" "redisPrefix sc' = redisPrefix sc" by auto
  with h show ?thesis
    using has_redis_hit [OF assms(3,4), of rc r now sc'] assms(5) by (cases b) (auto simp: Has_def)
qed

lemma sweep_from_redis [frame_simps]: "redis (sweep_from now els sc) = redis sc"
  by (induction els arbitrary: sc) (auto simp: frame_simps)

lemma sweep_redis [frame_simps]: "redis (sweep now sc) = redis sc"
  by (simp add: sweep_def frame_simps)

lemma redis_run_ops_none:
  "sc_inv sc \<Longrightarrow> redis sc = None \<Longrightarrow> redis (run_ops rc ops sc) = None"
  unfolding run_ops_def
proof (induction ops arbitrary: sc)
  case (Cons op ops)
  then have "redis (run_op rc op sc) = None"
    by (cases op) (simp_all add: frame_simps Add_def add_keys_no_redis)
  then show ?case using Cons by (simp add: sc_inv_run_op)
qed simp

section \<open>Properties\<close>

text \<open>
  C11. Deduplication guarantee of the cache. Take any history of operations on a new cache, then
  mark a key, then run any interleaving of lookups, marks and sweeps within the TTL that touch
  fewer than \<open>MaxEntries\<close> other keys: a lookup of the key within the TTL still reports it, whatever
  the Redis tier does. LRU eviction and the sweeper never lose a key early.
\<close>

theorem seen_retention:
  assumes "k \<in> set ks" and "k \<noteq> []" and "k \<in> set ks'" and "k \<notin> T" and "set ks \<subseteq> insert k T"
    and "finite T" and "int (card T) < MaxEntries (fillDedupConfig cfg)"
    and "\<And>op. op \<in> set after \<Longrightarrow> in_window t0 (TTL (fillDedupConfig cfg)) (insert k T) op"
    and "now < t0 + TTL (fillDedupConfig cfg)"
  shows "fst (Has rc now ks' (run_ops rc (before @ AddOp t0 ks # after) (NewSeenCache cfg r p)))"
proof -
  let ?s0 = "run_ops rc before (NewSeenCache cfg r p)"
  let ?s1 = "Add rc t0 ks ?s0"
  have inv: "sc_inv ?s0" by (simp add: inv_intros)
  have cfg: "scCfg ?s0 = fillDedupConfig cfg" by (simp add: frame_simps)
  have "guarded T k (t0 + TTL (fillDedupConfig cfg)) ?s1"
    unfolding Add_def cfg time_add_eq using assms inv cfg by (intro add_keys_guards) auto
  then have "guarded T k (t0 + TTL (scCfg ?s1)) (run_ops rc after ?s1)"
    using assms cfg by (intro run_ops_guarded) (auto simp: frame_simps)
  then show ?thesis
    using assms cfg guarded_live [of T k _ "run_ops rc after ?s1" now]
    by (intro Has_hit) (auto simp: run_ops_append run_ops_Cons frame_simps guarded_def)
qed

text \<open>A Redis that keeps an expiry time per key, to run the model on.\<close>

definition demo_redis :: "(string \<Rightarrow> time option) RedisClient" where
  "demo_redis = \<lparr>Exists = (\<lambda>r now k. case r k of None \<Rightarrow> False | Some e \<Rightarrow> now < e),
     SetEx = (\<lambda>r now k v d. r(k \<mapsto> now + d)), RedisClose = (\<lambda>r. r)\<rparr>"

definition demo_dedup :: DedupConfig where
  "demo_dedup = \<lparr>TTL = 100, MaxEntries = 2, SweepInterval = 10\<rparr>"

theorem seen_retention_witness:
  "fst (Has demo_redis 90 [''m1'', ''m9'']
     (run_ops demo_redis ([AddOp 0 [''m7'']] @ AddOp 10 [''m1''] # [AddOp 20 [''m2''], SweepOp 30, HasOp 40 [''m2'']])
        (NewSeenCache demo_dedup (Some Map.empty) [])))"
  by (rule seen_retention [where T = "{''m2''}"])
     (auto simp: demo_dedup_def fillDedupConfig_def in_window_def)

text \<open>
  In every state the cache can reach, its map and its LRU list agree: no key twice, every list
  node indexed under its own key and nothing else indexed, and never more than \<open>MaxEntries\<close> nodes.
\<close>

theorem seen_wellformed:
  "let s = seen_after rc cfg r p ops
   in distinct (map (\<lambda>el. entry_key (node s el)) (evictList s))
    \<and> dom (items s) = (\<lambda>el. entry_key (node s el)) ` set (evictList s)
    \<and> int (length (evictList s)) \<le> MaxEntries (fillDedupConfig cfg)"
proof -
  let ?s = "seen_after rc cfg r p ops"
  have inv: "sc_inv ?s" by (simp add: seen_after_def inv_intros)
  then have "distinct (map fst (lru ?s))" by (rule sc_inv_distinct)
  moreover have "dom (items ?s) = (\<lambda>el. entry_key (node ?s el)) ` set (evictList ?s)"
    using inv by (auto simp: sc_inv_def)
  moreover have "int (length (evictList ?s)) \<le> MaxEntries (fillDedupConfig cfg)"
    using inv scCfg_run_ops [OF sc_inv_new, of rc ops cfg r p] by (simp add: sc_inv_def seen_after_def)
  ultimately show ?thesis by (simp add: lru_def comp_def Let_def)
qed

text \<open>
  \<open>CheckAndMark\<close> is two critical sections, not one atomic step. If two callers' lookups of
  the same unseen key run before either marks it, both are told it is new; run one call after the
  other, the second is told it is a duplicate for as long as the TTL lasts.
\<close>

theorem check_and_mark_interleaving:
  assumes "memory_only sc" and "k \<noteq> []" and "\<not> live sc t1 k" and "t1 \<le> t2" and "t2 \<le> u"
    and "u < t2 + TTL (scCfg sc)"
  shows "\<not> fst (Has rc t1 [k] sc)
    \<and> \<not> fst (Has rc t2 [k] (snd (Has rc t1 [k] sc)))
    \<and> fst (CheckAndMark rc u u' [k] (snd (CheckAndMark rc t1 t2 [k] sc)))"
proof (intro conjI)
  show first: "\<not> fst (Has rc t1 [k] sc)"
    using assms by (simp add: seen.query_iff)
  have "\<not> live sc t2 k"
    using assms(3,4) by (auto simp: live_def lru_live_def split: option.splits)
  then show "\<not> fst (Has rc t2 [k] (snd (Has rc t1 [k] sc)))"
    using assms by (simp add: seen.query_iff seen.invar_query seen.query_known)
  have "marks_fit sc [k]" using assms(1) by (simp add: marks_fit_def memory_only_def sc_inv_def)
  then show "fst (CheckAndMark rc u u' [k] (snd (CheckAndMark rc t1 t2 [k] sc)))"
    using assms first unfolding CheckAndMark_contract
    by (intro seen.redelivery_reported [of sc "[k]" t1 t2 rc k]) (auto simp: seen.check_and_mark_fst)
qed

theorem check_and_mark_interleaving_witness:
  "let sc = NewSeenCache demo_dedup (None :: (string \<Rightarrow> time option) option) []
   in \<not> fst (Has demo_redis 5 [''m''] sc)
    \<and> \<not> fst (Has demo_redis 6 [''m''] (snd (Has demo_redis 5 [''m''] sc)))
    \<and> fst (CheckAndMark demo_redis 50 51 [''m''] (snd (CheckAndMark demo_redis 5 6 [''m''] sc)))"
  unfolding Let_def
  by (rule check_and_mark_interleaving)
     (auto simp: memory_only_def live_def lru_live_def demo_dedup_def NewSeenCache_def lru_def
        fillDedupConfig_def sc_inv_def)

text \<open>
  With a Redis tier, marks are shared: once one instance has marked a key, every other instance
  over the same Redis (same key prefix) reports it within the TTL, however empty its own memory
  is. The hypotheses are \<open>SETEX\<close> and \<open>EXISTS\<close>: a set key exists until its TTL runs out, and setting
  another key does not remove it.
\<close>

theorem redis_shared_marks:
  assumes set_exists: "\<And>r t t' key v d. t \<le> t' \<Longrightarrow> t' < t + d \<Longrightarrow> Exists rc (SetEx rc r t key v d) t' key"
    and set_other: "\<And>r t t' key key' v d. key' \<noteq> key \<Longrightarrow>
        Exists rc (SetEx rc r t key' v d) t' key = Exists rc r t' key"
    and "sc_inv a" and "sc_inv b" and "redis a = Some r" and "redisPrefix b = redisPrefix a"
    and "k \<in> set ks" and "k \<noteq> []" and "k \<in> set ks'" and "t0 \<le> now" and "now < t0 + TTL (scCfg a)"
  shows "fst (Has rc now ks' (b\<lparr>redis := redis (Add rc t0 ks a)\<rparr>))"
proof -
  obtain r' where r': "redis (Add rc t0 ks a) = Some r'" "Exists rc r' now (redisPrefix a @ k)"
    using add_keys_redis_marks [OF set_exists set_other assms(5,7,8,10,11)] by (auto simp: Add_def)
  let ?b = "b\<lparr>redis := Some r'\<rparr>"
  have "sc_inv ?b" using assms(4) by (simp add: sc_inv_def)
  then show ?thesis
    unfolding r'(1) using Has_redis_hit [of ?b r' k ks' rc now] assms(6,8,9) r'(2) by simp
qed

theorem redis_shared_marks_witness:
  "let a = NewSeenCache demo_dedup (Some Map.empty) []; b = NewSeenCache demo_dedup None ''dd:seen:''
   in fst (Has demo_redis 50 [''m1''] (b\<lparr>redis := redis (Add demo_redis 10 [''m1'', ''p1''] a)\<rparr>))"
  unfolding Let_def
  by (rule redis_shared_marks [where k = "''m1''" and r = Map.empty])
     (auto simp: demo_redis_def NewSeenCache_def demo_dedup_def fillDedupConfig_def sc_inv_def)

text \<open>
  The sweeper is invisible: it never changes which keys a later lookup reports. It is not a
  complete cleanup either, although its comment says the list is ordered by time: a lookup moves
  an entry to the front without renewing its expiry, and the entry then outlives its TTL behind a
  younger one, holding one of the \<open>MaxEntries\<close> places.
\<close>

theorem sweep_invisible:
  assumes "memory_only sc" and "now \<le> now'"
  shows "fst (Has rc now' ks (sweep now sc)) = fst (Has rc now' ks sc)"
  using assms sweep_refines(1) [of sc now]
  by (simp add: memory_only_def Has_no_redis sweep_live sweep_redis)

theorem sweep_invisible_witness:
  "fst (Has demo_redis 150 [''a'', ''b''] (sweep 120 (run_ops demo_redis [AddOp 0 [''a''], AddOp 60 [''b'']]
       (NewSeenCache demo_dedup (None :: (string \<Rightarrow> time option) option) []))))
   = fst (Has demo_redis 150 [''a'', ''b''] (run_ops demo_redis [AddOp 0 [''a''], AddOp 60 [''b'']]
       (NewSeenCache demo_dedup None [])))"
  by (rule sweep_invisible)
     (simp_all add: memory_only_def inv_intros redis_run_ops_none redis_new)

lemma sweep_incomplete:
  "let sc = run_ops rc [AddOp 0 [''a''], AddOp 60 [''b''], HasOp 70 [''a'']]
              (NewSeenCache demo_dedup (None :: unit option) [])
   in lru (sweep 120 sc) = [(''a'', 100), (''b'', 160)]"
  by code_simp

end
