(* ===== verification/TtlGate.thy ===== *)
theory TtlGate
  imports Prelude
begin

text \<open>
  The contract shared by the two \<open>at most once per key and time window\<close> gates of the repository, the
  processing lock of the pipeline and the cooldown of the fallback texts: a try either grants a
  key or leaves the state alone, and a granted key is held for a window.
\<close>

locale ttl_gate =
  fixes try_take :: "time \<Rightarrow> string \<Rightarrow> 's \<Rightarrow> bool \<times> 's"
    and held :: "'s \<Rightarrow> time \<Rightarrow> string \<Rightarrow> bool"
    and window :: "'s \<Rightarrow> time \<Rightarrow> time \<Rightarrow> bool"
  assumes try_iff: "fst (try_take now k s) \<longleftrightarrow> \<not> held s now k"
    and refused_same: "\<not> fst (try_take now k s) \<Longrightarrow> snd (try_take now k s) = s"
    and granted_held: "fst (try_take now k s) \<Longrightarrow> window s now now' \<Longrightarrow> held (snd (try_take now k s)) now' k"
    and held_only: "held (snd (try_take now k s)) now' k' \<Longrightarrow> k' = k \<or> held s now' k'"
begin

text \<open>Of two tries of one key within the window at most one is granted.\<close>

lemma second_try_refused:
  assumes "fst (try_take now k s)" and "window s now now'"
  shows "\<not> fst (try_take now' k (snd (try_take now k s)))"
  using granted_held [OF assms] by (simp add: try_iff)

text \<open>A key is not affected by the tries of other keys.\<close>

lemma other_key_free:
  assumes "k' \<noteq> k" and "\<not> held s now' k'"
  shows "fst (try_take now' k' (snd (try_take now k s)))"
  unfolding try_iff using assms held_only by blast

text \<open>A refused try grants nothing and extends nothing.\<close>

lemma refused_no_effect:
  "held s now k \<Longrightarrow> snd (try_take now k s) = s"
  by (simp add: refused_same try_iff)

end

end
