(* ===== verification/ProcessingLock.thy ===== *)
theory ProcessingLock
  imports Types TtlGate
begin

text \<open>
  \<open>internal/safety/processing_lock.go\<close>: the in-memory lock with a time-to-live that keeps one event
  from being processed twice at a time. Times are read in milliseconds, as the code does.
\<close>

record ProcessingLock =
  locks :: "string \<rightharpoonup> int"
  ttlMs :: int
  lockStopped :: bool

definition NewProcessingLock :: "duration \<Rightarrow> ProcessingLock" where
  "NewProcessingLock ttl = \<lparr>locks = Map.empty, ttlMs = milliseconds ttl, lockStopped = False\<rparr>"

definition Acquire :: "time \<Rightarrow> string \<Rightarrow> ProcessingLock \<Rightarrow> bool \<times> ProcessingLock" where
  "Acquire t i pl =
     (let now = unix_milli t in
      case locks pl i of
        Some expiry \<Rightarrow>
          if expiry > now then (False, pl)
          else (True, pl\<lparr>locks := (locks pl)(i \<mapsto> now + ttlMs pl)\<rparr>)
      | None \<Rightarrow> (True, pl\<lparr>locks := (locks pl)(i \<mapsto> now + ttlMs pl)\<rparr>))"

definition Release :: "string \<Rightarrow> ProcessingLock \<Rightarrow> ProcessingLock" where
  "Release i pl = pl\<lparr>locks := (locks pl)(i := None)\<rparr>"

definition lock_sweep :: "time \<Rightarrow> ProcessingLock \<Rightarrow> ProcessingLock" where
  "lock_sweep t pl =
     (let now = unix_milli t in
      pl\<lparr>locks := (\<lambda>i. case locks pl i of
                       Some expiry \<Rightarrow> if expiry \<le> now then None else Some expiry
                     | None \<Rightarrow> None)\<rparr>)"

definition lock_Dispose :: "ProcessingLock \<Rightarrow> ProcessingLock" where
  "lock_Dispose pl = pl\<lparr>lockStopped := True, locks := Map.empty\<rparr>"

section \<open>What is held\<close>

definition lock_held :: "ProcessingLock \<Rightarrow> time \<Rightarrow> string \<Rightarrow> bool" where
  "lock_held pl t i \<longleftrightarrow> (case locks pl i of Some expiry \<Rightarrow> expiry > unix_milli t | None \<Rightarrow> False)"

definition lock_window :: "ProcessingLock \<Rightarrow> time \<Rightarrow> time \<Rightarrow> bool" where
  "lock_window pl t t' \<longleftrightarrow> unix_milli t' < unix_milli t + ttlMs pl"

interpretation lock: ttl_gate Acquire lock_held lock_window
  by unfold_locales
    (auto simp: Acquire_def lock_held_def lock_window_def Let_def split: option.splits if_splits)

lemma ttlMs_frame [frame_simps]:
  "ttlMs (snd (Acquire t i pl)) = ttlMs pl" "ttlMs (Release i pl) = ttlMs pl"
  "ttlMs (lock_sweep t pl) = ttlMs pl"
  by (auto simp: Acquire_def Release_def lock_sweep_def Let_def split: option.split)

lemma held_Release [simp]: "lock_held (Release i pl) t j \<longleftrightarrow> j \<noteq> i \<and> lock_held pl t j"
  by (simp add: lock_held_def Release_def)

lemma held_sweep: "t \<le> t' \<Longrightarrow> lock_held (lock_sweep t pl) t' j = lock_held pl t' j"
  using unix_milli_mono [of t t'] by (auto simp: lock_held_def lock_sweep_def Let_def split: option.splits)

lemma held_Acquire_other: "j \<noteq> i \<Longrightarrow> lock_held (snd (Acquire t i pl)) t' j = lock_held pl t' j"
  by (auto simp: Acquire_def lock_held_def Let_def split: option.splits)

lemma held_antimono: "lock_held pl t' j \<Longrightarrow> t \<le> t' \<Longrightarrow> lock_held pl t j"
  using unix_milli_mono [of t t'] by (auto simp: lock_held_def split: option.splits)

section \<open>Sequences of operations\<close>

datatype lock_op = OpAcquire time string | OpRelease string | OpSweep time

fun run_lock_op :: "lock_op \<Rightarrow> ProcessingLock \<Rightarrow> ProcessingLock" where
  "run_lock_op (OpAcquire t i) pl = snd (Acquire t i pl)"
| "run_lock_op (OpRelease i) pl = Release i pl"
| "run_lock_op (OpSweep t) pl = lock_sweep t pl"

definition run_lock :: "lock_op list \<Rightarrow> ProcessingLock \<Rightarrow> ProcessingLock" where
  "run_lock ops pl = fold run_lock_op ops pl"

text \<open>The operations that cannot take the lock on \<open>i\<close> away before time \<open>t\<close>.\<close>

fun harmless :: "string \<Rightarrow> time \<Rightarrow> lock_op \<Rightarrow> bool" where
  "harmless i t (OpAcquire u j) \<longleftrightarrow> u \<le> t"
| "harmless i t (OpRelease j) \<longleftrightarrow> j \<noteq> i"
| "harmless i t (OpSweep u) \<longleftrightarrow> u \<le> t"

lemma harmless_step:
  assumes "lock_held pl t i" and "harmless i t op"
  shows "lock_held (run_lock_op op pl) t i"
proof (cases op)
  case (OpAcquire u j)
  then have "lock_held pl u i" using assms held_antimono by auto
  then show ?thesis
    using assms OpAcquire lock.refused_no_effect [of pl u i]
    by (cases "j = i") (auto simp: held_Acquire_other)
qed (use assms in \<open>auto simp: held_sweep\<close>)

lemma harmless_run: "lock_held pl t i \<Longrightarrow> list_all (harmless i t) ops \<Longrightarrow> lock_held (run_lock ops pl) t i"
  unfolding run_lock_def by (induction ops arbitrary: pl) (auto intro: harmless_step)

section \<open>Properties\<close>

text \<open>
  C25. Mutual exclusion. Once a caller has acquired an id, no other acquire of that id succeeds until
  the id is released or the time-to-live has passed, whatever acquires of any id, releases of other
  ids and sweeps happen in between.
\<close>

theorem lock_excludes:
  assumes "fst (Acquire t i pl)" and "list_all (harmless i t') ops" and "lock_window pl t t'"
  shows "\<not> fst (Acquire t' i (run_lock ops (snd (Acquire t i pl))))"
  using assms lock.granted_held harmless_run by (simp add: lock.try_iff)

theorem lock_excludes_witness:
  "\<not> fst (Acquire (4 * Minute) ''e1'' (run_lock
      [OpAcquire (1 * Minute) ''e1'', OpAcquire (1 * Minute) ''e2'', OpRelease ''e2'', OpSweep (3 * Minute)]
      (snd (Acquire 0 ''e1'' (NewProcessingLock (5 * Minute))))))"
  by (rule lock_excludes)
    (simp_all add: Acquire_def NewProcessingLock_def lock_window_def unix_milli_def milliseconds_def
      signed_divide_int_def)

text \<open>
  The lock never blocks for good: a released id, and an id whose time-to-live has passed, can be
  acquired again, and a lock whose time-to-live is under a millisecond (a zero \<open>LockTTL\<close> among
  them) excludes nobody.
\<close>

theorem lock_available:
  "fst (Acquire t' i (Release i pl))
   \<and> (unix_milli t' \<ge> unix_milli t + ttlMs pl \<and> fst (Acquire t i pl) \<longrightarrow> fst (Acquire t' i (snd (Acquire t i pl))))
   \<and> (ttl < Millisecond \<and> t \<le> t' \<longrightarrow> fst (Acquire t' i (snd (Acquire t i (NewProcessingLock ttl)))))"
proof -
  have "milliseconds ttl \<le> 0" if "ttl < Millisecond"
    using that by (auto simp: milliseconds_def signed_divide_int_def sgn_if intro: mult_nonneg_nonpos)
  then show ?thesis
    using unix_milli_mono [of t t']
    by (auto simp: Acquire_def Release_def NewProcessingLock_def Let_def split: option.splits)
qed

theorem lock_available_witness:
  "fst (Acquire 7 ''e'' (Release ''e'' (NewProcessingLock Second)))
   \<and> fst (Acquire (2 * Second) ''e'' (snd (Acquire 0 ''e'' (NewProcessingLock Second))))
   \<and> fst (Acquire 2 ''e'' (snd (Acquire 1 ''e'' (NewProcessingLock 0))))"
  using lock_available [of 7 "''e''" "NewProcessingLock Second" 0]
    lock_available [of "2 * Second" "''e''" "NewProcessingLock Second" 0 0]
    lock_available [of 2 "''e''" "NewProcessingLock Second" 1 0]
  by (simp add: Acquire_def NewProcessingLock_def unix_milli_def milliseconds_def signed_divide_int_def)

text \<open>
  \<open>Release\<close> carries no owner: a first holder whose time-to-live ran out releases, when it ends, the
  lock that a second holder has meanwhile acquired, and a third caller is let in.
\<close>

lemma late_release_unlocks:
  "let pl0 = NewProcessingLock (5 * Minute);
       pl1 = snd (Acquire 0 ''e'' pl0);
       (second, pl2) = Acquire (6 * Minute) ''e'' pl1;
       pl3 = Release ''e'' pl2
   in second \<and> fst (Acquire (7 * Minute) ''e'' pl3)"
  by (simp add: Acquire_def NewProcessingLock_def Release_def unix_milli_def milliseconds_def
      signed_divide_int_def)

end
