(* ===== verification/Decimal.thy ===== *)
theory Decimal
  imports Prelude
begin

text \<open>
  Decimal output of an integer, the \<open>%d\<close> of Go's \<open>fmt\<close> and \<open>strconv.Itoa\<close>, and the fact
  that the output determines the number.
\<close>

fun nat_digits :: "nat \<Rightarrow> string" where
  "nat_digits n = (if n < 10 then [char_of (48 + n)] else nat_digits (n div 10) @ [char_of (48 + n mod 10)])"

declare nat_digits.simps [simp del]

definition format_int :: "int \<Rightarrow> string" where
  "format_int i = (if i < 0 then CHR ''-'' # nat_digits (nat (- i)) else nat_digits (nat i))"

section \<open>Reading decimal numbers back\<close>

definition digit_value :: "char \<Rightarrow> nat" where
  "digit_value c = of_char c - 48"

definition digits_value :: "string \<Rightarrow> nat" where
  "digits_value ds = foldl (\<lambda>n c. 10 * n + digit_value c) 0 ds"

definition is_digit :: "char \<Rightarrow> bool" where
  "is_digit c \<longleftrightarrow> 48 \<le> (of_char c :: nat) \<and> (of_char c :: nat) \<le> 57"

lemma digit_char [simp]:
  "n < 10 \<Longrightarrow> digit_value (char_of (48 + n :: nat)) = n" "n < 10 \<Longrightarrow> is_digit (char_of (48 + n :: nat))"
  by (simp_all add: digit_value_def is_digit_def)

lemma nat_digits_value [simp]: "digits_value (nat_digits n) = n"
proof (induction n rule: nat_digits.induct)
  case (1 n)
  then show ?case
    by (subst nat_digits.simps) (auto simp: digits_value_def)
qed

lemma nat_digits_digits: "c \<in> set (nat_digits n) \<Longrightarrow> is_digit c"
proof (induction n rule: nat_digits.induct)
  case (1 n)
  then show ?case by (subst (asm) (2) nat_digits.simps) (auto split: if_splits)
qed

lemma nat_digits_inj: "nat_digits m = nat_digits n \<Longrightarrow> m = n"
  by (metis nat_digits_value)

lemma format_int_chars: "c \<in> set (format_int i) \<Longrightarrow> is_digit c \<or> c = CHR ''-''"
  using nat_digits_digits by (auto simp: format_int_def split: if_splits)

lemma format_int_inj: "format_int i = format_int j \<Longrightarrow> i = j"
proof -
  have minus: "CHR ''-'' # ds \<noteq> nat_digits n" for ds n
  proof
    assume "CHR ''-'' # ds = nat_digits n"
    then have "CHR ''-'' \<in> set (nat_digits n)" by (metis list.set_intros(1))
    then show False using nat_digits_digits [of "CHR ''-''" n] by (simp add: is_digit_def)
  qed
  assume "format_int i = format_int j"
  then show ?thesis
    using minus minus [symmetric] by (auto simp: format_int_def split: if_splits dest: nat_digits_inj)
qed

lemma format_int_no_colon: "CHR '':'' \<notin> set (format_int i)"
  using format_int_chars [of "CHR '':''" i] by (auto simp: is_digit_def)

end
