(* ===== verification/Digest.thy ===== *)
theory Digest
  imports Types Decimal
begin

text \<open>
  The digests the safety layer keys its tables with: SHA-256 of the Go standard library
  (\<open>crypto/sha256\<close>), hexadecimal output, and
  \<open>ContentFingerprint\<close> of \<open>internal/safety/seen_cache.go\<close>.
\<close>

unbundle bit_operations_syntax

section \<open>SHA-256\<close>

definition sha_K :: "32 word list" where
  "sha_K = [
     0x428A2F98, 0x71374491, 0xB5C0FBCF, 0xE9B5DBA5, 0x3956C25B, 0x59F111F1, 0x923F82A4, 0xAB1C5ED5,
     0xD807AA98, 0x12835B01, 0x243185BE, 0x550C7DC3, 0x72BE5D74, 0x80DEB1FE, 0x9BDC06A7, 0xC19BF174,
     0xE49B69C1, 0xEFBE4786, 0x0FC19DC6, 0x240CA1CC, 0x2DE92C6F, 0x4A7484AA, 0x5CB0A9DC, 0x76F988DA,
     0x983E5152, 0xA831C66D, 0xB00327C8, 0xBF597FC7, 0xC6E00BF3, 0xD5A79147, 0x06CA6351, 0x14292967,
     0x27B70A85, 0x2E1B2138, 0x4D2C6DFC, 0x53380D13, 0x650A7354, 0x766A0ABB, 0x81C2C92E, 0x92722C85,
     0xA2BFE8A1, 0xA81A664B, 0xC24B8B70, 0xC76C51A3, 0xD192E819, 0xD6990624, 0xF40E3585, 0x106AA070,
     0x19A4C116, 0x1E376C08, 0x2748774C, 0x34B0BCB5, 0x391C0CB3, 0x4ED8AA4A, 0x5B9CCA4F, 0x682E6FF3,
     0x748F82EE, 0x78A5636F, 0x84C87814, 0x8CC70208, 0x90BEFFFA, 0xA4506CEB, 0xBEF9A3F7, 0xC67178F2]"

definition sha_H0 :: "32 word list" where
  "sha_H0 = [
     0x6A09E667, 0xBB67AE85, 0x3C6EF372, 0xA54FF53A, 0x510E527F, 0x9B05688C, 0x1F83D9AB, 0x5BE0CD19]"

definition sha_sigma0 :: "32 word \<Rightarrow> 32 word" where
  "sha_sigma0 x = word_rotr 7 x XOR word_rotr 18 x XOR drop_bit 3 x"

definition sha_sigma1 :: "32 word \<Rightarrow> 32 word" where
  "sha_sigma1 x = word_rotr 17 x XOR word_rotr 19 x XOR drop_bit 10 x"

definition sha_Sigma0 :: "32 word \<Rightarrow> 32 word" where
  "sha_Sigma0 x = word_rotr 2 x XOR word_rotr 13 x XOR word_rotr 22 x"

definition sha_Sigma1 :: "32 word \<Rightarrow> 32 word" where
  "sha_Sigma1 x = word_rotr 6 x XOR word_rotr 11 x XOR word_rotr 25 x"

text \<open>Bytes, most significant first, to words and back.\<close>

definition word_of_bytes :: "8 word list \<Rightarrow> 32 word" where
  "word_of_bytes bs = foldl (\<lambda>w b. push_bit 8 w OR ucast b) 0 bs"

definition bytes_of_word :: "32 word \<Rightarrow> 8 word list" where
  "bytes_of_word w = [ucast (drop_bit 24 w), ucast (drop_bit 16 w), ucast (drop_bit 8 w), ucast w]"

function sha_words :: "8 word list \<Rightarrow> 32 word list" where
  "sha_words bs = (if bs = [] then [] else word_of_bytes (take 4 bs) # sha_words (drop 4 bs))"
  by pat_completeness auto
termination by (relation "measure length") auto

function sha_blocks :: "32 word list \<Rightarrow> 32 word list list" where
  "sha_blocks ws = (if ws = [] then [] else take 16 ws # sha_blocks (drop 16 ws))"
  by pat_completeness auto
termination by (relation "measure length") auto

declare sha_words.simps [simp del] sha_blocks.simps [simp del]

text \<open>The padding: a one bit, zeros, and the length in bits as a 64-bit number.\<close>

definition sha_pad :: "8 word list \<Rightarrow> 8 word list" where
  "sha_pad bs =
     (let l = length bs;
          zeros = (119 - l mod 64) mod 64;
          bits = (of_nat (8 * l) :: 64 word)
      in bs @ [0x80] @ replicate zeros 0
           @ bytes_of_word (ucast (drop_bit 32 bits)) @ bytes_of_word (ucast bits))"

text \<open>The message schedule, extended from 16 words by one word at a time.\<close>

definition sha_next :: "32 word list \<Rightarrow> 32 word" where
  "sha_next w = (let i = length w in
     sha_sigma1 (w ! (i - 2)) + w ! (i - 7) + sha_sigma0 (w ! (i - 15)) + w ! (i - 16))"

primrec sha_extend :: "nat \<Rightarrow> 32 word list \<Rightarrow> 32 word list" where
  "sha_extend 0 w = w"
| "sha_extend (Suc n) w = sha_extend n (w @ [sha_next w])"

fun sha_round :: "32 word list \<Rightarrow> 32 word \<times> 32 word \<Rightarrow> 32 word list" where
  "sha_round [a, b, c, d, e, f, g, h] (k, w) =
     (let t1 = h + sha_Sigma1 e + ((e AND f) XOR (NOT e AND g)) + k + w;
          t2 = sha_Sigma0 a + ((a AND b) XOR (a AND c) XOR (b AND c))
      in [t1 + t2, a, b, c, d + t1, e, f, g])"
| "sha_round st _ = st"

definition sha_block :: "32 word list \<Rightarrow> 32 word list \<Rightarrow> 32 word list" where
  "sha_block st block = map2 (+) st (foldl sha_round st (zip sha_K (sha_extend 48 block)))"

definition Sum256_bytes :: "8 word list \<Rightarrow> 8 word list" where
  "Sum256_bytes bs = concat (map bytes_of_word (foldl sha_block sha_H0 (sha_blocks (sha_words (sha_pad bs)))))"

definition byte_of_char :: "char \<Rightarrow> 8 word" where
  "byte_of_char c = of_char c"

definition Sum256 :: "string \<Rightarrow> 8 word list" where
  "Sum256 s = Sum256_bytes (map byte_of_char s)"

section \<open>Hexadecimal\<close>

definition hex_digit :: "nat \<Rightarrow> char" where
  "hex_digit n = ''0123456789abcdef'' ! n"

definition hex_byte :: "8 word \<Rightarrow> string" where
  "hex_byte b = [hex_digit (unat b div 16), hex_digit (unat b mod 16)]"

definition EncodeToString :: "8 word list \<Rightarrow> string" where
  "EncodeToString bs = concat (map hex_byte bs)"

section \<open>The content fingerprint\<close>

text \<open>The text that is hashed, \<open>fmt.Sprintf("%s:%d:%s:%s", ...)\<close>, and the fingerprint.\<close>

definition fingerprint_data :: "string \<Rightarrow> int \<Rightarrow> string \<Rightarrow> string \<Rightarrow> string" where
  "fingerprint_data conversationID createAt msgType content =
     conversationID @ '':'' @ format_int createAt @ '':'' @ msgType @ '':'' @ content"

definition ContentFingerprint :: "string \<Rightarrow> int \<Rightarrow> string \<Rightarrow> string \<Rightarrow> string" where
  "ContentFingerprint conversationID createAt msgType content =
     ''fp:'' @ EncodeToString (Sum256 (fingerprint_data conversationID createAt msgType content))"

section \<open>What a fingerprint determines\<close>

lemma append_sep_inj:
  "c \<notin> set xs \<Longrightarrow> c \<notin> set ys \<Longrightarrow> xs @ c # s = ys @ c # t \<Longrightarrow> xs = ys \<and> s = t"
proof (induction xs arbitrary: ys)
  case Nil
  then show ?case by (cases ys) auto
next
  case (Cons x xs)
  then show ?case by (cases ys) auto
qed

section \<open>Properties\<close>

text \<open>
  What the fingerprint tells apart. Two messages have the same hashed text exactly when they
  have the same conversation, creation time, type and content, as long as conversation ids and
  message types contain no colon; different hashed texts have different fingerprints unless
  SHA-256 collides.
\<close>

theorem fingerprint_separates:
  assumes "CHR '':'' \<notin> set c1" and "CHR '':'' \<notin> set c2" and "CHR '':'' \<notin> set m1" and "CHR '':'' \<notin> set m2"
  shows "fingerprint_data c1 t1 m1 x1 = fingerprint_data c2 t2 m2 x2
    \<longleftrightarrow> c1 = c2 \<and> t1 = t2 \<and> m1 = m2 \<and> x1 = x2"
proof
  assume eq: "fingerprint_data c1 t1 m1 x1 = fingerprint_data c2 t2 m2 x2"
  have "c1 = c2 \<and> format_int t1 @ CHR '':'' # m1 @ CHR '':'' # x1 = format_int t2 @ CHR '':'' # m2 @ CHR '':'' # x2"
    using eq assms(1,2) by (intro append_sep_inj) (simp_all add: fingerprint_data_def)
  moreover from this have "format_int t1 = format_int t2 \<and> m1 @ CHR '':'' # x1 = m2 @ CHR '':'' # x2"
    using format_int_no_colon by (intro append_sep_inj) auto
  moreover from this have "m1 = m2 \<and> x1 = x2"
    using assms(3,4) by (intro append_sep_inj) auto
  ultimately show "c1 = c2 \<and> t1 = t2 \<and> m1 = m2 \<and> x1 = x2"
    using format_int_inj by blast
qed simp

theorem fingerprint_separates_witness:
  "fingerprint_data ''cid1'' 1700 ''text'' ''a:b'' = fingerprint_data ''cid1'' 1700 ''text'' ''a:b''
   \<and> fingerprint_data ''cid1'' 1700 ''text'' ''a'' \<noteq> fingerprint_data ''cid1'' 1701 ''text'' ''a''"
  using fingerprint_separates [of "''cid1''" "''cid1''" "''text''" "''text''" 1700 "''a:b''" 1700 "''a:b''"]
    fingerprint_separates [of "''cid1''" "''cid1''" "''text''" "''text''" 1700 "''a''" 1701 "''a''"]
  by simp

text \<open>With colons in the fields, different messages can share their hashed text, and then their fingerprint.\<close>

lemma fingerprint_ambiguous:
  "ContentFingerprint ''cid:1'' 2 ''text'' ''hi'' = ContentFingerprint ''cid'' 1 ''2'' ''text:hi''"
proof -
  have "fingerprint_data ''cid:1'' 2 ''text'' ''hi'' = fingerprint_data ''cid'' 1 ''2'' ''text:hi''"
    by code_simp
  then show ?thesis by (simp add: ContentFingerprint_def)
qed

end
