(* ===== verification/Utf8.thy ===== *)
theory Utf8
  imports Prelude
begin

text \<open>
  UTF-8 as the Go language converts between \<open>string\<close> and \<open>[]rune\<close>: a rune is a code point, here a
  \<open>nat\<close>. Encoding an invalid rune gives U+FFFD, decoding an invalid byte gives U+FFFD and consumes
  one byte, and a valid encoding is accepted only in its shortest form.
\<close>

definition RuneError :: nat where "RuneError = 0xFFFD"

definition valid_rune :: "nat \<Rightarrow> bool" where
  "valid_rune r \<longleftrightarrow> r < 0xD800 \<or> (0xE000 \<le> r \<and> r \<le> 0x10FFFF)"

abbreviation byte :: "nat \<Rightarrow> char" where "byte n \<equiv> char_of n"
abbreviation ord :: "char \<Rightarrow> nat" where "ord c \<equiv> of_char c"

definition encode_valid :: "nat \<Rightarrow> string" where
  "encode_valid r =
     (if r < 0x80 then [byte r]
      else if r < 0x800 then [byte (0xC0 + r div 64), byte (0x80 + r mod 64)]
      else if r < 0x10000 then [byte (0xE0 + r div 4096), byte (0x80 + r div 64 mod 64), byte (0x80 + r mod 64)]
      else [byte (0xF0 + r div 262144), byte (0x80 + r div 4096 mod 64), byte (0x80 + r div 64 mod 64),
            byte (0x80 + r mod 64)])"

text \<open>\<open>string(rune(r))\<close> and \<open>string(runes)\<close>.\<close>

definition encode_rune :: "nat \<Rightarrow> string" where
  "encode_rune r = encode_valid (if valid_rune r then r else RuneError)"

definition encode_runes :: "nat list \<Rightarrow> string" where
  "encode_runes rs = concat (map encode_rune rs)"

definition cont :: "char \<Rightarrow> bool" where
  "cont c \<longleftrightarrow> 0x80 \<le> ord c \<and> ord c \<le> 0xBF"

text \<open>The range of the second byte that the first byte allows (the table of \<open>unicode/utf8\<close>).\<close>

definition second_ok :: "nat \<Rightarrow> char \<Rightarrow> bool" where
  "second_ok b0 c \<longleftrightarrow> cont c \<and> (b0 = 0xE0 \<longrightarrow> 0xA0 \<le> ord c) \<and> (b0 = 0xED \<longrightarrow> ord c \<le> 0x9F)
     \<and> (b0 = 0xF0 \<longrightarrow> 0x90 \<le> ord c) \<and> (b0 = 0xF4 \<longrightarrow> ord c \<le> 0x8F)"

text \<open>The first rune of a non-empty string and the number of bytes it takes.\<close>

definition decode_rune :: "char \<Rightarrow> string \<Rightarrow> nat \<times> nat" where
  "decode_rune c cs =
     (let b0 = ord c in
      if b0 < 0x80 then (b0, 1)
      else if 0xC2 \<le> b0 \<and> b0 \<le> 0xDF then
        (case cs of
           c1 # _ \<Rightarrow> if cont c1 then ((b0 - 0xC0) * 64 + (ord c1 - 0x80), 2) else (RuneError, 1)
         | [] \<Rightarrow> (RuneError, 1))
      else if 0xE0 \<le> b0 \<and> b0 \<le> 0xEF then
        (case cs of
           c1 # c2 # _ \<Rightarrow>
             if second_ok b0 c1 \<and> cont c2
             then ((b0 - 0xE0) * 4096 + (ord c1 - 0x80) * 64 + (ord c2 - 0x80), 3) else (RuneError, 1)
         | _ \<Rightarrow> (RuneError, 1))
      else if 0xF0 \<le> b0 \<and> b0 \<le> 0xF4 then
        (case cs of
           c1 # c2 # c3 # _ \<Rightarrow>
             if second_ok b0 c1 \<and> cont c2 \<and> cont c3
             then ((b0 - 0xF0) * 262144 + (ord c1 - 0x80) * 4096 + (ord c2 - 0x80) * 64 + (ord c3 - 0x80), 4)
             else (RuneError, 1)
         | _ \<Rightarrow> (RuneError, 1))
      else (RuneError, 1))"

lemma decode_rune_size: "0 < snd (decode_rune c cs)"
  by (simp add: decode_rune_def Let_def split: list.split)

text \<open>\<open>[]rune(s)\<close>.\<close>

function decode_runes :: "string \<Rightarrow> nat list" where
  "decode_runes [] = []"
| "decode_runes (c # cs) =
     fst (decode_rune c cs) # decode_runes (drop (snd (decode_rune c cs)) (c # cs))"
  by pat_completeness auto
termination
proof (relation "measure length", goal_cases)
  case (2 c cs)
  then show ?case using decode_rune_size [of c cs] by (simp del: drop_Suc_Cons)
qed simp

section \<open>Decoding inverts encoding\<close>

lemma ord_byte [simp]: "n < 256 \<Longrightarrow> ord (byte n) = n"
  by simp

lemma valid_RuneError [simp]: "valid_rune RuneError"
  by (simp add: valid_rune_def RuneError_def)

lemma div_mod_64: "(r :: nat) div 4096 * 4096 + r div 64 mod 64 * 64 + r mod 64 = r"
proof -
  have "r div 4096 = r div 64 div 64" by (simp add: div_mult2_eq [of r 64 64, simplified])
  moreover have "r div 64 div 64 * 64 + r div 64 mod 64 = r div 64" by simp
  ultimately have "r div 4096 * 64 + r div 64 mod 64 = r div 64" by simp
  then have "(r div 4096 * 64 + r div 64 mod 64) * 64 + r mod 64 = r" by simp
  then show ?thesis by (simp add: algebra_simps)
qed

lemma le63: "(x :: nat) mod 64 \<le> 63"
  using mod_less_divisor [of 64 x] by linarith

lemma decode_encode_valid:
  assumes "valid_rune r"
  shows "\<exists>c cs. encode_valid r = c # cs \<and> decode_rune c (cs @ s) = (r, Suc (length cs))"
proof -
  consider "r < 0x80" | "0x80 \<le> r" "r < 0x800" | "0x800 \<le> r" "r < 0x10000" | "0x10000 \<le> r" by linarith
  then show ?thesis
  proof cases
    case 1
    then show ?thesis by (simp add: encode_valid_def decode_rune_def)
  next
    case 2
    then have "2 \<le> r div 64" "r div 64 < 32" by (simp_all add: less_mult_imp_div_less div_le_mono [of 128 r 64, simplified])
    then show ?thesis
      using 2 by (simp add: encode_valid_def decode_rune_def cont_def Let_def)
  next
    case 3
    have q: "r div 4096 < 16" "r div 64 mod 64 < 64" using 3 by (simp_all add: less_mult_imp_div_less)
    have "32 \<le> r div 64 mod 64" if "r div 4096 = 0"
      using that 3(1) div_le_mono [of 2048 r 64] by (simp add: mod_if div_eq_0_iff less_mult_imp_div_less)
    moreover have "r div 64 mod 64 \<le> 31" if "r div 4096 = 13"
    proof -
      have "r < 0xD800 \<or> 0xE000 \<le> r" using assms by (auto simp: valid_rune_def)
      moreover have "r < 14 * 4096"
        using that div_mult_mod_eq [of r 4096] mod_less_divisor [of 4096 r] by linarith
      ultimately have "r < 13 * 4096 + 32 * 64" by simp
      then show ?thesis using div_mod_64 [of r] that by simp
    qed
    ultimately show ?thesis
      using 3 q div_mod_64 [of r] le63 [of r] le63 [of "r div 64"]
      by (simp add: encode_valid_def decode_rune_def cont_def second_ok_def Let_def)
  next
    case 4
    have le: "r \<le> 0x10FFFF" using assms 4 by (auto simp: valid_rune_def)
    have q: "r div 262144 \<le> 4" "r div 4096 mod 64 < 64" "r div 64 mod 64 < 64"
      using div_le_mono [OF le, of 262144] by simp_all
    have d: "r div 262144 * 64 + r div 4096 mod 64 = r div 4096"
      using div_mult2_eq [of r 4096 64] by simp
    have "16 \<le> r div 4096" using div_le_mono [OF 4, of 4096] by simp
    then have "16 \<le> r div 4096 mod 64" if "r div 262144 = 0" using that d by simp
    moreover have "r div 4096 \<le> 271" using div_le_mono [OF le, of 4096] by simp
    then have "r div 4096 mod 64 \<le> 15" if "r div 262144 = 4" using that d by simp
    ultimately show ?thesis
      using 4 q d div_mod_64 [of r] le63 [of r] le63 [of "r div 64"] le63 [of "r div 4096"]
      by (simp add: encode_valid_def decode_rune_def cont_def second_ok_def Let_def algebra_simps)
  qed
qed

lemma decode_encode: "list_all valid_rune rs \<Longrightarrow> decode_runes (encode_runes rs) = rs"
proof (induction rs)
  case (Cons r rs)
  then have "valid_rune r" by simp
  then obtain c cs where "encode_valid r = c # cs"
    "decode_rune c (cs @ encode_runes rs) = (r, Suc (length cs))"
    using decode_encode_valid by metis
  with Cons show ?case by (simp add: encode_runes_def encode_rune_def)
qed (simp add: encode_runes_def)

lemma encode_runes_append [simp]: "encode_runes (xs @ ys) = encode_runes xs @ encode_runes ys"
  by (simp add: encode_runes_def)

end
