(* ===== verification/MediaPipeline.thy ===== *)
theory MediaPipeline
  imports Digest Utf8 Coalescer "HOL-Library.Multiset"
begin

text \<open>
  \<open>internal/safety/media_pipeline.go\<close>: merging media messages that arrive in quick succession. A
  bucket per batch key collects messages; a full bucket, its timer, a text message of the same
  chat or the disposal flushes it to a goroutine that calls the handler. \<open>spawned\<close> holds the
  merged messages whose goroutine has not called the handler yet; it reads the field \<open>handler\<close>
  only then. \<open>mpFlushed\<close> and \<open>mpCalls\<close> log the flushes and the handler calls. Go's iteration over the buckets takes its order from an argument.
\<close>

record mediaBucket =
  bkSources :: "IncomingMessage list"
  bkTimer :: "duration option"

record 'h MediaPipelineManager =
  mpCfg :: MediaBatchConfig
  buckets :: "string \<rightharpoonup> mediaBucket"
  mpHandler :: "'h option"
  spawned :: "(string \<times> IncomingMessage) list"
  mpFlushed :: "(string \<times> IncomingMessage) list"
  mpCalls :: "('h \<times> string \<times> IncomingMessage) list"

definition fillMediaBatchConfig :: "MediaBatchConfig \<Rightarrow> MediaBatchConfig" where
  "fillMediaBatchConfig cfg =
     cfg\<lparr>mbDelayMs := (if mbDelayMs cfg \<le> 0 then 800 else mbDelayMs cfg),
         mbMaxItems := (if mbMaxItems cfg \<le> 0 then 9 else mbMaxItems cfg)\<rparr>"

definition NewMediaPipelineManager :: "MediaBatchConfig \<Rightarrow> 'h MediaPipelineManager" where
  "NewMediaPipelineManager cfg = \<lparr>mpCfg = fillMediaBatchConfig cfg, buckets = Map.empty,
     mpHandler = None, spawned = [], mpFlushed = [], mpCalls = []\<rparr>"

definition IsCompatible :: "'h MediaPipelineManager \<Rightarrow> IncomingMessage \<Rightarrow> bool" where
  "IsCompatible m msg =
     (if \<not> mbEnabled (mpCfg m) then False
      else MsgType (body msg) \<in> {''picture'', ''file'', ''audio'', ''video''})"

section \<open>Batch keys\<close>

definition keySep :: char where "keySep = CHR 0x00"

definition batchKey :: "IncomingMessage \<Rightarrow> string" where
  "batchKey msg =
     (let key = msg_chat msg @ keySep # MsgType (body msg) in
      if MsgType (body msg) = ''reply'' \<and> Content (body msg) \<noteq> []
      then key @ keySep # EncodeToString (take 8 (Sum256 (Content (body msg))))
      else key)"

definition isChatKey :: "string \<Rightarrow> string \<Rightarrow> bool" where
  "isChatKey key chatID =
     (if keySep \<in> set key then takeWhile (\<lambda>c. c \<noteq> keySep) key = chatID else key = chatID)"

section \<open>Merging\<close>

text \<open>The display names are the UTF-8 bytes of the Chinese words for picture, file, voice, video, media.\<close>

definition bytes :: "nat list \<Rightarrow> string" where
  "bytes = map char_of"

definition kindDisplayName :: "string \<Rightarrow> string" where
  "kindDisplayName t =
     (if t = ''picture'' then bytes [0xE5, 0x9B, 0xBE, 0xE7, 0x89, 0x87]
      else if t = ''file'' then bytes [0xE6, 0x96, 0x87, 0xE4, 0xBB, 0xB6]
      else if t = ''audio'' then bytes [0xE8, 0xAF, 0xAD, 0xE9, 0x9F, 0xB3]
      else if t = ''video'' then bytes [0xE8, 0xA7, 0x86, 0xE9, 0xA2, 0x91]
      else bytes [0xE5, 0xAA, 0x92, 0xE4, 0xBD, 0x93])"

definition formatBatchText :: "nat \<Rightarrow> string \<Rightarrow> string" where
  "formatBatchText n kindName =
     (if n = 1 then ''['' @ kindName @ '']''
      else ''['' @ encode_rune (n + 48) @ bytes [0xE4, 0xB8, 0xAA] @ kindName @ '']'')"

text \<open>Called on a non-empty bucket only.\<close>

definition mergeBatchSources :: "IncomingMessage list \<Rightarrow> IncomingMessage" where
  "mergeBatchSources sources =
     (if length sources = 1 then hd sources
      else
        (let lst = last sources;
             allResources = concat (map (\<lambda>m. Resources (body m)) sources);
             kindName = kindDisplayName (MsgType (body lst))
         in Message ((body lst)\<lparr>Resources := allResources,
              Text := formatBatchText (length sources) kindName\<rparr>) sources))"

section \<open>Operations\<close>

definition cancelTimer :: "mediaBucket \<Rightarrow> mediaBucket" where
  "cancelTimer b = b\<lparr>bkTimer := None\<rparr>"

definition flushBucket :: "string \<Rightarrow> 'h MediaPipelineManager \<Rightarrow> 'h MediaPipelineManager" where
  "flushBucket key m =
     (case buckets m key of
        None \<Rightarrow> m
      | Some b \<Rightarrow>
          if bkSources b = [] then m
          else
            (let m' = m\<lparr>buckets := (buckets m)(key := None)\<rparr>;
                 merged = mergeBatchSources (bkSources (cancelTimer b))
             in if mpHandler m' = None then m' 
                else m'\<lparr>spawned := spawned m' @ [(key, merged)],
                         mpFlushed := mpFlushed m' @ [(key, merged)]\<rparr>))"

definition media_Push :: "IncomingMessage \<Rightarrow> 'h \<Rightarrow> 'h MediaPipelineManager \<Rightarrow> 'h MediaPipelineManager" where
  "media_Push msg handler m0 =
     (let m = m0\<lparr>mpHandler := Some handler\<rparr>;
          key = batchKey msg;
          bucket = (case buckets m key of Some b \<Rightarrow> b | None \<Rightarrow> \<lparr>bkSources = [], bkTimer = None\<rparr>);
          bucket1 = bucket\<lparr>bkSources := bkSources bucket @ [msg]\<rparr>
      in if int (length (bkSources bucket1)) \<ge> mbMaxItems (mpCfg m)
         then flushBucket key (m\<lparr>buckets := (buckets m)(key \<mapsto> cancelTimer bucket1)\<rparr>)
         else m\<lparr>buckets := (buckets m)(key \<mapsto>
                (cancelTimer bucket1)\<lparr>bkTimer := Some (mbDelayMs (mpCfg m) * Millisecond)\<rparr>)\<rparr>)"

text \<open>The timer callback flushes the key, whether or not the timer has been replaced meanwhile.\<close>

definition media_timer :: "string \<Rightarrow> 'h MediaPipelineManager \<Rightarrow> 'h MediaPipelineManager" where
  "media_timer key m = flushBucket key m"

definition FlushIncompatibleFor ::
  "string list \<Rightarrow> IncomingMessage \<Rightarrow> 'h MediaPipelineManager \<Rightarrow> 'h MediaPipelineManager" where
  "FlushIncompatibleFor iteration msg m =
     (let keysToFlush = filter (\<lambda>k. buckets m k \<noteq> None \<and> isChatKey k (msg_chat msg)) iteration
      in fold flushBucket keysToFlush m)"

definition media_Dispose :: "string list \<Rightarrow> 'h MediaPipelineManager \<Rightarrow> 'h MediaPipelineManager" where
  "media_Dispose iteration m = fold flushBucket iteration m"

text \<open>A spawned goroutine runs: it calls the handler the field holds now.\<close>

definition run_spawned :: "nat \<Rightarrow> 'h MediaPipelineManager \<Rightarrow> 'h MediaPipelineManager option" where
  "run_spawned i m =
     (case mpHandler m of
        None \<Rightarrow> None
      | Some h \<Rightarrow>
          if i < length (spawned m)
          then Some (m\<lparr>spawned := take i (spawned m) @ drop (Suc i) (spawned m),
                       mpCalls := mpCalls m @ [(h, spawned m ! i)]\<rparr>)
          else None)"

section \<open>What a flush keeps\<close>

text \<open>The messages a merged message stands for: its sources, or itself.\<close>

definition sources_of :: "IncomingMessage \<Rightarrow> IncomingMessage list" where
  "sources_of m = (if BatchedSources m = [] then [m] else BatchedSources m)"

lemma sources_of_merged:
  "ms \<noteq> [] \<Longrightarrow> (\<And>m. m \<in> set ms \<Longrightarrow> BatchedSources m = []) \<Longrightarrow> sources_of (mergeBatchSources ms) = ms"
  by (cases ms rule: remdups_adj.cases) (auto simp: sources_of_def mergeBatchSources_def Let_def)

definition bucket_of :: "string \<Rightarrow> 'h MediaPipelineManager \<Rightarrow> IncomingMessage list" where
  "bucket_of k m = (case buckets m k of None \<Rightarrow> [] | Some b \<Rightarrow> bkSources b)"

lemma flushBucket_bucket [simp]: "bucket_of k (flushBucket k m) = []"
  by (auto simp: bucket_of_def flushBucket_def Let_def split: option.split)

lemma flushBucket_other: "k' \<noteq> k \<Longrightarrow> bucket_of k' (flushBucket k m) = bucket_of k' m"
  by (auto simp: bucket_of_def flushBucket_def Let_def split: option.split)

lemma flushBucket_handler [simp]: "mpHandler (flushBucket k m) = mpHandler m"
  "mpCfg (flushBucket k m) = mpCfg m"
  by (auto simp: flushBucket_def Let_def split: option.split)

lemma flushBucket_flushed:
  "mpHandler m \<noteq> None \<Longrightarrow> mpFlushed (flushBucket k m) = mpFlushed m @
     (if bucket_of k m = [] then [] else [(k, mergeBatchSources (bucket_of k m))])"
  by (auto simp: bucket_of_def flushBucket_def cancelTimer_def Let_def split: option.split)

lemma fold_flushBucket_bucket:
  "bucket_of k (fold flushBucket ks m) = (if k \<in> set ks then [] else bucket_of k m)"
proof (induction ks arbitrary: m)
  case (Cons a ks)
  then show ?case by (cases "k = a") (auto simp: flushBucket_other)
qed simp

lemma fold_flushBucket_handler [simp]: "mpHandler (fold flushBucket ks m) = mpHandler m"
  by (induction ks arbitrary: m) auto

lemma takeWhile_chat:
  "keySep \<notin> set c \<Longrightarrow> takeWhile (\<lambda>x. x \<noteq> keySep) (c @ keySep # r) = c"
  by (induction c) auto

lemma isChatKey_batchKey: "keySep \<notin> set (msg_chat m) \<Longrightarrow> isChatKey (batchKey m) c \<longleftrightarrow> msg_chat m = c"
  by (simp add: isChatKey_def batchKey_def Let_def takeWhile_chat)

section \<open>Runs\<close>

datatype 'h media_event =
    MdPush IncomingMessage 'h | MdTimer string | MdFlushFor "string list" IncomingMessage
  | MdDispose "string list" | MdRun nat

fun media_step :: "'h media_event \<Rightarrow> 'h MediaPipelineManager \<Rightarrow> 'h MediaPipelineManager option" where
  "media_step (MdPush msg h) m = Some (media_Push msg h m)"
| "media_step (MdTimer k) m = Some (media_timer k m)"
| "media_step (MdFlushFor it msg) m = Some (FlushIncompatibleFor it msg m)"
| "media_step (MdDispose it) m = Some (media_Dispose it m)"
| "media_step (MdRun i) m = run_spawned i m"

text \<open>The pushes of one key, and the sources flushed for it so far.\<close>

fun media_in :: "string \<Rightarrow> 'h media_event \<Rightarrow> IncomingMessage list" where
  "media_in k (MdPush msg h) = (if batchKey msg = k then [msg] else [])"
| "media_in k _ = []"

definition media_out :: "string \<Rightarrow> 'h MediaPipelineManager \<Rightarrow> IncomingMessage list" where
  "media_out k m = concat (map (sources_of \<circ> snd) (filter (\<lambda>p. fst p = k) (mpFlushed m)))"

fun media_fresh :: "'h media_event \<Rightarrow> bool" where
  "media_fresh (MdPush msg h) \<longleftrightarrow> BatchedSources msg = []"
| "media_fresh _ \<longleftrightarrow> True"

definition media_inv :: "'h MediaPipelineManager \<Rightarrow> bool" where
  "media_inv m \<longleftrightarrow>
     (\<forall>k. bucket_of k m \<noteq> [] \<longrightarrow> mpHandler m \<noteq> None)
     \<and> (\<forall>k. \<forall>x \<in> set (bucket_of k m). BatchedSources x = [] \<and> batchKey x = k)
     \<and> (\<forall>k. bucket_of k m \<noteq> [] \<longrightarrow> int (length (bucket_of k m)) < mbMaxItems (mpCfg m))
     \<and> 0 < mbMaxItems (mpCfg m)"

lemma media_inv_new: "media_inv (NewMediaPipelineManager cfg)"
  by (simp add: media_inv_def NewMediaPipelineManager_def bucket_of_def fillMediaBatchConfig_def)

lemma media_inv_flush: "media_inv m \<Longrightarrow> media_inv (flushBucket k m)"
  unfolding media_inv_def flushBucket_handler
  using flushBucket_other [of _ k m] flushBucket_bucket [of k m] by (metis empty_iff list.set(1))

lemma media_inv_fold: "media_inv m \<Longrightarrow> media_inv (fold flushBucket ks m)"
  by (induction ks arbitrary: m) (auto intro: media_inv_flush)

lemma media_out_flush_other: "k' \<noteq> k \<Longrightarrow> media_out k' (flushBucket k m) = media_out k' m"
  by (auto simp: media_out_def flushBucket_def Let_def split: option.split)

lemma media_out_flush:
  assumes "bucket_of k m \<noteq> [] \<Longrightarrow> mpHandler m \<noteq> None"
    and "\<And>x. x \<in> set (bucket_of k m) \<Longrightarrow> BatchedSources x = []"
  shows "media_out k (flushBucket k m) = media_out k m @ bucket_of k m"
proof (cases "bucket_of k m = []")
  case True
  then have "flushBucket k m = m" by (auto simp: bucket_of_def flushBucket_def split: option.splits)
  with True show ?thesis by simp
next
  case False
  then show ?thesis
    using assms by (simp add: media_out_def flushBucket_flushed sources_of_merged)
qed

lemma flush_conserves:
  assumes "media_inv m"
  shows "media_out k' (flushBucket k m) @ bucket_of k' (flushBucket k m) = media_out k' m @ bucket_of k' m"
  using assms media_out_flush [of k m] by (cases "k' = k")
    (auto simp: media_inv_def media_out_flush_other flushBucket_other)

lemma fold_conserves:
  "media_inv m \<Longrightarrow> media_out k' (fold flushBucket ks m) @ bucket_of k' (fold flushBucket ks m)
     = media_out k' m @ bucket_of k' m"
  by (induction ks arbitrary: m) (auto simp: flush_conserves media_inv_flush)

text \<open>A push is an insertion into the bucket of its key, followed by a flush when the bucket is full.\<close>

definition media_insert :: "IncomingMessage \<Rightarrow> 'h \<Rightarrow> 'h MediaPipelineManager \<Rightarrow> 'h MediaPipelineManager" where
  "media_insert msg h m = (let k = batchKey msg in
     m\<lparr>mpHandler := Some h, buckets := (buckets m)(k \<mapsto>
        \<lparr>bkSources = bucket_of k m @ [msg],
         bkTimer = (if int (length (bucket_of k m) + 1) \<ge> mbMaxItems (mpCfg m) then None
                    else Some (mbDelayMs (mpCfg m) * Millisecond))\<rparr>)\<rparr>)"

lemma media_Push_insert:
  "media_Push msg h m =
     (if int (length (bucket_of (batchKey msg) m) + 1) \<ge> mbMaxItems (mpCfg m)
      then flushBucket (batchKey msg) (media_insert msg h m) else media_insert msg h m)"
proof (cases "buckets m (batchKey msg)")
  case (Some b)
  then show ?thesis
    by (cases b) (simp add: media_Push_def media_insert_def bucket_of_def cancelTimer_def Let_def)
qed (simp add: media_Push_def media_insert_def bucket_of_def cancelTimer_def Let_def)

lemma media_insert_facts:
  "bucket_of k (media_insert msg h m) = bucket_of k m @ media_in k (MdPush msg h)"
  "media_out k (media_insert msg h m) = media_out k m"
  "mpHandler (media_insert msg h m) = Some h" "mpCfg (media_insert msg h m) = mpCfg m"
  by (auto simp: media_insert_def bucket_of_def media_out_def Let_def)

lemma media_push_step:
  assumes inv: "media_inv m" and fresh: "BatchedSources msg = []"
  shows "media_inv (media_Push msg h m)"
    and "media_out k (media_Push msg h m) @ bucket_of k (media_Push msg h m)
       = media_out k m @ bucket_of k m @ media_in k (MdPush msg h)"
proof -
  let ?m = "media_insert msg h m"
  let ?k = "batchKey msg"
  have old: "BatchedSources x = [] \<and> batchKey x = k" if "x \<in> set (bucket_of k m)" for x k
    using that inv unfolding media_inv_def by blast
  have src: "BatchedSources x = [] \<and> batchKey x = k" if "x \<in> set (bucket_of k ?m)" for x k
  proof -
    have "bucket_of k ?m = bucket_of k m @ (if ?k = k then [msg] else [])" by (simp add: media_insert_facts)
    then have "x \<in> set (bucket_of k m) \<or> x = msg \<and> ?k = k" using that by (simp split: if_splits)
    then show ?thesis using old fresh by blast
  qed
  have out: "media_out ?k (flushBucket ?k ?m) = media_out ?k ?m @ bucket_of ?k ?m"
    by (rule media_out_flush) (simp add: media_insert_facts, use src in blast)
  show "media_out k (media_Push msg h m) @ bucket_of k (media_Push msg h m)
       = media_out k m @ bucket_of k m @ media_in k (MdPush msg h)"
    using out by (cases "k = ?k")
      (simp_all add: media_Push_insert media_insert_facts media_out_flush_other flushBucket_other)
  have small: "int (length (bucket_of k m)) < mbMaxItems (mpCfg m)" if "bucket_of k m \<noteq> []" for k
    using that inv unfolding media_inv_def by blast
  have pos: "0 < mbMaxItems (mpCfg m)" using inv by (simp add: media_inv_def)
  have other: "k = ?k \<or> bucket_of k (flushBucket ?k ?m) = bucket_of k m" for k
    using flushBucket_other [of k ?k ?m] by (auto simp: media_insert_facts)
  show "media_inv (media_Push msg h m)"
  proof (cases "int (length (bucket_of ?k m) + 1) \<ge> mbMaxItems (mpCfg m)")
    case True
    then have eq: "media_Push msg h m = flushBucket ?k ?m" by (simp add: media_Push_insert)
    have b: "bucket_of k (flushBucket ?k ?m) = [] \<or> bucket_of k (flushBucket ?k ?m) = bucket_of k m" for k
      using other [of k] flushBucket_bucket [of ?k ?m] by metis
    have "BatchedSources x = [] \<and> batchKey x = k" if "x \<in> set (bucket_of k (flushBucket ?k ?m))" for x k
      using that b [of k] old [of x k] by (metis empty_iff list.set(1))
    moreover have "int (length (bucket_of k (flushBucket ?k ?m))) < mbMaxItems (mpCfg m)"
      if "bucket_of k (flushBucket ?k ?m) \<noteq> []" for k
      using that b [of k] small [of k] by metis
    ultimately show ?thesis
      unfolding media_inv_def eq flushBucket_handler media_insert_facts(3,4) using pos by blast
  next
    case False
    then have eq: "media_Push msg h m = ?m" by (simp add: media_Push_insert)
    have "int (length (bucket_of k ?m)) < mbMaxItems (mpCfg m)" if "bucket_of k ?m \<noteq> []" for k
      using that small [of k] False by (cases "?k = k") (simp_all add: media_insert_facts)
    then show ?thesis
      unfolding media_inv_def eq media_insert_facts(3,4) using src pos by blast
  qed
qed

interpretation media: coalescer media_step "media_out k" "bucket_of k" "media_in k" media_fresh media_inv for k
proof unfold_locales
  fix e :: "'a media_event" and m m'
  assume "media_step e m = Some m'" "media_fresh e" "media_inv m"
  moreover have "bucket_of k m2 = bucket_of k m \<and> media_out k m2 = media_out k m \<and> (media_inv m2 \<longleftrightarrow> media_inv m)"
    if "run_spawned i m = Some m2" for i m2
  proof -
    have "buckets m2 = buckets m" "mpFlushed m2 = mpFlushed m" "mpHandler m2 = mpHandler m" "mpCfg m2 = mpCfg m"
      using that by (auto simp: run_spawned_def split: option.splits if_splits)
    then show ?thesis by (simp add: media_inv_def bucket_of_def media_out_def)
  qed
  ultimately show "media_out k m' @ bucket_of k m' = media_out k m @ bucket_of k m @ media_in k e" "media_inv m'"
    by (cases e; fastforce simp: media_push_step media_timer_def FlushIncompatibleFor_def media_Dispose_def
        Let_def flush_conserves fold_conserves media_inv_flush media_inv_fold)+
qed

text \<open>Every flush becomes one handler call, or is still on its way.\<close>

lemma flush_log_spawned:
  "mpHandler m \<noteq> None \<or> bucket_of k m = [] \<Longrightarrow> \<exists>l. spawned (flushBucket k m) = spawned m @ l
     \<and> mpFlushed (flushBucket k m) = mpFlushed m @ l \<and> mpCalls (flushBucket k m) = mpCalls m"
  by (auto simp: flushBucket_def bucket_of_def Let_def split: option.splits)

definition calls_match :: "'h MediaPipelineManager \<Rightarrow> bool" where
  "calls_match m \<longleftrightarrow> mset (spawned m) + mset (map snd (mpCalls m)) = mset (mpFlushed m)"

lemma calls_match_flush: "calls_match m \<Longrightarrow> calls_match (flushBucket k m)"
  by (auto simp: calls_match_def flushBucket_def Let_def split: option.splits)

lemma calls_match_fold: "calls_match m \<Longrightarrow> calls_match (fold flushBucket ks m)"
  by (induction ks arbitrary: m) (auto intro: calls_match_flush)

lemma mset_nth_rest: "i < length xs \<Longrightarrow> mset xs = add_mset (xs ! i) (mset (take i xs) + mset (drop (Suc i) xs))"
  by (metis id_take_nth_drop mset_append mset.simps(2) union_mset_add_mset_right)

lemma calls_match_step: "calls_match m \<Longrightarrow> media_step e m = Some m' \<Longrightarrow> calls_match m'"
proof (cases e)
  case (MdPush msg h)
  have "calls_match m \<Longrightarrow> calls_match (media_insert msg h m)"
    by (simp add: calls_match_def media_insert_def Let_def)
  then show "calls_match m \<Longrightarrow> media_step e m = Some m' \<Longrightarrow> calls_match m'"
    using MdPush by (auto simp: media_Push_insert calls_match_flush)
next
  case (MdRun i)
  show "calls_match m \<Longrightarrow> media_step e m = Some m' \<Longrightarrow> calls_match m'"
    using MdRun mset_nth_rest [of i "spawned m"]
    by (auto simp: calls_match_def run_spawned_def split: option.splits if_splits)
qed (auto simp: media_timer_def FlushIncompatibleFor_def media_Dispose_def Let_def calls_match_flush calls_match_fold)

fun media_run :: "'h media_event list \<Rightarrow> 'h MediaPipelineManager \<Rightarrow> 'h MediaPipelineManager option" where
  "media_run [] m = Some m"
| "media_run (e # es) m = (case media_step e m of None \<Rightarrow> None | Some m' \<Rightarrow> media_run es m')"

lemma media_run_eq: "media_run es m = media.run es m"
  by (induction es arbitrary: m) (auto split: option.split)

lemma calls_match_run: "media_run es m = Some m' \<Longrightarrow> calls_match m \<Longrightarrow> calls_match m'"
  by (induction es m rule: media_run.induct) (auto split: option.splits dest: calls_match_step)

lemma media_step_cfg: "media_step e m = Some m' \<Longrightarrow> mpCfg m' = mpCfg m"
proof -
  have "mpCfg (fold flushBucket ks m) = mpCfg m" for ks and m :: "'h MediaPipelineManager"
    by (induction ks arbitrary: m) auto
  then show "media_step e m = Some m' \<Longrightarrow> mpCfg m' = mpCfg m"
    by (cases e) (auto simp: media_Push_insert media_insert_facts media_timer_def FlushIncompatibleFor_def
        media_Dispose_def run_spawned_def Let_def split: option.splits if_splits)
qed

lemma media_run_cfg: "media_run es m = Some m' \<Longrightarrow> mpCfg m' = mpCfg m"
  by (induction es m rule: media_run.induct) (auto split: option.splits dest: media_step_cfg)

section \<open>Properties\<close>

text \<open>
  C26. Media messages are merged without loss. For every batch key and every interleaving of pushes,
  timers, text messages, disposals and handler goroutines, the sources flushed so far followed by
  the bucket are the pushed messages of that key in order; a bucket holds fewer than \<open>MaxItems\<close>
  messages; and each flush is one handler call, made or pending.
\<close>

theorem media_conserves:
  assumes "media_run es (NewMediaPipelineManager cfg) = Some m" and "list_all media_fresh es"
  shows "media_out k m @ bucket_of k m = concat (map (media_in k) es)
    \<and> int (length (bucket_of k m)) < mbMaxItems (fillMediaBatchConfig cfg)
    \<and> mset (spawned m) + mset (map snd (mpCalls m)) = mset (mpFlushed m)"
proof -
  have run: "media.run es (NewMediaPipelineManager cfg) = Some m"
    using assms(1) by (simp add: media_run_eq)
  have "media_out k m @ bucket_of k m = concat (map (media_in k) es)"
    using media.run_conserves [OF run assms(2) media_inv_new, of k]
    by (simp add: media_out_def bucket_of_def NewMediaPipelineManager_def)
  moreover have "media_inv m" using media.run_inv [OF run assms(2) media_inv_new] .
  then have "int (length (bucket_of k m)) < mbMaxItems (mpCfg m)"
    by (cases "bucket_of k m = []") (auto simp: media_inv_def)
  moreover have "mpCfg m = fillMediaBatchConfig cfg"
    using media_run_cfg [OF assms(1)] by (simp add: NewMediaPipelineManager_def)
  moreover have "calls_match (NewMediaPipelineManager cfg)"
    by (simp add: calls_match_def NewMediaPipelineManager_def)
  then have "calls_match m" using calls_match_run [OF assms(1)] by blast
  ultimately show ?thesis by (simp add: calls_match_def)
qed

definition media_msg :: "string \<Rightarrow> string \<Rightarrow> string \<Rightarrow> IncomingMessage" where
  "media_msg i chat kind = Message (empty_fields\<lparr>MsgID := i, ConversationID := chat, MsgType := kind,
     Resources := [\<lparr>ResourceType = kind, DownloadCode = i, FileName = [], Recognition = []\<rparr>]\<rparr>) []"

definition media_demo :: "nat media_event list" where
  "media_demo = [MdPush (media_msg ''p1'' ''c'' ''picture'') 0, MdPush (media_msg ''f1'' ''c'' ''file'') 0,
     MdPush (media_msg ''p2'' ''c'' ''picture'') 0, MdPush (media_msg ''p3'' ''c'' ''picture'') 0, MdRun 0]"

definition media_demo_end :: "nat MediaPipelineManager" where
  "media_demo_end = the (media_run media_demo (NewMediaPipelineManager \<lparr>mbEnabled = True, mbDelayMs = 0, mbMaxItems = 2\<rparr>))"

lemma media_demo_run:
  "media_run media_demo (NewMediaPipelineManager \<lparr>mbEnabled = True, mbDelayMs = 0, mbMaxItems = 2\<rparr>) = Some media_demo_end"
  by (simp add: media_demo_end_def media_demo_def media_msg_def NewMediaPipelineManager_def fillMediaBatchConfig_def
      media_Push_def batchKey_def keySep_def empty_fields_def flushBucket_def cancelTimer_def run_spawned_def Let_def)

theorem media_conserves_witness:
  "media_out (batchKey (media_msg ''p1'' ''c'' ''picture'')) media_demo_end
     @ bucket_of (batchKey (media_msg ''p1'' ''c'' ''picture'')) media_demo_end
     = [media_msg ''p1'' ''c'' ''picture'', media_msg ''p2'' ''c'' ''picture'', media_msg ''p3'' ''c'' ''picture'']"
  using media_conserves [OF media_demo_run, of "batchKey (media_msg ''p1'' ''c'' ''picture'')"]
  by (simp add: media_demo_def media_msg_def batchKey_def keySep_def empty_fields_def Let_def)

text \<open>
  A text message of a chat flushes all of that chat's media buckets, so that the media are
  handed on before it, and touches the buckets of no other chat.
\<close>

theorem text_flushes_its_chat:
  assumes "\<And>k. buckets m k \<noteq> None \<Longrightarrow> k \<in> set iteration"
    and "\<And>k x. x \<in> set (bucket_of k m) \<Longrightarrow> batchKey x = k \<and> keySep \<notin> set (msg_chat x)"
  shows "x \<in> set (bucket_of k (FlushIncompatibleFor iteration msg m))
    \<longleftrightarrow> x \<in> set (bucket_of k m) \<and> msg_chat x \<noteq> msg_chat msg"
proof (cases "x \<in> set (bucket_of k m)")
  case False
  then show ?thesis
    by (auto simp: FlushIncompatibleFor_def fold_flushBucket_bucket Let_def split: if_splits)
next
  case True
  then have "buckets m k \<noteq> None" by (cases "buckets m k") (simp_all add: bucket_of_def)
  moreover have "isChatKey k (msg_chat msg) \<longleftrightarrow> msg_chat x = msg_chat msg"
    using assms(2) [OF True] isChatKey_batchKey by blast
  ultimately show ?thesis
    using True assms(1) by (simp add: FlushIncompatibleFor_def fold_flushBucket_bucket Let_def)
qed

theorem text_flushes_its_chat_witness:
  "bucket_of (batchKey (media_msg ''f1'' ''c'' ''file''))
     (FlushIncompatibleFor (map batchKey [media_msg ''f1'' ''c'' ''file'', media_msg ''p1'' ''c'' ''picture''])
        (sample_msg ''t'' ''c'' ''hi'') media_demo_end) = []"
proof -
  let ?it = "map batchKey [media_msg ''f1'' ''c'' ''file'', media_msg ''p1'' ''c'' ''picture'']"
  let ?k = "batchKey (media_msg ''f1'' ''c'' ''file'')"
  have b: "buckets media_demo_end = [?k \<mapsto> \<lparr>bkSources = [media_msg ''f1'' ''c'' ''file''], bkTimer = Some (800 * Millisecond)\<rparr>,
      batchKey (media_msg ''p1'' ''c'' ''picture'') \<mapsto> \<lparr>bkSources = [media_msg ''p3'' ''c'' ''picture''], bkTimer = Some (800 * Millisecond)\<rparr>]"
    by (simp add: media_demo_end_def media_demo_def media_msg_def NewMediaPipelineManager_def fillMediaBatchConfig_def
      media_Push_def batchKey_def keySep_def empty_fields_def flushBucket_def cancelTimer_def run_spawned_def Let_def
      fun_upd_twist)
  have "x \<notin> set (bucket_of ?k (FlushIncompatibleFor ?it (sample_msg ''t'' ''c'' ''hi'') media_demo_end))" for x
    by (subst text_flushes_its_chat)
      (auto simp: b bucket_of_def media_msg_def batchKey_def keySep_def empty_fields_def sample_msg_def
        split: if_splits)
  then show ?thesis by (meson list.set_sel(1))
qed

text \<open>
  A merged media message carries every resource of its sources, in order, and lists the sources, so
  that their locks can be released one by one.
\<close>

theorem merged_media_contents:
  assumes "2 \<le> length ms"
  shows "let m = mergeBatchSources ms in
     Resources (body m) = concat (map (\<lambda>s. Resources (body s)) ms) \<and> BatchedSources m = ms
     \<and> (body m)\<lparr>Resources := [], Text := []\<rparr> = (body (last ms))\<lparr>Resources := [], Text := []\<rparr>"
  using assms by (simp add: mergeBatchSources_def Let_def)

theorem merged_media_contents_witness:
  "let ms = [media_msg ''p1'' ''c'' ''picture'', media_msg ''p2'' ''c'' ''picture''] in
     map DownloadCode (Resources (body (mergeBatchSources ms))) = [''p1'', ''p2'']"
  using merged_media_contents [of "[media_msg ''p1'' ''c'' ''picture'', media_msg ''p2'' ''c'' ''picture'']"]
  by (simp add: media_msg_def Let_def)

text \<open>The count in the merged text is one character, so twelve pictures are announced as \<open><\<close> of them.\<close>

lemma batch_text_of_twelve:
  "formatBatchText 12 (kindDisplayName ''picture'') = ''[<'' @ bytes [0xE4, 0xB8, 0xAA] @ kindDisplayName ''picture'' @ '']''"
  by (simp add: formatBatchText_def encode_rune_def encode_valid_def valid_rune_def) code_simp

end
