(* ===== verification/Pipeline.thy ===== *)
theory Pipeline
  imports StaleDetector PolicyGate SeenCache ProcessingLock ChatQueue MediaPipeline
begin

text \<open>
  \<open>internal/safety/pipeline.go\<close>: the facade that admits messages (stale filter, deduplication, self
  filter, policy, processing lock) and routes the admitted ones to the per-chat queues, the media
  batches or directly to the user's callbacks.

  A function that reads the clock several times takes a \<open>clock\<close>, the sequence of its readings. The
  user's callbacks are outside the repository: the argument \<open>err\<close> of an operation that calls one
  says whether it returned an error, and \<open>pl_log\<close> records every callback the pipeline makes. The
  cache has no Redis tier here, as in \<open>NewSafetyPipeline\<close>.
\<close>

type_synonym clock = "nat \<Rightarrow> time"

definition no_redis :: "unit RedisClient" where
  "no_redis = \<lparr>Exists = (\<lambda>_ _ _. False), SetEx = (\<lambda>r _ _ _ _. r), RedisClose = (\<lambda>r. r)\<rparr>"

section \<open>The pipeline and its callbacks\<close>

datatype 'a pl_entry =
    LgReject RejectEvent
  | LgMessage IncomingMessage "IncomingMessage list"
  | LgBatch BatchedMessage
  | LgAction 'a
  | LgEnqueue IncomingMessage

text \<open>
  \<open>hasOnBatch\<close> is the dynamic probe, \<open>None\<close> when it is nil. The fields \<open>hasOnMessage\<close>,
  \<open>hasBatchHandler\<close> and \<open>hasOnReject\<close> say whether the callback is set, \<open>queueOn\<close> whether a queue
  manager is injected and enabled. The entry \<open>LgEnqueue\<close> is a ghost: it marks a push to a queue.
\<close>

record 'a SafetyPipeline =
  stale :: StaleDetector
  seen :: "unit SeenCache"
  lock :: ProcessingLock
  policy :: PolicyGate
  media :: "unit MediaPipelineManager"
  queueOn :: bool
  dropSelfSent :: bool
  botRobotCode :: string
  markAfterHandler :: bool
  hasOnMessage :: bool
  hasBatchHandler :: bool
  hasOnBatch :: "bool option"
  hasOnReject :: bool
  pl_log :: "'a pl_entry list"

record PipelineOptions =
  optOnMessage :: bool
  optOnBatch :: bool
  optOnReject :: bool
  optQueueOn :: bool
  optHasOnBatch :: "bool option"
  optBotRobotCode :: string

definition NewSafetyPipeline :: "SafetyConfig \<Rightarrow> PipelineOptions \<Rightarrow> 'a SafetyPipeline" where
  "NewSafetyPipeline cfg0 opts =
     (let cfg = (if StaleWindow cfg0 = 0 then DefaultSafetyConfig else cfg0)
      in \<lparr>stale = NewStaleDetector (StaleWindow cfg), seen = NewSeenCache (Dedup cfg) None [],
          lock = NewProcessingLock (LockTTL cfg), policy = NewPolicyGate (Policy cfg),
          media = NewMediaPipelineManager (MediaBatch cfg), queueOn = optQueueOn opts,
          dropSelfSent = DropSelfSent cfg, botRobotCode = optBotRobotCode opts,
          markAfterHandler = MarkAfterHandler cfg, hasOnMessage = optOnMessage opts,
          hasBatchHandler = optOnBatch opts, hasOnBatch = optHasOnBatch opts,
          hasOnReject = optOnReject opts, pl_log = []\<rparr>)"

definition batchMode :: "'a SafetyPipeline \<Rightarrow> bool" where
  "batchMode p =
     (if \<not> hasBatchHandler p then False
      else case hasOnBatch p of Some b \<Rightarrow> b | None \<Rightarrow> True)"

definition emit :: "'a pl_entry \<Rightarrow> 'a SafetyPipeline \<Rightarrow> 'a SafetyPipeline" where
  "emit e p = p\<lparr>pl_log := pl_log p @ [e]\<rparr>"

definition emitReject :: "IncomingMessage \<Rightarrow> RejectReason \<Rightarrow> 'a SafetyPipeline \<Rightarrow> 'a SafetyPipeline" where
  "emitReject msg reason p =
     (if \<not> hasOnReject p then p
      else emit (LgReject \<lparr>reMessageID = msg_id msg, reChatID = msg_chat msg,
                           reSenderID = SenderID (body msg), reReason = reason\<rparr>) p)"

section \<open>Flushing: callback, release, mark\<close>

fun release_all :: "string list \<Rightarrow> ProcessingLock \<Rightarrow> ProcessingLock" where
  "release_all [] pl = pl"
| "release_all (i # ids) pl = release_all ids (Release i pl)"

fun mark_all :: "clock \<Rightarrow> string list \<Rightarrow> unit SeenCache \<Rightarrow> unit SeenCache" where
  "mark_all clock [] sc = sc"
| "mark_all clock (i # ids) sc = mark_all (\<lambda>n. clock (Suc n)) ids (Add no_redis (clock 0) [i] sc)"

text \<open>The common tail of both flushes: locks first, then the marks if the handler succeeded.\<close>

definition settle :: "clock \<Rightarrow> bool \<Rightarrow> string list \<Rightarrow> 'a SafetyPipeline \<Rightarrow> 'a SafetyPipeline" where
  "settle clock err ids p =
     (let p1 = p\<lparr>lock := release_all ids (lock p)\<rparr>
      in if markAfterHandler p1 \<and> \<not> err then p1\<lparr>seen := mark_all clock ids (seen p1)\<rparr> else p1)"

definition batchFlush ::
  "clock \<Rightarrow> bool \<Rightarrow> BatchedDispatch \<Rightarrow> 'a SafetyPipeline \<Rightarrow> bool \<times> 'a SafetyPipeline" where
  "batchFlush clock handlerErr d p =
     (let (err, p1) = (if hasBatchHandler p
                       then (handlerErr, emit (LgBatch \<lparr>bmMessage = bdMessage d, bmSourceIDs = bdSourceIDs d\<rparr>) p)
                       else (False, p))
      in (err, settle clock err (bdSourceIDs d) p1))"

definition messageFlush ::
  "clock \<Rightarrow> bool \<Rightarrow> IncomingMessage \<Rightarrow> IncomingMessage list \<Rightarrow> 'a SafetyPipeline \<Rightarrow> bool \<times> 'a SafetyPipeline" where
  "messageFlush clock handlerErr merged sources0 p =
     (let sources = (if sources0 = [] then [merged] else sources0);
          (err, p1) = (if hasOnMessage p then (handlerErr, emit (LgMessage merged sources) p) else (False, p))
      in (err, settle clock err (map msg_id sources) p1))"

section \<open>Admission\<close>

definition dedup_keys :: "string \<Rightarrow> IncomingMessage \<Rightarrow> string list" where
  "dedup_keys protoID msg =
     [protoID, msg_id msg] @
     (if msg_text msg \<noteq> [] \<and> CreateAt (body msg) > 0
      then [ContentFingerprint (msg_chat msg) (CreateAt (body msg)) (MsgType (body msg)) (msg_text msg)] else [])"

definition seen_query :: "clock \<Rightarrow> string list \<Rightarrow> 'a SafetyPipeline \<Rightarrow> bool \<times> 'a SafetyPipeline" where
  "seen_query clock keys p =
     (let (dup, sc) = (if markAfterHandler p then Has no_redis (clock 1) keys (seen p)
                       else CheckAndMark no_redis (clock 1) (clock 2) keys (seen p))
      in (dup, p\<lparr>seen := sc\<rparr>))"

definition is_self :: "'a SafetyPipeline \<Rightarrow> IncomingMessage \<Rightarrow> bool" where
  "is_self p msg \<longleftrightarrow> dropSelfSent p \<and> botRobotCode p \<noteq> [] \<and> SenderID (body msg) = botRobotCode p"

text \<open>Steps 1 to 5 of \<open>PushMessage\<close>: \<open>None\<close> when the message is admitted, with its lock held.\<close>

definition admit ::
  "clock \<Rightarrow> string \<Rightarrow> IncomingMessage \<Rightarrow> 'a SafetyPipeline \<Rightarrow> RejectReason option \<times> 'a SafetyPipeline" where
  "admit clock protoID msg p =
     (if IsStale (stale p) (clock 0) (CreateAt (body msg)) then (Some Stale, p)
      else
        (let (dup, p1) = seen_query clock (dedup_keys protoID msg) p in
         if dup then (Some Duplicate, p1)
         else if is_self p1 msg then (Some SelfSent, p1)
         else
           (let decision = Evaluate (policy p1) (body msg) in
            if \<not> Allowed decision then (Some (Reason decision), p1)
            else
              (let (ok, l) = Acquire (clock 3) (msg_id msg) (lock p1); p2 = p1\<lparr>lock := l\<rparr> in
               if \<not> ok then (Some LockContention, p2) else (None, p2)))))"

text \<open>
  What \<open>PushMessage\<close> does with the message: it is rejected, handed to the queue of a scope (the
  event says how), put into a media batch, or delivered at once, with the callback's result.
\<close>

datatype 'a pl_task = TMessage IncomingMessage | TAction string "string list" 'a

datatype 'a dispatch =
    Rejected RejectReason
  | Enqueue string "(unit, 'a pl_task) cq_event"
  | ToMedia
  | Delivered bool

definition PushMessage ::
  "clock \<Rightarrow> bool \<Rightarrow> string list \<Rightarrow> string \<Rightarrow> IncomingMessage \<Rightarrow> 'a SafetyPipeline \<Rightarrow> 'a dispatch \<times> 'a SafetyPipeline" where
  "PushMessage clock handlerErr iteration protoID msg p =
     (case admit clock protoID msg p of
        (Some r, p1) \<Rightarrow> (Rejected r, emitReject msg r p1)
      | (None, p1) \<Rightarrow>
          if queueOn p1 then
            (if batchMode p1 then (Enqueue (msg_chat msg) (EvPush msg ()), emit (LgEnqueue msg) p1)
             else (Enqueue (msg_chat msg) (EvRun (TMessage msg)), p1))
          else if IsCompatible (media p1) msg then
            (ToMedia, p1\<lparr>media := media_Push msg () (media p1)\<rparr>)
          else
            (let p2 = (if mbEnabled (mpCfg (media p1))
                       then p1\<lparr>media := FlushIncompatibleFor iteration msg (media p1)\<rparr> else p1);
                 (err, p3) = (if batchMode p2
                   then batchFlush (\<lambda>n. clock (n + 4)) handlerErr \<lparr>bdMessage = msg, bdSourceIDs = [msg_id msg]\<rparr> p2
                   else messageFlush (\<lambda>n. clock (n + 4)) handlerErr msg [msg] p2)
             in (Delivered err, p3)))"

text \<open>
  \<open>PushAction\<close>: the runner is what a queue worker or the caller itself runs. The result is \<open>None\<close>
  when the action was dropped, \<open>Some (Inl ev)\<close> when it goes to a queue, \<open>Some (Inr err)\<close> when it ran.
\<close>

definition action_runner ::
  "clock \<Rightarrow> bool \<Rightarrow> string \<Rightarrow> string list \<Rightarrow> 'a \<Rightarrow> 'a SafetyPipeline \<Rightarrow> bool \<times> 'a SafetyPipeline" where
  "action_runner clock handlerErr eventID keys act p =
     (let p1 = emit (LgAction act) p;
          p2 = p1\<lparr>lock := Release eventID (lock p1)\<rparr>;
          p3 = (if markAfterHandler p2 \<and> \<not> handlerErr
                then p2\<lparr>seen := Add no_redis (clock 0) keys (seen p2)\<rparr> else p2)
      in (handlerErr, p3))"

definition PushAction ::
  "clock \<Rightarrow> bool \<Rightarrow> string \<Rightarrow> string \<Rightarrow> 'a \<Rightarrow> string list \<Rightarrow> 'a SafetyPipeline \<Rightarrow>
   ((string \<times> (unit, 'a pl_task) cq_event) + bool) option \<times> 'a SafetyPipeline" where
  "PushAction clock handlerErr eventID scope act extraDedupKeys p =
     (let keys = eventID # extraDedupKeys;
          (dup, p1) = seen_query clock keys p in
      if dup then (None, p1)
      else
        (let (ok, l) = Acquire (clock 3) eventID (lock p1); p2 = p1\<lparr>lock := l\<rparr> in
         if \<not> ok then (None, p2)
         else if queueOn p2 then (Some (Inl (scope, EvRun (TAction eventID keys act))), p2)
         else (let (err, p3) = action_runner (\<lambda>n. clock (n + 4)) handlerErr eventID keys act p2
               in (Some (Inr err), p3))))"

definition PushLight ::
  "clock \<Rightarrow> bool \<Rightarrow> string \<Rightarrow> 'a \<Rightarrow> 'a SafetyPipeline \<Rightarrow> 'a SafetyPipeline" where
  "PushLight clock handlerErr eventID act p =
     (let (dup, p1) = seen_query clock [eventID] p in
      if dup then p1
      else
        (let p2 = emit (LgAction act) p1 in
         if markAfterHandler p2 \<and> \<not> handlerErr
         then p2\<lparr>seen := Add no_redis (clock 4) [eventID] (seen p2)\<rparr> else p2))"

definition pl_SetBotIdentity :: "string \<Rightarrow> 'a SafetyPipeline \<Rightarrow> 'a SafetyPipeline" where
  "pl_SetBotIdentity robotCode p =
     (let p1 = p\<lparr>botRobotCode := robotCode\<rparr> in
      if robotCode \<noteq> []
      then p1\<lparr>policy := SetBotIdentity (Some \<lparr>RobotCode = robotCode, RobotName = [], Avatar = []\<rparr>) (policy p1)\<rparr>
      else p1)"

definition pl_UpdatePolicy :: "PolicyConfig \<Rightarrow> 'a SafetyPipeline \<Rightarrow> 'a SafetyPipeline" where
  "pl_UpdatePolicy cfg p = p\<lparr>policy := UpdateConfig cfg (policy p)\<rparr>"

text \<open>\<open>Dispose\<close> after the flush of the queues, which the manager's model covers.\<close>

definition pl_Dispose :: "string list \<Rightarrow> 'a SafetyPipeline \<Rightarrow> 'a SafetyPipeline" where
  "pl_Dispose iteration p =
     p\<lparr>media := media_Dispose iteration (media p), seen := SeenCache.Dispose no_redis (seen p),
       lock := lock_Dispose (lock p)\<rparr>"

text \<open>What a queue worker runs for a task.\<close>

definition run_task ::
  "clock \<Rightarrow> bool \<Rightarrow> (unit, 'a pl_task) cq_task \<Rightarrow> 'a SafetyPipeline \<Rightarrow> 'a SafetyPipeline" where
  "run_task clock handlerErr t p =
     (case t of
        FlushTask h d \<Rightarrow> snd (batchFlush clock handlerErr d p)
      | RunTask (TMessage m) \<Rightarrow> snd (messageFlush clock handlerErr m [m] p)
      | RunTask (TAction eventID keys act) \<Rightarrow> snd (action_runner clock handlerErr eventID keys act p)
      | DoneTask \<Rightarrow> p)"

text \<open>What a media goroutine runs for a merged message.\<close>

definition run_media :: "clock \<Rightarrow> bool \<Rightarrow> IncomingMessage \<Rightarrow> 'a SafetyPipeline \<Rightarrow> 'a SafetyPipeline" where
  "run_media clock handlerErr merged p = snd (messageFlush clock handlerErr merged (BatchedSources merged) p)"

section \<open>What admission decides\<close>

text \<open>The first failing entry of a list of guards.\<close>

fun first_failing :: "(bool \<times> 'r) list \<Rightarrow> 'r option" where
  "first_failing [] = None"
| "first_failing ((b, r) # gs) = (if b then Some r else first_failing gs)"

text \<open>The guards of \<open>PushMessage\<close>, all evaluated in the state in which the message arrives.\<close>

definition guards ::
  "clock \<Rightarrow> string \<Rightarrow> IncomingMessage \<Rightarrow> 'a SafetyPipeline \<Rightarrow> (bool \<times> RejectReason) list" where
  "guards clock protoID msg p =
     [(IsStale (stale p) (clock 0) (CreateAt (body msg)), Stale),
      (\<exists>k \<in> set (dedup_keys protoID msg). k \<noteq> [] \<and> live (seen p) (clock 1) k, Duplicate),
      (is_self p msg, SelfSent),
      (\<not> Allowed (policy_spec (gateCfg (policy p)) (body msg)), Reason (policy_spec (gateCfg (policy p)) (body msg))),
      (lock_held (lock p) (clock 3) (msg_id msg), LockContention)]"

lemma CheckAndMark_fst: "memory_only sc \<Longrightarrow> fst (CheckAndMark rc t t' ks sc) = fst (Has rc t ks sc)"
  by (simp add: CheckAndMark_contract seen.check_and_mark_fst)

lemma seen_query_fst:
  "memory_only (seen p) \<Longrightarrow> fst (seen_query clock keys p) = (\<exists>k \<in> set keys. k \<noteq> [] \<and> live (seen p) (clock 1) k)"
  by (simp add: seen_query_def CheckAndMark_fst seen.query_iff split: prod.split) (metis CheckAndMark_fst fst_conv seen.query_iff)

lemma seen_query_frame [simp]:
  "stale (snd (seen_query c ks p)) = stale p" "lock (snd (seen_query c ks p)) = lock p"
  "policy (snd (seen_query c ks p)) = policy p" "media (snd (seen_query c ks p)) = media p"
  "queueOn (snd (seen_query c ks p)) = queueOn p" "is_self (snd (seen_query c ks p)) msg = is_self p msg"
  "markAfterHandler (snd (seen_query c ks p)) = markAfterHandler p"
  "hasOnMessage (snd (seen_query c ks p)) = hasOnMessage p"
  "hasBatchHandler (snd (seen_query c ks p)) = hasBatchHandler p"
  "hasOnBatch (snd (seen_query c ks p)) = hasOnBatch p" "hasOnReject (snd (seen_query c ks p)) = hasOnReject p"
  "pl_log (snd (seen_query c ks p)) = pl_log p"
  by (simp_all add: seen_query_def is_self_def split: prod.split)

lemma admit_alt:
  "admit clock protoID msg p =
     (if IsStale (stale p) (clock 0) (CreateAt (body msg)) then (Some Stale, p)
      else
        (let q = seen_query clock (dedup_keys protoID msg) p; a = Acquire (clock 3) (msg_id msg) (lock p) in
         if fst q then (Some Duplicate, snd q)
         else if is_self p msg then (Some SelfSent, snd q)
         else if \<not> Allowed (policy_spec (gateCfg (policy p)) (body msg))
              then (Some (Reason (policy_spec (gateCfg (policy p)) (body msg))), snd q)
         else if \<not> fst a then (Some LockContention, (snd q)\<lparr>lock := snd a\<rparr>)
         else (None, (snd q)\<lparr>lock := snd a\<rparr>)))"
proof -
  obtain dup p1 where q: "seen_query clock (dedup_keys protoID msg) p = (dup, p1)" by fastforce
  obtain ok l where a: "Acquire (clock 3) (msg_id msg) (lock p) = (ok, l)" by fastforce
  have "is_self p1 msg = is_self p msg" "policy p1 = policy p" "lock p1 = lock p"
    using seen_query_frame(2,3,6) [of clock "dedup_keys protoID msg" p] q by auto
  then show ?thesis
    by (simp add: admit_def q a Evaluate_spec Let_def)
qed

lemma admit_guards:
  "memory_only (seen p) \<Longrightarrow> fst (admit clock protoID msg p) = first_failing (guards clock protoID msg p)"
  by (auto simp: admit_alt guards_def Let_def seen_query_fst lock.try_iff)

lemma admit_frame:
  "pl_log (snd (admit c proto msg p)) = pl_log p" "media (snd (admit c proto msg p)) = media p"
  "queueOn (snd (admit c proto msg p)) = queueOn p" "hasOnMessage (snd (admit c proto msg p)) = hasOnMessage p"
  "hasBatchHandler (snd (admit c proto msg p)) = hasBatchHandler p"
  "hasOnBatch (snd (admit c proto msg p)) = hasOnBatch p" "hasOnReject (snd (admit c proto msg p)) = hasOnReject p"
  "markAfterHandler (snd (admit c proto msg p)) = markAfterHandler p"
  "stale (snd (admit c proto msg p)) = stale p" "policy (snd (admit c proto msg p)) = policy p"
  by (auto simp: admit_alt Let_def)

lemma admit_lock:
  "lock (snd (admit c proto msg p)) =
     (if fst (admit c proto msg p) = None then snd (Acquire (c 3) (msg_id msg) (lock p)) else lock p)"
  by (auto simp: admit_alt Let_def lock.refused_same)

lemma admitted_acquired: "fst (admit c proto msg p) = None \<Longrightarrow> fst (Acquire (c 3) (msg_id msg) (lock p))"
  by (auto simp: admit_alt Let_def split: if_splits)

section \<open>What a flush leaves behind\<close>

lemma settle_frame [simp]:
  "pl_log (settle c err ids p) = pl_log p" "stale (settle c err ids p) = stale p"
  "policy (settle c err ids p) = policy p" "markAfterHandler (settle c err ids p) = markAfterHandler p"
  "hasOnMessage (settle c err ids p) = hasOnMessage p" "media (settle c err ids p) = media p"
  "hasBatchHandler (settle c err ids p) = hasBatchHandler p" "hasOnBatch (settle c err ids p) = hasOnBatch p"
  "queueOn (settle c err ids p) = queueOn p" "hasOnReject (settle c err ids p) = hasOnReject p"
  "is_self (settle c err ids p) = is_self p"
  by (simp_all add: settle_def Let_def is_self_def fun_eq_iff)

lemma release_all_locks: "locks (release_all ids pl) = (\<lambda>i. if i \<in> set ids then None else locks pl i)"
  by (induction ids pl rule: release_all.induct) (auto simp: Release_def fun_eq_iff)

lemma release_all_ttl [simp]: "ttlMs (release_all ids pl) = ttlMs pl"
  by (induction ids pl rule: release_all.induct) (auto simp: frame_simps)

lemma settle_lock: "lock (settle c err ids p) = release_all ids (lock p)"
  by (simp add: settle_def Let_def)

lemma settle_held: "lock_held (lock (settle c err ids p)) t i \<longleftrightarrow> i \<notin> set ids \<and> lock_held (lock p) t i"
  by (simp add: settle_lock lock_held_def release_all_locks)

lemma settle_seen:
  "seen (settle c err ids p) = (if markAfterHandler p \<and> \<not> err then mark_all c ids (seen p) else seen p)"
  by (simp add: settle_def Let_def)

lemma emit_frame [simp]:
  "stale (emit e p) = stale p" "seen (emit e p) = seen p" "lock (emit e p) = lock p" "policy (emit e p) = policy p"
  "media (emit e p) = media p" "queueOn (emit e p) = queueOn p" "markAfterHandler (emit e p) = markAfterHandler p"
  "hasOnMessage (emit e p) = hasOnMessage p" "hasBatchHandler (emit e p) = hasBatchHandler p"
  "hasOnBatch (emit e p) = hasOnBatch p" "hasOnReject (emit e p) = hasOnReject p"
  "is_self (emit e p) = is_self p" "pl_log (emit e p) = pl_log p @ [e]"
  by (simp_all add: emit_def is_self_def fun_eq_iff)

lemma batchFlush_alt:
  "batchFlush c he d p =
     (hasBatchHandler p \<and> he,
      settle c (hasBatchHandler p \<and> he) (bdSourceIDs d)
        (if hasBatchHandler p then emit (LgBatch \<lparr>bmMessage = bdMessage d, bmSourceIDs = bdSourceIDs d\<rparr>) p else p))"
  by (simp add: batchFlush_def)

lemma messageFlush_alt:
  "messageFlush c he m srcs p =
     (hasOnMessage p \<and> he,
      settle c (hasOnMessage p \<and> he) (map msg_id (if srcs = [] then [m] else srcs))
        (if hasOnMessage p then emit (LgMessage m (if srcs = [] then [m] else srcs)) p else p))"
  by (simp add: messageFlush_def Let_def)

section \<open>Properties of one push\<close>

text \<open>
  C10. The decision of \<open>PushMessage\<close> on a message is the first guard that fails, in the documented
  order (stale, duplicate, self-sent, policy, lock), each evaluated in the state in which the message
  arrives; the message is admitted when none fails. A rejection is reported exactly once, with
  that reason and the ids of the message, and runs no other callback and takes no lock.
\<close>

theorem push_message_decision:
  assumes "memory_only (seen p)"
  shows "case first_failing (guards clock protoID msg p) of
      None \<Rightarrow> \<forall>r. fst (PushMessage clock he it protoID msg p) \<noteq> Rejected r
    | Some r \<Rightarrow> fst (PushMessage clock he it protoID msg p) = Rejected r
        \<and> lock (snd (PushMessage clock he it protoID msg p)) = lock p
        \<and> pl_log (snd (PushMessage clock he it protoID msg p)) = pl_log p @
            (if hasOnReject p then [LgReject \<lparr>reMessageID = msg_id msg, reChatID = msg_chat msg,
               reSenderID = SenderID (body msg), reReason = r\<rparr>] else [])"
proof -
  obtain d p1 where a: "admit clock protoID msg p = (d, p1)" by fastforce
  note frame = admit_frame [of clock protoID msg p, unfolded a] admit_lock [of clock protoID msg p, unfolded a]
  from a admit_guards [OF assms, of clock protoID msg] have d: "first_failing (guards clock protoID msg p) = d" by simp
  show ?thesis
    unfolding d using frame
    by (cases d) (auto simp: PushMessage_def a emitReject_def Let_def split: prod.split)
qed

text \<open>
  C23. An admitted message is handed on exactly once: to the queue of its conversation, to a media
  batch, or to exactly one callback, \<open>OnBatch\<close> with the single message or \<open>OnMessage\<close>; and after a
  direct delivery its lock is free again. In the media batches nothing is lost on the way: what was flushed so far
  followed by the bucket is as before, with the message at the end under its own batch key when it went there,
  and nothing else. (The messages come from the normaliser, so they list no sources.)
\<close>

theorem admitted_handed_on_once:
  assumes "fst (admit clock protoID msg p) = None" and "hasOnMessage p"
    and "media_inv (media p)" and "BatchedSources msg = []"
  shows "let (d, p') = PushMessage clock he it protoID msg p in
     (if queueOn p then d = Enqueue (msg_chat msg) (if batchMode p then EvPush msg () else EvRun (TMessage msg))
        \<and> filter (\<lambda>e. \<forall>m. e \<noteq> LgEnqueue m) (pl_log p') = filter (\<lambda>e. \<forall>m. e \<noteq> LgEnqueue m) (pl_log p)
      else if IsCompatible (media p) msg then d = ToMedia \<and> pl_log p' = pl_log p
      else d = Delivered he \<and> \<not> lock_held (lock p') t (msg_id msg)
        \<and> pl_log p' = pl_log p @ [if batchMode p then LgBatch \<lparr>bmMessage = msg, bmSourceIDs = [msg_id msg]\<rparr>
                                  else LgMessage msg [msg]])
     \<and> media_inv (media p')
     \<and> (\<forall>k. media_out k (media p') @ bucket_of k (media p') = media_out k (media p) @ bucket_of k (media p)
          @ (if d = ToMedia \<and> batchKey msg = k then [msg] else []))"
proof -
  obtain p1 where a: "admit clock protoID msg p = (None, p1)" using assms(1) by (metis prod.collapse)
  note frame = admit_frame [of clock protoID msg p, unfolded a]
  have bm: "batchMode p1 = batchMode p" using frame by (simp add: batchMode_def)
  have hb: "batchMode p \<Longrightarrow> hasBatchHandler p" by (simp add: batchMode_def split: if_splits)
  have bm2: "batchMode (p1\<lparr>media := x\<rparr>) = batchMode p" for x using frame by (simp add: batchMode_def)
  have push: "media_inv (media_Push msg () (media p))"
    "media_out k (media_Push msg () (media p)) @ bucket_of k (media_Push msg () (media p))
      = media_out k (media p) @ bucket_of k (media p) @ (if batchKey msg = k then [msg] else [])" for k
    using media_push_step [OF assms(3,4), where h = "()"] by simp_all
  have flush: "media_inv (FlushIncompatibleFor it msg (media p))"
    "media_out k (FlushIncompatibleFor it msg (media p)) @ bucket_of k (FlushIncompatibleFor it msg (media p))
      = media_out k (media p) @ bucket_of k (media p)" for k
    using assms(3) by (simp_all add: FlushIncompatibleFor_def Let_def media_inv_fold fold_conserves)
  show ?thesis
    using frame assms(2,3) hb bm bm2 push flush
    by (auto simp: PushMessage_def a batchFlush_alt messageFlush_alt settle_held Let_def split: prod.split)
qed

section \<open>Sequences of pipeline operations\<close>

datatype 'a pl_op =
    OpMessage clock bool "string list" string IncomingMessage
  | OpAction clock bool string string 'a "string list"
  | OpLight clock bool string 'a
  | OpTask clock bool "(unit, 'a pl_task) cq_task"
  | OpMedia clock bool IncomingMessage
  | OpSweepSeen time
  | OpSweepLocks time
  | OpPolicy PolicyConfig
  | OpBot string

fun pl_run_op :: "'a pl_op \<Rightarrow> 'a SafetyPipeline \<Rightarrow> 'a SafetyPipeline" where
  "pl_run_op (OpMessage c err it protoID msg) p = snd (PushMessage c err it protoID msg p)"
| "pl_run_op (OpAction c err i scope act extra) p = snd (PushAction c err i scope act extra p)"
| "pl_run_op (OpLight c err i act) p = PushLight c err i act p"
| "pl_run_op (OpTask c err t) p = run_task c err t p"
| "pl_run_op (OpMedia c err m) p = run_media c err m p"
| "pl_run_op (OpSweepSeen t) p = p\<lparr>seen := sweep t (seen p)\<rparr>"
| "pl_run_op (OpSweepLocks t) p = p\<lparr>lock := lock_sweep t (lock p)\<rparr>"
| "pl_run_op (OpPolicy cfg) p = pl_UpdatePolicy cfg p"
| "pl_run_op (OpBot code) p = pl_SetBotIdentity code p"

text \<open>The clock an operation reads, and the keys it looks up or marks.\<close>

fun pl_clock :: "'a pl_op \<Rightarrow> clock" where
  "pl_clock (OpMessage c err it protoID msg) = c"
| "pl_clock (OpAction c err i scope act extra) = c"
| "pl_clock (OpLight c err i act) = c"
| "pl_clock (OpTask c err t) = c"
| "pl_clock (OpMedia c err m) = c"
| "pl_clock (OpSweepSeen t) = (\<lambda>_. t)"
| "pl_clock (OpSweepLocks t) = (\<lambda>_. t)"
| "pl_clock _ = (\<lambda>_. 0)"

fun task_keys :: "(unit, 'a pl_task) cq_task \<Rightarrow> string set" where
  "task_keys (FlushTask h d) = set (bdSourceIDs d)"
| "task_keys (RunTask (TMessage m)) = {msg_id m}"
| "task_keys (RunTask (TAction i keys act)) = set keys"
| "task_keys DoneTask = {}"

fun pl_keys :: "'a pl_op \<Rightarrow> string set" where
  "pl_keys (OpMessage c err it protoID msg) = set (dedup_keys protoID msg)"
| "pl_keys (OpAction c err i scope act extra) = insert i (set extra)"
| "pl_keys (OpLight c err i act) = {i}"
| "pl_keys (OpTask c err t) = task_keys t"
| "pl_keys (OpMedia c err m) = msg_id ` set (m # BatchedSources m)"
| "pl_keys _ = {}"

fun pl_timed :: "'a pl_op \<Rightarrow> bool" where
  "pl_timed (OpPolicy cfg) = False" | "pl_timed (OpBot code) = False" | "pl_timed _ = True"

text \<open>One cache state leads to another through operations that read the clock and touch keys of a set.\<close>

definition seen_leads :: "clock \<Rightarrow> string set \<Rightarrow> unit SeenCache \<Rightarrow> unit SeenCache \<Rightarrow> bool" where
  "seen_leads c K sc sc' \<longleftrightarrow>
     (\<exists>ops. sc' = run_ops no_redis ops sc \<and> (\<forall>op \<in> set ops. op_time op \<in> range c \<and> op_keys op \<subseteq> K))"

lemma seen_leads_refl [simp, intro]: "seen_leads c K sc sc"
  unfolding seen_leads_def by (rule exI [of _ "[]"]) (simp add: run_ops_def)

lemma seen_leads_trans: "seen_leads c K sc sc1 \<Longrightarrow> seen_leads c K sc1 sc2 \<Longrightarrow> seen_leads c K sc sc2"
  unfolding seen_leads_def by (elim exE conjE) (rule exI [of _ "_ @ _"], auto simp: run_ops_append)

lemma seen_leads_op: "op_time op \<in> range c \<Longrightarrow> op_keys op \<subseteq> K \<Longrightarrow> seen_leads c K sc (run_op no_redis op sc)"
  unfolding seen_leads_def by (rule exI [of _ "[op]"]) (simp add: run_ops_def)

lemma seen_leads_Has: "set ks \<subseteq> K \<Longrightarrow> seen_leads c K sc (snd (Has no_redis (c n) ks sc))"
  using seen_leads_op [of "HasOp (c n) ks" c K sc] by simp

lemma seen_leads_Add: "set ks \<subseteq> K \<Longrightarrow> seen_leads c K sc (Add no_redis (c n) ks sc)"
  using seen_leads_op [of "AddOp (c n) ks" c K sc] by simp

lemma seen_leads_CheckAndMark:
  assumes "set ks \<subseteq> K"
  shows "seen_leads c K sc (snd (CheckAndMark no_redis (c m) (c n) ks sc))"
proof -
  note has = seen_leads_Has [OF assms, of c sc m]
  have "seen_leads c K sc (Add no_redis (c n) ks (snd (Has no_redis (c m) ks sc)))"
    using seen_leads_trans [OF has seen_leads_Add [OF assms]] .
  with has show ?thesis by (auto simp: CheckAndMark_def split: prod.splits bool.splits)
qed

lemma seen_leads_query:
  assumes "set ks \<subseteq> K"
  shows "seen_leads c K (seen p) (seen (snd (seen_query c ks p)))"
  using seen_leads_CheckAndMark [OF assms, of c "seen p" 1 2] seen_leads_Has [OF assms, of c "seen p" 1]
  by (cases "markAfterHandler p") (simp_all add: seen_query_def case_prod_beta)

lemma seen_leads_mark_all:
  "set ids \<subseteq> K \<Longrightarrow> range c' \<subseteq> range c \<Longrightarrow> seen_leads c K sc (mark_all c' ids sc)"
proof (induction c' ids sc rule: mark_all.induct)
  case (2 c' i ids sc)
  obtain n where "c' 0 = c n" using 2 by blast
  then have "seen_leads c K sc (Add no_redis (c' 0) [i] sc)" using 2 seen_leads_Add [of "[i]" K c sc n] by simp
  moreover have "range (\<lambda>n. c' (Suc n)) \<subseteq> range c" using 2 by blast
  ultimately show ?case using 2 by (auto intro: seen_leads_trans)
qed simp

lemma seen_leads_settle:
  "set ids \<subseteq> K \<Longrightarrow> range c' \<subseteq> range c \<Longrightarrow> seen_leads c K (seen p) (seen (settle c' err ids p))"
  by (simp add: settle_seen seen_leads_mark_all)

lemma seen_leads_settle_emit:
  "set ids \<subseteq> K \<Longrightarrow> range c' \<subseteq> range c \<Longrightarrow> seen_leads c K (seen p) (seen (settle c' err ids (emit e p)))"
  using seen_leads_settle [of ids K c' c "emit e p" err] by simp

lemma seen_leads_messageFlush:
  "msg_id ` set (m # srcs) \<subseteq> K \<Longrightarrow> range c' \<subseteq> range c
   \<Longrightarrow> seen_leads c K (seen p) (seen (snd (messageFlush c' err m srcs p)))"
  by (cases "hasOnMessage p"; cases "srcs = []")
    (auto simp: messageFlush_alt intro!: seen_leads_settle seen_leads_settle_emit)

lemma seen_leads_batchFlush:
  "set (bdSourceIDs d) \<subseteq> K \<Longrightarrow> range c' \<subseteq> range c
   \<Longrightarrow> seen_leads c K (seen p) (seen (snd (batchFlush c' err d p)))"
  by (cases "hasBatchHandler p")
    (auto simp: batchFlush_alt intro!: seen_leads_settle seen_leads_settle_emit)

lemma seen_leads_runner:
  "set keys \<subseteq> K \<Longrightarrow> range c' \<subseteq> range c
   \<Longrightarrow> seen_leads c K (seen p) (seen (snd (action_runner c' err i keys act p)))"
proof -
  assume K: "set keys \<subseteq> K" and "range c' \<subseteq> range c"
  then obtain n where "c' 0 = c n" by blast
  then show ?thesis
    using seen_leads_Add [OF K, of c "seen p" n] by (simp add: action_runner_def Let_def)
qed

lemma admit_seen:
  "seen (snd (admit c proto msg p)) =
     (if IsStale (stale p) (c 0) (CreateAt (body msg)) then seen p
      else seen (snd (seen_query c (dedup_keys proto msg) p)))"
  by (simp add: admit_alt Let_def)

lemma dedup_keys_id: "msg_id msg \<in> set (dedup_keys protoID msg)" "protoID \<in> set (dedup_keys protoID msg)"
  by (simp_all add: dedup_keys_def)

lemma seen_leads_PushMessage:
  "seen_leads c (set (dedup_keys protoID msg)) (seen p) (seen (snd (PushMessage c err it protoID msg p)))"
proof -
  let ?K = "set (dedup_keys protoID msg)"
  obtain d p1 where a: "admit c protoID msg p = (d, p1)" by fastforce
  have p1: "seen_leads c ?K (seen p) (seen p1)"
    using admit_seen [of c protoID msg p] seen_leads_query [of "dedup_keys protoID msg" ?K c p] by (simp add: a)
  have shift: "range (\<lambda>n. c (n + 4)) \<subseteq> range c" by auto
  have flush: "seen_leads c ?K (seen p1) (seen (snd (messageFlush (\<lambda>n. c (n + 4)) err msg [msg] p2)))"
    "seen_leads c ?K (seen p1) (seen (snd (batchFlush (\<lambda>n. c (n + 4)) err \<lparr>bdMessage = msg, bdSourceIDs = [msg_id msg]\<rparr> p2)))"
    if "seen p2 = seen p1" for p2 :: "'a SafetyPipeline"
    unfolding that [symmetric]
    by (rule seen_leads_messageFlush [OF _ shift] seen_leads_batchFlush [OF _ shift]; simp add: dedup_keys_id)+
  have direct: "seen_leads c ?K (seen p) (seen (snd (if batchMode p2
        then batchFlush (\<lambda>n. c (n + 4)) err \<lparr>bdMessage = msg, bdSourceIDs = [msg_id msg]\<rparr> p2
        else messageFlush (\<lambda>n. c (n + 4)) err msg [msg] p2)))" if "seen p2 = seen p1" for p2 :: "'a SafetyPipeline"
    using seen_leads_trans [OF p1 flush(1) [OF that]] seen_leads_trans [OF p1 flush(2) [OF that]] by simp
  show ?thesis
    using p1 direct [of p1] direct [of "p1\<lparr>media := FlushIncompatibleFor it msg (media p1)\<rparr>"]
    by (cases d) (simp_all add: PushMessage_def a emitReject_def Let_def case_prod_beta split: if_splits)
qed

lemma seen_leads_pl_op:
  assumes "pl_timed op"
  shows "seen_leads (pl_clock op) (pl_keys op) (seen p) (seen (pl_run_op op p))"
proof (cases op)
  case (OpMessage c err it protoID msg)
  then show ?thesis using seen_leads_PushMessage [of c protoID msg p err it] by simp
next
  case (OpAction c err i scope act extra)
  let ?q = "snd (seen_query c (i # extra) p)"
  have q: "seen_leads c (insert i (set extra)) (seen p) (seen ?q)"
    using seen_leads_query [of "i # extra" "insert i (set extra)" c p] by simp
  have "seen_leads c (insert i (set extra)) (seen ?q)
      (seen (snd (action_runner (\<lambda>n. c (n + 4)) err i (i # extra) act (?q\<lparr>lock := l\<rparr>))))" for l
    using seen_leads_runner [of "i # extra" "insert i (set extra)" "\<lambda>n. c (n + 4)" c "?q\<lparr>lock := l\<rparr>" err i act] by auto
  then show ?thesis
    using q OpAction seen_leads_trans [OF q]
    by (simp add: PushAction_def Let_def case_prod_beta)
next
  case (OpLight c err i act)
  let ?q = "snd (seen_query c [i] p)"
  have q: "seen_leads c {i} (seen p) (seen ?q)"
    using seen_leads_query [of "[i]" "{i}" c p] by simp
  then show ?thesis
    using OpLight seen_leads_trans [OF q seen_leads_Add [of "[i]" "{i}" c "seen ?q" 4]]
    by (simp add: PushLight_def Let_def case_prod_beta)
next
  case (OpTask c err t)
  then show ?thesis
    by (auto simp: run_task_def intro: seen_leads_batchFlush seen_leads_messageFlush seen_leads_runner
        split: cq_task.split pl_task.split)
next
  case (OpMedia c err m)
  then show ?thesis by (simp add: run_media_def seen_leads_messageFlush)
next
  case (OpSweepSeen t)
  then show ?thesis using seen_leads_op [of "SweepOp t" "\<lambda>_. t" "{}" "seen p"] by simp
qed (use assms in auto)

lemma pl_untimed_seen: "\<not> pl_timed op \<Longrightarrow> seen (pl_run_op op p) = seen p"
  by (cases op) (auto simp: pl_UpdatePolicy_def pl_SetBotIdentity_def Let_def)

definition pl_run :: "'a pl_op list \<Rightarrow> 'a SafetyPipeline \<Rightarrow> 'a SafetyPipeline" where
  "pl_run ops p = fold pl_run_op ops p"

text \<open>An operation that runs within a window and touches no keys outside a set.\<close>

definition op_within :: "time \<Rightarrow> duration \<Rightarrow> string set \<Rightarrow> 'a pl_op \<Rightarrow> bool" where
  "op_within t0 d K op \<longleftrightarrow> pl_timed op \<longrightarrow> (\<forall>n. t0 \<le> pl_clock op n \<and> pl_clock op n < t0 + d) \<and> pl_keys op \<subseteq> K"

lemma pl_op_guarded:
  assumes "guarded T k (t0 + TTL (scCfg (seen p))) (seen p)" and "finite T"
    and "card T < sc_cap (seen p)" and "k \<notin> T" and "op_within t0 (TTL (scCfg (seen p))) (insert k T) op"
  shows "guarded T k (t0 + TTL (scCfg (seen p))) (seen (pl_run_op op p))
    \<and> scCfg (seen (pl_run_op op p)) = scCfg (seen p)"
proof (cases "pl_timed op")
  case True
  then obtain tr where tr: "seen (pl_run_op op p) = run_ops no_redis tr (seen p)"
    "\<forall>o' \<in> set tr. op_time o' \<in> range (pl_clock op) \<and> op_keys o' \<subseteq> pl_keys op"
    using seen_leads_pl_op [OF True, of p] unfolding seen_leads_def by blast
  have "in_window t0 (TTL (scCfg (seen p))) (insert k T) o'" if "o' \<in> set tr" for o'
    using that tr(2) assms(5) True by (fastforce simp: in_window_def op_within_def)
  then show ?thesis
    using run_ops_guarded [OF assms(1-4)] scCfg_run_ops [of "seen p" no_redis tr] assms(1)
    by (simp add: tr(1) guarded_def)
next
  case False
  then show ?thesis using assms(1) by (simp add: pl_untimed_seen)
qed

lemma pl_run_guarded:
  assumes "guarded T k (t0 + TTL (scCfg (seen p))) (seen p)" and "finite T"
    and "card T < sc_cap (seen p)" and "k \<notin> T"
    and "\<And>op. op \<in> set ops \<Longrightarrow> op_within t0 (TTL (scCfg (seen p))) (insert k T) op"
  shows "guarded T k (t0 + TTL (scCfg (seen p))) (seen (pl_run ops p))
    \<and> scCfg (seen (pl_run ops p)) = scCfg (seen p)"
  using assms unfolding pl_run_def
proof (induction ops arbitrary: p)
  case (Cons op ops)
  have step: "guarded T k (t0 + TTL (scCfg (seen p))) (seen (pl_run_op op p))
    \<and> scCfg (seen (pl_run_op op p)) = scCfg (seen p)"
    using Cons.prems by (intro pl_op_guarded) auto
  then have "guarded T k (t0 + TTL (scCfg (seen (pl_run_op op p)))) (seen (pl_run_op op p))" by simp
  then show ?case using Cons.IH [of "pl_run_op op p"] Cons.prems step by auto
qed simp

text \<open>In the default mode an admitted message has all its keys marked.\<close>

lemma admitted_marked:
  assumes "fst (admit c protoID msg p) = None" and "\<not> markAfterHandler p"
  shows "seen (snd (admit c protoID msg p))
    = Add no_redis (c 2) (dedup_keys protoID msg) (snd (Has no_redis (c 1) (dedup_keys protoID msg) (seen p)))"
  using assms unfolding admit_seen
  by (auto simp: admit_alt seen_query_def CheckAndMark_def Let_def case_prod_beta split: if_splits prod.splits bool.splits)

lemma guarded_kept_PushMessage:
  assumes "fst (admit c protoID msg p) = None" and "\<not> markAfterHandler p"
  shows "seen (snd (PushMessage c err it protoID msg p)) = seen (snd (admit c protoID msg p))"
proof -
  obtain p1 where a: "admit c protoID msg p = (None, p1)" using assms(1) by (metis prod.collapse)
  have "\<not> markAfterHandler p1" using admit_frame(8) [of c protoID msg p] assms(2) a by simp
  then show ?thesis
    by (simp add: PushMessage_def a batchFlush_alt messageFlush_alt settle_seen Let_def case_prod_beta split: if_splits)
qed


section \<open>At most once, and retry\<close>

lemma has_hit_guarded:
  assumes "guarded T k e sc" and "k \<notin> T" and "t < e" and "k \<in> set ks" and "k \<noteq> []"
  shows "fst (Has no_redis t ks sc)"
  using assms guarded_live [of T k e sc t] by (intro Has_hit) (auto simp: guarded_def)

lemma duplicate_rejected:
  assumes "fst (Has no_redis (c 1) (dedup_keys protoID msg) (seen p))"
  shows "fst (admit c protoID msg p) \<in> {Some Stale, Some Duplicate}"
proof -
  have "fst (seen_query c (dedup_keys protoID msg) p)"
    using assms by (auto simp: seen_query_def CheckAndMark_def case_prod_beta split: prod.splits bool.splits)
  then show ?thesis by (simp add: admit_alt Let_def)
qed

lemma rejected_push:
  "fst (admit c protoID msg p) = Some r \<Longrightarrow> fst (PushMessage c err it protoID msg p) = Rejected r"
  by (auto simp: PushMessage_def split: prod.split option.split)

text \<open>
  C1. At most once, in the default mode, which marks the keys of a message on arrival and not after its
  handler. After a message has been admitted, every later push that shares one non-empty key with it, the
  delivery id, the message id or the content fingerprint, is rejected as stale or duplicate for the whole
  TTL, whatever other messages, actions, queue tasks, media flushes, sweeps and policy changes the pipeline
  handles in between, as long as they touch fewer than \<open>MaxEntries\<close> other keys. A push is one step here:
  two that overlap can both get past the deduplication (\<open>interleaved_deliveries_run_twice\<close>).
\<close>

theorem at_most_once:
  assumes "sc_inv (seen p)" and "\<not> markAfterHandler p" and "fst (admit c protoID msg p) = None"
    and "k \<in> set (dedup_keys protoID msg)" and "k \<in> set (dedup_keys protoID' msg')" and "k \<noteq> []"
    and "set (dedup_keys protoID msg) \<subseteq> insert k T" and "k \<notin> T" and "finite T"
    and "int (card T) < MaxEntries (scCfg (seen p))"
    and "\<And>op. op \<in> set ops \<Longrightarrow> op_within (c 2) (TTL (scCfg (seen p))) (insert k T) op"
    and "c' 1 < c 2 + TTL (scCfg (seen p))"
  shows "fst (PushMessage c' err' it' protoID' msg' (pl_run ops (snd (PushMessage c err it protoID msg p))))
    \<in> {Rejected Stale, Rejected Duplicate}"
proof -
  let ?p1 = "snd (PushMessage c err it protoID msg p)"
  let ?ttl = "TTL (scCfg (seen p))"
  let ?has = "snd (Has no_redis (c 1) (dedup_keys protoID msg) (seen p))"
  have has: "sc_inv ?has" "scCfg ?has = scCfg (seen p)"
    by (rule sc_inv_Has [OF assms(1)], rule Has_frame(1) [OF assms(1)])
  have p1: "seen ?p1 = Add no_redis (c 2) (dedup_keys protoID msg) ?has"
    using guarded_kept_PushMessage [OF assms(3,2)] admitted_marked [OF assms(3,2)] by simp
  have cfg: "scCfg (seen ?p1) = scCfg (seen p)" by (simp add: p1 Add_def frame_simps has del: One_nat_def)
  have "guarded T k (c 2 + ?ttl) (seen ?p1)"
    unfolding p1 Add_def time_add_eq has(2) using assms has by (intro add_keys_guards) auto
  then have "guarded T k (c 2 + ?ttl) (seen (pl_run ops ?p1))"
    using pl_run_guarded [of T k "c 2" ?p1 ops] assms cfg by simp
  then have "fst (Has no_redis (c' 1) (dedup_keys protoID' msg') (seen (pl_run ops ?p1)))"
    using assms by (intro has_hit_guarded) auto
  then show ?thesis
    using duplicate_rejected rejected_push by blast
qed

lemma mark_mode_query:
  assumes "memory_only (seen p)" and "markAfterHandler p" and "c 1 \<le> t"
  shows "memory_only (seen (snd (seen_query c ks p)))"
    and "live (seen (snd (seen_query c ks p))) t k = live (seen p) t k"
    and "scCfg (seen (snd (seen_query c ks p))) = scCfg (seen p)"
  using assms seen.invar_query [OF assms(1)] seen.query_known [OF assms(1), of "c 1" t no_redis ks k]
  by (simp_all add: seen_query_def case_prod_beta memory_only_def frame_simps)

lemma settle_policy_frame:
  assumes "fst (admit c protoID msg p) = None" and "\<not> queueOn p" and "\<not> IsCompatible (media p) msg"
    and "hasOnMessage p" and "hasBatchHandler p"
  shows "let p' = snd (PushMessage c err it protoID msg p) in
     stale p' = stale p \<and> policy p' = policy p \<and> is_self p' = is_self p \<and> markAfterHandler p' = markAfterHandler p
     \<and> lock p' = Release (msg_id msg) (snd (Acquire (c 3) (msg_id msg) (lock p)))
     \<and> seen p' = (let sc = seen (snd (seen_query c (dedup_keys protoID msg) p)) in
          if markAfterHandler p \<and> \<not> err then Add no_redis (c 4) [msg_id msg] sc else sc)"
proof -
  obtain p1 where a: "admit c protoID msg p = (None, p1)" using assms(1) by (metis prod.collapse)
  have frame: "queueOn p1 = queueOn p" "media p1 = media p" "hasOnMessage p1 = hasOnMessage p"
    "hasBatchHandler p1 = hasBatchHandler p" "markAfterHandler p1 = markAfterHandler p" "stale p1 = stale p"
    "policy p1 = policy p"
    using admit_frame [of c protoID msg p] a by simp_all
  have self: "is_self p1 = is_self p"
    using a by (auto simp: admit_alt is_self_def seen_query_def Let_def case_prod_beta fun_eq_iff split: if_splits)
  have lock: "lock p1 = snd (Acquire (c 3) (msg_id msg) (lock p))"
    using admit_lock [of c protoID msg p] a by simp
  have seen: "seen p1 = seen (snd (seen_query c (dedup_keys protoID msg) p))"
    using a by (auto simp: admit_alt Let_def split: if_splits)
  have flush: "let p' = snd (if b then batchFlush (\<lambda>n. c (n + 4)) err \<lparr>bdMessage = msg, bdSourceIDs = [msg_id msg]\<rparr> p2
        else messageFlush (\<lambda>n. c (n + 4)) err msg [msg] p2) in
      stale p' = stale p2 \<and> policy p' = policy p2 \<and> is_self p' = is_self p2 \<and> markAfterHandler p' = markAfterHandler p2
      \<and> lock p' = Release (msg_id msg) (lock p2)
      \<and> seen p' = (if markAfterHandler p2 \<and> \<not> err then Add no_redis (c 4) [msg_id msg] (seen p2) else seen p2)"
    if "hasOnMessage p2" "hasBatchHandler p2" for b and p2 :: "'a SafetyPipeline"
    using that by (simp add: batchFlush_alt messageFlush_alt settle_lock settle_seen Let_def)
  define p2 where "p2 = (if mbEnabled (mpCfg (media p1))
    then p1\<lparr>media := FlushIncompatibleFor it msg (media p1)\<rparr> else p1)"
  have p2: "hasOnMessage p2" "hasBatchHandler p2" "markAfterHandler p2 = markAfterHandler p" "stale p2 = stale p"
    "policy p2 = policy p" "is_self p2 = is_self p" "lock p2 = lock p1" "seen p2 = seen p1"
    using assms frame self by (auto simp: p2_def is_self_def fun_eq_iff)
  have eq: "snd (PushMessage c err it protoID msg p) = snd (if batchMode p2
      then batchFlush (\<lambda>n. c (n + 4)) err \<lparr>bdMessage = msg, bdSourceIDs = [msg_id msg]\<rparr> p2
      else messageFlush (\<lambda>n. c (n + 4)) err msg [msg] p2)"
    using assms(2,3) frame by (simp add: PushMessage_def a Let_def case_prod_beta p2_def)
  show ?thesis
    unfolding eq using flush [OF p2(1,2), of "batchMode p2"] unfolding p2 lock seen by (simp add: Let_def)
qed

text \<open>Marking a list of keys marks each of them, as long as they fit into the cache.\<close>

lemma mark_all_keeps_guard:
  assumes "guarded T k (t0 + TTL (scCfg sc)) sc" and "finite T" and "card T < sc_cap sc" and "k \<notin> T"
    and "set ids \<subseteq> insert k T" and "\<And>n. t0 \<le> c n \<and> c n < t0 + TTL (scCfg sc)"
  shows "guarded T k (t0 + TTL (scCfg sc)) (mark_all c ids sc)"
proof -
  obtain tr where tr: "mark_all c ids sc = run_ops no_redis tr sc"
    "\<forall>o' \<in> set tr. op_time o' \<in> range c \<and> op_keys o' \<subseteq> insert k T"
    using seen_leads_mark_all [OF assms(5), of c c sc] unfolding seen_leads_def by blast
  have "in_window t0 (TTL (scCfg sc)) (insert k T) o'" if "o' \<in> set tr" for o'
    using that tr(2) assms(6) by (fastforce simp: in_window_def)
  then show ?thesis unfolding tr(1) by (intro run_ops_guarded assms(1-4))
qed

lemma mark_all_guards:
  assumes "sc_inv sc" and "k \<in> set ids" and "k \<noteq> []" and "set ids \<subseteq> insert k T" and "finite T" and "k \<notin> T"
    and "card T < sc_cap sc" and "\<And>n. t0 \<le> c n \<and> c n < t0 + TTL (scCfg sc)"
  shows "guarded T k (t0 + TTL (scCfg sc)) (mark_all c ids sc)"
  using assms
proof (induction c ids sc rule: mark_all.induct)
  case (2 c i ids sc)
  let ?sc = "Add no_redis (c 0) [i] sc"
  have cfg: "scCfg ?sc = scCfg sc" and inv: "sc_inv ?sc"
    using scCfg_run_op [OF "2.prems"(1), of no_redis "AddOp (c 0) [i]"] sc_inv_run_op [OF "2.prems"(1), of no_redis "AddOp (c 0) [i]"]
    by simp_all
  show ?case
  proof (cases "i = k")
    case True
    have "guarded T k (t0 + TTL (scCfg sc)) ?sc"
      unfolding Add_def True using "2.prems" by (intro add_keys_guards) auto
    then have "guarded T k (t0 + TTL (scCfg ?sc)) ?sc" by (simp only: cfg)
    then have "guarded T k (t0 + TTL (scCfg ?sc)) (mark_all (\<lambda>n. c (Suc n)) ids ?sc)"
      by (rule mark_all_keeps_guard) (use "2.prems" cfg in auto)
    then show ?thesis by (simp add: cfg)
  next
    case False
    then have "guarded T k (t0 + TTL (scCfg ?sc)) (mark_all (\<lambda>n. c (Suc n)) ids ?sc)"
      by (intro "2.IH") (use "2.prems" cfg inv in auto)
    then show ?thesis by (simp add: cfg)
  qed
qed simp

text \<open>
  The operations that hand a message to its callback: the push itself when it is delivered directly, the task of
  a queue that carries it, alone or in a batch, and the goroutine of a media batch. \<open>handled_ids\<close> are the message
  ids of everything handed over together.
\<close>

definition media_sources :: "IncomingMessage \<Rightarrow> IncomingMessage list" where
  "media_sources m = (if BatchedSources m = [] then [m] else BatchedSources m)"

fun handles :: "'a SafetyPipeline \<Rightarrow> IncomingMessage \<Rightarrow> 'a pl_op \<Rightarrow> bool" where
  "handles p msg (OpMessage c err it protoID m) \<longleftrightarrow>
     m = msg \<and> \<not> queueOn p \<and> \<not> IsCompatible (media p) msg \<and> fst (admit c protoID msg p) = None"
| "handles p msg (OpTask c err (FlushTask h d)) \<longleftrightarrow> msg_id msg \<in> set (bdSourceIDs d)"
| "handles p msg (OpTask c err (RunTask (TMessage m))) \<longleftrightarrow> m = msg"
| "handles p msg (OpMedia c err m) \<longleftrightarrow> msg \<in> set (media_sources m)"
| "handles p msg _ \<longleftrightarrow> False"

fun handled_ids :: "'a pl_op \<Rightarrow> string list" where
  "handled_ids (OpMessage c err it protoID m) = [msg_id m]"
| "handled_ids (OpTask c err (FlushTask h d)) = bdSourceIDs d"
| "handled_ids (OpTask c err (RunTask (TMessage m))) = [msg_id m]"
| "handled_ids (OpMedia c err m) = map msg_id (media_sources m)"
| "handled_ids _ = []"

text \<open>The operation with the callback failing, or not.\<close>

fun with_result :: "bool \<Rightarrow> 'a pl_op \<Rightarrow> 'a pl_op" where
  "with_result b (OpMessage c err it protoID m) = OpMessage c b it protoID m"
| "with_result b (OpTask c err t) = OpTask c b t"
| "with_result b (OpMedia c err m) = OpMedia c b m"
| "with_result b op = op"

text \<open>What a delivery leaves behind in the mode that marks after the handler.\<close>

definition delivered_state :: "bool \<Rightarrow> 'a pl_op \<Rightarrow> IncomingMessage \<Rightarrow> 'a SafetyPipeline \<Rightarrow> 'a SafetyPipeline \<Rightarrow> bool" where
  "delivered_state b op msg p p' \<longleftrightarrow>
     stale p' = stale p \<and> policy p' = policy p \<and> is_self p' = is_self p
     \<and> (\<forall>t. \<not> lock_held (lock p') t (msg_id msg))
     \<and> (\<exists>sc c. memory_only sc \<and> scCfg sc = scCfg (seen p) \<and> range c \<subseteq> range (pl_clock op)
          \<and> (\<forall>t k. pl_clock op 1 \<le> t \<longrightarrow> live sc t k = live (seen p) t k)
          \<and> seen p' = (if b then sc else mark_all c (handled_ids op) sc))"

lemma delivered_task:
  assumes "memory_only (seen p)" and "markAfterHandler p" and "msg_id msg \<in> set ids" and "ids = handled_ids op"
    and "pl_clock op = c"
  shows "delivered_state b op msg p (settle c b ids p)" and "delivered_state b op msg p (settle c b ids (emit e p))"
proof -
  have "delivered_state b op msg p (settle c b ids q)"
    if "seen q = seen p" "stale q = stale p" "policy q = policy p" "is_self q = is_self p" "markAfterHandler q"
    for q :: "'a SafetyPipeline"
    unfolding delivered_state_def using assms that
    by (auto simp: settle_held settle_seen intro!: exI [of _ "seen p"] exI [of _ c])
  from this [of p] this [of "emit e p"] assms(2)
  show "delivered_state b op msg p (settle c b ids p)" "delivered_state b op msg p (settle c b ids (emit e p))"
    by simp_all
qed

lemma delivered:
  assumes "memory_only (seen p)" and "markAfterHandler p" and "hasOnMessage p" and "hasBatchHandler p" and "handles p msg op"
  shows "delivered_state b op msg p (pl_run_op (with_result b op) p)"
proof (cases op)
  case (OpMessage c err it protoID m)
  then have h: "fst (admit c protoID msg p) = None" "\<not> queueOn p" "\<not> IsCompatible (media p) msg" and m: "m = msg"
    using assms(5) by simp_all
  note frame = settle_policy_frame [OF h assms(3,4), of b it, unfolded Let_def]
  note q = mark_mode_query [OF assms(1,2), of c _ "dedup_keys protoID msg"]
  have "range (\<lambda>n. c (n + 4)) \<subseteq> range c" by auto
  then show ?thesis
    unfolding delivered_state_def using frame q(1,3) [of "c 1"] q(2) OpMessage m assms(2)
    by (auto simp: lock_held_def Release_def intro!: exI [of _ "seen (snd (seen_query c (dedup_keys protoID msg) p))"]
        exI [of _ "\<lambda>n. c (n + 4)"])
next
  case (OpTask c err t)
  note task = delivered_task [OF assms(1,2) _ refl, of msg op c b]
  show ?thesis
  proof (cases t)
    case (FlushTask h d)
    then show ?thesis using task assms(4,5) OpTask by (simp add: run_task_def batchFlush_alt)
  next
    case (RunTask x)
    then show ?thesis
      using task assms(3,5) OpTask by (cases x) (simp_all add: run_task_def messageFlush_alt)
  qed (use assms(5) OpTask in simp)
next
  case (OpMedia c err m)
  then show ?thesis
    using delivered_task [OF assms(1,2) _ refl, of msg op c b] assms(3,5)
    by (auto simp: run_media_def messageFlush_alt media_sources_def split: if_splits)
qed (use assms(5) in simp_all)

text \<open>
  C22. Retry. With \<open>MarkAfterHandler\<close>, both callbacks set (a channel always sets them), no persistent store behind
  the deduplication, and a sender other than the robot, and however a message is handed to its callback, directly, by the task of a
  queue, alone or in a batch, or with a media batch: when the callback fails, the message leaves no mark and no
  lock, so that its redelivery is admitted, unless it is stale or refused by the policy or another delivery of it
  has been marked; once the callback has succeeded, and the message has an id, any push of the same id within the
  TTL is refused. (Nothing runs between the callback and the redelivery here; the ids of a batch have to fit into
  the cache. A message without an id is never marked: \<open>mark_mode_without_msg_id\<close>.)
\<close>

theorem retry_after_failure:
  assumes "memory_only (seen p)" and "markAfterHandler p" and "hasOnMessage p" and "hasBatchHandler p" and "handles p msg op"
    and "\<not> is_self p msg" and "Allowed (policy_spec (gateCfg (policy p)) (body msg))" and "pl_clock op 1 \<le> c' 1"
    and "\<not> IsStale (stale p) (c' 0) (CreateAt (body msg))"
    and "\<not> (\<exists>k \<in> set (dedup_keys protoID' msg). k \<noteq> [] \<and> live (seen p) (c' 1) k)"
  shows "fst (admit c' protoID' msg (pl_run_op (with_result True op) p)) = None
    \<and> (msg_id msg \<noteq> [] \<and> int (card (set (handled_ids op))) \<le> MaxEntries (scCfg (seen p))
        \<and> (\<forall>n. t0 \<le> pl_clock op n \<and> pl_clock op n < t0 + TTL (scCfg (seen p))) \<and> c'' 1 < t0 + TTL (scCfg (seen p)) \<longrightarrow>
         fst (admit c'' protoID'' msg (pl_run_op (with_result False op) p)) \<in> {Some Stale, Some Duplicate})"
proof (intro conjI impI)
  let ?f = "pl_run_op (with_result True op) p"
  obtain sc where f: "stale ?f = stale p" "policy ?f = policy p" "is_self ?f = is_self p"
    "\<not> lock_held (lock ?f) (c' 3) (msg_id msg)" "memory_only (seen ?f)" "live (seen ?f) (c' 1) k = live (seen p) (c' 1) k" for k
    using delivered [OF assms(1-5), of True] assms(8) unfolding delivered_state_def by auto
  show "fst (admit c' protoID' msg ?f) = None"
    unfolding admit_guards [OF f(5)] using assms(6,7,9,10) f by (simp add: guards_def)
next
  let ?s = "pl_run_op (with_result False op) p" and ?k = "msg_id msg"
  let ?T = "set (handled_ids op) - {?k}" and ?ttl = "TTL (scCfg (seen p))"
  assume late: "?k \<noteq> [] \<and> int (card (set (handled_ids op))) \<le> MaxEntries (scCfg (seen p))
    \<and> (\<forall>n. t0 \<le> pl_clock op n \<and> pl_clock op n < t0 + ?ttl) \<and> c'' 1 < t0 + ?ttl"
  obtain sc c where s: "memory_only sc" "scCfg sc = scCfg (seen p)" "range c \<subseteq> range (pl_clock op)"
    "seen ?s = mark_all c (handled_ids op) sc"
    using delivered [OF assms(1-5), of False] unfolding delivered_state_def by auto
  have k: "?k \<in> set (handled_ids op)" using assms(5) by (cases rule: handles.elims(2)) auto
  then have "card ?T < card (set (handled_ids op))" by (intro psubset_card_mono) auto
  then have "int (card ?T) < MaxEntries (scCfg (seen p))" using late by linarith
  then have "card ?T < sc_cap sc" using s(2) by simp
  moreover have "t0 \<le> c n \<and> c n < t0 + TTL (scCfg sc)" for n using s(2,3) late by (metis rangeI rangeE subsetD)
  ultimately have "guarded ?T ?k (t0 + TTL (scCfg sc)) (seen ?s)"
    unfolding s(4) using late k s(1) by (intro mark_all_guards) (auto simp: memory_only_def)
  then have "fst (Has no_redis (c'' 1) (dedup_keys protoID'' msg) (seen ?s))"
    using late s(2) by (intro has_hit_guarded) (auto simp: dedup_keys_id)
  then show "fst (admit c'' protoID'' msg ?s) \<in> {Some Stale, Some Duplicate}"
    by (rule duplicate_rejected)
qed


section \<open>Concrete instances\<close>

definition demo_safety :: "bool \<Rightarrow> SafetyConfig" where
  "demo_safety mark = DefaultSafetyConfig\<lparr>Policy := zero_PolicyConfig\<lparr>RequireMention := Some False\<rparr>,
     MarkAfterHandler := mark\<rparr>"

definition demo_opts :: PipelineOptions where
  "demo_opts = \<lparr>optOnMessage = True, optOnBatch = True, optOnReject = True, optQueueOn = False,
     optHasOnBatch = Some False, optBotRobotCode = ''bot''\<rparr>"

definition demo_pl :: "bool \<Rightarrow> unit SafetyPipeline" where
  "demo_pl mark = NewSafetyPipeline (demo_safety mark) demo_opts"

lemmas demo_pl_defs = demo_pl_def NewSafetyPipeline_def demo_safety_def demo_opts_def DefaultSafetyConfig_def
  DefaultDedupConfigExtended_def DefaultMediaBatchConfig_def NewPolicyGate_def NewStaleDetector_def

lemma live_new [simp]: "\<not> live (NewSeenCache c r p) t k"
  by (simp add: live_def lru_live_def lru_def NewSeenCache_def)

lemma demo_memory: "memory_only (seen (demo_pl mark))" "sc_inv (seen (demo_pl mark))"
  by (simp_all add: demo_pl_defs memory_only_def)

lemma demo_cfg: "scCfg (seen (demo_pl mark)) = \<lparr>TTL = 12 * Hour, MaxEntries = 5000, SweepInterval = 5 * Minute\<rparr>"
  by (simp add: demo_pl_defs fillDedupConfig_def)

lemma demo_flags [simp]:
  "\<not> queueOn (demo_pl mark)" "hasOnMessage (demo_pl mark)" "hasBatchHandler (demo_pl mark)"
  "hasOnReject (demo_pl mark)" "markAfterHandler (demo_pl mark) = mark" "\<not> batchMode (demo_pl mark)"
  "pl_log (demo_pl mark) = []" "\<not> IsCompatible (media (demo_pl mark)) msg"
  by (simp_all add: demo_pl_defs batchMode_def IsCompatible_def NewMediaPipelineManager_def fillMediaBatchConfig_def)

lemma demo_guards:
  "guards c proto (sample_msg i chat txt) (demo_pl mark)
   = [(False, Stale), (False, Duplicate), (False, SelfSent), (False, ReasonNone), (False, LockContention)]"
  by (simp add: guards_def demo_pl_defs IsStale_def sample_msg_def empty_fields_def is_self_def
      policy_spec_find first_violation_def policy_checks_def zero_PolicyConfig_def policy_admin_def effective_def
      ConversationTypeGroup_def NewProcessingLock_def lock_held_def)

lemma demo_admit: "fst (admit c proto (sample_msg i chat txt) (demo_pl mark)) = None"
  by (simp add: admit_guards [OF demo_memory(1)] demo_guards)

lemma demo_keys: "dedup_keys proto (sample_msg i chat txt) = [proto, i]"
  by (simp add: dedup_keys_def sample_msg_def empty_fields_def)

theorem push_message_decision_witness:
  "fst (PushMessage (\<lambda>_. 5) False [] ''p1'' (Message ((body (sample_msg ''m1'' ''c'' ''hi''))\<lparr>SenderID := ''bot''\<rparr>) []) (demo_pl False))
     = Rejected SelfSent"
proof -
  let ?msg = "Message ((body (sample_msg ''m1'' ''c'' ''hi''))\<lparr>SenderID := ''bot''\<rparr>) []"
  have "first_failing (guards (\<lambda>_. 5) ''p1'' ?msg (demo_pl False)) = Some SelfSent"
    by (simp add: guards_def demo_pl_defs IsStale_def sample_msg_def empty_fields_def is_self_def)
  then show ?thesis
    using push_message_decision [where p = "demo_pl False" and clock = "\<lambda>_. 5" and protoID = "''p1''"
        and msg = ?msg and he = False and it = "[]"]
    by (simp add: demo_memory)
qed

text \<open>A pipeline with media batches, where a picture waits in its bucket.\<close>

definition demo_media_pl :: "unit SafetyPipeline" where
  "demo_media_pl = (demo_pl False)\<lparr>media := NewMediaPipelineManager \<lparr>mbEnabled = True, mbDelayMs = 800, mbMaxItems = 9\<rparr>\<rparr>"

theorem admitted_handed_on_once_witness:
  "let (d, p') = PushMessage (\<lambda>_. 5) True [] ''p1'' (media_msg ''m1'' ''c'' ''picture'') demo_media_pl in
     d = ToMedia \<and> media_out (batchKey (media_msg ''m1'' ''c'' ''picture'')) (media p')
       @ bucket_of (batchKey (media_msg ''m1'' ''c'' ''picture'')) (media p') = [media_msg ''m1'' ''c'' ''picture'']"
proof -
  let ?msg = "media_msg ''m1'' ''c'' ''picture''"
  have mem: "memory_only (seen demo_media_pl)" using demo_memory(1) [of False] by (simp add: demo_media_pl_def)
  have "fst (admit (\<lambda>_. 5) ''p1'' ?msg demo_media_pl) = None"
    unfolding admit_guards [OF mem]
    by (simp add: demo_media_pl_def guards_def demo_pl_defs IsStale_def media_msg_def empty_fields_def is_self_def
      policy_spec_find first_violation_def policy_checks_def zero_PolicyConfig_def policy_admin_def effective_def
      ConversationTypeGroup_def NewProcessingLock_def lock_held_def)
  moreover have "media_inv (media demo_media_pl)" by (simp add: demo_media_pl_def media_inv_new)
  moreover have "IsCompatible (media demo_media_pl) ?msg" "\<not> queueOn demo_media_pl" "hasOnMessage demo_media_pl"
    "mpFlushed (media demo_media_pl) = []" "bucket_of k (media demo_media_pl) = []" for k
    using demo_flags by (simp_all add: demo_media_pl_def IsCompatible_def NewMediaPipelineManager_def fillMediaBatchConfig_def
        media_msg_def empty_fields_def bucket_of_def)
  ultimately show ?thesis
    using admitted_handed_on_once [where p = demo_media_pl and clock = "\<lambda>_. 5" and protoID = "''p1''"
        and msg = ?msg and he = True and it = "[]"]
    by (simp add: media_out_def media_msg_def Let_def split: prod.splits)
qed

theorem at_most_once_witness:
  "fst (PushMessage (\<lambda>_. 90) False [] ''p9'' (sample_msg ''m1'' ''c'' ''hi'')
     (pl_run [OpMessage (\<lambda>_. 20) True [] ''p2'' (sample_msg ''m2'' ''d'' ''yo''), OpSweepSeen 30, OpLight (\<lambda>_. 40) False ''r1'' ()]
       (snd (PushMessage (\<lambda>_. 5) True [] ''p1'' (sample_msg ''m1'' ''c'' ''hi'') (demo_pl False)))))
   \<in> {Rejected Stale, Rejected Duplicate}"
  by (rule at_most_once [where k = "''m1''" and T = "{''p1'', ''p2'', ''m2'', ''r1''}"])
    (auto simp: demo_memory demo_admit demo_keys demo_cfg op_within_def)

text \<open>A batch of two messages whose callback fails, and the same batch handled.\<close>

definition demo_batch_op :: "unit pl_op" where
  "demo_batch_op = OpTask (\<lambda>_. 5) True
     (FlushTask () \<lparr>bdMessage = sample_msg ''m2'' ''c'' ''hi'', bdSourceIDs = [''m1'', ''m2'']\<rparr>)"

theorem retry_after_failure_witness:
  "fst (admit (\<lambda>_. 9) ''p2'' (sample_msg ''m1'' ''c'' ''hi'') (pl_run_op (with_result True demo_batch_op) (demo_pl True))) = None
   \<and> fst (admit (\<lambda>_. 9) ''p2'' (sample_msg ''m1'' ''c'' ''hi'') (pl_run_op (with_result False demo_batch_op) (demo_pl True)))
       \<in> {Some Stale, Some Duplicate}"
proof -
  let ?msg = "sample_msg ''m1'' ''c'' ''hi''" and ?p = "demo_pl True"
  have "handles ?p ?msg demo_batch_op" "msg_id ?msg \<noteq> []" by (simp_all add: demo_batch_op_def sample_msg_def)
  moreover have "\<not> is_self ?p ?msg \<and> Allowed (policy_spec (gateCfg (policy ?p)) (body ?msg)) \<and> \<not> IsStale (stale ?p) 9 (CreateAt (body ?msg))"
    using demo_guards [of "\<lambda>_. 9" "''p2''" "''m1''" "''c''" "''hi''" True] by (auto simp: guards_def)
  moreover have "\<not> (\<exists>k \<in> set (dedup_keys ''p2'' ?msg). k \<noteq> [] \<and> live (seen ?p) 9 k)" by (simp add: demo_pl_defs)
  moreover have "int (card (set (handled_ids demo_batch_op))) \<le> MaxEntries (scCfg (seen ?p))"
    "pl_clock demo_batch_op = (\<lambda>_. 5)" by (simp_all add: demo_batch_op_def demo_cfg)
  ultimately show ?thesis
    using retry_after_failure [where p = ?p and msg = ?msg and op = demo_batch_op and c' = "\<lambda>_. 9" and c'' = "\<lambda>_. 9"
        and protoID' = "''p2''" and protoID'' = "''p2''" and ?t0.0 = 5]
    by (simp add: demo_memory demo_cfg)
qed

section \<open>What the flags and the configuration break\<close>

text \<open>
  With \<open>MarkAfterHandler\<close> a success marks \<open>MsgID\<close> only, not the delivery id and not the content
  fingerprint the message was looked up with: a message without a \<open>MsgID\<close> is handled at every
  redelivery, under the same delivery id too. (The default mode marks all three keys.)
\<close>

lemma mark_mode_without_msg_id:
  assumes "memory_only (seen p)" and "markAfterHandler p" and "\<not> queueOn p" and "\<not> IsCompatible (media p) msg"
    and "hasOnMessage p" and "hasBatchHandler p" and "fst (admit c protoID msg p) = None" and "c 1 \<le> c' 1"
    and "\<not> IsStale (stale p) (c' 0) (CreateAt (body msg))" and "msg_id msg = []"
    and "\<not> (\<exists>k \<in> set (dedup_keys protoID msg). k \<noteq> [] \<and> live (seen p) (c' 1) k)"
  shows "fst (admit c' protoID msg (snd (PushMessage c False it protoID msg p))) = None"
proof -
  let ?q = "seen (snd (seen_query c (dedup_keys protoID msg) p))"
  let ?s = "snd (PushMessage c False it protoID msg p)"
  note frame = settle_policy_frame [OF assms(7,3-6), of False it, unfolded Let_def]
  note q = mark_mode_query [OF assms(1,2), of c _ "dedup_keys protoID msg"]
  have s: "stale ?s = stale p" "policy ?s = policy p" "is_self ?s = is_self p" "seen ?s = ?q"
    "lock ?s = Release (msg_id msg) (snd (Acquire (c 3) (msg_id msg) (lock p)))"
    using frame assms(2,10) by (simp_all add: Add_def)
  have mem: "memory_only (seen ?s)" using s(4) q(1) [of "c 1"] by simp
  have self: "\<not> is_self p msg" "Allowed (policy_spec (gateCfg (policy p)) (body msg))"
    using assms(7) by (auto simp: admit_alt Let_def split: if_splits)
  show ?thesis
    unfolding admit_guards [OF mem] using assms(8,9,11) s self q(2) [OF assms(8)]
    by (simp add: guards_def)
qed

text \<open>
  A zero \<open>StaleWindow\<close> is documented as its default, but it replaces the whole configuration: a deny
  list set next to it is lost, and so are the other settings.
\<close>

lemma zero_stale_window_discards_config:
  "StaleWindow cfg = 0 \<Longrightarrow> NewSafetyPipeline cfg opts = NewSafetyPipeline DefaultSafetyConfig opts"
  by (simp add: NewSafetyPipeline_def DefaultSafetyConfig_def)

text \<open>
  The two lookups of \<open>CheckAndMark\<close> can interleave. \<open>has_phase\<close> and \<open>add_phase\<close> are \<open>PushMessage\<close> cut
  at the point where \<open>CheckAndMark\<close> gives up the mutex; two deliveries of one message that both
  pass the first phase are both handed to the callback when the first finishes before the second
  reaches the lock.
\<close>

definition has_phase :: "clock \<Rightarrow> string \<Rightarrow> IncomingMessage \<Rightarrow> 'a SafetyPipeline \<Rightarrow> bool \<times> 'a SafetyPipeline" where
  "has_phase c proto msg p =
     (let (dup, sc) = Has no_redis (c 1) (dedup_keys proto msg) (seen p) in (dup, p\<lparr>seen := sc\<rparr>))"

definition add_phase :: "clock \<Rightarrow> bool \<Rightarrow> string \<Rightarrow> IncomingMessage \<Rightarrow> 'a SafetyPipeline \<Rightarrow> 'a SafetyPipeline" where
  "add_phase c err proto msg p =
     (let p1 = p\<lparr>seen := Add no_redis (c 2) (dedup_keys proto msg) (seen p)\<rparr>;
          (ok, l) = Acquire (c 3) (msg_id msg) (lock p1); p2 = p1\<lparr>lock := l\<rparr>
      in if is_self p msg \<or> \<not> Allowed (Evaluate (policy p) (body msg)) \<or> \<not> ok then p2
         else snd (messageFlush (\<lambda>n. c (n + 4)) err msg [msg] p2))"

lemma phases_are_the_push:
  assumes "\<not> IsStale (stale p) (c 0) (CreateAt (body msg))" and "\<not> markAfterHandler p" and "\<not> queueOn p"
    and "\<not> mbEnabled (mpCfg (media p))" and "\<not> batchMode p" and "\<not> fst (has_phase c proto msg p)"
    and "fst (admit c proto msg p) = None"
  shows "snd (PushMessage c err it proto msg p) = add_phase c err proto msg (snd (has_phase c proto msg p))"
proof -
  obtain b sc where h: "Has no_redis (c 1) (dedup_keys proto msg) (seen p) = (b, sc)" by fastforce
  with assms(6) have "\<not> b" by (simp add: has_phase_def)
  with h have cm: "CheckAndMark no_redis (c 1) (c 2) (dedup_keys proto msg) (seen p)
      = (False, Add no_redis (c 2) (dedup_keys proto msg) sc)"
    by (simp add: CheckAndMark_def)
  let ?p1 = "p\<lparr>seen := Add no_redis (c 2) (dedup_keys proto msg) sc\<rparr>"
  have bm: "batchMode (?p1\<lparr>lock := l\<rparr>) = batchMode p" for l by (simp add: batchMode_def)
  have a: "admit c proto msg p = (None, ?p1\<lparr>lock := snd (Acquire (c 3) (msg_id msg) (lock p))\<rparr>)"
    using assms(7) unfolding admit_alt using assms(1,2)
    by (auto simp: seen_query_def cm Let_def simp del: One_nat_def split: if_splits)
  have ok: "fst (Acquire (c 3) (msg_id msg) (lock p))" "\<not> is_self p msg" "Allowed (Evaluate (policy p) (body msg))"
    using assms(7) by (auto simp: admit_alt Let_def Evaluate_spec split: if_splits)
  have comp: "\<not> IsCompatible (media p) msg" using assms(4) by (simp add: IsCompatible_def)
  have self: "\<not> is_self (p\<lparr>seen := x\<rparr>) msg" for x using ok(2) by (simp add: is_self_def)
  show ?thesis
    using ok assms(3-5) comp bm self
    by (simp add: PushMessage_def a has_phase_def h add_phase_def Let_def case_prod_beta del: One_nat_def)
qed

lemma interleaved_deliveries_run_twice:
  "let c = (\<lambda>_. 5 :: time); m = sample_msg ''m1'' ''c'' ''hi''; p0 = demo_pl False;
       (dup1, p1) = has_phase c ''p1'' m p0; (dup2, p2) = has_phase c ''p1'' m p1;
       p3 = add_phase c False ''p1'' m p2; p4 = add_phase c False ''p1'' m p3
   in \<not> dup1 \<and> \<not> dup2 \<and> pl_log p4 = [LgMessage m [m], LgMessage m [m]]"
  by (simp add: has_phase_def add_phase_def demo_keys demo_pl_defs sample_msg_def empty_fields_def is_self_def
      Has_def NewSeenCache_def messageFlush_alt emit_def settle_def Release_def Acquire_def NewProcessingLock_def
      Evaluate_def isAdmin_def isDenied_def isInAllowFrom_def evaluateGroup_def zero_PolicyConfig_def
      dedup_keys_def ConversationTypeGroup_def Let_def)

end
