(* ===== verification/PipelineQueue.thy ===== *)
theory PipelineQueue
  imports Pipeline
begin

text \<open>
  The pipeline together with its per-chat queues, end to end: messages are admitted by
  \<open>PushMessage\<close>, batched by the queue of their conversation, and handed to \<open>OnBatch\<close> by the
  queue's worker. A step is one call, one step of a queue, or the end of a task in a worker; a call
  that finds the queue's mutex taken happens when it gets it. \<open>wevents\<close> records the queue events.
\<close>

record 'a pl_world =
  wp :: "'a SafetyPipeline"
  wm :: "(unit, 'a pl_task) ChatQueueManager"
  wevents :: "(string \<times> (unit, 'a pl_task) cq_event) list"

datatype 'a w_event =
    WMessage clock bool "string list" string IncomingMessage
  | WAction clock bool string string 'a "string list"
  | WLight clock bool string 'a
  | WQueue string "(unit, 'a pl_task) cq_event"
  | WFinish string clock bool
  | WPolicy PolicyConfig
  | WSweep time

inductive w_step :: "'a pl_world \<Rightarrow> 'a w_event \<Rightarrow> 'a pl_world \<Rightarrow> bool" where
  rejected: "PushMessage c err it proto msg (wp w) = (Rejected r, p')
    \<Longrightarrow> w_step w (WMessage c err it proto msg) (w\<lparr>wp := p'\<rparr>)"
| enqueued: "PushMessage c err it proto msg (wp w) = (Enqueue s e, p') \<Longrightarrow> cqm_step (wm w) (s, e) m'
    \<Longrightarrow> w_step w (WMessage c err it proto msg) (w\<lparr>wp := p', wm := m', wevents := wevents w @ [(s, e)]\<rparr>)"
| action_dropped: "PushAction c err i scope act extra (wp w) = (None, p')
    \<Longrightarrow> w_step w (WAction c err i scope act extra) (w\<lparr>wp := p'\<rparr>)"
| action_enqueued: "PushAction c err i scope act extra (wp w) = (Some (Inl (s, e)), p') \<Longrightarrow> cqm_step (wm w) (s, e) m'
    \<Longrightarrow> w_step w (WAction c err i scope act extra) (w\<lparr>wp := p', wm := m', wevents := wevents w @ [(s, e)]\<rparr>)"
| light: "w_step w (WLight c err i act) (w\<lparr>wp := PushLight c err i act (wp w)\<rparr>)"
| queue_step: "creates e = None \<Longrightarrow> e \<noteq> EvFinish \<Longrightarrow> cqm_step (wm w) (s, e) m'
    \<Longrightarrow> w_step w (WQueue s e) (w\<lparr>wm := m', wevents := wevents w @ [(s, e)]\<rparr>)"
| finish_task: "queues (wm w) s = Some q \<Longrightarrow> running q = Some t \<Longrightarrow> cqm_step (wm w) (s, EvFinish) m'
    \<Longrightarrow> w_step w (WFinish s c err)
          (w\<lparr>wp := run_task c err t (wp w), wm := m', wevents := wevents w @ [(s, EvFinish)]\<rparr>)"
| update_policy: "w_step w (WPolicy cfg) (w\<lparr>wp := pl_UpdatePolicy cfg (wp w)\<rparr>)"
| sweep_seen: "w_step w (WSweep t) (w\<lparr>wp := (wp w)\<lparr>seen := sweep t (seen (wp w))\<rparr>\<rparr>)"

inductive_cases w_stepE: "w_step w e w'"

inductive w_exec :: "'a pl_world \<Rightarrow> 'a w_event list \<Rightarrow> 'a pl_world \<Rightarrow> bool" where
  w_nil: "w_exec w [] w"
| w_snoc: "w_exec w es w' \<Longrightarrow> w_step w' e w'' \<Longrightarrow> w_exec w (es @ [e]) w''"

section \<open>Reading the log\<close>

text \<open>The messages handed to the queue of a chat, and the batches its users have been given.\<close>

fun enqueued_of :: "string \<Rightarrow> 'a pl_entry \<Rightarrow> IncomingMessage list" where
  "enqueued_of s (LgEnqueue m) = (if msg_chat m = s then [m] else [])"
| "enqueued_of s _ = []"

fun batch_of :: "string \<Rightarrow> 'a pl_entry \<Rightarrow> BatchedMessage list" where
  "batch_of s (LgBatch b) = (if msg_chat (bmMessage b) = s then [b] else [])"
| "batch_of s _ = []"

definition chat_enqueued :: "string \<Rightarrow> 'a SafetyPipeline \<Rightarrow> IncomingMessage list" where
  "chat_enqueued s p = concat (map (enqueued_of s) (pl_log p))"

definition chat_batches :: "string \<Rightarrow> 'a SafetyPipeline \<Rightarrow> BatchedMessage list" where
  "chat_batches s p = concat (map (batch_of s) (pl_log p))"

definition batch_call :: "IncomingMessage list \<Rightarrow> BatchedMessage" where
  "batch_call b = \<lparr>bmMessage = mergeBatchMessages b, bmSourceIDs = map msg_id b\<rparr>"

fun task_batch :: "(unit, 'a pl_task) cq_task \<Rightarrow> BatchedMessage list" where
  "task_batch (FlushTask h d) = [\<lparr>bmMessage = bdMessage d, bmSourceIDs = bdSourceIDs d\<rparr>]"
| "task_batch _ = []"

lemma log_append:
  "pl_log p' = pl_log p @ es \<Longrightarrow> chat_enqueued s p' = chat_enqueued s p @ concat (map (enqueued_of s) es)"
  "pl_log p' = pl_log p @ es \<Longrightarrow> chat_batches s p' = chat_batches s p @ concat (map (batch_of s) es)"
  by (simp_all add: chat_enqueued_def chat_batches_def)

section \<open>What each call writes to the log\<close>

definition queue_mode :: "'a SafetyPipeline \<Rightarrow> bool" where
  "queue_mode p \<longleftrightarrow> queueOn p \<and> hasBatchHandler p"

lemma PushMessage_queue:
  assumes "queue_mode p" and "PushMessage c err it proto msg p = (d, p')"
  shows "queue_mode p'"
    and "\<exists>es. pl_log p' = pl_log p @ es \<and> concat (map (batch_of s) es) = []
      \<and> concat (map (enqueued_of s) es) = (case d of Enqueue sc (EvPush m h) \<Rightarrow> if sc = s then [m] else [] | _ \<Rightarrow> [])"
    and "d = Enqueue sc e \<Longrightarrow> (e = EvPush msg () \<or> e = EvRun (TMessage msg)) \<and> sc = msg_chat msg"
proof -
  obtain r p1 where a: "admit c proto msg p = (r, p1)" by fastforce
  note f = admit_frame [of c proto msg p, unfolded a]
  show "queue_mode p'"
    using assms f by (auto simp: PushMessage_def a queue_mode_def emitReject_def emit_def split: option.splits if_splits)
  show "\<exists>es. pl_log p' = pl_log p @ es \<and> concat (map (batch_of s) es) = []
      \<and> concat (map (enqueued_of s) es) = (case d of Enqueue sc (EvPush m h) \<Rightarrow> if sc = s then [m] else [] | _ \<Rightarrow> [])"
    using assms f by (auto simp: PushMessage_def a queue_mode_def emitReject_def split: option.splits if_splits)
  show "d = Enqueue sc e \<Longrightarrow> (e = EvPush msg () \<or> e = EvRun (TMessage msg)) \<and> sc = msg_chat msg"
    using assms f by (auto simp: PushMessage_def a queue_mode_def split: option.splits if_splits)
qed

lemma PushAction_queue:
  assumes "queue_mode p" and "PushAction c err i scope act extra p = (d, p')"
  shows "queue_mode p'" and "pl_log p' = pl_log p"
    and "d = Some (Inl (sc, e)) \<Longrightarrow> \<exists>t. e = EvRun t"
  using assms by (auto simp: PushAction_def queue_mode_def Let_def case_prod_beta split: if_splits)

lemma PushLight_queue:
  "queue_mode p \<Longrightarrow> queue_mode (PushLight c err i act p)"
  "chat_enqueued s (PushLight c err i act p) = chat_enqueued s p"
  "chat_batches s (PushLight c err i act p) = chat_batches s p"
  by (auto simp: PushLight_def queue_mode_def chat_enqueued_def chat_batches_def Let_def case_prod_beta)

lemma run_task_queue:
  assumes "queue_mode p"
  shows "queue_mode (run_task c err t p)" and "chat_enqueued s (run_task c err t p) = chat_enqueued s p"
    and "chat_batches s (run_task c err t p) =
      chat_batches s p @ filter (\<lambda>b. msg_chat (bmMessage b) = s) (task_batch t)"
  using assms
  by (auto simp: run_task_def queue_mode_def batchFlush_alt messageFlush_alt action_runner_def chat_enqueued_def
      chat_batches_def Let_def split: cq_task.split pl_task.split)

section \<open>The invariant\<close>

definition exec_of :: "string \<Rightarrow> ('h, 'a) ChatQueueManager \<Rightarrow> ('h, 'a) cq_task list" where
  "exec_of s m = (case queues m s of None \<Rightarrow> [] | Some q \<Rightarrow> executed q)"

lemma cq_step_executed:
  "cq_step w e w' \<Longrightarrow> executed w' = executed w @ (if e = EvFinish then set_option_list (running w) else [])"
  if "\<And>x. set_option_list x = (case x of None \<Rightarrow> [] | Some t \<Rightarrow> [t])" for set_option_list
  by (elim cq_stepE) (auto simp: that enter_def chan_send_def)

lemma exec_of_step:
  assumes "cqm_step m (s, e) m'"
  shows "exec_of s' m' = exec_of s' m @
    (if s' = s \<and> e = EvFinish then
       (case queues m s of None \<Rightarrow> [] | Some q \<Rightarrow> (case running q of None \<Rightarrow> [] | Some t \<Rightarrow> [t])) else [])"
proof (cases "s' = s")
  case False
  then show ?thesis using cqm_step_other [OF assms False] by (simp add: exec_of_def)
next
  case True
  from assms show ?thesis
  proof cases
    case (creating serial m1 w w')
    then have "executed w' = executed w"
      using cq_step_executed [OF refl creating(4)] by (auto split: if_splits)
    moreover have "executed w = exec_of s m"
      using creating(3) by (auto simp: getOrCreate_def exec_of_def init_world_def Let_def split: option.splits)
    ultimately show ?thesis using True creating by (auto simp: exec_of_def)
  next
    case (existing w w')
    then show ?thesis using True cq_step_executed [OF refl existing(4)] by (simp add: exec_of_def)
  qed
qed

definition w_inv :: "BatchConfig \<Rightarrow> ChatQueueConfig option \<Rightarrow> MediaBatchConfig option \<Rightarrow> 'a pl_world \<Rightarrow> bool" where
  "w_inv cfg qcfg mcfg w \<longleftrightarrow> queue_mode (wp w)
     \<and> cqm_exec (NewChatQueueManager cfg qcfg mcfg) (wevents w) (wm w)
     \<and> (\<forall>s. map fst (pushes (scope_events s (wevents w))) = chat_enqueued s (wp w))
     \<and> (\<forall>s. chat_batches s (wp w)
            = filter (\<lambda>b. msg_chat (bmMessage b) = s) (concat (map task_batch (exec_of s (wm w)))))"

definition new_world :: "BatchConfig \<Rightarrow> ChatQueueConfig option \<Rightarrow> MediaBatchConfig option \<Rightarrow> 'a SafetyPipeline \<Rightarrow> 'a pl_world" where
  "new_world cfg qcfg mcfg p = \<lparr>wp = p, wm = NewChatQueueManager cfg qcfg mcfg, wevents = []\<rparr>"

lemma w_inv_new: "queue_mode p \<Longrightarrow> pl_log p = [] \<Longrightarrow> w_inv cfg qcfg mcfg (new_world cfg qcfg mcfg p)"
  by (simp add: w_inv_def new_world_def mexec_nil scope_events_def chat_enqueued_def chat_batches_def exec_of_def
      NewChatQueueManager_def)

text \<open>A queue event that finishes no task, together with a call that writes its push to the log.\<close>

lemma w_inv_enqueue:
  assumes inv: "w_inv cfg qcfg mcfg w" and step: "cqm_step (wm w) (s, e) m'" and e: "e \<noteq> EvFinish"
    and mode: "queue_mode p'" and batches: "\<And>s'. chat_batches s' p' = chat_batches s' (wp w)"
    and enq: "\<And>s'. chat_enqueued s' p' = chat_enqueued s' (wp w) @ (if s' = s then map fst (pushes [e]) else [])"
  shows "w_inv cfg qcfg mcfg (w\<lparr>wp := p', wm := m', wevents := wevents w @ [(s, e)]\<rparr>)"
  using inv mode mexec_step [OF _ step] exec_of_step [OF step] e
  by (auto simp: w_inv_def batches enq)

lemma w_inv_pipeline:
  assumes "w_inv cfg qcfg mcfg w" and "queue_mode p'" and "\<And>s. chat_batches s p' = chat_batches s (wp w)"
    and "\<And>s. chat_enqueued s p' = chat_enqueued s (wp w)"
  shows "w_inv cfg qcfg mcfg (w\<lparr>wp := p'\<rparr>)"
  using assms by (simp add: w_inv_def)

text \<open>Every message of a batch that a worker runs belongs to the worker's chat.\<close>

lemma merge_chat:
  "b \<noteq> [] \<Longrightarrow> (\<And>m. m \<in> set b \<Longrightarrow> msg_chat m = s) \<Longrightarrow> msg_chat (mergeBatchMessages b) = s"
  by (auto simp: mergeBatchMessages_def Let_def)

lemma chat_of_enqueued: "m \<in> set (chat_enqueued s p) \<Longrightarrow> msg_chat m = s"
proof -
  have "m \<in> set (enqueued_of s e) \<Longrightarrow> msg_chat m = s" for e :: "'a pl_entry"
    by (cases e) (auto split: if_splits)
  then show "m \<in> set (chat_enqueued s p) \<Longrightarrow> msg_chat m = s" by (auto simp: chat_enqueued_def)
qed

lemma task_in_log: "running q = Some t \<Longrightarrow> t \<in> set (task_log q)" "t \<in> set (executed q) \<Longrightarrow> t \<in> set (task_log q)"
  by (auto simp: task_log_def)

lemma flush_chat:
  assumes "w_inv cfg qcfg mcfg w" and "queues (wm w) s = Some q" and "t \<in> set (task_log q)"
  shows "task_batch t = [] \<or> (\<exists>b. task_batch t = [b] \<and> msg_chat (bmMessage b) = s)"
proof (cases t)
  case (FlushTask h d)
  have "cqm_exec (NewChatQueueManager cfg qcfg mcfg) (wevents w) (wm w)" using assms(1) by (simp add: w_inv_def)
  then have "cq_inv q (pushes (scope_events s (wevents w)))" using scope_inv(1) [OF _ assms(2)] by blast
  then obtain bs rest where b: "concat bs @ rest = pushes (scope_events s (wevents w))"
    "filter is_flush (task_log q) = map batch_task bs" "[] \<notin> set bs"
    unfolding cq_inv_def by blast
  have "t \<in> set (filter is_flush (task_log q))" using assms(3) FlushTask by simp
  then obtain x where x: "x \<in> set bs" "t = batch_task x" using b(2) by auto
  have "set x \<subseteq> set (pushes (scope_events s (wevents w)))" using x(1) unfolding b(1) [symmetric] by auto
  then have "set (map fst x) \<subseteq> set (chat_enqueued s (wp w))"
    using assms(1) by (metis (no_types, lifting) image_mono list.set_map w_inv_def)
  then have "msg_chat m = s" if "m \<in> set (map fst x)" for m
    using that chat_of_enqueued by blast
  moreover have "map fst x \<noteq> []" using x(1) b(3) by auto
  ultimately have "msg_chat (mergeBatchMessages (map fst x)) = s" using merge_chat by blast
  then show ?thesis using x(2) by (simp add: batch_task_def)
qed auto

lemma finish_chat:
  "w_inv cfg qcfg mcfg w \<Longrightarrow> queues (wm w) s = Some q \<Longrightarrow> running q = Some t
   \<Longrightarrow> task_batch t = [] \<or> (\<exists>b. task_batch t = [b] \<and> msg_chat (bmMessage b) = s)"
  using flush_chat task_in_log(1) by blast

lemma w_inv_step:
  assumes inv: "w_inv cfg qcfg mcfg w" and "w_step w e w'"
  shows "w_inv cfg qcfg mcfg w'"
  using assms(2)
proof cases
  have mode: "queue_mode (wp w)" using inv by (simp add: w_inv_def)
  {
    case (rejected c err it proto msg r p')
    have "chat_batches s p' = chat_batches s (wp w) \<and> chat_enqueued s p' = chat_enqueued s (wp w)" for s
      using PushMessage_queue(2) [OF mode rejected(3), of s] by (auto simp: log_append)
    then show ?thesis
      using rejected w_inv_pipeline [OF inv PushMessage_queue(1) [OF mode rejected(3)]] by simp
  next
    case (enqueued c err it proto msg s q p' m')
    have q: "(q = EvPush msg () \<or> q = EvRun (TMessage msg)) \<and> s = msg_chat msg"
      using PushMessage_queue(3) [OF mode enqueued(3)] by blast
    have "chat_batches s' p' = chat_batches s' (wp w) \<and>
        chat_enqueued s' p' = chat_enqueued s' (wp w) @ (if s' = s then map fst (pushes [q]) else [])" for s'
      using PushMessage_queue(2) [OF mode enqueued(3), of s'] q by (auto simp: log_append)
    then show ?thesis
      using enqueued q w_inv_enqueue [OF inv enqueued(4) _ PushMessage_queue(1) [OF mode enqueued(3)]] by auto
  next
    case (action_dropped c err i scope act extra p')
    then show ?thesis
      using w_inv_pipeline [OF inv PushAction_queue(1) [OF mode action_dropped(3)]]
        PushAction_queue(2) [OF mode action_dropped(3)] by (simp add: chat_batches_def chat_enqueued_def)
  next
    case (action_enqueued c err i scope act extra s q p' m')
    obtain t where t: "q = EvRun t" using PushAction_queue(3) [OF mode action_enqueued(3)] by blast
    then show ?thesis
      using action_enqueued w_inv_enqueue [OF inv action_enqueued(4) _ PushAction_queue(1) [OF mode action_enqueued(3)]]
        PushAction_queue(2) [OF mode action_enqueued(3)] by (simp add: chat_batches_def chat_enqueued_def)
  next
    case (light c err i act)
    then show ?thesis using w_inv_pipeline [OF inv PushLight_queue(1) [OF mode]] PushLight_queue(2,3) by metis
  next
    case (queue_step q s m')
    have "pushes [q] = []" using queue_step(3) by (cases q) auto
    then show ?thesis
      using queue_step w_inv_enqueue [OF inv queue_step(5,4) mode] by simp
  next
    case (finish_task s q t m' c err)
    have "exec_of s' m' = exec_of s' (wm w) @ (if s' = s then [t] else [])" for s'
      using exec_of_step [OF finish_task(5), of s'] finish_task(3,4) by simp
    moreover have "task_batch t = [] \<or> (\<exists>b. task_batch t = [b] \<and> msg_chat (bmMessage b) = s)"
      using finish_chat [OF inv finish_task(3,4)] .
    ultimately show ?thesis
      using finish_task inv mexec_step [OF _ finish_task(5)] run_task_queue [OF mode]
      by (auto simp: w_inv_def)
  next
    case (update_policy cfg')
    then show ?thesis using w_inv_pipeline [OF inv] mode
      by (simp add: pl_UpdatePolicy_def queue_mode_def chat_batches_def chat_enqueued_def)
  next
    case (sweep_seen t)
    then show ?thesis using w_inv_pipeline [OF inv] mode
      by (simp add: queue_mode_def chat_batches_def chat_enqueued_def)
  }
qed

lemma w_inv_exec: "w_exec w es w' \<Longrightarrow> w_inv cfg qcfg mcfg w \<Longrightarrow> w_inv cfg qcfg mcfg w'"
  by (induction rule: w_exec.induct) (auto intro: w_inv_step)

section \<open>Properties\<close>

lemma concat_task_batch:
  "concat (map task_batch ts) = concat (map task_batch (filter is_flush ts))"
proof (induction ts)
  case (Cons t ts)
  then show ?case by (cases t) auto
qed simp

lemma executed_prefix: "filter is_flush (task_log q) = filter is_flush (executed q) @ filter is_flush
    ((case running q of None \<Rightarrow> [] | Some t \<Rightarrow> [t]) @ tasks (queue q) @ sending q)"
  by (simp add: task_log_def)

lemma map_eq_append_take: "map f xs = ys @ zs \<Longrightarrow> ys = map f (take (length ys) xs)"
  by (metis append_eq_conv_conj take_map)

text \<open>
  C2. End to end, in batch mode: whatever messages, actions, timers, flushes and worker steps
  interleave, the \<open>OnBatch\<close> calls of a chat, in the order in which they are made, are the merges of
  consecutive, disjoint, non-empty groups of the messages admitted for that chat, starting with the
  first and in admission order. No admitted message is delivered twice, skipped or overtaken, no
  batch mixes two chats, and none exceeds \<open>MaxMessages\<close>.
\<close>

theorem batches_in_admission_order:
  assumes "w_exec (new_world cfg qcfg mcfg p) es w" and "queue_mode p" and "pl_log p = []"
  shows "\<exists>bs rest. concat bs @ rest = chat_enqueued s (wp w)
    \<and> chat_batches s (wp w) = map batch_call bs \<and> [] \<notin> set bs
    \<and> (\<forall>b \<in> set bs. length b = 1 \<or> int (length b) \<le> MaxMessages cfg)"
proof -
  have inv: "w_inv cfg qcfg mcfg w"
    using w_inv_exec [OF assms(1) w_inv_new [OF assms(2,3)]] .
  then have exec: "cqm_exec (NewChatQueueManager cfg qcfg mcfg) (wevents w) (wm w)"
    and enq: "map fst (pushes (scope_events s (wevents w))) = chat_enqueued s (wp w)"
    and bat: "chat_batches s (wp w) = filter (\<lambda>b. msg_chat (bmMessage b) = s) (concat (map task_batch (exec_of s (wm w))))"
    by (simp_all add: w_inv_def)
  show ?thesis
  proof (cases "queues (wm w) s")
    case None
    then show ?thesis using bat
      by (intro exI [of _ "[]"] exI [of _ "chat_enqueued s (wp w)"]) (simp add: exec_of_def)
  next
    case (Some q)
    have "cq_inv q (pushes (scope_events s (wevents w)))" and cfg: "cqBatchCfg (queue q) = cfg"
      using scope_inv [OF exec Some] by auto
    then obtain bs rest where b: "concat bs @ rest = pushes (scope_events s (wevents w))"
      "filter is_flush (task_log q) = map batch_task bs" "[] \<notin> set bs"
      "\<forall>b \<in> set bs. length b = 1 \<or> int (length b) \<le> MaxMessages cfg"
      unfolding cq_inv_def cfg by blast
    define n where "n = length (filter is_flush (executed q))"
    have ex: "filter is_flush (executed q) = map batch_task (take n bs)"
      using map_eq_append_take [OF b(2) [unfolded executed_prefix, symmetric]] by (simp add: n_def)
    let ?bs = "map (map fst) (take n bs)"
    have split: "concat bs = concat (take n bs) @ concat (drop n bs)"
      by (metis append_take_drop_id concat_append)
    have "concat ?bs @ map fst (concat (drop n bs) @ rest) = chat_enqueued s (wp w)"
      unfolding enq [symmetric] b(1) [symmetric] split by (simp add: map_concat)
    moreover have calls: "concat (map task_batch (executed q)) = map batch_call ?bs"
      unfolding concat_task_batch [of "executed q"] ex
      by (simp add: batch_task_def batch_call_def extractMessageIDs_def comp_def concat_map_singleton)
    have "filter (\<lambda>b. msg_chat (bmMessage b) = s) (concat (map task_batch (executed q))) = concat (map task_batch (executed q))"
      using flush_chat [OF inv Some] task_in_log(2) [of _ q] by (fastforce simp: filter_id_conv)
    then have "chat_batches s (wp w) = map batch_call ?bs"
      using bat Some calls by (simp add: exec_of_def)
    moreover have "[] \<notin> set ?bs" using b(3) in_set_takeD [of "[]" n bs] by auto
    moreover have "\<forall>b \<in> set ?bs. length b = 1 \<or> int (length b) \<le> MaxMessages cfg"
      using b(4) by (auto dest!: in_set_takeD)
    ultimately show ?thesis by blast
  qed
qed

text \<open>The executable form of a step, for running the model.\<close>

fun w_do :: "'a w_event \<Rightarrow> 'a pl_world \<Rightarrow> 'a pl_world option" where
  "w_do (WMessage c err it proto msg) w =
     (case PushMessage c err it proto msg (wp w) of
        (Rejected r, p') \<Rightarrow> Some (w\<lparr>wp := p'\<rparr>)
      | (Enqueue s e, p') \<Rightarrow>
          map_option (\<lambda>m'. w\<lparr>wp := p', wm := m', wevents := wevents w @ [(s, e)]\<rparr>) (cqm_do (s, e) (wm w))
      | _ \<Rightarrow> None)"
| "w_do (WQueue s e) w =
     (if creates e = None \<and> e \<noteq> EvFinish
      then map_option (\<lambda>m'. w\<lparr>wm := m', wevents := wevents w @ [(s, e)]\<rparr>) (cqm_do (s, e) (wm w)) else None)"
| "w_do (WFinish s c err) w =
     (case queues (wm w) s of
        None \<Rightarrow> None
      | Some q \<Rightarrow>
          (case running q of
             None \<Rightarrow> None
           | Some t \<Rightarrow> map_option (\<lambda>m'. w\<lparr>wp := run_task c err t (wp w), wm := m',
                                         wevents := wevents w @ [(s, EvFinish)]\<rparr>) (cqm_do (s, EvFinish) (wm w))))"
| "w_do _ w = None"

lemma w_do_step: "w_do e w = Some w' \<Longrightarrow> w_step w e w'"
  by (cases e) (auto split: prod.splits dispatch.splits option.splits if_splits
      intro: w_step.intros cqm_do_step)

fun w_run :: "'a w_event list \<Rightarrow> 'a pl_world \<Rightarrow> 'a pl_world option" where
  "w_run [] w = Some w"
| "w_run (e # es) w = (case w_do e w of None \<Rightarrow> None | Some w' \<Rightarrow> w_run es w')"

lemma w_exec_Cons: "w_exec w' es w'' \<Longrightarrow> w_step w e w' \<Longrightarrow> w_exec w (e # es) w''"
proof (induction rule: w_exec.induct)
  case (w_nil w')
  then show ?case using w_snoc [OF w_exec.w_nil] by fastforce
next
  case (w_snoc w' es w1 e' w2)
  then show ?case using w_exec.w_snoc [of w "e # es" w1 e' w2] by simp
qed

lemma w_run_exec: "w_run es w = Some w' \<Longrightarrow> w_exec w es w'"
  by (induction es arbitrary: w) (auto split: option.splits intro: w_exec_Cons w_exec.w_nil dest: w_do_step)

definition demo_queue_pl :: "unit SafetyPipeline" where
  "demo_queue_pl = NewSafetyPipeline (demo_safety False) (demo_opts\<lparr>optQueueOn := True, optHasOnBatch := None\<rparr>)"

definition demo_w_events :: "unit w_event list" where
  "demo_w_events = [WMessage (\<lambda>_. 5) False [] ''p1'' (sample_msg ''m1'' ''c'' ''hi''),
     WMessage (\<lambda>_. 6) False [] ''p2'' (sample_msg ''m2'' ''c'' ''you''), WQueue ''c'' EvSend,
     WMessage (\<lambda>_. 7) False [] ''p3'' (sample_msg ''m3'' ''c'' ''there''), WQueue ''c'' EvTake,
     WFinish ''c'' (\<lambda>_. 9) False]"

definition demo_w :: "unit pl_world" where
  "demo_w = the (w_run demo_w_events (new_world demo_batch_cfg None None demo_queue_pl))"

lemmas demo_w_simps = demo_w_events_def new_world_def demo_queue_pl_def demo_pl_defs PushMessage_def admit_def
  IsStale_def seen_query_def CheckAndMark_def Has_def Add_def addToMemory_def MoveToFront_def NewSeenCache_def
  fillDedupConfig_def is_self_def Evaluate_def isAdmin_def isDenied_def isInAllowFrom_def evaluateGroup_def
  zero_PolicyConfig_def ConversationTypeGroup_def Acquire_def NewProcessingLock_def emit_def batchMode_def
  dedup_keys_def run_task_def batchFlush_alt settle_def Release_def evict.simps DefaultDedupConfigExtended_def

lemma demo_w_run: "w_run demo_w_events (new_world demo_batch_cfg None None demo_queue_pl) = Some demo_w"
  and demo_w_batches: "map bmSourceIDs (chat_batches ''c'' (wp demo_w)) = [[''m1'', ''m2'']]"
  and demo_w_enqueued: "map msg_id (chat_enqueued ''c'' (wp demo_w)) = [''m1'', ''m2'', ''m3'']"
  by (simp_all add: demo_w_def demo_w_simps demo_run_simps chat_batches_def chat_enqueued_def
      mergeBatchMessages_def Let_def)

theorem batches_in_admission_order_witness:
  "\<exists>bs rest. concat bs @ rest = chat_enqueued ''c'' (wp demo_w)
    \<and> chat_batches ''c'' (wp demo_w) = map batch_call bs \<and> [] \<notin> set bs"
proof -
  have "queue_mode demo_queue_pl" "pl_log demo_queue_pl = []"
    by (simp_all add: demo_queue_pl_def NewSafetyPipeline_def demo_opts_def queue_mode_def Let_def)
  then show ?thesis using batches_in_admission_order [OF w_run_exec [OF demo_w_run], of "''c''"] by blast
qed

end
