(* ===== verification/Errors.thy ===== *)
theory Errors
  imports Decimal
begin

text \<open>
  The error values of the library and their classification, \<open>types/errors.go\<close> and the API error of
  \<open>card.go\<close>. A Go \<open>error\<close> is an interface value; the model has one constructor for each kind of
  error the outbound code can meet, with the methods \<open>errors.As\<close> looks for as functions on them.
\<close>

section \<open>Error values\<close>

type_synonym ErrorCode = string

definition ErrCodeTargetRevoked :: ErrorCode where "ErrCodeTargetRevoked = ''target_revoked''"
definition ErrCodePermissionDenied :: ErrorCode where "ErrCodePermissionDenied = ''permission_denied''"
definition ErrCodeFormatError :: ErrorCode where "ErrCodeFormatError = ''format_error''"
definition ErrCodeRateLimited :: ErrorCode where "ErrCodeRateLimited = ''rate_limited''"
definition ErrCodeSendTimeout :: ErrorCode where "ErrCodeSendTimeout = ''send_timeout''"
definition ErrCodeQpsLimited :: ErrorCode where "ErrCodeQpsLimited = ''qps_limited''"
definition ErrCodeSSRFBlocked :: ErrorCode where "ErrCodeSSRFBlocked = ''ssrf_blocked''"
definition ErrCodeUnknown :: ErrorCode where "ErrCodeUnknown = ''unknown''"

lemmas error_codes =
  ErrCodeTargetRevoked_def ErrCodePermissionDenied_def ErrCodeFormatError_def ErrCodeRateLimited_def
  ErrCodeSendTimeout_def ErrCodeQpsLimited_def ErrCodeSSRFBlocked_def ErrCodeUnknown_def

record apiError =
  Status :: int
  Code :: string
  Msg :: string
  Body :: string

text \<open>
  \<open>ChannelErr\<close> is \<open>*types.ChannelError\<close>, \<open>ApiErr\<close> is \<open>*apiError\<close>, \<open>PlainErr\<close> an error that is only its
  text (\<open>*channelError\<close>, \<open>errors.New\<close>, \<open>fmt.Errorf\<close> without \<open>%w\<close>), \<open>WrapErr\<close> is \<open>fmt.Errorf("...%w", err)\<close>,
  \<open>UrlErr\<close> the \<open>*url.Error\<close> of the HTTP client (its second field is the URL as \<open>%q\<close> prints it), \<open>NetErr\<close>
  any other \<open>net.Error\<close> with what its \<open>Timeout()\<close> answers, and the last two are the errors of \<open>context\<close>.
\<close>

datatype goerr =
    ChannelErr ErrorCode string "goerr option"
  | ApiErr apiError
  | PlainErr string
  | WrapErr string goerr
  | UrlErr string string goerr
  | NetErr string bool
  | DeadlineExceeded
  | Canceled

fun Error :: "goerr \<Rightarrow> string" where
  "Error (ChannelErr code msg cause) =
     ''ChannelError(code='' @ code @ ''): '' @ msg
       @ (case cause of None \<Rightarrow> [] | Some e \<Rightarrow> '' | cause: '' @ Error e)"
| "Error (ApiErr e) =
     ''dingtalk api error: http='' @ format_int (Status e) @ '' code='' @ Code e @ '' msg='' @ Msg e"
| "Error (PlainErr s) = s"
| "Error (WrapErr s e) = s @ Error e"
| "Error (UrlErr op u e) = op @ '' '' @ u @ '': '' @ Error e"
| "Error (NetErr s t) = s"
| "Error DeadlineExceeded = ''context deadline exceeded''"
| "Error Canceled = ''context canceled''"

definition isQpsLimit :: "apiError \<Rightarrow> bool" where
  "isQpsLimit e \<longleftrightarrow> Status e = 403 \<and> str_contains (Code e) ''QpsLimit''"

text \<open>The chain \<open>errors.As\<close> walks, and its four uses: the first error of the wanted kind.\<close>

fun chain :: "goerr \<Rightarrow> goerr list" where
  "chain (ChannelErr code msg cause) =
     ChannelErr code msg cause # (case cause of None \<Rightarrow> [] | Some e \<Rightarrow> chain e)"
| "chain (WrapErr s e) = WrapErr s e # chain e"
| "chain (UrlErr op u e) = UrlErr op u e # chain e"
| "chain e = [e]"

fun first_some :: "('a \<Rightarrow> 'b option) \<Rightarrow> 'a list \<Rightarrow> 'b option" where
  "first_some f [] = None"
| "first_some f (x # xs) = (case f x of None \<Rightarrow> first_some f xs | Some y \<Rightarrow> Some y)"

fun channel_error :: "goerr \<Rightarrow> goerr option" where
  "channel_error (ChannelErr code msg cause) = Some (ChannelErr code msg cause)"
| "channel_error _ = None"

fun api_error :: "goerr \<Rightarrow> apiError option" where
  "api_error (ApiErr e) = Some e"
| "api_error _ = None"

text \<open>\<open>Timeout()\<close> where the error has that method; a \<open>*url.Error\<close> asks the error directly inside it.\<close>

fun timeout_method :: "goerr \<Rightarrow> bool option" where
  "timeout_method (NetErr s t) = Some t"
| "timeout_method DeadlineExceeded = Some True"
| "timeout_method (UrlErr op u e) = Some (timeout_method e = Some True)"
| "timeout_method _ = None"

fun url_timeout :: "goerr \<Rightarrow> bool option" where
  "url_timeout (UrlErr op u e) = timeout_method (UrlErr op u e)"
| "url_timeout _ = None"

section \<open>Classification\<close>

definition classify_text :: "string \<Rightarrow> ErrorCode option" where
  "classify_text msg =
     (if str_contains msg ''status 429'' \<or> str_contains msg ''too many requests'' then Some ErrCodeRateLimited
      else if str_contains msg ''status 401'' \<or> str_contains msg ''status 403'' then Some ErrCodePermissionDenied
      else if str_contains msg ''status 400'' then Some ErrCodeFormatError
      else if str_contains msg ''status 404'' then Some ErrCodeTargetRevoked
      else None)"

definition classify_api :: "apiError \<Rightarrow> ErrorCode option" where
  "classify_api e =
     (if isQpsLimit e then Some ErrCodeQpsLimited
      else if Status e = 403 then Some ErrCodePermissionDenied
      else if Status e = 400 then Some ErrCodeFormatError
      else if Status e = 404 then Some ErrCodeTargetRevoked
      else if Status e = 429 then Some ErrCodeRateLimited
      else None)"

definition classify_timeout :: "goerr \<Rightarrow> ErrorCode" where
  "classify_timeout err =
     (let msg = to_lower (Error err) in
      if first_some url_timeout (chain err) = Some True then ErrCodeSendTimeout
      else if first_some timeout_method (chain err) = Some True then ErrCodeSendTimeout
      else if str_contains msg ''timeout'' \<or> str_contains msg ''context deadline exceeded'' then ErrCodeSendTimeout
      else ErrCodeUnknown)"

definition classifyCode :: "goerr \<Rightarrow> ErrorCode" where
  "classifyCode err =
     (case Option.bind (first_some api_error (chain err)) classify_api of
        Some code \<Rightarrow> code
      | None \<Rightarrow>
          (case classify_text (to_lower (Error err)) of
             Some code \<Rightarrow> code
           | None \<Rightarrow> classify_timeout err))"

text \<open>\<open>ClassifyError\<close> on a non-nil error; on nil the code returns nil.\<close>

definition ClassifyError :: "goerr \<Rightarrow> goerr" where
  "ClassifyError err =
     (case first_some channel_error (chain err) of
        Some ce \<Rightarrow> ce
      | None \<Rightarrow> ChannelErr (classifyCode err) (Error err) (Some err))"

fun code_of :: "goerr \<Rightarrow> ErrorCode option" where
  "code_of (ChannelErr code msg cause) = Some code"
| "code_of _ = None"

definition IsRetryable :: "goerr \<Rightarrow> bool" where
  "IsRetryable err =
     (case Option.bind (first_some channel_error (chain err)) code_of of
        Some code \<Rightarrow> code \<in> {ErrCodeRateLimited, ErrCodeQpsLimited, ErrCodeUnknown, ErrCodeSendTimeout}
      | None \<Rightarrow> True)"

definition IsReplyTargetGone :: "goerr \<Rightarrow> bool" where
  "IsReplyTargetGone err =
     (case Option.bind (first_some channel_error (chain err)) code_of of
        Some code \<Rightarrow> code = ErrCodeTargetRevoked | None \<Rightarrow> False)"

definition IsFormatError :: "goerr \<Rightarrow> bool" where
  "IsFormatError err =
     (case Option.bind (first_some channel_error (chain err)) code_of of
        Some code \<Rightarrow> code = ErrCodeFormatError | None \<Rightarrow> False)"

section \<open>What classification does\<close>

lemma channel_errorD: "channel_error e = Some ce \<Longrightarrow> \<exists>code msg cause. ce = ChannelErr code msg cause \<and> e = ce"
  by (cases e) auto

lemma first_channel_error:
  "first_some channel_error es = Some ce \<Longrightarrow> \<exists>code msg cause. ce = ChannelErr code msg cause"
  by (induction es) (auto split: option.splits dest: channel_errorD)

lemma classified_code: "\<exists>code msg cause. ClassifyError err = ChannelErr code msg cause"
  by (auto simp: ClassifyError_def dest: first_channel_error split: option.split)

lemma classify_idem: "ClassifyError (ClassifyError err) = ClassifyError err"
  using classified_code [of err] by (auto simp: ClassifyError_def)

lemma retryable_classified:
  "IsRetryable (ClassifyError err) \<longleftrightarrow>
     the (code_of (ClassifyError err)) \<in> {ErrCodeRateLimited, ErrCodeQpsLimited, ErrCodeUnknown, ErrCodeSendTimeout}"
  using classified_code [of err] by (auto simp: IsRetryable_def)

lemma target_gone_classified:
  "IsReplyTargetGone (ClassifyError err) \<longleftrightarrow> code_of (ClassifyError err) = Some ErrCodeTargetRevoked"
  using classified_code [of err] by (auto simp: IsReplyTargetGone_def)

text \<open>The code never leaves the fixed list.\<close>

lemma classifyCode_range:
  "classifyCode err \<in> {ErrCodeTargetRevoked, ErrCodePermissionDenied, ErrCodeFormatError, ErrCodeRateLimited,
     ErrCodeSendTimeout, ErrCodeQpsLimited, ErrCodeUnknown}"
  by (auto simp: classifyCode_def classify_api_def classify_text_def classify_timeout_def Let_def
      bind_eq_Some_conv split: option.splits if_splits)

lemma str_contains_set: "str_contains s p \<Longrightarrow> set p \<subseteq> set s"
proof (induction s)
  case (Cons c cs)
  have "set p \<subseteq> set (c # cs)" if "has_prefix (c # cs) p"
    using that unfolding has_prefix_iff by (metis set_append sup_ge1)
  with Cons show ?case by auto
qed simp

text \<open>Wrapping a classified error, with a message or as the cause of another wrap, keeps its class.\<close>

lemma classify_wrapped: "ClassifyError (WrapErr s (ClassifyError err)) = ClassifyError err"
  using classified_code [of err] by (auto simp: ClassifyError_def)

lemma plain_api_text:
  assumes "Code a = []" "Msg a = []" and "c \<in> set (to_lower (Error (ApiErr a)))"
  shows "c \<notin> {CHR ''u'', CHR ''x'', CHR ''y''}"
proof -
  have digits: "to_lower_char c \<notin> {CHR ''u'', CHR ''x'', CHR ''y''}" if "c \<in> set (format_int i)" for c i
    using format_int_chars [OF that]
    by (auto simp: is_digit_def to_lower_char_def Let_def split: if_splits)
  show ?thesis
    using assms(3) digits
    by (auto simp: to_lower_def assms(1,2)) (auto simp: to_lower_char_def)
qed

lemma plain_api_not_contains:
  assumes "Code a = []" "Msg a = []" and "set p \<inter> {CHR ''u'', CHR ''x'', CHR ''y''} \<noteq> {}"
  shows "\<not> str_contains (to_lower (Error (ApiErr a))) p"
  using assms plain_api_text str_contains_set by blast

section \<open>Properties\<close>

text \<open>
  How an answer of the server decides what the outbound code does next, for the errors the
  webhook path builds, which carry the HTTP status only. Status 403, 400 and 404 are the three the
  code gives up on, 404 is the one that says the reply target is gone, and every other status,
  401 and the throttling answer 403 with a QPS code in its body included, is classified by the
  status alone: the texts the second half of \<open>classifyCode\<close> looks for never occur in the error's text.
\<close>

theorem webhook_status_class:
  assumes "Code a = []" and "Msg a = []"
  shows "code_of (ClassifyError (ApiErr a)) = Some
      (if Status a = 403 then ErrCodePermissionDenied else if Status a = 400 then ErrCodeFormatError
       else if Status a = 404 then ErrCodeTargetRevoked else if Status a = 429 then ErrCodeRateLimited
       else ErrCodeUnknown)
    \<and> (IsRetryable (ClassifyError (ApiErr a)) \<longleftrightarrow> Status a \<notin> {400, 403, 404})
    \<and> (IsReplyTargetGone (ClassifyError (WrapErr s (ClassifyError (ApiErr a)))) \<longleftrightarrow> Status a = 404)"
proof -
  have "\<not> isQpsLimit a" using assms by (simp add: isQpsLimit_def)
  moreover have "classify_text (to_lower (Error (ApiErr a))) = None"
    using assms by (simp add: classify_text_def plain_api_not_contains del: Error.simps)
  moreover have "classify_timeout (ApiErr a) = ErrCodeUnknown"
    using assms by (simp add: classify_timeout_def plain_api_not_contains del: Error.simps)
  ultimately have code: "code_of (ClassifyError (ApiErr a)) = Some
      (if Status a = 403 then ErrCodePermissionDenied else if Status a = 400 then ErrCodeFormatError
       else if Status a = 404 then ErrCodeTargetRevoked else if Status a = 429 then ErrCodeRateLimited
       else ErrCodeUnknown)"
    by (simp add: ClassifyError_def classifyCode_def classify_api_def del: Error.simps)
  then show ?thesis
    by (auto simp: classify_wrapped retryable_classified target_gone_classified error_codes)
qed

definition unauthorized :: apiError where
  "unauthorized = \<lparr>Status = 401, Code = [], Msg = [], Body = ''expired''\<rparr>"

theorem webhook_status_class_witness:
  "code_of (ClassifyError (ApiErr unauthorized)) = Some ErrCodeUnknown
   \<and> IsRetryable (ClassifyError (ApiErr unauthorized))"
  using webhook_status_class [of unauthorized "[]"] by (simp add: unauthorized_def)

end
