(* ===== verification/Retry.thy ===== *)
theory Retry
  imports Errors
begin

text \<open>
  Outbound retry, \<open>internal/outbound/retry.go\<close>. The operation and the wait are state transformers: the
  operation returns its error, the wait returns the error of the context when the context was
  done before the timer, \<open>None\<close> when the timer fired.

  The delay is the exact value of \<open>base * 3^(attempt-1)\<close>; the code computes it in \<open>float64\<close>, which is
  exact below \<open>2^53\<close> nanoseconds (about 104 days), the range in which \<open>delay_exact\<close> holds.
\<close>

record RetryOptions =
  MaxAttempts :: int
  BaseDelay :: duration

definition DefaultRetryOptions :: RetryOptions where
  "DefaultRetryOptions = \<lparr>MaxAttempts = 3, BaseDelay = 500 * Millisecond\<rparr>"

definition retry_delay :: "duration \<Rightarrow> int \<Rightarrow> duration" where
  "retry_delay base attempt = base * 3 ^ nat (attempt - 1)"

definition delay_exact :: "duration \<Rightarrow> int \<Rightarrow> bool" where
  "delay_exact base attempt \<longleftrightarrow> retry_delay base attempt < 2 ^ 53"

type_synonym 's operation = "int \<Rightarrow> 's \<Rightarrow> goerr option \<times> 's"
type_synonym 's waiting = "duration \<Rightarrow> 's \<Rightarrow> goerr option \<times> 's"

text \<open>The loop from an attempt on; \<open>last_err\<close> is the variable \<open>lastErr\<close>.\<close>

function retry_loop ::
  "'s operation \<Rightarrow> 's waiting \<Rightarrow> int \<Rightarrow> duration \<Rightarrow> int \<Rightarrow> goerr option \<Rightarrow> 's \<Rightarrow> goerr option \<times> 's" where
  "retry_loop op wait limit base attempt last_err s =
     (if limit < attempt then (last_err, s)
      else
        (case op attempt s of
           (None, s') \<Rightarrow> (None, s')
         | (Some err, s') \<Rightarrow>
             let classified = ClassifyError err in
             if limit \<le> attempt \<or> \<not> IsRetryable classified then (Some classified, s')
             else
               (case wait (retry_delay base attempt) s' of
                  (Some ctx_err, s'') \<Rightarrow> (Some ctx_err, s'')
                | (None, s'') \<Rightarrow> retry_loop op wait limit base (attempt + 1) (Some classified) s'')))"
  by pat_completeness auto
termination
  by (relation "measure (\<lambda>(op, wait, limit, base, attempt, last_err, s). nat (limit + 1 - attempt))") auto

declare retry_loop.simps [simp del]

definition effective_max :: "RetryOptions \<Rightarrow> int" where
  "effective_max opts = (if MaxAttempts opts \<le> 0 then 3 else MaxAttempts opts)"

definition effective_base :: "RetryOptions \<Rightarrow> duration" where
  "effective_base opts = (if BaseDelay opts \<le> 0 then 500 * Millisecond else BaseDelay opts)"

definition given_options :: "RetryOptions option \<Rightarrow> RetryOptions" where
  "given_options opts = (case opts of None \<Rightarrow> DefaultRetryOptions | Some o' \<Rightarrow> o')"

definition Retry :: "'s operation \<Rightarrow> 's waiting \<Rightarrow> RetryOptions option \<Rightarrow> 's \<Rightarrow> goerr option \<times> 's" where
  "Retry op wait opts s =
     retry_loop op wait (effective_max (given_options opts)) (effective_base (given_options opts)) 1 None s"

section \<open>The history of a run\<close>

text \<open>An operation and a wait that write down what they did.\<close>

datatype retry_event = Attempted int "goerr option" | Waited duration "goerr option"

definition log_op :: "'s operation \<Rightarrow> (retry_event list \<times> 's) operation" where
  "log_op op attempt = (\<lambda>(l, s). let (r, s') = op attempt s in (r, l @ [Attempted attempt r], s'))"

definition log_wait :: "'s waiting \<Rightarrow> (retry_event list \<times> 's) waiting" where
  "log_wait wait d = (\<lambda>(l, s). let (r, s') = wait d s in (r, l @ [Waited d r], s'))"

definition retryable :: "goerr \<Rightarrow> bool" where
  "retryable err \<longleftrightarrow> IsRetryable (ClassifyError err)"

text \<open>The failed attempts \<open>k\<close>, \<open>k + 1\<close>, ... with the errors \<open>errs\<close>, each waited out.\<close>

fun failures :: "duration \<Rightarrow> int \<Rightarrow> goerr list \<Rightarrow> retry_event list" where
  "failures base k [] = []"
| "failures base k (e # es) = Attempted k (Some e) # Waited (retry_delay base k) None # failures base (k + 1) es"

text \<open>How a run ends at attempt \<open>n\<close>: with a success, with an error that is final, or in the wait.\<close>

inductive ending :: "int \<Rightarrow> duration \<Rightarrow> int \<Rightarrow> goerr option \<Rightarrow> retry_event list \<Rightarrow> bool"
  for limit :: int and base :: duration and n :: int where
  succeeded: "ending limit base n None [Attempted n None]"
| gave_up: "n = limit \<or> \<not> retryable e \<Longrightarrow> ending limit base n (Some (ClassifyError e)) [Attempted n (Some e)]"
| cancelled: "n < limit \<Longrightarrow> retryable e \<Longrightarrow>
    ending limit base n (Some c) [Attempted n (Some e), Waited (retry_delay base n) (Some c)]"

inductive_cases endingE: "ending limit base n res tail"

lemma ends_at_once:
  "ending limit base k res tail \<Longrightarrow> k \<le> limit \<Longrightarrow> l' = l @ tail \<Longrightarrow>
     \<exists>errs tail. l' = l @ failures base k errs @ tail \<and> list_all retryable errs
       \<and> k + int (length errs) \<le> limit \<and> ending limit base (k + int (length errs)) res tail"
  by (rule exI [of _ "[]"]) auto

lemma retry_loop_history:
  assumes "k \<le> limit" and "retry_loop (log_op op) (log_wait wait) limit base k le (l, s) = (res, l', s')"
  shows "\<exists>errs tail. l' = l @ failures base k errs @ tail \<and> list_all retryable errs
    \<and> k + int (length errs) \<le> limit \<and> ending limit base (k + int (length errs)) res tail"
  using assms
proof (induction "nat (limit - k)" arbitrary: k le l s)
  case step: (0 k le l s)
  then have k: "k = limit" by simp
  obtain r s1 where op: "op k s = (r, s1)" by fastforce
  show ?case
    using step.prems op k
    by (subst (asm) retry_loop.simps)
      (auto simp: log_op_def Let_def intro!: ends_at_once succeeded gave_up split: option.splits)
next
  case (Suc d k le l s)
  then have k: "k < limit" "d = nat (limit - (k + 1))" by simp_all
  obtain r s1 where op: "op k s = (r, s1)" by fastforce
  show ?case
  proof (cases r)
    case None
    then show ?thesis
      using Suc.prems op k
      by (subst (asm) retry_loop.simps) (auto simp: log_op_def intro!: ends_at_once succeeded)
  next
    case (Some e)
    obtain c s2 where w: "wait (retry_delay base k) s1 = (c, s2)" by fastforce
    consider (final) "\<not> retryable e" | (stop) ce where "retryable e" "c = Some ce" | (again) "retryable e" "c = None"
      by (cases c) auto
    then show ?thesis
    proof cases
      case final
      then show ?thesis
        using Suc.prems op k Some
        by (subst (asm) retry_loop.simps)
          (auto simp: log_op_def Let_def retryable_def intro!: ends_at_once gave_up)
    next
      case stop
      then show ?thesis
        using Suc.prems op k Some w
        by (subst (asm) retry_loop.simps)
          (auto simp: log_op_def log_wait_def Let_def retryable_def intro!: ends_at_once cancelled)
    next
      case again
      let ?l = "l @ [Attempted k (Some e), Waited (retry_delay base k) None]"
      have "retry_loop (log_op op) (log_wait wait) limit base (k + 1) (Some (ClassifyError e)) (?l, s2) = (res, l', s')"
        using Suc.prems op k Some w again
        by (subst (asm) retry_loop.simps) (auto simp: log_op_def log_wait_def Let_def retryable_def)
      from Suc.hyps(1) [OF k(2) _ this] k(1)
      obtain errs tail where "l' = ?l @ failures base (k + 1) errs @ tail" "list_all retryable errs"
        "k + 1 + int (length errs) \<le> limit" "ending limit base (k + 1 + int (length errs)) res tail" by auto
      then show ?thesis
        using again(1) by (intro exI [of _ "e # errs"] exI [of _ tail]) (simp add: ac_simps)
    qed
  qed
qed

lemma effective_pos: "0 < effective_max opts" "0 < effective_base opts"
  by (simp_all add: effective_max_def effective_base_def)

lemma retry_delay_mono: "0 < base \<Longrightarrow> 1 \<le> k \<Longrightarrow> retry_delay base k < retry_delay base (k + 1)"
  by (simp add: retry_delay_def nat_diff_distrib' Suc_nat_eq_nat_zadd1)

lemma default_delays_exact: "1 \<le> k \<Longrightarrow> k \<le> 15 \<Longrightarrow> delay_exact (500 * Millisecond) k"
proof -
  assume k: "1 \<le> k" "k \<le> 15"
  then have "(3 :: int) ^ nat (k - 1) \<le> 3 ^ 14" by (intro power_increasing) auto
  then show ?thesis by (simp add: delay_exact_def retry_delay_def)
qed

section \<open>Properties\<close>

text \<open>
  C27. The whole history of a retried operation. It is called with the attempts 1, 2, ... in order,
  every failed attempt before the last one was retryable and was followed by one wait of
  \<open>base * 3^(attempt-1)\<close> that ended by its timer, there are at most \<open>MaxAttempts\<close> attempts (3 when the
  option is not positive), and the run ends in exactly one of three ways: with the success of the
  last attempt and no error; with the classified error of the last attempt, which was not
  retryable or the last allowed one; or with the error of the context, which was done in a wait.
\<close>

theorem retry_history:
  assumes "Retry (log_op op) (log_wait wait) opts ([], s) = (res, h, s')"
    and "limit = effective_max (given_options opts)" and "base = effective_base (given_options opts)"
  shows "0 < base \<and> (\<exists>errs tail. h = failures base 1 errs @ tail \<and> list_all retryable errs
    \<and> int (length errs) < limit \<and> ending limit base (1 + int (length errs)) res tail)"
proof -
  have "1 \<le> limit" "0 < base"
    using effective_pos [of "given_options opts"] by (simp_all add: assms(2,3))
  moreover from retry_loop_history [OF this(1) assms(1) [unfolded Retry_def, folded assms(2,3)]]
  obtain errs tail where "h = failures base 1 errs @ tail" "list_all retryable errs"
    "1 + int (length errs) \<le> limit" "ending limit base (1 + int (length errs)) res tail" by auto
  ultimately show ?thesis by (intro conjI exI [of _ errs] exI [of _ tail]) simp_all
qed

text \<open>A flaky operation: two throttled attempts, then a success; the waits add up in the state.\<close>

definition flaky_op :: "duration operation" where
  "flaky_op attempt s = (if attempt < 3 then Some (ChannelErr ErrCodeRateLimited ''busy'' None) else None, s)"

definition timer_wait :: "duration waiting" where
  "timer_wait d s = (None, s + d)"

lemma busy_classified:
  "ClassifyError (ChannelErr ErrCodeRateLimited ''busy'' None) = ChannelErr ErrCodeRateLimited ''busy'' None"
  "IsRetryable (ChannelErr ErrCodeRateLimited ''busy'' None)"
  by (simp_all add: ClassifyError_def IsRetryable_def)

lemma flaky_run:
  "Retry (log_op flaky_op) (log_wait timer_wait) None ([], 0) =
     (None, [Attempted 1 (Some (ChannelErr ErrCodeRateLimited ''busy'' None)), Waited (500 * Millisecond) None,
             Attempted 2 (Some (ChannelErr ErrCodeRateLimited ''busy'' None)), Waited (1500 * Millisecond) None,
             Attempted 3 None], 2000 * Millisecond)"
  unfolding Retry_def
  by ((subst retry_loop.simps,
      simp add: given_options_def effective_max_def effective_base_def DefaultRetryOptions_def log_op_def
        log_wait_def flaky_op_def timer_wait_def retry_delay_def busy_classified)+)

theorem retry_history_witness:
  "0 < effective_base (given_options None)
   \<and> (\<exists>errs tail. snd (Retry (log_op flaky_op) (log_wait timer_wait) None ([], 0 :: duration))
        = (failures (effective_base (given_options None)) 1 errs @ tail, 2000 * Millisecond)
      \<and> ending 3 (effective_base (given_options None)) (1 + int (length errs)) None tail)"
proof -
  have limit: "(3 :: int) = effective_max (given_options None)"
    by (simp add: given_options_def effective_max_def DefaultRetryOptions_def)
  show ?thesis
    using retry_history [OF flaky_run limit refl] flaky_run by auto
qed

end
