(* ===== verification/Splitter.thy ===== *)
theory Splitter
  imports Utf8
begin

text \<open>
  Cutting long replies into messages: \<open>SplitWithCodeFences\<close> of \<open>internal/outbound/splitter.go\<close> for texts
  with code fences, and \<open>chunkText\<close> of \<open>reply.go\<close>, which uses it and cuts any other text by runes,
  preferably after a newline. The two regular expressions of the splitter are the predicates
  \<open>fence_match\<close> (with the captured language) and \<open>is_heading\<close>. The comparison with
  \<open>float64(limit) * 0.75\<close> is written with integers, which agrees with it below \<open>2^51\<close>. What a code block is
  in the statements is the reading of Markdown (\<open>in_block\<close>), not the splitter's own.
\<close>

section \<open>The splitter\<close>

abbreviation nl :: char where "nl \<equiv> CHR 0x0A"
abbreviation fence :: string where "fence \<equiv> ''```''"

definition word_char :: "char \<Rightarrow> bool" where
  "word_char c \<longleftrightarrow> (let n = ord c in 48 \<le> n \<and> n \<le> 57 \<or> 65 \<le> n \<and> n \<le> 90 \<or> 97 \<le> n \<and> n \<le> 122 \<or> n = 95)"

definition space_char :: "char \<Rightarrow> bool" where
  "space_char c \<longleftrightarrow> ord c \<in> {9, 10, 12, 13, 32}"

definition fence_match :: "string \<Rightarrow> string option" where
  "fence_match line = (if has_prefix line fence \<and> list_all word_char (drop 3 line) then Some (drop 3 line) else None)"

definition is_heading :: "string \<Rightarrow> bool" where
  "is_heading line =
     (let hashes = length (takeWhile (\<lambda>c. c = CHR ''#'') line)
      in 1 \<le> hashes \<and> hashes \<le> 6
         \<and> (case drop hashes line of [] \<Rightarrow> False | c # _ \<Rightarrow> space_char c))"

record splitter =
  out :: "string list"
  buf :: "string list"
  bufLen :: int
  fenceLang :: "string option"

definition flush :: "splitter \<Rightarrow> splitter" where
  "flush st =
     (if buf st = [] then st
      else
        let chunk = str_join [nl] (buf st) @ (if fenceLang st = None then [] else nl # fence);
            st' = st\<lparr>out := out st @ [chunk], buf := [], bufLen := 0\<rparr>
        in case fenceLang st of
             None \<Rightarrow> st'
           | Some lang \<Rightarrow> st'\<lparr>buf := [fence @ lang], bufLen := int (length (fence @ lang))\<rparr>)"

definition split_step :: "int \<Rightarrow> splitter \<Rightarrow> string \<Rightarrow> splitter" where
  "split_step limit st line =
     (let lineLen = int (length line) + (if buf st = [] then 0 else 1);
          nearFull = (3 * limit < 4 * bufLen st);
          st1 = (if limit < bufLen st + lineLen \<or> (is_heading line \<and> nearFull \<and> buf st \<noteq> []) then flush st else st);
          st2 = st1\<lparr>buf := buf st1 @ [line], bufLen := bufLen st1 + lineLen\<rparr>
      in case fence_match line of
           None \<Rightarrow> st2
         | Some lang \<Rightarrow> st2\<lparr>fenceLang := (if fenceLang st2 = None then Some lang else None)\<rparr>)"

definition SplitWithCodeFences :: "string \<Rightarrow> int \<Rightarrow> string list" where
  "SplitWithCodeFences text limit =
     (if limit \<le> 0 \<or> int (length text) \<le> limit then [text]
      else out (flush (foldl (split_step limit) \<lparr>out = [], buf = [], bufLen = 0, fenceLang = None\<rparr> (str_split nl text))))"

section \<open>Cutting by runes\<close>

text \<open>The loop \<open>for i := limit; i >= limit/2; i--\<close>, which looks for a newline to cut after.\<close>

fun find_cut :: "nat list \<Rightarrow> nat \<Rightarrow> nat \<Rightarrow> nat option" where
  "find_cut runes lo i =
     (if i < lo then None
      else if runes ! i = 10 then Some (i + 1)
      else (case i of 0 \<Rightarrow> None | Suc j \<Rightarrow> find_cut runes lo j))"

declare find_cut.simps [simp del]

definition cut_at :: "nat list \<Rightarrow> nat \<Rightarrow> nat" where
  "cut_at runes limit = (case find_cut runes (limit div 2) limit of None \<Rightarrow> limit | Some pos \<Rightarrow> pos)"

lemma find_cut_SomeD: "find_cut runes lo i = Some pos \<Longrightarrow> lo < pos \<and> pos \<le> i + 1 \<and> runes ! (pos - 1) = 10"
proof (induction i)
  case 0
  then show ?case by (auto simp: find_cut.simps [of runes lo 0] split: if_splits)
next
  case (Suc i)
  then show ?case by (subst (asm) (2) find_cut.simps) (auto split: if_splits)
qed

lemma cut_at_pos: "0 < limit \<Longrightarrow> 0 < cut_at runes limit"
  by (auto simp: cut_at_def dest: find_cut_SomeD split: option.split)

function chunk_runes :: "nat \<Rightarrow> nat list \<Rightarrow> nat list list" where
  "chunk_runes limit runes =
     (if runes = [] \<or> limit = 0 then []
      else if length runes \<le> limit then [runes]
      else take (cut_at runes limit) runes # chunk_runes limit (drop (cut_at runes limit) runes))"
  by pat_completeness auto
termination
  by (relation "measure (\<lambda>(limit, runes). length runes)") (auto simp: cut_at_pos)

declare chunk_runes.simps [simp del]

definition chunkText :: "string \<Rightarrow> int \<Rightarrow> string list" where
  "chunkText s limit =
     (if limit \<le> 0 \<or> int (length (decode_runes s)) \<le> limit then [s]
      else if str_contains s fence then SplitWithCodeFences s limit
      else map encode_runes (chunk_runes (nat limit) (decode_runes s)))"

section \<open>What the splitter computes\<close>

text \<open>The fence state after some lines, and a chunk for a group of lines.\<close>

definition toggle :: "string option \<Rightarrow> string \<Rightarrow> string option" where
  "toggle lang line = (case fence_match line of None \<Rightarrow> lang | Some l \<Rightarrow> if lang = None then Some l else None)"

definition fence_after :: "string option \<Rightarrow> string list \<Rightarrow> string option" where
  "fence_after lang ls = foldl toggle lang ls"

definition reopen :: "string option \<Rightarrow> string list" where
  "reopen lang = (case lang of None \<Rightarrow> [] | Some l \<Rightarrow> [fence @ l])"

definition close :: "string option \<Rightarrow> string list" where
  "close lang = (if lang = None then [] else [fence])"

text \<open>
  The specification: the lines are cut into non-empty groups; a group that starts inside a code
  block gets the opening line of the block in front, one that ends inside gets a closing line.
\<close>

fun render_groups :: "string option \<Rightarrow> string list list \<Rightarrow> string list" where
  "render_groups lang [] = []"
| "render_groups lang (g # gs) =
     str_join [nl] (reopen lang @ g @ close (fence_after lang g)) # render_groups (fence_after lang g) gs"

lemma fence_after_simps [simp]:
  "fence_after lang [] = lang"
  "fence_after lang (xs @ ys) = fence_after (fence_after lang xs) ys"
  "fence_after lang (x # xs) = fence_after (toggle lang x) xs"
  by (simp_all add: fence_after_def)

lemma render_groups_append:
  "render_groups lang (gs @ [g]) = render_groups lang gs
     @ [str_join [nl] (reopen (fence_after lang (concat gs)) @ g @ close (fence_after lang (concat gs @ g)))]"
  by (induction gs arbitrary: lang) auto

definition lang_ok :: "string option \<Rightarrow> bool" where
  "lang_ok lang \<longleftrightarrow> (case lang of None \<Rightarrow> True | Some l \<Rightarrow> list_all word_char l)"

lemma toggle_ok [simp]: "lang_ok lang \<Longrightarrow> lang_ok (toggle lang line)"
  by (auto simp: toggle_def lang_ok_def fence_match_def split: option.splits)

lemma fence_after_ok: "lang_ok lang \<Longrightarrow> lang_ok (fence_after lang ls)"
  by (induction ls arbitrary: lang) auto

lemma fence_match_fence: "list_all word_char l \<Longrightarrow> fence_match (fence @ l) = Some l"
  by (simp add: fence_match_def has_prefix_def)

lemmas fence_match_lines = fence_match_fence [simplified]

lemma fence_after_reopen: "lang_ok lang \<Longrightarrow> fence_after None (reopen lang) = lang"
  by (auto simp: reopen_def lang_ok_def toggle_def fence_match_lines split: option.split)

lemma fence_after_close: "fence_after lang (close lang) = None"
  using fence_match_lines [of "[]"] by (auto simp: close_def toggle_def)

text \<open>The length of joined lines, and the invariant of the loop.\<close>

lemma length_join: "length (str_join [c] ls) = sum_list (map length ls) + (length ls - 1)"
  by (induction "[c]" ls rule: str_join.induct) auto

lemma length_join_snoc:
  "length (str_join [c] (ls @ [l])) = length (str_join [c] ls) + length l + (if ls = [] then 0 else 1)"
  by (cases ls) (simp_all add: length_join)

definition group_fits :: "int \<Rightarrow> string option \<Rightarrow> string list \<Rightarrow> bool" where
  "group_fits limit lang g \<longleftrightarrow> length g = 1 \<or> int (length (str_join [nl] (reopen lang @ g))) \<le> limit"

fun groups_fit :: "int \<Rightarrow> string option \<Rightarrow> string list list \<Rightarrow> bool" where
  "groups_fit limit lang [] = True"
| "groups_fit limit lang (g # gs) = (group_fits limit lang g \<and> groups_fit limit (fence_after lang g) gs)"

lemma groups_fit_append:
  "groups_fit limit lang (gs @ [g]) \<longleftrightarrow>
     groups_fit limit lang gs \<and> group_fits limit (fence_after lang (concat gs)) g"
  by (induction gs arbitrary: lang) auto

definition split_inv :: "int \<Rightarrow> string list \<Rightarrow> splitter \<Rightarrow> string list list \<Rightarrow> string list \<Rightarrow> bool" where
  "split_inv limit ls st gs cur \<longleftrightarrow>
     concat gs @ cur = ls \<and> [] \<notin> set gs \<and> out st = render_groups None gs
     \<and> buf st = reopen (fence_after None (concat gs)) @ cur \<and> fenceLang st = fence_after None ls
     \<and> int (length (str_join [nl] (buf st))) \<le> bufLen st \<and> groups_fit limit None gs"

definition current_fits :: "int \<Rightarrow> splitter \<Rightarrow> string list \<Rightarrow> bool" where
  "current_fits limit st cur \<longleftrightarrow> length cur \<le> 1 \<or> bufLen st \<le> limit"

definition push :: "string \<Rightarrow> int \<Rightarrow> splitter \<Rightarrow> splitter" where
  "push line n st = st\<lparr>buf := buf st @ [line], bufLen := bufLen st + n, fenceLang := toggle (fenceLang st) line\<rparr>"

lemma split_step_push:
  "split_step limit st line =
     (let n = int (length line) + (if buf st = [] then 0 else 1)
      in if limit < bufLen st + n \<or> (is_heading line \<and> 3 * limit < 4 * bufLen st \<and> buf st \<noteq> [])
         then push line n (flush st) else push line n st)"
  by (simp add: split_step_def push_def toggle_def Let_def split: option.split)

lemma push_inv:
  assumes "split_inv limit ls st gs cur" and "int (length line) + (if buf st = [] then 0 else 1) \<le> n"
  shows "split_inv limit (ls @ [line]) (push line n st) gs (cur @ [line])"
  using assms by (auto simp: split_inv_def push_def length_join_snoc simp flip: append_assoc)

lemma joined_close:
  "ls \<noteq> [] \<Longrightarrow> str_join [nl] (ls @ close lang) = str_join [nl] ls @ (if lang = None then [] else nl # fence)"
  by (simp add: close_def join_append)

lemma flush_inv:
  assumes "split_inv limit ls st gs cur" "cur \<noteq> []" "current_fits limit st cur"
  shows "split_inv limit ls (flush st) (gs @ [cur]) []"
proof -
  let ?l = "fence_after None (concat gs)"
  have st: "buf st = reopen ?l @ cur" "fenceLang st = fence_after None (concat gs @ cur)"
    "int (length (str_join [nl] (buf st))) \<le> bufLen st"
    using assms(1) by (auto simp: split_inv_def)
  have "length cur = 1 \<or> int (length (str_join [nl] (reopen ?l @ cur))) \<le> limit"
    using assms(2,3) st by (cases cur) (auto simp: current_fits_def)
  then have "groups_fit limit None (gs @ [cur])"
    using assms(1) by (simp add: groups_fit_append group_fits_def split_inv_def)
  moreover have "str_join [nl] (buf st) @ (if fenceLang st = None then [] else nl # fence)
      = str_join [nl] (reopen ?l @ cur @ close (fenceLang st))"
    using joined_close [of "buf st" "fenceLang st"] assms(2) st(1) by simp
  ultimately show ?thesis
    using assms(1,2) st
    by (auto simp: split_inv_def flush_def Let_def render_groups_append reopen_def length_join split: option.split)
qed

lemma step_inv:
  assumes "split_inv limit ls st gs cur" "current_fits limit st cur" "cur = [] \<longrightarrow> ls = []"
  shows "\<exists>gs' cur'. split_inv limit (ls @ [line]) (split_step limit st line) gs' cur'
    \<and> current_fits limit (split_step limit st line) cur' \<and> cur' \<noteq> []"
proof -
  define n where "n = int (length line) + (if buf st = [] then 0 else 1)"
  show ?thesis
  proof (cases "(limit < bufLen st + n \<or> (is_heading line \<and> 3 * limit < 4 * bufLen st \<and> buf st \<noteq> [])) \<and> buf st \<noteq> []")
    case True
    have "cur \<noteq> []"
    proof
      assume "cur = []"
      then have "concat gs = []" "[] \<notin> set gs" "buf st = reopen (fence_after None (concat gs))"
        using assms(1,3) by (auto simp: split_inv_def)
      then have "buf st = []" by (cases gs) (simp_all add: reopen_def)
      then show False using True by simp
    qed
    from flush_inv [OF assms(1) this assms(2)]
    have "split_inv limit (ls @ [line]) (push line n (flush st)) (gs @ [cur]) ([] @ [line])"
      by (rule push_inv) (use True in \<open>simp add: n_def\<close>)
    moreover have "split_step limit st line = push line n (flush st)"
      using True by (auto simp: split_step_push n_def Let_def)
    ultimately show ?thesis
      by (intro exI [of _ "gs @ [cur]"] exI [of _ "[line]"]) (simp add: current_fits_def)
  next
    case False
    then have "split_step limit st line = push line n st \<and> (buf st \<noteq> [] \<longrightarrow> bufLen st + n \<le> limit)"
      by (auto simp: split_step_push n_def Let_def flush_def)
    moreover have "cur = []" if "buf st = []" using that assms(1) by (simp add: split_inv_def)
    moreover have "split_inv limit (ls @ [line]) (push line n st) gs (cur @ [line])"
      using assms(1) by (rule push_inv) (simp add: n_def)
    ultimately show ?thesis
      by (intro exI [of _ gs] exI [of _ "cur @ [line]"]) (auto simp: current_fits_def push_def)
  qed
qed

lemma loop_inv:
  assumes "split_inv limit ls st gs cur" "current_fits limit st cur" "cur = [] \<longrightarrow> ls = []"
  shows "\<exists>gs' cur'. split_inv limit (ls @ rest) (foldl (split_step limit) st rest) gs' cur'
    \<and> current_fits limit (foldl (split_step limit) st rest) cur' \<and> (cur' = [] \<longrightarrow> ls @ rest = [])"
  using assms
proof (induction rest arbitrary: ls st gs cur)
  case (Cons line rest)
  from step_inv [OF Cons.prems, of line] obtain gs' cur' where
    "split_inv limit (ls @ [line]) (split_step limit st line) gs' cur'"
    "current_fits limit (split_step limit st line) cur'" "cur' \<noteq> []" by blast
  from Cons.IH [OF this(1,2)] this(3) show ?case by simp
qed auto

text \<open>The result: the lines in groups, rendered.\<close>

lemma split_groups:
  assumes "0 < limit" "limit < int (length text)"
  shows "\<exists>gs. concat gs = str_split nl text \<and> [] \<notin> set gs
    \<and> SplitWithCodeFences text limit = render_groups None gs \<and> groups_fit limit None gs"
proof -
  let ?st = "\<lparr>out = [], buf = [], bufLen = 0, fenceLang = None\<rparr>" and ?ls = "str_split nl text"
  have "split_inv limit [] ?st [] []" "current_fits limit ?st []"
    by (simp_all add: split_inv_def current_fits_def reopen_def)
  from loop_inv [OF this, of ?ls] obtain gs cur where
    inv: "split_inv limit ?ls (foldl (split_step limit) ?st ?ls) gs cur"
      "current_fits limit (foldl (split_step limit) ?st ?ls) cur" "cur \<noteq> []" by auto
  from flush_inv [OF inv(1,3,2)] show ?thesis
    using assms by (auto simp: split_inv_def SplitWithCodeFences_def intro!: exI [of _ "gs @ [cur]"])
qed

text \<open>A rendered chunk splits back into its lines, and its fences are balanced.\<close>

lemma word_char_not_nl: "list_all word_char l \<Longrightarrow> nl \<notin> set l"
  by (auto simp: list_all_iff word_char_def)

lemma chunk_lines:
  assumes "lang_ok lang" "g \<noteq> []" "\<And>w. w \<in> set g \<Longrightarrow> nl \<notin> set w"
  shows "str_split nl (str_join [nl] (reopen lang @ g @ close lang')) = reopen lang @ g @ close lang'"
proof (rule split_join)
  fix w assume "w \<in> set (reopen lang @ g @ close lang')"
  then show "nl \<notin> set w"
    using assms word_char_not_nl by (auto simp: reopen_def close_def lang_ok_def split: option.splits if_splits)
qed (use assms(2) in simp)

lemma chunk_balanced:
  "lang_ok lang \<Longrightarrow> fence_after None (reopen lang @ g @ close (fence_after lang g)) = None"
  by (simp add: fence_after_reopen fence_after_close)

definition single_line_chunk :: "string list \<Rightarrow> string \<Rightarrow> bool" where
  "single_line_chunk ls c \<longleftrightarrow>
     (\<exists>lang. \<exists>line \<in> set ls. c = str_join [nl] (reopen lang @ [line] @ close (toggle lang line)))"

lemma rendered_chunk:
  assumes "c \<in> set (render_groups lang gs)" "groups_fit limit lang gs" "[] \<notin> set gs" "lang_ok lang"
    and "\<And>w. w \<in> set (concat gs) \<Longrightarrow> nl \<notin> set w"
  shows "fence_after None (str_split nl c) = None
    \<and> (int (length c) \<le> limit + 4 \<or> single_line_chunk (concat gs) c)"
  using assms
proof (induction gs arbitrary: lang)
  case (Cons g gs)
  let ?c = "str_join [nl] (reopen lang @ g @ close (fence_after lang g))"
  show ?case
  proof (cases "c = ?c")
    case True
    have "str_split nl c = reopen lang @ g @ close (fence_after lang g)"
      unfolding True using Cons.prems by (intro chunk_lines) auto
    then have "fence_after None (str_split nl c) = None" using chunk_balanced Cons.prems(4) by simp
    moreover have "int (length c) \<le> limit + 4" if "int (length (str_join [nl] (reopen lang @ g))) \<le> limit"
      using that joined_close [of "reopen lang @ g" "fence_after lang g"] Cons.prems(3) True by (auto split: if_splits)
    moreover have "single_line_chunk (concat (g # gs)) c" if "length g = 1"
      using that True by (auto simp: length_Suc_conv single_line_chunk_def)
    ultimately show ?thesis using Cons.prems(2) by (auto simp: group_fits_def)
  next
    case False
    then have "fence_after None (str_split nl c) = None
      \<and> (int (length c) \<le> limit + 4 \<or> single_line_chunk (concat gs) c)"
      using Cons.prems by (intro Cons.IH [of "fence_after lang g"]) (auto simp: fence_after_ok)
    then show ?thesis by (auto simp: single_line_chunk_def)
  qed
qed simp

section \<open>What cutting by runes computes\<close>

lemma concat_chunk_runes: "0 < limit \<Longrightarrow> concat (chunk_runes limit runes) = runes"
proof (induction limit runes rule: chunk_runes.induct)
  case (1 limit runes)
  then show ?case by (subst chunk_runes.simps) auto
qed

definition chunk_ok :: "nat \<Rightarrow> nat list \<Rightarrow> bool" where
  "chunk_ok limit rs \<longleftrightarrow> rs \<noteq> [] \<and> (length rs \<le> limit \<or> length rs = limit + 1 \<and> last rs = 10)"

lemma cut_chunk_ok:
  assumes "0 < limit" "limit < length runes"
  shows "chunk_ok limit (take (cut_at runes limit) runes)"
proof (cases "find_cut runes (limit div 2) limit")
  case None
  then show ?thesis using assms by (auto simp: chunk_ok_def cut_at_def)
next
  case (Some pos)
  with find_cut_SomeD have pos: "0 < pos" "pos \<le> limit + 1" "runes ! (pos - 1) = 10"
    by (metis not_gr_zero not_less_zero, blast, blast)
  moreover have "take pos runes \<noteq> []" "length (take pos runes) = pos" using pos assms by auto
  ultimately have "last (take pos runes) = 10" "length (take pos runes) = pos"
    by (simp_all add: last_conv_nth)
  then show ?thesis using pos assms Some by (auto simp: chunk_ok_def cut_at_def)
qed

lemma chunk_runes_ok: "0 < limit \<Longrightarrow> rs \<in> set (chunk_runes limit runes) \<Longrightarrow> chunk_ok limit rs"
proof (induction limit runes rule: chunk_runes.induct)
  case (1 limit runes)
  consider "runes = []" | "runes \<noteq> []" "length runes \<le> limit" | "limit < length runes" by fastforce
  then show ?case
  proof cases
    case 3
    then have "rs = take (cut_at runes limit) runes \<or> rs \<in> set (chunk_runes limit (drop (cut_at runes limit) runes))"
      using 1(3) chunk_runes.simps [of limit runes] 1(2) by (auto split: if_splits)
    then show ?thesis
    proof
      assume "rs \<in> set (chunk_runes limit (drop (cut_at runes limit) runes))"
      moreover have "\<not> (runes = [] \<or> limit = 0)" "\<not> length runes \<le> limit" using 3 1(2) by auto
      ultimately show ?thesis using 1(1,2) by blast
    qed (use cut_chunk_ok 1(2) 3 in simp)
  qed (use 1(2,3) chunk_runes.simps [of limit runes] in \<open>auto simp: chunk_ok_def\<close>)
qed

section \<open>Properties\<close>

text \<open>
  C28. Splitting loses nothing. The chunks of a text that has to be split are the consecutive groups
  of its lines, no group empty, each with the opening line of the code block it starts in put in
  front and a closing line put behind where it ends inside a block. Without the added lines the
  chunks are the text.
\<close>

theorem split_roundtrip:
  assumes "0 < limit" "limit < int (length text)"
  shows "\<exists>gs. SplitWithCodeFences text limit = render_groups None gs \<and> [] \<notin> set gs
    \<and> str_join [nl] (concat gs) = text"
  using split_groups [OF assms] join_split by metis

definition sample_text :: string where
  "sample_text = str_join [nl] [''intro'', ''```go'', ''a := 1'', ''b := 2'', ''```'', ''done'']"

theorem split_roundtrip_witness:
  "\<exists>gs. SplitWithCodeFences sample_text 20 = render_groups None gs \<and> [] \<notin> set gs
    \<and> str_join [nl] (concat gs) = sample_text"
  by (rule split_roundtrip) (simp_all add: sample_text_def)

text \<open>
  Code blocks the way a Markdown reader sees them, not the way the splitter looks for them: after any
  indentation, a line that starts with three backquotes opens a block whatever follows them, and inside
  a block a line of at least three backquotes and nothing else closes it.
\<close>

definition md_opens :: "string \<Rightarrow> bool" where
  "md_opens line \<longleftrightarrow> take 3 (dropWhile (\<lambda>c. c = CHR '' '') line) = ''```''"

definition md_closes :: "string \<Rightarrow> bool" where
  "md_closes line \<longleftrightarrow> md_opens line
     \<and> list_all (\<lambda>c. c = CHR '' '') (dropWhile (\<lambda>c. c = CHR ''`'') (dropWhile (\<lambda>c. c = CHR '' '') line))"

fun in_block :: "bool \<Rightarrow> string list \<Rightarrow> bool" where
  "in_block inside [] = inside"
| "in_block inside (line # ls) = in_block (if inside then \<not> md_closes line else md_opens line) ls"

text \<open>
  The fences the splitter is made for: an opening line is three backquotes and a name of letters,
  digits and underscores, perhaps empty, and inside a block a line of backquotes is a bare fence.
\<close>

definition name_chars :: string where
  "name_chars = ''abcdefghijklmnopqrstuvwxyzABCDEFGHIJKLMNOPQRSTUVWXYZ0123456789_''"

fun simple_fences :: "bool \<Rightarrow> string list \<Rightarrow> bool" where
  "simple_fences inside [] = True"
| "simple_fences inside (line # ls) =
     ((md_opens line \<longrightarrow> (if inside then line = ''```'' else \<exists>name. line = ''```'' @ name \<and> set name \<subseteq> set name_chars))
      \<and> simple_fences (if inside then \<not> md_closes line else md_opens line) ls)"

lemma name_chars_word: "set name \<subseteq> set name_chars \<Longrightarrow> list_all word_char name"
proof -
  have "list_all word_char name_chars" by (simp add: name_chars_def word_char_def)
  then show "set name \<subseteq> set name_chars \<Longrightarrow> list_all word_char name" by (auto simp: list_all_iff)
qed

lemma md_opens_fence [simp]: "md_opens (CHR ''`'' # CHR ''`'' # CHR ''`'' # name)"
  by (simp add: md_opens_def)

lemma md_closes_fence [simp]: "md_closes ''```''"
  by (simp add: md_closes_def)

lemma fence_match_opens:
  assumes "fence_match line = Some l"
  shows "md_opens line"
proof -
  have "take 3 line = ''```''" using assms by (simp add: fence_match_def has_prefix_def eval_nat_numeral split: if_splits)
  then have "line = ''```'' @ drop 3 line" using append_take_drop_id [of 3 line] by simp
  then show ?thesis using md_opens_fence [of "drop 3 line"] by simp
qed

lemma in_block_append [simp]: "in_block inside (xs @ ys) = in_block (in_block inside xs) ys"
  by (induction xs arbitrary: inside) auto

lemma simple_fences_append:
  "simple_fences inside (xs @ ys) \<longleftrightarrow> simple_fences inside xs \<and> simple_fences (in_block inside xs) ys"
  by (induction xs arbitrary: inside) auto

text \<open>On such lines the state of the splitter is that of the reader.\<close>

lemma simple_toggle:
  assumes "simple_fences (lang \<noteq> None) (line # ls)"
  shows "(if lang \<noteq> None then \<not> md_closes line else md_opens line) = (toggle lang line \<noteq> None)"
proof (cases "md_opens line")
  case False
  then have "fence_match line = None" using fence_match_opens by (cases "fence_match line") auto
  then show ?thesis using False by (simp add: toggle_def md_closes_def)
next
  case True
  show ?thesis
  proof (cases "lang = None")
    case True
    then obtain name where "line = ''```'' @ name" "set name \<subseteq> set name_chars"
      using assms \<open>md_opens line\<close> by (auto simp del: append.simps)
    then have "fence_match line = Some name" using fence_match_fence name_chars_word by simp
    then show ?thesis using True \<open>md_opens line\<close> by (simp add: toggle_def)
  next
    case False
    then have "line = ''```''" using assms True by simp
    then show ?thesis using False fence_match_fence [of "[]"] by (simp add: toggle_def)
  qed
qed

lemma simple_fence_after:
  "simple_fences (lang \<noteq> None) ls \<Longrightarrow> in_block (lang \<noteq> None) ls = (fence_after lang ls \<noteq> None)"
proof (induction ls arbitrary: lang)
  case (Cons line ls)
  note t = simple_toggle [OF Cons.prems]
  have "simple_fences (toggle lang line \<noteq> None) ls" using Cons.prems unfolding t [symmetric] by simp
  from Cons.IH [OF this] show ?case using t by simp
qed simp

lemma chunk_blocks_closed:
  assumes "simple_fences (lang \<noteq> None) g"
  shows "\<not> in_block False (reopen lang @ g @ close (fence_after lang g))"
proof -
  have "in_block False (reopen lang) = (lang \<noteq> None)" by (simp add: reopen_def split: option.split)
  then show ?thesis using simple_fence_after [OF assms] by (simp add: close_def)
qed

lemma rendered_blocks_closed:
  assumes "c \<in> set (render_groups lang gs)" "[] \<notin> set gs" "lang_ok lang"
    and "\<And>w. w \<in> set (concat gs) \<Longrightarrow> nl \<notin> set w" and "simple_fences (lang \<noteq> None) (concat gs)"
  shows "\<not> in_block False (str_split nl c)"
  using assms
proof (induction gs arbitrary: lang)
  case (Cons g gs)
  have g: "simple_fences (lang \<noteq> None) g" and gs: "simple_fences (fence_after lang g \<noteq> None) (concat gs)"
    using Cons.prems(5) simple_fence_after [of lang g] by (simp_all add: simple_fences_append)
  show ?case
  proof (cases "c = str_join [nl] (reopen lang @ g @ close (fence_after lang g))")
    case True
    have "str_split nl c = reopen lang @ g @ close (fence_after lang g)"
      unfolding True using Cons.prems by (intro chunk_lines) auto
    then show ?thesis using chunk_blocks_closed [OF g] by simp
  next
    case False
    then show ?thesis
      using Cons.prems gs by (intro Cons.IH [of "fence_after lang g"]) (auto simp: fence_after_ok)
  qed
qed simp

text \<open>
  C29. Every chunk of a text that has to be split is at most four bytes (the closing line) over the limit
  unless it holds a single line of the text. When the fences of the text are the simple ones, three
  backquotes with a name of word characters to open a block and bare to close it, every chunk is a
  complete piece of Markdown: a reader who starts outside a code block is outside one at its end.
\<close>

theorem split_chunks:
  assumes "0 < limit" "limit < int (length text)" and "c \<in> set (SplitWithCodeFences text limit)"
  shows "(simple_fences False (str_split nl text) \<longrightarrow> \<not> in_block False (str_split nl c))
    \<and> (int (length c) \<le> limit + 4 \<or> single_line_chunk (str_split nl text) c)"
proof -
  from split_groups [OF assms(1,2)] obtain gs where
    gs: "concat gs = str_split nl text" "[] \<notin> set gs" "SplitWithCodeFences text limit = render_groups None gs"
      "groups_fit limit None gs" by blast
  then show ?thesis
    using rendered_chunk [of c None gs limit] rendered_blocks_closed [of c None gs] assms(3)
    by (auto simp: lang_ok_def split_no_sep)
qed

text \<open>Without that condition it fails: a block of C++ is not seen, and its first chunk is left open.\<close>

definition cpp_text :: string where
  "cpp_text = str_join [nl] [''```c++'', ''a := 1'', ''b := 2'', ''```'', ''done'']"

lemma cpp_block_left_open:
  "hd (SplitWithCodeFences cpp_text 14) = str_join [nl] [''```c++'', ''a := 1'']
     \<and> in_block False (str_split nl (hd (SplitWithCodeFences cpp_text 14)))"
  by code_simp

lemma sample_chunks:
  "SplitWithCodeFences sample_text 20 =
     [str_join [nl] [''intro'', ''```go'', ''a := 1'', ''```''],
      str_join [nl] [''```go'', ''b := 2'', ''```''], ''done'']"
  by code_simp

lemma sample_simple: "simple_fences False (str_split nl sample_text)"
proof -
  have "\<exists>name. ''```go'' = ''```'' @ name \<and> set name \<subseteq> set name_chars" by (intro exI [of _ "''go''"]) (simp add: name_chars_def)
  moreover have "str_split nl sample_text = [''intro'', ''```go'', ''a := 1'', ''b := 2'', ''```'', ''done'']" by code_simp
  ultimately show ?thesis by (simp add: md_opens_def md_closes_def)
qed

theorem split_chunks_witness:
  "\<not> in_block False (str_split nl (str_join [nl] [''intro'', ''```go'', ''a := 1'', ''```'']))"
proof -
  let ?c = "str_join [nl] [''intro'', ''```go'', ''a := 1'', ''```'']"
  have "?c \<in> set (SplitWithCodeFences sample_text 20)" unfolding sample_chunks by (rule list.set_intros(1))
  moreover have "20 < int (length sample_text)" by (simp add: sample_text_def)
  ultimately show ?thesis
    using split_chunks [OF zero_less_numeral, THEN conjunct1, THEN mp, OF _ _ sample_simple] by blast
qed

text \<open>
  Cutting a text without code fences: the chunks of a valid UTF-8 text put together are the
  text, none is cut inside a character, none is empty, and none has more than \<open>limit\<close> characters,
  or \<open>limit + 1\<close> when the last one is a newline.
\<close>

theorem chunk_text_runes:
  assumes "list_all valid_rune rs" and "text = encode_runes rs" and "0 < limit" and "\<not> str_contains text fence"
  shows "concat (chunkText text limit) = text
    \<and> (text \<noteq> [] \<longrightarrow> (\<forall>c \<in> set (chunkText text limit). \<exists>cs. c = encode_runes cs \<and> list_all valid_rune cs \<and> chunk_ok (nat limit) cs))"
proof -
  have runes: "decode_runes text = rs" using assms(1,2) decode_encode by simp
  show ?thesis
  proof (cases "int (length rs) \<le> limit")
    case True
    then have "chunkText text limit = [text]" by (simp add: chunkText_def runes)
    moreover have "rs \<noteq> []" if "text \<noteq> []" using that assms(2) by (auto simp: encode_runes_def)
    ultimately show ?thesis using True assms by (auto simp: chunk_ok_def)
  next
    case False
    let ?cs = "chunk_runes (nat limit) rs"
    have chunks: "chunkText text limit = map encode_runes ?cs"
      using False assms(3,4) by (simp add: chunkText_def runes)
    have all: "concat ?cs = rs" using assms(3) by (simp add: concat_chunk_runes)
    have "concat (map encode_runes css) = encode_runes (concat css)" for css
      by (induction css) (simp_all add: encode_runes_def)
    then have "concat (chunkText text limit) = text" unfolding chunks using all assms(2) by simp
    moreover have "list_all valid_rune cs \<and> chunk_ok (nat limit) cs" if "cs \<in> set ?cs" for cs
    proof -
      have "set cs \<subseteq> set rs" using that by (subst all [symmetric]) auto
      then show ?thesis
        using that chunk_runes_ok [of "nat limit" cs rs] assms(1,3) by (auto simp: list_all_iff)
    qed
    ultimately show ?thesis by (auto simp: chunks)
  qed
qed

definition accented :: string where "accented = encode_runes [104, 233, 10, 108, 111]"

theorem chunk_text_runes_witness:
  "concat (chunkText accented 2) = accented \<and> chunkText accented 2 = [encode_runes [104, 233, 10], encode_runes [108, 111]]"
proof -
  have valid: "list_all valid_rune [104, 233, 10, 108, 111]" by (simp add: valid_rune_def)
  have plain: "\<not> str_contains accented fence"
    by (simp add: accented_def encode_runes_def encode_rune_def encode_valid_def valid_rune_def has_prefix_def
        char_of_def)
  have runes: "decode_runes accented = [104, 233, 10, 108, 111]"
    unfolding accented_def using valid by (rule decode_encode)
  have "cut_at [104, 233, 10, 108, 111] 2 = 3"
    by (simp add: cut_at_def find_cut.simps [of _ _ 2])
  then have "chunk_runes 2 [104, 233, 10, 108, 111] = [[104, 233, 10], [108, 111]]"
    by (simp add: chunk_runes.simps [of 2 "[104, 233, 10, 108, 111]"] chunk_runes.simps [of 2 "[108, 111]"])
  then have "chunkText accented 2 = [encode_runes [104, 233, 10], encode_runes [108, 111]]"
    by (simp add: chunkText_def runes plain)
  then show ?thesis
    using chunk_text_runes [OF valid accented_def zero_less_numeral plain] by blast
qed

end
