(* ===== verification/RateLimit.thy ===== *)
theory RateLimit
  imports Prelude Complex_Main
begin

text \<open>
  The global token bucket of the card API, \<open>ratelimit.go\<close>. The code counts tokens in \<open>float64\<close>, the
  model in exact rationals; durations are nanoseconds and are rounded towards zero as the code's
  conversions are. A call of \<open>waitFor\<close> reads the clock once per round of its loop, so its
  environment is a list of clock readings, one for each round, and possibly the end of its context.
\<close>

record tokenBucket =
  rate :: rat
  tokens :: rat
  lastRefill :: time
  backoffEnd :: time

definition defaultQPSBackoff :: duration where "defaultQPSBackoff = 2 * Second"

text \<open>The zero \<open>time.Time\<close>, the first of January of year 1.\<close>

definition zero_time :: time where "zero_time = - 62135596800 * Second"

definition newTokenBucket :: "rat \<Rightarrow> time \<Rightarrow> tokenBucket" where
  "newTokenBucket r now = \<lparr>rate = r, tokens = r, lastRefill = now, backoffEnd = zero_time\<rparr>"

definition seconds :: "duration \<Rightarrow> rat" where
  "seconds d = of_int d / of_int Second"

definition refillLocked :: "time \<Rightarrow> tokenBucket \<Rightarrow> tokenBucket" where
  "refillLocked now b =
     (let elapsed = seconds (time_sub now (lastRefill b)) in
      if 0 < elapsed
      then b\<lparr>tokens := (if rate b < tokens b + elapsed * rate b then rate b else tokens b + elapsed * rate b),
             lastRefill := now\<rparr>
      else b)"

text \<open>One round of the loop: a token, or a sleep before the next round.\<close>

datatype round = Granted tokenBucket | Sleep duration tokenBucket

definition wait_round :: "time \<Rightarrow> tokenBucket \<Rightarrow> round" where
  "wait_round now b =
     (if time_before now (backoffEnd b) then Sleep (time_sub (backoffEnd b) now) b
      else
        let b' = refillLocked now b in
        if 1 \<le> tokens b' then Granted (b'\<lparr>tokens := tokens b' - 1\<rparr>)
        else Sleep \<lfloor>(1 - tokens b') / rate b' * of_int Second\<rfloor> b')"

definition sleep_time :: "duration \<Rightarrow> duration" where
  "sleep_time d = (if d \<le> 0 then Millisecond else d)"

datatype tick = At time | Done
datatype wait_result = Got time | CtxCanceled | Waiting

fun waitFor :: "tick list \<Rightarrow> tokenBucket \<Rightarrow> wait_result \<times> tokenBucket" where
  "waitFor [] b = (Waiting, b)"
| "waitFor (Done # ts) b = (CtxCanceled, b)"
| "waitFor (At now # ts) b =
     (case wait_round now b of Granted b' \<Rightarrow> (Got now, b') | Sleep d b' \<Rightarrow> waitFor ts b')"

definition triggerBackoff :: "time \<Rightarrow> tokenBucket \<Rightarrow> tokenBucket" where
  "triggerBackoff now b =
     b\<lparr>backoffEnd := time_add now defaultQPSBackoff, tokens := 0, lastRefill := time_add now defaultQPSBackoff\<rparr>"

section \<open>Schedules of rounds\<close>

text \<open>
  All goroutines share the bucket, and each round and each backoff is one critical section: a run
  is a sequence of them. \<open>grants\<close> counts the tokens it hands out.
\<close>

datatype bucket_event = Round time | Backoff time

fun event_time :: "bucket_event \<Rightarrow> time" where
  "event_time (Round t) = t"
| "event_time (Backoff t) = t"

fun bucket_step :: "bucket_event \<Rightarrow> tokenBucket \<Rightarrow> nat \<times> tokenBucket" where
  "bucket_step (Round now) b = (case wait_round now b of Granted b' \<Rightarrow> (1, b') | Sleep d b' \<Rightarrow> (0, b'))"
| "bucket_step (Backoff now) b = (0, triggerBackoff now b)"

fun grants :: "bucket_event list \<Rightarrow> tokenBucket \<Rightarrow> nat" where
  "grants [] b = 0"
| "grants (e # es) b = (let (n, b') = bucket_step e b in n + grants es b')"

fun clock_ok :: "time \<Rightarrow> bucket_event list \<Rightarrow> bool" where
  "clock_ok t [] = True"
| "clock_ok t (e # es) = (t \<le> event_time e \<and> clock_ok (event_time e) es)"

text \<open>The tokens that would be there at time \<open>t\<close>: the potential of the bucket.\<close>

definition available :: "tokenBucket \<Rightarrow> time \<Rightarrow> rat" where
  "available b t = min (rate b) (tokens b + rate b * seconds (max 0 (time_sub t (lastRefill b))))"

definition bucket_ok :: "tokenBucket \<Rightarrow> bool" where
  "bucket_ok b \<longleftrightarrow> 0 < rate b \<and> 0 \<le> tokens b \<and> tokens b \<le> rate b"

lemma seconds_mono: "d \<le> e \<Longrightarrow> seconds d \<le> seconds e"
  by (simp add: seconds_def)

lemma seconds_add: "seconds (d + e) = seconds d + seconds e"
  by (simp add: seconds_def add_divide_distrib)

lemma seconds_pos [simp]: "0 < seconds d \<longleftrightarrow> 0 < d"
  by (simp add: seconds_def)

lemma seconds_nonneg [simp]: "0 \<le> seconds d \<longleftrightarrow> 0 \<le> d"
  by (simp add: seconds_def)

lemma refill_simps [simp]: "rate (refillLocked now b) = rate b" "backoffEnd (refillLocked now b) = backoffEnd b"
  by (simp_all add: refillLocked_def Let_def)

lemma refill_ok: "bucket_ok b \<Longrightarrow> bucket_ok (refillLocked now b)"
  by (auto simp: bucket_ok_def refillLocked_def Let_def not_less
      intro!: add_nonneg_nonneg mult_nonneg_nonneg)

lemma refill_tokens: "bucket_ok b \<Longrightarrow> tokens (refillLocked now b) = available b now"
proof -
  assume ok: "bucket_ok b"
  show ?thesis
  proof (cases "0 < time_sub now (lastRefill b)")
    case True
    then show ?thesis by (simp add: refillLocked_def available_def Let_def min_def mult.commute)
  next
    case False
    then have "max 0 (time_sub now (lastRefill b)) = 0" by simp
    then show ?thesis
      using ok False by (simp add: refillLocked_def available_def Let_def bucket_ok_def seconds_def)
  qed
qed

lemma time_sub_lipschitz: "s \<le> t \<Longrightarrow> time_sub t u \<le> time_sub s u + (t - s)"
  by (auto simp: time_sub_def)

text \<open>Time adds at most \<open>rate\<close> tokens a second; a refill does not add to what is available.\<close>

lemma available_later:
  assumes "bucket_ok b" "s \<le> t"
  shows "available b t \<le> available b s + rate b * seconds (t - s)"
proof -
  have r: "0 < rate b" using assms(1) by (simp add: bucket_ok_def)
  have "seconds (max 0 (time_sub t (lastRefill b))) \<le> seconds (max 0 (time_sub s (lastRefill b)) + (t - s))"
    using time_sub_lipschitz [OF assms(2), of "lastRefill b"] assms(2) by (intro seconds_mono) auto
  then have "rate b * seconds (max 0 (time_sub t (lastRefill b)))
      \<le> rate b * seconds (max 0 (time_sub s (lastRefill b))) + rate b * seconds (t - s)"
    using r mult_left_mono [of _ _ "rate b"] by (fastforce simp: seconds_add distrib_left)
  moreover have "0 \<le> rate b * seconds (t - s)" using r assms(2) by (simp add: seconds_def)
  ultimately show ?thesis by (auto simp: available_def min_def)
qed

lemma available_refill: "bucket_ok b \<Longrightarrow> available (refillLocked now b) now = available b now"
proof -
  assume ok: "bucket_ok b"
  have "tokens (refillLocked now b) \<le> rate b" using refill_ok [OF ok, of now] by (simp add: bucket_ok_def)
  moreover have "max 0 (time_sub now (lastRefill (refillLocked now b))) = 0"
    by (auto simp: refillLocked_def Let_def time_sub_def min_int64_def max_int64_def)
  ultimately show ?thesis
    using refill_tokens [OF ok, of now] by (simp add: available_def seconds_def)
qed

lemma step_available:
  assumes "bucket_ok b" "bucket_step e b = (n, b')"
  shows "bucket_ok b' \<and> rate b' = rate b \<and> of_nat n + available b' (event_time e) \<le> available b (event_time e)"
proof (cases e)
  case (Round now)
  let ?r = "refillLocked now b"
  note ok = refill_ok [OF assms(1), of now]
  consider "b' = b" "n = 0" | "b' = ?r" "n = 0" | "b' = ?r\<lparr>tokens := tokens ?r - 1\<rparr>" "n = 1" "1 \<le> tokens ?r"
    using assms(2) Round by (auto simp: wait_round_def Let_def split: if_splits)
  then show ?thesis
  proof cases
    case 3
    have "available b' now \<le> tokens ?r - 1"
    proof -
      have "max 0 (time_sub now (lastRefill ?r)) = 0"
        by (auto simp: refillLocked_def Let_def time_sub_def min_int64_def max_int64_def)
      then show ?thesis by (simp add: available_def 3(1) seconds_def)
    qed
    then show ?thesis
      using 3 ok refill_tokens [OF assms(1), of now] Round by (simp add: bucket_ok_def)
  qed (use assms(1) ok available_refill [OF assms(1), of now] Round in simp_all)
next
  case (Backoff now)
  then have b': "b' = triggerBackoff now b" "n = 0" using assms(2) by auto
  have "max 0 (time_sub now (time_add now defaultQPSBackoff)) = 0"
    by (simp add: time_sub_def min_int64_def max_int64_def defaultQPSBackoff_def)
  moreover have "0 \<le> available b now"
    using assms(1) by (auto simp: available_def bucket_ok_def seconds_def intro!: add_nonneg_nonneg)
  ultimately have "available b' now \<le> available b now"
    using assms(1) by (simp add: b' triggerBackoff_def available_def seconds_def bucket_ok_def)
  then show ?thesis
    using assms(1) Backoff b' by (simp add: triggerBackoff_def bucket_ok_def)
qed

lemma grants_available:
  assumes "bucket_ok b" "clock_ok t es" "\<And>e. e \<in> set es \<Longrightarrow> event_time e \<le> u" "t \<le> u"
  shows "of_nat (grants es b) \<le> available b t + rate b * seconds (u - t)"
  using assms
proof (induction es arbitrary: b t)
  case Nil
  then have "0 \<le> available b t" "0 \<le> rate b * seconds (u - t)"
    by (auto simp: available_def bucket_ok_def seconds_def intro!: add_nonneg_nonneg)
  then show ?case by simp
next
  case (Cons e es)
  obtain n b' where step: "bucket_step e b = (n, b')" by fastforce
  note s = step_available [OF Cons.prems(1) step]
  have "of_nat (grants es b') \<le> available b' (event_time e) + rate b * seconds (u - event_time e)"
    using Cons.IH [of b' "event_time e"] Cons.prems s by simp
  moreover have "available b (event_time e) \<le> available b t + rate b * seconds (event_time e - t)"
    using available_later [OF Cons.prems(1)] Cons.prems(2) by simp
  moreover have "rate b * seconds (u - t) = rate b * seconds (u - event_time e) + rate b * seconds (event_time e - t)"
    using seconds_add [of "u - event_time e" "event_time e - t"] by (simp add: distrib_left)
  ultimately show ?case using s step by simp
qed

lemma available_le_rate: "available b t \<le> rate b"
  by (simp add: available_def)

section \<open>Pauses\<close>

text \<open>A backoff empties the bucket and moves the refill to its own end.\<close>

definition paused :: "tokenBucket \<Rightarrow> bool" where
  "paused b \<longleftrightarrow> tokens b = 0 \<and> lastRefill b = backoffEnd b"

lemma paused_grants:
  assumes "bucket_ok b" "paused b" "clock_ok t es" "\<And>e. e \<in> set es \<Longrightarrow> event_time e \<le> u"
    and "backoffEnd b \<le> t + defaultQPSBackoff"
  shows "of_nat (grants es b) \<le> rate b * seconds (max 0 (u - backoffEnd b))"
  using assms
proof (induction es arbitrary: b t)
  case Nil
  then show ?case by (simp add: bucket_ok_def)
next
  case (Cons e es)
  show ?case
  proof (cases "event_time e < backoffEnd b")
    case before: True
    obtain n b' where step: "bucket_step e b = (n, b')" by fastforce
    have b': "n = 0 \<and> bucket_ok b' \<and> paused b' \<and> rate b' = rate b \<and> backoffEnd b \<le> backoffEnd b'
        \<and> backoffEnd b' \<le> event_time e + defaultQPSBackoff"
      using step before Cons.prems(1,2,3,5)
      by (cases e) (auto simp: wait_round_def triggerBackoff_def paused_def bucket_ok_def)
    then have "of_nat (grants es b') \<le> rate b' * seconds (max 0 (u - backoffEnd b'))"
      using Cons.prems by (intro Cons.IH [of b' "event_time e"]) auto
    also have "\<dots> \<le> rate b * seconds (max 0 (u - backoffEnd b))"
      using b' Cons.prems(1) by (auto simp: bucket_ok_def intro!: mult_left_mono seconds_mono)
    finally show ?thesis using step b' by simp
  next
    case False
    let ?t = "event_time e"
    have "available b (backoffEnd b) = 0"
      using Cons.prems(1,2) by (simp add: available_def paused_def bucket_ok_def time_sub_def seconds_def min_int64_def max_int64_def)
    then have "available b ?t \<le> rate b * seconds (?t - backoffEnd b)"
      using available_later [OF Cons.prems(1), of "backoffEnd b" ?t] False by simp
    moreover have "of_nat (grants (e # es) b) \<le> available b ?t + rate b * seconds (u - ?t)"
      using Cons.prems by (intro grants_available) auto
    moreover have "rate b * seconds (u - backoffEnd b) = rate b * seconds (?t - backoffEnd b) + rate b * seconds (u - ?t)"
      using seconds_add [of "?t - backoffEnd b" "u - ?t"] by (simp add: distrib_left)
    moreover have "backoffEnd b \<le> u" using False Cons.prems(4) [of e] by simp
    ultimately show ?thesis by (simp add: max_def)
  qed
qed

section \<open>A waiting goroutine\<close>

text \<open>The clock readings of one call of \<open>waitFor\<close>: every sleep lasts at least as long as asked.\<close>

fun paced :: "time list \<Rightarrow> tokenBucket \<Rightarrow> bool" where
  "paced (now # now' # ts) b =
     (case wait_round now b of
        Granted b' \<Rightarrow> True
      | Sleep d b' \<Rightarrow> now + sleep_time d \<le> now' \<and> paced (now' # ts) b')"
| "paced _ b = True"

lemma refill_last: "lastRefill b \<le> now \<Longrightarrow> lastRefill (refillLocked now b) = now"
  by (auto simp: refillLocked_def Let_def time_sub_def min_int64_def max_int64_def seconds_def)

lemma round_open:
  assumes "bucket_ok b" "backoffEnd b \<le> now" "lastRefill b \<le> now"
  shows "(1 \<le> available b now \<and> (\<exists>b'. wait_round now b = Granted b'))
    \<or> (available b now < 1 \<and> (\<exists>b'. wait_round now b = Sleep \<lfloor>(1 - available b now) / rate b * of_int Second\<rfloor> b'
         \<and> bucket_ok b' \<and> backoffEnd b' \<le> now \<and> lastRefill b' = now \<and> rate b' = rate b \<and> tokens b' = available b now))"
  using assms refill_tokens [OF assms(1), of now] refill_ok [OF assms(1), of now] refill_last [OF assms(3)]
  by (auto simp: wait_round_def Let_def)

lemma available_after_sleep:
  assumes "bucket_ok b" "1 \<le> rate b" "lastRefill b + e \<le> t" "0 \<le> e" "e \<le> Second"
  shows "1 \<le> available b t \<or> tokens b + rate b * seconds e \<le> available b t"
proof -
  have "e \<le> max 0 (time_sub t (lastRefill b))"
    using assms(3-5) by (auto simp: time_sub_def max_int64_def)
  then have "rate b * seconds e \<le> rate b * seconds (max 0 (time_sub t (lastRefill b)))"
    using assms(2) by (intro mult_left_mono seconds_mono) auto
  then have "min (rate b) (tokens b + rate b * seconds e) \<le> available b t"
    unfolding available_def by (intro min.mono) auto
  then show ?thesis using assms(2) by (auto simp: min_def split: if_splits)
qed

lemma sleep_time_ge: "d \<le> sleep_time d" "0 < sleep_time d"
  by (simp_all add: sleep_time_def)

lemma sleep_long_enough:
  assumes "1 \<le> rate b" "0 \<le> a" "a < 1"
  shows "\<lfloor>(1 - a) / rate b * of_int Second\<rfloor> \<le> Second"
    and "0 \<le> \<lfloor>(1 - a) / rate b * of_int Second\<rfloor>"
    and "1 - a < rate b * seconds (\<lfloor>(1 - a) / rate b * of_int Second\<rfloor> + 1)"
proof -
  let ?x = "(1 - a) / rate b * of_int Second"
  have "(1 - a) / rate b \<le> 1" "0 \<le> (1 - a) / rate b" using assms by (simp_all add: field_simps)
  then have "?x \<le> 1 * of_int Second" "0 \<le> ?x" by (intro mult_right_mono mult_nonneg_nonneg; simp)+
  then show "\<lfloor>?x\<rfloor> \<le> Second" "0 \<le> \<lfloor>?x\<rfloor>" by (simp_all add: floor_le_iff)
  have "?x < of_int (\<lfloor>?x\<rfloor> + 1)" using floor_correct [of ?x] by blast
  then show "1 - a < rate b * seconds (\<lfloor>?x\<rfloor> + 1)"
    using assms(1) by (simp add: seconds_def field_simps)
qed

text \<open>A lone waiter gets its token in the fourth round at the latest.\<close>

lemma served_from_open:
  assumes "bucket_ok b" "1 \<le> rate b" "backoffEnd b \<le> t1" "lastRefill b \<le> t1" "paced [t1, t2, t3] b"
  shows "\<exists>t b'. waitFor [At t1, At t2, At t3] b = (Got t, b')"
proof (cases "\<exists>b'. wait_round t1 b = Granted b'")
  case False
  let ?d = "\<lfloor>(1 - available b t1) / rate b * of_int Second\<rfloor>"
  from False round_open [OF assms(1,3,4)] obtain b1 where
    b1: "wait_round t1 b = Sleep ?d b1" "bucket_ok b1" "backoffEnd b1 \<le> t1" "lastRefill b1 = t1" "rate b1 = rate b"
      "tokens b1 = available b t1" "available b t1 < 1" by auto
  have nonneg: "0 \<le> available b t1"
    using assms(1,2) by (auto simp: available_def bucket_ok_def intro!: add_nonneg_nonneg mult_nonneg_nonneg)
  note d = sleep_long_enough [OF assms(2) nonneg b1(7)]
  have t2: "t1 + sleep_time ?d \<le> t2" and p2: "paced [t2, t3] b1" using assms(5) b1(1) by auto
  then have later: "t1 + ?d \<le> t2" "t1 \<le> t2" using sleep_time_ge [of ?d] d(2) by linarith+
  show ?thesis
  proof (cases "\<exists>b'. wait_round t2 b1 = Granted b'")
    case False
    let ?d' = "\<lfloor>(1 - available b1 t2) / rate b1 * of_int Second\<rfloor>"
    from False round_open [OF b1(2), of t2] b1(3,4) later obtain b2 where
      b2: "wait_round t2 b1 = Sleep ?d' b2" "bucket_ok b2" "backoffEnd b2 \<le> t2" "lastRefill b2 = t2" "rate b2 = rate b1"
        "tokens b2 = available b1 t2" "available b1 t2 < 1" by auto
    have "tokens b1 + rate b1 * seconds ?d \<le> available b1 t2"
      using available_after_sleep [of b1 ?d t2] b1(2,4,5) b2(7) assms(2) later(1) d(1,2) by auto
    moreover have "seconds (?d + 1) = seconds ?d + seconds 1" by (rule seconds_add)
    ultimately have short: "1 - available b1 t2 < rate b * seconds 1"
      using d(3) b1(5,6) by (simp add: distrib_left)
    have "t2 + sleep_time ?d' \<le> t3" using p2 b2(1) by simp
    moreover have "Millisecond \<le> sleep_time ?d'"
    proof -
      have "(1 - available b1 t2) / rate b * of_int Second < 1"
        using short assms(2) by (simp add: seconds_def field_simps)
      then have "?d' \<le> 0" by (simp add: b1(5) floor_le_iff)
      then show ?thesis by (simp add: sleep_time_def)
    qed
    ultimately have t3: "t2 + Millisecond \<le> t3" by linarith
    have "1 \<le> available b2 t3"
    proof (rule ccontr)
      assume low: "\<not> 1 \<le> available b2 t3"
      then have "tokens b2 + rate b * seconds Millisecond \<le> available b2 t3"
        using available_after_sleep [of b2 Millisecond t3] b2(2,4,5) b1(5) assms(2) t3 by auto
      moreover have "rate b * seconds 1 \<le> rate b * seconds Millisecond"
        using assms(2) by (intro mult_left_mono seconds_mono) auto
      ultimately show False using short low b2(6) by linarith
    qed
    with round_open [OF b2(2), of t3] b2(3,4) t3 obtain b3 where "wait_round t3 b2 = Granted b3" by fastforce
    then show ?thesis by (simp add: b1(1) b2(1))
  qed (auto simp: b1(1))
qed auto

lemma slow_bucket_round: "bucket_ok b \<Longrightarrow> rate b < 1 \<Longrightarrow> fst (bucket_step e b) = 0"
proof (cases e)
  case (Round now)
  assume "bucket_ok b" "rate b < 1"
  then have "tokens (refillLocked now b) < 1"
    using refill_tokens available_le_rate by (metis order_le_less_trans)
  then show ?thesis by (simp add: Round wait_round_def Let_def)
qed simp

lemma slow_bucket_starves: "bucket_ok b \<Longrightarrow> rate b < 1 \<Longrightarrow> grants es b = 0"
proof (induction es arbitrary: b)
  case (Cons e es)
  obtain n b' where step: "bucket_step e b = (n, b')" by fastforce
  then show ?case
    using Cons slow_bucket_round [OF Cons.prems, of e] step_available [OF Cons.prems(1) step] by simp
qed simp

section \<open>Properties\<close>

text \<open>
  C32. The rate. In any interleaving of rounds and backoffs of any number of goroutines, over any
  stretch of time, the bucket hands out at most one burst of \<open>rate\<close> tokens and \<open>rate\<close> tokens for each
  second; after a backoff it hands out nothing for two seconds and then, without a burst, at most
  \<open>rate\<close> tokens for each further second, whatever backoffs follow.
\<close>

theorem bucket_rate:
  assumes "bucket_ok b" and "clock_ok t es" and "\<And>e. e \<in> set es \<Longrightarrow> event_time e \<le> u" and "t \<le> u"
  shows "of_nat (grants es b) \<le> rate b + rate b * seconds (u - t)
    \<and> of_nat (grants (Backoff t # es) b) \<le> rate b * seconds (max 0 (u - (t + defaultQPSBackoff)))"
proof
  show "of_nat (grants es b) \<le> rate b + rate b * seconds (u - t)"
    using grants_available [OF assms] available_le_rate [of b t] by linarith
  have "bucket_ok (triggerBackoff t b)" "paused (triggerBackoff t b)"
    using assms(1) by (simp_all add: bucket_ok_def paused_def triggerBackoff_def)
  from paused_grants [OF this assms(2,3)]
  show "of_nat (grants (Backoff t # es) b) \<le> rate b * seconds (max 0 (u - (t + defaultQPSBackoff)))"
    by (simp add: triggerBackoff_def)
qed

lemma new_bucket_ok: "0 < r \<Longrightarrow> bucket_ok (newTokenBucket r now)"
  by (simp add: bucket_ok_def newTokenBucket_def)

theorem bucket_rate_witness:
  "of_nat (grants [Round 0, Round (3 * Second)] (newTokenBucket 20 0)) \<le> (80 :: rat)
   \<and> of_nat (grants [Backoff 0, Round 0, Round (3 * Second)] (newTokenBucket 20 0)) \<le> (20 :: rat)"
proof -
  have r: "rate (newTokenBucket 20 0) = 20" by (simp add: newTokenBucket_def)
  have "e \<in> set [Round 0, Round (3 * Second)] \<Longrightarrow> event_time e \<le> 3 * Second" for e by auto
  from bucket_rate [OF new_bucket_ok [of 20 0], of 0 "[Round 0, Round (3 * Second)]", OF _ _ this]
  show ?thesis by (simp add: r seconds_def defaultQPSBackoff_def del: grants.simps)
qed

text \<open>
  C33. Service. A goroutine that waits alone gets its token in the fourth round of the loop at the
  latest: after the pause of a backoff, the computed sleep, and a millisecond for the rounding of
  that sleep. This needs a rate of at least one token a second: below that the cap of the bucket
  is under one token, and no round ever hands one out.
\<close>

theorem bucket_serves:
  assumes "bucket_ok b" and "backoffEnd b \<le> t1 + defaultQPSBackoff" and "lastRefill b \<le> max t1 (backoffEnd b)"
    and "paced [t1, t2, t3, t4] b"
  shows "(1 \<le> rate b \<longrightarrow> (\<exists>t b'. waitFor [At t1, At t2, At t3, At t4] b = (Got t, b')))
    \<and> (rate b < 1 \<longrightarrow> grants es b = 0)"
proof (intro conjI impI)
  show "grants es b = 0" if "rate b < 1" using slow_bucket_starves [OF assms(1) that] .
  assume rate: "1 \<le> rate b"
  show "\<exists>t b'. waitFor [At t1, At t2, At t3, At t4] b = (Got t, b')"
  proof (cases "t1 < backoffEnd b")
    case True
    then have sub: "time_sub (backoffEnd b) t1 = backoffEnd b - t1"
      using assms(2) by (simp add: time_sub_def defaultQPSBackoff_def min_int64_def max_int64_def)
    with True have w1: "wait_round t1 b = Sleep (backoffEnd b - t1) b" by (simp add: wait_round_def)
    then have t2: "backoffEnd b \<le> t2" "paced [t2, t3, t4] b"
      using assms(4) True by (simp_all add: sleep_time_def)
    then have "lastRefill b \<le> t2" using assms(3) True by simp
    from served_from_open [OF assms(1) rate t2(1) this t2(2)] show ?thesis
      by (simp add: w1)
  next
    case False
    have "paced [t1, t2, t3] b" using assms(4) by (auto split: round.splits)
    from served_from_open [OF assms(1) rate _ _ this] assms(3) False
    obtain t b' where "waitFor [At t1, At t2, At t3] b = (Got t, b')" by fastforce
    then show ?thesis by (auto split: round.splits)
  qed
qed

theorem bucket_serves_witness:
  "(\<exists>t b'. waitFor [At 0, At 1, At 2, At 3] (newTokenBucket 20 0) = (Got t, b'))
   \<and> grants [Round 0, Round Second, Round Hour] (newTokenBucket (1 / 2) 0) = 0"
proof
  show "\<exists>t b'. waitFor [At 0, At 1, At 2, At 3] (newTokenBucket 20 0) = (Got t, b')"
    using bucket_serves [OF new_bucket_ok [of 20 0], of 0 1 2 3]
    by (simp add: newTokenBucket_def zero_time_def defaultQPSBackoff_def wait_round_def refillLocked_def
        time_sub_def seconds_def max_int64_def min_int64_def)
  show "grants [Round 0, Round Second, Round Hour] (newTokenBucket (1 / 2) 0) = 0"
    using bucket_serves [OF new_bucket_ok [of "1 / 2" 0], of 0 "60 * Second" "120 * Second" "180 * Second"
        "[Round 0, Round Second, Round Hour]"]
    by (simp add: newTokenBucket_def zero_time_def defaultQPSBackoff_def wait_round_def refillLocked_def Let_def
        time_sub_def seconds_def max_int64_def min_int64_def sleep_time_def)
qed

end
