(* ===== verification/Http.thy ===== *)
theory Http
  imports Errors Utf8
begin

text \<open>
  What the outbound code uses of Go's standard library: \<open>encoding/json\<close> for request bodies (strings,
  numbers, booleans, lists and objects, with the HTML-safe escaping of \<open>json.Marshal\<close>), the query
  encoding of \<open>net/url\<close>, and the HTTP client. The network is not modelled: an HTTP client is a function
  from a request and a world to an error or a response and the next world, and the clock is read
  from the world. A response carries what \<open>json.Unmarshal\<close> makes of its body for the struct the caller
  passes; the reading of JSON itself is in \<open>Json\<close> and \<open>Unmarshal\<close>.
\<close>

section \<open>JSON output\<close>

datatype json =
    JNull
  | JStr string
  | JInt int
  | JBool bool
  | JArr "json list"
  | JObj "(string \<times> json) list"

abbreviation quote_char :: char where "quote_char \<equiv> CHR 0x22"
abbreviation backslash :: char where "backslash \<equiv> CHR 0x5C"

definition hex_lower :: "nat \<Rightarrow> char" where
  "hex_lower n = (if n < 10 then char_of (48 + n) else char_of (87 + n))"

definition u_escape :: "nat \<Rightarrow> string" where
  "u_escape r = [backslash, CHR ''u'', hex_lower (r div 4096 mod 16), hex_lower (r div 256 mod 16),
                 hex_lower (r div 16 mod 16), hex_lower (r mod 16)]"

definition json_rune :: "nat \<Rightarrow> string" where
  "json_rune r =
     (if r = 0x22 \<or> r = 0x5C then [backslash, char_of r]
      else if r = 8 then [backslash, CHR ''b'']
      else if r = 12 then [backslash, CHR ''f'']
      else if r = 10 then [backslash, CHR ''n'']
      else if r = 13 then [backslash, CHR ''r'']
      else if r = 9 then [backslash, CHR ''t'']
      else if r < 0x20 \<or> r = 0x3C \<or> r = 0x3E \<or> r = 0x26 \<or> r = 0x2028 \<or> r = 0x2029 then u_escape r
      else encode_rune r)"

text \<open>An invalid byte of the string is printed as the escape of U+FFFD.\<close>

function json_chars :: "string \<Rightarrow> string" where
  "json_chars [] = []"
| "json_chars (c # cs) =
     (let (r, n) = decode_rune c cs
      in (if r = RuneError \<and> n = 1 then u_escape RuneError else json_rune r) @ json_chars (drop n (c # cs)))"
  by pat_completeness auto
termination
proof (relation "measure length", goal_cases)
  case (2 c cs)
  then show ?case using decode_rune_size [of c cs] by (cases "decode_rune c cs") auto
qed simp

definition json_string :: "string \<Rightarrow> string" where
  "json_string s = quote_char # json_chars s @ [quote_char]"

fun marshal :: "json \<Rightarrow> string" where
  "marshal JNull = ''null''"
| "marshal (JStr s) = json_string s"
| "marshal (JInt i) = format_int i"
| "marshal (JBool b) = (if b then ''true'' else ''false'')"
| "marshal (JArr js) = ''['' @ str_join '','' (map marshal js) @ '']''"
| "marshal (JObj kvs) = ''{'' @ str_join '','' (map (\<lambda>(k, v). json_string k @ '':'' @ marshal v) kvs) @ ''}''"

text \<open>
  A Go map is printed with its keys in ascending order; the model writes the literal maps of the
  code in that order. \<open>string_map\<close> is the \<open>map[string]string\<close> of the message parameters, kept as a
  list of fields with distinct keys in that order.
\<close>

type_synonym string_map = "(string \<times> string) list"

definition map_json :: "string_map \<Rightarrow> json" where
  "map_json m = JObj (map (\<lambda>(k, v). (k, JStr v)) m)"

section \<open>Query encoding\<close>

definition unreserved :: "char \<Rightarrow> bool" where
  "unreserved c \<longleftrightarrow> (let n = ord c in 48 \<le> n \<and> n \<le> 57 \<or> 65 \<le> n \<and> n \<le> 90 \<or> 97 \<le> n \<and> n \<le> 122
     \<or> n \<in> {45, 46, 95, 126})"

definition hex_upper :: "nat \<Rightarrow> char" where
  "hex_upper n = (if n < 10 then char_of (48 + n) else char_of (55 + n))"

definition QueryEscape :: "string \<Rightarrow> string" where
  "QueryEscape s = concat (map (\<lambda>c.
     if unreserved c then [c]
     else if c = CHR '' '' then ''+''
     else [CHR ''%'', hex_upper (ord c div 16), hex_upper (ord c mod 16)]) s)"

text \<open>\<open>url.Values.Encode\<close> on values given in the order of their keys.\<close>

definition query_encode :: "(string \<times> string) list \<Rightarrow> string" where
  "query_encode kvs = str_join ''&'' (map (\<lambda>(k, v). QueryEscape k @ ''='' @ QueryEscape v) kvs)"

section \<open>The HTTP client\<close>

record request =
  req_method :: string
  req_url :: string
  req_headers :: "(string \<times> string) list"
  req_body :: string

record 'a response =
  resp_status :: int
  resp_raw :: string
  resp_json :: "goerr + 'a"

type_synonym ('w, 'a) http_client = "request \<Rightarrow> 'w \<Rightarrow> (goerr + 'a response) \<times> 'w"

text \<open>A Go duration of so many seconds, \<open>time.Duration(n) * time.Second\<close>.\<close>

definition duration_seconds :: "int \<Rightarrow> duration" where
  "duration_seconds n = wrap64 (wrap64 n * Second)"

lemma duration_seconds_id: "0 \<le> n \<Longrightarrow> n \<le> 9223372036 \<Longrightarrow> duration_seconds n = n * Second"
  by (simp add: duration_seconds_def wrap64_id int64_ok_def min_int64_def max_int64_def)

end
