(* ===== verification/Lifecycle.thy ===== *)
theory Lifecycle
  imports Errors
begin

text \<open>
  Lifecycle hooks, \<open>lifecycle.go\<close>: five lists of callbacks, each called in the order of registration.
  A callback is a function on the world. The read-write mutex is not modelled: registering and firing
  are atomic on the list, and a callback that registers another one from inside blocks in the code.
\<close>

record 'w LifecycleHooks =
  onReady :: "('w \<Rightarrow> 'w) list"
  onError :: "(goerr \<Rightarrow> 'w \<Rightarrow> 'w) list"
  onReconnecting :: "('w \<Rightarrow> 'w) list"
  onReconnected :: "('w \<Rightarrow> 'w) list"
  onDisconnected :: "('w \<Rightarrow> 'w) list"

definition newLifecycleHooks :: "'w LifecycleHooks" where
  "newLifecycleHooks = \<lparr>onReady = [], onError = [], onReconnecting = [], onReconnected = [], onDisconnected = []\<rparr>"

definition OnReady :: "('w \<Rightarrow> 'w) \<Rightarrow> 'w LifecycleHooks \<Rightarrow> 'w LifecycleHooks" where
  "OnReady fn h = h\<lparr>onReady := onReady h @ [fn]\<rparr>"

definition OnError :: "(goerr \<Rightarrow> 'w \<Rightarrow> 'w) \<Rightarrow> 'w LifecycleHooks \<Rightarrow> 'w LifecycleHooks" where
  "OnError fn h = h\<lparr>onError := onError h @ [fn]\<rparr>"

definition OnReconnecting :: "('w \<Rightarrow> 'w) \<Rightarrow> 'w LifecycleHooks \<Rightarrow> 'w LifecycleHooks" where
  "OnReconnecting fn h = h\<lparr>onReconnecting := onReconnecting h @ [fn]\<rparr>"

definition OnReconnected :: "('w \<Rightarrow> 'w) \<Rightarrow> 'w LifecycleHooks \<Rightarrow> 'w LifecycleHooks" where
  "OnReconnected fn h = h\<lparr>onReconnected := onReconnected h @ [fn]\<rparr>"

definition OnDisconnected :: "('w \<Rightarrow> 'w) \<Rightarrow> 'w LifecycleHooks \<Rightarrow> 'w LifecycleHooks" where
  "OnDisconnected fn h = h\<lparr>onDisconnected := onDisconnected h @ [fn]\<rparr>"

definition call_all :: "('w \<Rightarrow> 'w) list \<Rightarrow> 'w \<Rightarrow> 'w" where
  "call_all fns w = fold (\<lambda>fn w. fn w) fns w"

definition FireReady :: "'w LifecycleHooks \<Rightarrow> 'w \<Rightarrow> 'w" where
  "FireReady h w = call_all (onReady h) w"

definition FireError :: "goerr \<Rightarrow> 'w LifecycleHooks \<Rightarrow> 'w \<Rightarrow> 'w" where
  "FireError err h w = call_all (map (\<lambda>fn. fn err) (onError h)) w"

definition FireReconnecting :: "'w LifecycleHooks \<Rightarrow> 'w \<Rightarrow> 'w" where
  "FireReconnecting h w = call_all (onReconnecting h) w"

definition FireReconnected :: "'w LifecycleHooks \<Rightarrow> 'w \<Rightarrow> 'w" where
  "FireReconnected h w = call_all (onReconnected h) w"

definition FireDisconnected :: "'w LifecycleHooks \<Rightarrow> 'w \<Rightarrow> 'w" where
  "FireDisconnected h w = call_all (onDisconnected h) w"

lemmas fire_defs = FireReady_def FireError_def FireReconnecting_def FireReconnected_def FireDisconnected_def

text \<open>The five events a connection can report, and the reports of a run.\<close>

datatype hook_event = Ready | Err goerr | Reconnecting | Reconnected | Disconnected

fun fire :: "'w LifecycleHooks \<Rightarrow> hook_event \<Rightarrow> 'w \<Rightarrow> 'w" where
  "fire h Ready = FireReady h"
| "fire h (Err e) = FireError e h"
| "fire h Reconnecting = FireReconnecting h"
| "fire h Reconnected = FireReconnected h"
| "fire h Disconnected = FireDisconnected h"

definition fire_all :: "'w LifecycleHooks option \<Rightarrow> hook_event list \<Rightarrow> 'w \<Rightarrow> 'w" where
  "fire_all hooks evs w = (case hooks of None \<Rightarrow> w | Some h \<Rightarrow> fold (fire h) evs w)"

lemma call_all_append: "call_all (fs @ gs) w = call_all gs (call_all fs w)"
  by (simp add: call_all_def)

lemma registered_last_called_last:
  "FireReady (OnReady fn h) w = fn (FireReady h w)"
  "FireError e (OnError fe h) w = fe e (FireError e h w)"
  "FireReconnecting (OnReconnecting fn h) w = fn (FireReconnecting h w)"
  "FireReconnected (OnReconnected fn h) w = fn (FireReconnected h w)"
  "FireDisconnected (OnDisconnected fn h) w = fn (FireDisconnected h w)"
  by (simp_all add: fire_defs OnReady_def OnError_def OnReconnecting_def OnReconnected_def OnDisconnected_def
      call_all_def)

lemma no_hooks_no_effect: "fire_all (Some newLifecycleHooks) evs w = w" "fire_all None evs w = w"
proof -
  have "fire newLifecycleHooks e w = w" for e and w :: 'a
    by (cases e) (simp_all add: fire_defs newLifecycleHooks_def call_all_def)
  then show "fire_all (Some newLifecycleHooks) evs w = w" "fire_all None evs w = w"
    by (induction evs arbitrary: w) (simp_all add: fire_all_def)
qed

end
