(* ===== verification/Connection.thy ===== *)
theory Connection
  imports Http Lifecycle
begin

text \<open>
  The long-lived connection: the wire frames of \<open>frame.go\<close> and the connection of \<open>stream.go\<close>. The
  network, the clock and the other goroutines are the environment: each pass of the reconnect loop
  gets the answers of the gateway and of the dial, the events its read loop sees in order, and what
  the loop finds when the pass is over. The model gives the frames written, the frames dispatched,
  the hooks fired and the delays waited.
\<close>

section \<open>Frames\<close>

record frame =
  SpecVersion :: string
  frame_Type :: string
  frame_Time :: int
  Headers :: "string \<rightharpoonup> string"
  Data :: string

definition header :: "frame \<Rightarrow> string \<Rightarrow> string" where
  "header f k = (case Headers f k of None \<Rightarrow> [] | Some v \<Rightarrow> v)"

definition topic :: "frame \<Rightarrow> string" where
  "topic f = header f ''topic''"

definition messageID :: "frame \<Rightarrow> string" where
  "messageID f = header f ''messageId''"

record frameAck =
  ack_Code :: int
  ack_Headers :: string_map
  ack_Message :: string
  ack_Data :: string

definition successAck :: "string \<Rightarrow> string \<Rightarrow> frameAck" where
  "successAck mid data =
     \<lparr>ack_Code = 200, ack_Headers = [(''contentType'', ''application/json''), (''messageId'', mid)], ack_Message = ''ok'',
      ack_Data = (if data = [] then marshal (JObj [(''success'', JBool True)]) else data)\<rparr>"

section \<open>Opening a connection\<close>

definition UserAgent :: string where "UserAgent = ''dingtalk-channel-sdk-go/v0.1.0''"
definition topicBotMessage :: string where "topicBotMessage = ''/v1.0/im/bot/messages/get''"
definition topicCardInstanceCB :: string where "topicCardInstanceCB = ''/v1.0/card/instances/callback''"
definition subSystem :: string where "subSystem = ''SYSTEM''"
definition subCallback :: string where "subCallback = ''CALLBACK''"

text \<open>An address of a network interface: \<open>None\<close> when it is not an IPv4 address of an \<open>*net.IPNet\<close>.\<close>

record interface_addr =
  loopback :: bool
  ipv4 :: "string option"

fun firstLanIP :: "interface_addr list \<Rightarrow> string" where
  "firstLanIP [] = []"
| "firstLanIP (a # as) =
     (if loopback a then firstLanIP as
      else (case ipv4 a of None \<Rightarrow> firstLanIP as | Some ip \<Rightarrow> ip))"

definition subscriptions :: "bool \<Rightarrow> (string \<times> string) list" where
  "subscriptions cardTopicWanted =
     [(subSystem, ''ping''), (subSystem, ''disconnect''), (subCallback, topicBotMessage)]
     @ (if cardTopicWanted then [(subCallback, topicCardInstanceCB)] else [])"

definition open_body :: "string \<Rightarrow> string \<Rightarrow> bool \<Rightarrow> string \<Rightarrow> json" where
  "open_body clientId clientSecret cardTopicWanted localIp = JObj
     ([(''clientId'', JStr clientId), (''clientSecret'', JStr clientSecret),
       (''subscriptions'', JArr (map (\<lambda>(ty, tp). JObj [(''type'', JStr ty), (''topic'', JStr tp)])
          (subscriptions cardTopicWanted))),
       (''ua'', JStr UserAgent)]
      @ (if localIp = [] then [] else [(''localIp'', JStr localIp)]))"

record gateway_reply =
  Endpoint :: string
  Ticket :: string

definition open_request :: "string \<Rightarrow> json \<Rightarrow> request" where
  "open_request apiBase body =
     \<lparr>req_method = ''POST'', req_url = apiBase @ ''/v1.0/gateway/connections/open'',
      req_headers = [(''Content-Type'', ''application/json''), (''Accept'', ''application/json''),
                     (''User-Agent'', UserAgent)],
      req_body = marshal body\<rparr>"

definition open_result :: "goerr + gateway_reply response \<Rightarrow> goerr + gateway_reply" where
  "open_result res =
     (case res of
        Inl err \<Rightarrow> Inl err
      | Inr resp \<Rightarrow>
          if resp_status resp \<noteq> 200
          then Inl (PlainErr (''gateway open: http '' @ format_int (resp_status resp) @ '': '' @ resp_raw resp))
          else
            (case resp_json resp of
               Inl err \<Rightarrow> Inl err
             | Inr r \<Rightarrow> if Endpoint r = [] \<or> Ticket r = [] then Inl (PlainErr ''gateway open: empty endpoint/ticket'')
                       else Inr r))"

definition wss_url :: "gateway_reply \<Rightarrow> string" where
  "wss_url r = Endpoint r @ ''?'' @ query_encode [(''ticket'', Ticket r)]"

section \<open>One frame\<close>

datatype action = WriteAck frameAck | Dispatch frame | CloseConn

text \<open>The argument is what \<open>json.Unmarshal\<close> makes of the text; \<open>onFrame\<close> may be missing.\<close>

definition handleFrame :: "bool \<Rightarrow> goerr + frame \<Rightarrow> action list" where
  "handleFrame onFrame raw =
     (case raw of
        Inl err \<Rightarrow> []
      | Inr f \<Rightarrow>
          if frame_Type f = subSystem \<and> topic f = ''ping''
          then [WriteAck ((successAck (messageID f) (Data f))\<lparr>ack_Data := Data f\<rparr>)]
          else if frame_Type f = subSystem \<and> topic f = ''disconnect''
          then [WriteAck (successAck (messageID f) []), CloseConn]
          else WriteAck (successAck (messageID f) []) # (if onFrame then [Dispatch f] else []))"

section \<open>The read loop\<close>

datatype pong = Pong | PongTimeout | PongConnError
datatype loop_event =
    Text "goerr + frame"
  | ReadError goerr
  | IdleTimeout "goerr option" pong
  | StopChannel
  | CtxDone goerr

datatype loop_end = Running | Returned "goerr option"

text \<open>The events in the order in which \<open>select\<close> takes them; \<open>Running\<close> when they run out.\<close>

fun readLoop :: "bool \<Rightarrow> loop_event list \<Rightarrow> action list \<times> hook_event list \<times> loop_end" where
  "readLoop onFrame [] = ([], [], Running)"
| "readLoop onFrame (Text raw # es) =
     (let (acts, evs, e) = readLoop onFrame es in (handleFrame onFrame raw @ acts, evs, e))"
| "readLoop onFrame (ReadError err # es) = ([], [Err err], Returned (Some err))"
| "readLoop onFrame (IdleTimeout (Some err) p # es) = ([], [], Returned (Some err))"
| "readLoop onFrame (IdleTimeout None Pong # es) = readLoop onFrame es"
| "readLoop onFrame (IdleTimeout None PongTimeout # es) = ([], [], Returned (Some (PlainErr ''pong timeout'')))"
| "readLoop onFrame (IdleTimeout None PongConnError # es) =
     ([], [], Returned (Some (PlainErr ''connection error while waiting pong'')))"
| "readLoop onFrame (StopChannel # es) = ([], [], Returned None)"
| "readLoop onFrame (CtxDone err # es) = ([], [], Returned (Some err))"

section \<open>One pass\<close>

datatype wait_end = TimerFired | StopClosed | WaitCtxDone goerr

record pass =
  gateway :: "goerr + gateway_reply response"
  dial :: "goerr option"
  closed_at_dial :: bool
  reads :: "loop_event list"
  stopped_after :: bool
  ctx_after :: "goerr option"
  jitter :: int
  wait_end :: wait_end

record pass_result =
  result :: loop_end
  connectedOnce :: bool
  actions :: "action list"
  fired :: "hook_event list"

definition runOnce :: "bool \<Rightarrow> bool \<Rightarrow> pass \<Rightarrow> pass_result" where
  "runOnce onFrame firstConnect p =
     (case open_result (gateway p) of
        Inl err \<Rightarrow> \<lparr>result = Returned (Some err), connectedOnce = False, actions = [], fired = [Err err]\<rparr>
      | Inr r \<Rightarrow>
          (case dial p of
             Some err \<Rightarrow> \<lparr>result = Returned (Some err), connectedOnce = False, actions = [], fired = [Err err]\<rparr>
           | None \<Rightarrow>
               if closed_at_dial p
               then \<lparr>result = Returned None, connectedOnce = False, actions = [], fired = []\<rparr>
               else
                 (case readLoop onFrame (reads p) of
                    (acts, evs, e) \<Rightarrow>
                      \<lparr>result = e, connectedOnce = True, actions = acts,
                       fired = (if firstConnect then Ready else Reconnected) # evs\<rparr>)))"

section \<open>The reconnect loop\<close>

definition DefaultReconnectBase :: duration where "DefaultReconnectBase = 1 * Second"
definition DefaultReconnectMax :: duration where "DefaultReconnectMax = 30 * Second"

text \<open>\<open>DefaultReconnectBase << attempt\<close> drops the bits shifted out of the \<open>int64\<close>.\<close>

definition backoffDelay :: "int \<Rightarrow> int \<Rightarrow> duration" where
  "backoffDelay attempt jit =
     (let d = wrap64 (DefaultReconnectBase * 2 ^ nat attempt);
          d' = (if DefaultReconnectMax < d then DefaultReconnectMax else d)
      in d' + jit)"

definition randInt64 :: "(int \<Rightarrow> int) \<Rightarrow> int \<Rightarrow> int" where
  "randInt64 Int63n n = (if n \<le> 0 then 0 else Int63n n)"

record run_log =
  delays :: "duration list"
  all_fired :: "hook_event list"
  all_actions :: "action list"
  run_end :: loop_end

definition log_pass :: "pass_result \<Rightarrow> hook_event list \<Rightarrow> duration list \<Rightarrow> run_log \<Rightarrow> run_log" where
  "log_pass r evs ds l =
     l\<lparr>delays := ds @ delays l, all_fired := fired r @ evs @ all_fired l, all_actions := actions r @ all_actions l\<rparr>"

definition ended :: "loop_end \<Rightarrow> run_log" where
  "ended e = \<lparr>delays = [], all_fired = [], all_actions = [], run_end = e\<rparr>"

text \<open>
  \<open>Run\<close> over the passes the environment gives, with the loop variables \<open>attempt\<close> and \<open>firstConnect\<close>.
  The first argument is \<open>cfg.reconnectEnabled()\<close>. A pass whose read loop has not returned is the last.
\<close>

fun Run :: "bool \<Rightarrow> bool \<Rightarrow> int \<Rightarrow> bool \<Rightarrow> pass list \<Rightarrow> run_log" where
  "Run reconnect onFrame attempt firstConnect [] = ended Running"
| "Run reconnect onFrame attempt firstConnect (p # ps) =
     (let r = runOnce onFrame firstConnect p;
          attempt' = (if connectedOnce r then 0 else attempt) in
      case result r of
        Running \<Rightarrow> log_pass r [] [] (ended Running)
      | Returned err \<Rightarrow>
          if stopped_after p then log_pass r [] [] (ended (Returned None))
          else
            (case ctx_after p of
               Some c \<Rightarrow> log_pass r [] [] (ended (Returned (Some c)))
             | None \<Rightarrow>
                 if \<not> reconnect then log_pass r [] [] (ended (Returned err))
                 else
                   let delay = backoffDelay attempt' (jitter p);
                       evs = [Disconnected, Reconnecting] in
                   (case wait_end p of
                      StopClosed \<Rightarrow> log_pass r evs [delay] (ended (Returned None))
                    | WaitCtxDone c \<Rightarrow> log_pass r evs [delay] (ended (Returned (Some c)))
                    | TimerFired \<Rightarrow> log_pass r evs [delay] (Run reconnect onFrame (attempt' + 1) False ps))))"

section \<open>Closing\<close>

record conn_state =
  conn_open :: bool
  conn_closed :: bool
  stop_signalled :: bool

text \<open>\<open>Close\<close> runs its body once.\<close>

definition Close :: "conn_state \<Rightarrow> conn_state" where
  "Close s = (if stop_signalled s then s else s\<lparr>conn_closed := True, stop_signalled := True, conn_open := False\<rparr>)"

definition isStopped :: "conn_state \<Rightarrow> bool" where
  "isStopped s = conn_closed s"

lemma Close_idem: "Close (Close s) = Close s"
  by (simp add: Close_def)

section \<open>Acknowledgements\<close>

text \<open>The frames the loop reads before it returns, and those that are business frames.\<close>

fun live_frames :: "loop_event list \<Rightarrow> frame list" where
  "live_frames (Text (Inr f) # es) = f # live_frames es"
| "live_frames (Text (Inl err) # es) = live_frames es"
| "live_frames (IdleTimeout None Pong # es) = live_frames es"
| "live_frames _ = []"

definition business :: "frame \<Rightarrow> bool" where
  "business f \<longleftrightarrow> \<not> (frame_Type f = subSystem \<and> topic f \<in> {''ping'', ''disconnect''})"

fun acked :: "action list \<Rightarrow> string list" where
  "acked (WriteAck a # as) = the (map_of (ack_Headers a) ''messageId'') # acked as"
| "acked (x # as) = acked as"
| "acked [] = []"

fun dispatched :: "action list \<Rightarrow> frame list" where
  "dispatched (Dispatch f # as) = f # dispatched as"
| "dispatched (x # as) = dispatched as"
| "dispatched [] = []"

text \<open>Every dispatched frame comes directly behind its own acknowledgement.\<close>

fun ack_first :: "action list \<Rightarrow> bool" where
  "ack_first (WriteAck a # Dispatch f # as) = (a = successAck (messageID f) [] \<and> ack_first as)"
| "ack_first (Dispatch f # as) = False"
| "ack_first (x # as) = ack_first as"
| "ack_first [] = True"

lemma acked_append: "acked (as @ bs) = acked as @ acked bs"
  by (induction as rule: acked.induct) auto

lemma dispatched_append: "dispatched (as @ bs) = dispatched as @ dispatched bs"
  by (induction as rule: dispatched.induct) auto

lemma handle_acked: "acked (handleFrame d (Inr f)) = [messageID f]"
  by (simp add: handleFrame_def successAck_def)

lemma handle_dispatched: "dispatched (handleFrame d (Inr f)) = (if d \<and> business f then [f] else [])"
  by (simp add: handleFrame_def business_def)

lemma not_dispatch_first: "ack_first bs \<Longrightarrow> ack_first (WriteAck a # bs) \<or> (\<exists>f cs. bs = Dispatch f # cs)"
  by (cases bs; cases "hd bs") auto

lemma handle_ack_first: "ack_first bs \<Longrightarrow> ack_first (handleFrame d raw @ bs)"
proof (cases raw)
  case (Inr f)
  assume "ack_first bs"
  moreover have "ack_first (WriteAck a # bs)" if "ack_first bs" for a
    using not_dispatch_first [OF that, of a] that by auto
  ultimately show ?thesis
    by (auto simp: Inr handleFrame_def)
qed (simp add: handleFrame_def)

lemma readLoop_actions:
  "readLoop d es = (acts, evs, e) \<Longrightarrow>
     acked acts = map messageID (live_frames es)
     \<and> dispatched acts = (if d then filter business (live_frames es) else []) \<and> ack_first acts"
proof (induction d es arbitrary: acts evs e rule: readLoop.induct)
  case (2 d raw es)
  obtain acts' evs' e' where rest: "readLoop d es = (acts', evs', e')" using prod_cases3 by blast
  then have acts: "acts = handleFrame d raw @ acts'" using 2(2) by simp
  show ?case
  proof (cases raw)
    case (Inl err)
    then show ?thesis using 2(1) [OF rest] acts by (simp add: handleFrame_def)
  next
    case (Inr f)
    then show ?thesis
      using 2(1) [OF rest] acts handle_ack_first
      by (simp add: acked_append dispatched_append handle_acked handle_dispatched)
  qed
qed auto

section \<open>The backoff\<close>

lemma pow2_le: "n \<le> 33 \<Longrightarrow> (2 :: int) ^ n \<le> 2 ^ 33"
  by (rule power_increasing) auto

lemma base_no_wrap:
  assumes "0 \<le> a" "a \<le> 33" shows "wrap64 (DefaultReconnectBase * 2 ^ nat a) = Second * 2 ^ nat a"
proof -
  define x where "x = (2 :: int) ^ nat a"
  have "x \<le> 2 ^ 33" unfolding x_def using assms by (intro pow2_le) simp
  moreover have "1 \<le> x" by (simp add: x_def)
  ultimately show ?thesis
    unfolding x_def [symmetric] by (simp add: wrap64_def DefaultReconnectBase_def)
qed

lemma wrap64_multiple: "wrap64 (2 ^ 64 * k) = 0"
  by (simp add: wrap64_def)

lemma base_all_shifted_out:
  assumes "55 \<le> a" shows "wrap64 (DefaultReconnectBase * 2 ^ nat a) = 0"
proof -
  have "nat a = 55 + (nat a - 55)" using assms by simp
  then have "(2 :: int) ^ nat a = 2 ^ 55 * 2 ^ (nat a - 55)" by (metis power_add)
  then have "DefaultReconnectBase * 2 ^ nat a = 2 ^ 64 * (1953125 * 2 ^ (nat a - 55))"
    by (simp add: DefaultReconnectBase_def)
  then show ?thesis using wrap64_multiple by metis
qed

lemma base_negative: "wrap64 (DefaultReconnectBase * 2 ^ nat 34) < 0"
  by (simp add: wrap64_def DefaultReconnectBase_def)

section \<open>Reconnecting\<close>

text \<open>A pass whose connection is lost and after which the loop goes on.\<close>

definition goes_on :: "bool \<Rightarrow> pass \<Rightarrow> bool" where
  "goes_on onFrame p \<longleftrightarrow>
     (\<exists>err. result (runOnce onFrame True p) = Returned err) \<and> \<not> stopped_after p \<and> ctx_after p = None
     \<and> wait_end p = TimerFired"

definition connects :: "pass \<Rightarrow> bool" where
  "connects p \<longleftrightarrow> (\<exists>r. open_result (gateway p) = Inr r) \<and> dial p = None \<and> \<not> closed_at_dial p"

text \<open>The specification of the attempt counter: the failed passes since the last connection.\<close>

fun attempts_from :: "nat \<Rightarrow> bool list \<Rightarrow> nat list" where
  "attempts_from k [] = []"
| "attempts_from k (c # cs) = (if c then 0 else k) # attempts_from (Suc (if c then 0 else k)) cs"

lemma connected_iff: "connectedOnce (runOnce onFrame first p) \<longleftrightarrow> connects p"
  by (auto simp: runOnce_def connects_def split: sum.split option.split prod.split)

lemma result_first: "result (runOnce onFrame first p) = result (runOnce onFrame first' p)"
  by (auto simp: runOnce_def split: sum.split option.split prod.split)

lemma log_pass_simps [simp]:
  "delays (log_pass r evs ds l) = ds @ delays l" "all_fired (log_pass r evs ds l) = fired r @ evs @ all_fired l"
  "all_actions (log_pass r evs ds l) = actions r @ all_actions l" "run_end (log_pass r evs ds l) = run_end l"
  by (simp_all add: log_pass_def)

lemma ended_simps [simp]:
  "delays (ended e) = []" "all_fired (ended e) = []" "all_actions (ended e) = []" "run_end (ended e) = e"
  by (simp_all add: ended_def)

lemma Run_goes_on:
  assumes "goes_on onFrame p"
  shows "Run True onFrame a first (p # ps) =
    (let a' = (if connects p then 0 else a) in
     log_pass (runOnce onFrame first p) [Disconnected, Reconnecting] [backoffDelay a' (jitter p)]
       (Run True onFrame (a' + 1) False ps))"
  using assms result_first [of onFrame first p True]
  by (auto simp: goes_on_def connected_iff Let_def)

lemma run_delays:
  assumes "list_all (goes_on onFrame) ps"
  shows "delays (Run True onFrame (int k) first ps)
    = map2 (\<lambda>n p. backoffDelay (int n) (jitter p)) (attempts_from k (map connects ps)) ps"
  using assms
proof (induction ps arbitrary: k first)
  case (Cons p ps)
  from Cons.IH [of "Suc (if connects p then 0 else k)" False] Cons.prems show ?case
    by (simp add: Run_goes_on Let_def add.commute del: Run.simps(2) split: if_splits)
qed simp

text \<open>What can end a connected client: its own \<open>Close\<close> or its context, never an error of the network.\<close>

lemma run_returned:
  assumes "run_end (Run True onFrame a first ps) = Returned r"
  shows "\<exists>p \<in> set ps. (r = None \<and> (stopped_after p \<or> wait_end p = StopClosed))
    \<or> (\<exists>c. r = Some c \<and> (ctx_after p = Some c \<or> wait_end p = WaitCtxDone c))"
  using assms
proof (induction ps arbitrary: a first)
  case (Cons p ps)
  then show ?case
    by (auto simp: Let_def split: loop_end.splits if_splits option.splits wait_end.splits)
qed simp

text \<open>The hooks: \<open>Ready\<close> belongs to the first pass only.\<close>

lemma readLoop_fired: "readLoop d es = (acts, evs, e) \<Longrightarrow> Ready \<notin> set evs \<and> Reconnected \<notin> set evs"
  by (induction d es arbitrary: acts evs e rule: readLoop.induct) (auto split: prod.splits)

lemma pass_fired:
  "Ready \<in> set (fired (runOnce d first p)) \<longleftrightarrow> first \<and> connects p"
  "Reconnected \<in> set (fired (runOnce d first p)) \<longleftrightarrow> \<not> first \<and> connects p"
  by (auto simp: runOnce_def connects_def dest: readLoop_fired split: sum.split option.split prod.split)

lemma later_passes_fired: "Ready \<notin> set (all_fired (Run re d a False ps))"
proof (induction ps arbitrary: a)
  case (Cons p ps)
  then show ?case
    using pass_fired(1) [of d False p]
    by (auto simp: Let_def split: loop_end.splits option.splits wait_end.splits)
qed simp

lemma first_pass_fired: "Ready \<in> set (all_fired (Run re d a True (p # ps))) \<longleftrightarrow> connects p"
  using pass_fired(1) [of d True p] later_passes_fired
  by (auto simp: Let_def split: loop_end.splits option.splits wait_end.splits)

section \<open>Properties\<close>

text \<open>
  C31. Acknowledgements. Whatever the read loop meets before it returns, every well-formed frame it
  reads is acknowledged exactly once, under its own message id and in order; exactly the business
  frames are dispatched, once each and in order, and each one directly after its acknowledgement, so
  a slow handler never delays one.
\<close>

theorem frames_acknowledged:
  assumes "readLoop True es = (acts, evs, e)"
  shows "acked acts = map messageID (live_frames es) \<and> dispatched acts = filter business (live_frames es)
    \<and> ack_first acts"
  using readLoop_actions [OF assms] by simp

definition demo_frame :: "string \<Rightarrow> string \<Rightarrow> string \<Rightarrow> frame" where
  "demo_frame ty tp mid =
     \<lparr>SpecVersion = ''1.0'', frame_Type = ty, frame_Time = 0,
      Headers = [''topic'' \<mapsto> tp, ''messageId'' \<mapsto> mid], Data = ''d''\<rparr>"

definition demo_reads :: "loop_event list" where
  "demo_reads = [Text (Inr (demo_frame ''SYSTEM'' ''ping'' ''1'')), IdleTimeout None Pong,
     Text (Inl (PlainErr ''bad'')), Text (Inr (demo_frame ''CALLBACK'' topicBotMessage ''2'')), ReadError (PlainErr ''eof'')]"

theorem frames_acknowledged_witness:
  "\<exists>acts evs e. readLoop True demo_reads = (acts, evs, e) \<and> acked acts = [''1'', ''2'']
     \<and> dispatched acts = [demo_frame ''CALLBACK'' topicBotMessage ''2'']"
proof -
  obtain acts evs e where run: "readLoop True demo_reads = (acts, evs, e)" using prod_cases3 by blast
  have "live_frames demo_reads = [demo_frame ''SYSTEM'' ''ping'' ''1'', demo_frame ''CALLBACK'' topicBotMessage ''2'']"
    by (simp add: demo_reads_def)
  moreover have "messageID (demo_frame ty tp mid) = mid" "business (demo_frame ty tp mid) \<longleftrightarrow> \<not> (ty = ''SYSTEM'' \<and> tp \<in> {''ping'', ''disconnect''})"
    for ty tp mid
    by (simp_all add: demo_frame_def messageID_def header_def business_def topic_def subSystem_def)
  ultimately show ?thesis
    using frames_acknowledged [OF run] run by auto
qed

text \<open>A connection the server has asked to be closed: the read loop saw a \<open>disconnect\<close> frame of the system.\<close>

definition told_to_reconnect :: "pass \<Rightarrow> bool" where
  "told_to_reconnect p \<longleftrightarrow>
     connects p \<and> (\<exists>f. f \<in> set (live_frames (reads p)) \<and> frame_Type f = ''SYSTEM'' \<and> Headers f ''topic'' = Some ''disconnect'')"

text \<open>
  C30. The reconnect schedule. While passes only fail or lose their connection, and the server has not
  asked for a reconnection in any of them, the loop waits after each one, and the wait is
  \<open>backoffDelay\<close> of the number of passes since the last one that connected, starting from zero again
  after every connection. The ready hook fires exactly when the very first pass connects: a client whose
  first attempt fails gets the reconnected hook instead.
\<close>

theorem reconnect_schedule:
  assumes "list_all (goes_on onFrame) ps" and "list_all (\<lambda>p. \<not> told_to_reconnect p) ps"
  shows "delays (Run True onFrame 0 True ps)
      = map2 (\<lambda>n p. backoffDelay (int n) (jitter p)) (attempts_from 0 (map connects ps)) ps
    \<and> (Ready \<in> set (all_fired (Run True onFrame 0 True ps)) \<longleftrightarrow> ps \<noteq> [] \<and> connects (hd ps))"
  using run_delays [OF assms(1), of 0 True] first_pass_fired
  by (cases ps) (simp_all del: Run.simps(2))

definition failing_pass :: pass where
  "failing_pass = \<lparr>gateway = Inl (PlainErr ''refused''), dial = None, closed_at_dial = False, reads = [],
     stopped_after = False, ctx_after = None, jitter = 0, wait_end = TimerFired\<rparr>"

definition lost_pass :: pass where
  "lost_pass = failing_pass\<lparr>
     gateway := Inr \<lparr>resp_status = 200, resp_raw = [], resp_json = Inr \<lparr>Endpoint = ''wss'', Ticket = ''t''\<rparr>\<rparr>,
     reads := [ReadError (PlainErr ''eof'')]\<rparr>"

lemma demo_passes: "list_all (goes_on True) [failing_pass, failing_pass, lost_pass, failing_pass]"
  by (simp add: goes_on_def runOnce_def failing_pass_def lost_pass_def open_result_def)

lemma demo_connects: "\<not> connects failing_pass" "connects lost_pass"
  by (simp_all add: connects_def failing_pass_def lost_pass_def open_result_def)

lemma demo_not_told: "list_all (\<lambda>p. \<not> told_to_reconnect p) [failing_pass, failing_pass, lost_pass, failing_pass]"
  by (simp add: told_to_reconnect_def failing_pass_def lost_pass_def)

theorem reconnect_schedule_witness:
  "delays (Run True True 0 True [failing_pass, failing_pass, lost_pass, failing_pass])
     = map (\<lambda>n. backoffDelay n 0) [0, 1, 0, 1]
   \<and> Ready \<notin> set (all_fired (Run True True 0 True [failing_pass, failing_pass, lost_pass, failing_pass]))"
  using reconnect_schedule [OF demo_passes demo_not_told]
  by (simp add: demo_connects del: Run.simps(2)) (simp add: failing_pass_def lost_pass_def)

text \<open>
  After a \<open>disconnect\<close> of the system the documentation has the client reconnect immediately. The code
  treats it as any lost connection: it waits for the smallest backoff, a second and the jitter.
\<close>

lemma disconnect_waits_backoff:
  assumes "goes_on onFrame p" and "told_to_reconnect p"
  shows "\<exists>ds. delays (Run True onFrame a first (p # ps)) = (Second + jitter p) # ds"
  using assms(2) base_no_wrap [of 0]
  by (simp add: Run_goes_on [OF assms(1)] told_to_reconnect_def backoffDelay_def DefaultReconnectMax_def
      del: Run.simps(2))

definition told_pass :: pass where
  "told_pass = lost_pass\<lparr>reads := [Text (Inr (demo_frame ''SYSTEM'' ''disconnect'' ''3'')), ReadError (PlainErr ''closed'')]\<rparr>"

lemma disconnect_waits_a_second:
  "goes_on True told_pass \<and> told_to_reconnect told_pass
     \<and> delays (Run True True 0 True [told_pass]) = [Second]"
proof -
  have "goes_on True told_pass"
    by (simp add: goes_on_def runOnce_def told_pass_def failing_pass_def lost_pass_def open_result_def)
  moreover have "told_to_reconnect told_pass"
    by (simp add: told_to_reconnect_def connects_def told_pass_def failing_pass_def lost_pass_def open_result_def
        demo_frame_def)
  ultimately show ?thesis
    using run_delays [of True "[told_pass]" 0 True]
    by (simp add: told_to_reconnect_def backoffDelay_def base_no_wrap [of 0, simplified] DefaultReconnectMax_def
        told_pass_def lost_pass_def failing_pass_def del: Run.simps(2))
qed

text \<open>
  The delays. Up to 33 failures in a row the delay is \<open>2^n\<close> seconds, at most 30, plus a jitter under
  a second. After that the shift overflows its 64 bits: the delay after the 34th failure is negative,
  and from the 55th on only the jitter is left, so a client that cannot reach the gateway for a
  quarter of an hour retries about twice a second from then on, for as long as the outage lasts.
\<close>

theorem backoff_bounds:
  assumes "0 \<le> n" and "0 \<le> jit" and "jit < Second"
  shows "(n \<le> 33 \<longrightarrow> min (Second * 2 ^ nat n) DefaultReconnectMax \<le> backoffDelay n jit
      \<and> backoffDelay n jit < min (Second * 2 ^ nat n) DefaultReconnectMax + Second)
    \<and> (n = 34 \<longrightarrow> backoffDelay n jit < 0) \<and> (55 \<le> n \<longrightarrow> backoffDelay n jit = jit)"
proof (intro conjI impI)
  assume "n \<le> 33"
  from base_no_wrap [OF assms(1) this]
  show "min (Second * 2 ^ nat n) DefaultReconnectMax \<le> backoffDelay n jit"
    and "backoffDelay n jit < min (Second * 2 ^ nat n) DefaultReconnectMax + Second"
    using assms(2,3) by (simp_all add: backoffDelay_def Let_def min_def)
next
  assume "n = 34"
  moreover have "wrap64 (DefaultReconnectBase * 2 ^ nat 34) + Second < 0"
    by (simp add: wrap64_def DefaultReconnectBase_def)
  ultimately show "backoffDelay n jit < 0"
    using assms(3) base_negative by (simp add: backoffDelay_def Let_def DefaultReconnectMax_def)
next
  assume "55 \<le> n"
  from base_all_shifted_out [OF this] show "backoffDelay n jit = jit"
    by (simp add: backoffDelay_def Let_def DefaultReconnectMax_def)
qed

theorem backoff_bounds_witness:
  "backoffDelay 5 7 < 31 * Second \<and> backoffDelay 34 7 < 0 \<and> backoffDelay 100 7 = 7"
  using backoff_bounds [of 5 7] backoff_bounds [of 34 7] backoff_bounds [of 100 7]
  by (simp add: DefaultReconnectMax_def)

text \<open>
  What ends the loop. With reconnecting enabled \<open>Run\<close> returns only because the client was closed,
  with no error, or because its context was done, with the error of the context: no answer of the
  gateway, failed dial, lost connection or missing pong ever ends it.
\<close>

theorem run_ends:
  assumes "run_end (Run True onFrame 0 True ps) = Returned r"
  shows "\<exists>p \<in> set ps. (r = None \<and> (stopped_after p \<or> wait_end p = StopClosed))
    \<or> (\<exists>c. r = Some c \<and> (ctx_after p = Some c \<or> wait_end p = WaitCtxDone c))"
  by (rule run_returned [OF assms])

theorem run_ends_witness:
  "\<exists>p \<in> {failing_pass, failing_pass\<lparr>ctx_after := Some Canceled\<rparr>}. ctx_after p = Some Canceled"
proof -
  have "run_end (Run True True 0 True [failing_pass, failing_pass\<lparr>ctx_after := Some Canceled\<rparr>]) = Returned (Some Canceled)"
    by (simp add: runOnce_def failing_pass_def open_result_def Let_def)
  from run_ends [OF this] show ?thesis by (auto simp: failing_pass_def)
qed

end
