(* ===== verification/Token.thy ===== *)
theory Token
  imports Http
begin

text \<open>
  The two access tokens: \<open>tokenProvider\<close> of \<open>token.go\<close> and \<open>oapiClient\<close> of \<open>oapi.go\<close> with its media
  upload. Both keep a token and its expiry behind a mutex, so \<open>Get\<close> is one critical section: a
  function of the cache and the world. What their callers rely on is the locale \<open>credential\<close>, proved
  once and interpreted for both.
\<close>

record Credentials =
  ClientID :: string
  ClientSecret :: string
  APIBase :: string
  OapiBase :: string

record token_cache =
  token :: string
  expiresAt :: time

definition no_token :: token_cache where
  "no_token = \<lparr>token = [], expiresAt = - 62135596800 * Second\<rparr>"

text \<open>A cached token is used until 60 seconds before its expiry.\<close>

definition token_fresh :: "time \<Rightarrow> token_cache \<Rightarrow> bool" where
  "token_fresh now c \<longleftrightarrow> token c \<noteq> [] \<and> time_before now (time_add (expiresAt c) (- (60 * Second)))"

section \<open>The API token\<close>

record token_reply =
  accessToken :: string
  expireIn :: int

definition token_request :: "Credentials \<Rightarrow> request" where
  "token_request cfg =
     \<lparr>req_method = ''POST'', req_url = APIBase cfg @ ''/v1.0/oauth2/accessToken'',
      req_headers = [(''Content-Type'', ''application/json'')],
      req_body = marshal (map_json [(''appKey'', ClientID cfg), (''appSecret'', ClientSecret cfg)])\<rparr>"

definition default_expiry :: "int \<Rightarrow> int" where
  "default_expiry n = (if n \<le> 0 then 7200 else n)"

definition token_accept :: "token_reply response \<Rightarrow> goerr + token_reply" where
  "token_accept resp =
     (if resp_status resp \<noteq> 200
      then Inl (PlainErr (''accessToken: http '' @ format_int (resp_status resp) @ '': '' @ resp_raw resp))
      else
        (case resp_json resp of
           Inl err \<Rightarrow> Inl err
         | Inr out \<Rightarrow>
             if accessToken out = []
             then Inl (PlainErr (''accessToken: empty token in response: '' @ resp_raw resp))
             else Inr out))"

definition Token_Get ::
  "Credentials \<Rightarrow> ('w, token_reply) http_client \<Rightarrow> ('w \<Rightarrow> time) \<Rightarrow> 'w \<Rightarrow> token_cache
     \<Rightarrow> (goerr + string) \<times> token_cache \<times> 'w" where
  "Token_Get cfg httpc clock w t =
     (if token_fresh (clock w) t then (Inr (token t), t, w)
      else
        (case httpc (token_request cfg) w of
           (Inl err, w') \<Rightarrow> (Inl err, t, w')
         | (Inr resp, w') \<Rightarrow>
             (case token_accept resp of
                Inl err \<Rightarrow> (Inl err, t, w')
              | Inr out \<Rightarrow>
                  (Inr (accessToken out),
                   \<lparr>token = accessToken out,
                    expiresAt = time_add (clock w') (duration_seconds (default_expiry (expireIn out)))\<rparr>, w'))))"

section \<open>The OAPI token\<close>

record oapi_reply =
  ErrCode :: int
  ErrMsg :: string
  AccessToken :: string
  ExpiresIn :: int

definition gettoken_request :: "Credentials \<Rightarrow> request" where
  "gettoken_request cfg =
     \<lparr>req_method = ''GET'',
      req_url = OapiBase cfg @ ''/gettoken?''
        @ query_encode [(''appkey'', ClientID cfg), (''appsecret'', ClientSecret cfg)],
      req_headers = [], req_body = []\<rparr>"

definition gettoken_accept :: "oapi_reply response \<Rightarrow> goerr + oapi_reply" where
  "gettoken_accept resp =
     (case resp_json resp of
        Inl err \<Rightarrow> Inl err
      | Inr out \<Rightarrow>
          if ErrCode out \<noteq> 0 \<or> AccessToken out = []
          then Inl (PlainErr (''oapi gettoken: errcode='' @ format_int (ErrCode out) @ '' errmsg='' @ ErrMsg out))
          else Inr out)"

definition getToken ::
  "Credentials \<Rightarrow> ('w, oapi_reply) http_client \<Rightarrow> ('w \<Rightarrow> time) \<Rightarrow> 'w \<Rightarrow> token_cache
     \<Rightarrow> (goerr + string) \<times> token_cache \<times> 'w" where
  "getToken cfg httpc clock w t =
     (if token_fresh (clock w) t then (Inr (token t), t, w)
      else
        (case httpc (gettoken_request cfg) w of
           (Inl err, w') \<Rightarrow> (Inl err, t, w')
         | (Inr resp, w') \<Rightarrow>
             (case gettoken_accept resp of
                Inl err \<Rightarrow> (Inl err, t, w')
              | Inr out \<Rightarrow>
                  (Inr (AccessToken out),
                   \<lparr>token = AccessToken out,
                    expiresAt = time_add (clock w') (duration_seconds (default_expiry (ExpiresIn out)))\<rparr>, w'))))"

section \<open>Media upload\<close>

record upload_reply =
  UpErrCode :: int
  UpErrMsg :: string
  UpMediaID :: string
  UpType :: string
  UpCreatedAt :: int

record MediaUploadResult =
  MediaID :: string
  RawMediaID :: string
  MediaType :: string
  CreatedAt :: int
  DownloadURL :: string

text \<open>
  The multipart writer of the standard library draws a random boundary; it is the argument \<open>form\<close>,
  which makes the content type and the body from the file name and the data.
\<close>

definition upload_request ::
  "Credentials \<Rightarrow> (string \<Rightarrow> string \<Rightarrow> string \<times> string) \<Rightarrow> string \<Rightarrow> string \<Rightarrow> string \<Rightarrow> string \<Rightarrow> request" where
  "upload_request cfg form tok mediaType filename data =
     \<lparr>req_method = ''POST'',
      req_url = OapiBase cfg @ ''/media/upload?'' @ query_encode [(''access_token'', tok), (''type'', mediaType)],
      req_headers = [(''Content-Type'', fst (form filename data))], req_body = snd (form filename data)\<rparr>"

definition strip_at :: "string \<Rightarrow> string" where
  "strip_at s = (case s of c # cs \<Rightarrow> if c = CHR ''@'' then cs else s | [] \<Rightarrow> [])"

definition upload_accept :: "upload_reply response \<Rightarrow> goerr + MediaUploadResult" where
  "upload_accept resp =
     (case resp_json resp of
        Inl err \<Rightarrow> Inl err
      | Inr out \<Rightarrow>
          if UpErrCode out \<noteq> 0
          then Inl (PlainErr (''media/upload: errcode='' @ format_int (UpErrCode out) @ '' errmsg='' @ UpErrMsg out))
          else Inr \<lparr>MediaID = strip_at (UpMediaID out), RawMediaID = UpMediaID out, MediaType = UpType out,
                    CreatedAt = UpCreatedAt out,
                    DownloadURL = ''https://down.dingtalk.com/media/'' @ strip_at (UpMediaID out)\<rparr>)"

text \<open>
  The code infers a content type when the caller gives none and then uses neither: the file part
  always has the one of the multipart writer. The argument is kept, unused, as in the code.
\<close>

definition UploadMedia ::
  "Credentials \<Rightarrow> ('w, oapi_reply) http_client \<Rightarrow> ('w, upload_reply) http_client \<Rightarrow> ('w \<Rightarrow> time)
     \<Rightarrow> (string \<Rightarrow> string \<Rightarrow> string \<times> string) \<Rightarrow> string \<Rightarrow> string \<Rightarrow> string \<Rightarrow> string \<Rightarrow> 'w \<Rightarrow> token_cache
     \<Rightarrow> (goerr + MediaUploadResult) \<times> token_cache \<times> 'w" where
  "UploadMedia cfg http_token http_upload clock form mediaType filename contentType data w t =
     (case getToken cfg http_token clock w t of
        (Inl err, t', w') \<Rightarrow> (Inl err, t', w')
      | (Inr tok, t', w') \<Rightarrow>
          (case http_upload (upload_request cfg form tok mediaType filename data) w' of
             (Inl err, w'') \<Rightarrow> (Inl err, t', w'')
           | (Inr resp, w'') \<Rightarrow> (upload_accept resp, t', w'')))"

section \<open>The contract of a cached credential\<close>

text \<open>
  \<open>get\<close> returns a token, the cache and the world; \<open>accepted\<close> says that a call that goes to the network
  in world \<open>w\<close> ends in world \<open>w'\<close> with a token and a validity of so many nanoseconds.
\<close>

locale credential =
  fixes get :: "'w \<Rightarrow> token_cache \<Rightarrow> (goerr + string) \<times> token_cache \<times> 'w"
    and clock :: "'w \<Rightarrow> time"
    and accepted :: "'w \<Rightarrow> string \<Rightarrow> duration \<Rightarrow> 'w \<Rightarrow> bool"
  assumes get_fresh: "token_fresh (clock w) t \<Longrightarrow> get w t = (Inr (token t), t, w)"
    and get_error: "get w t = (Inl err, t', w') \<Longrightarrow> t' = t \<and> \<not> token_fresh (clock w) t"
    and get_new: "\<not> token_fresh (clock w) t \<Longrightarrow> get w t = (Inr tok, t', w') \<Longrightarrow>
      \<exists>d. accepted w tok d w' \<and> t' = \<lparr>token = tok, expiresAt = clock w' + d\<rparr>"
    and accepted_nonempty: "accepted w tok d w' \<Longrightarrow> tok \<noteq> []"
begin

lemma token_source:
  "get w t = (Inr tok, t', w') \<Longrightarrow>
     (token_fresh (clock w) t \<and> tok = token t \<and> t' = t \<and> w' = w)
     \<or> (\<exists>d. accepted w tok d w' \<and> t' = \<lparr>token = tok, expiresAt = clock w' + d\<rparr>)"
  using get_fresh get_new by (cases "token_fresh (clock w) t") auto

text \<open>After a success the cache holds the token that was returned; after an error it is as before.\<close>

lemma get_outcome:
  assumes "get w t = (r, t', w')"
  shows "case r of
      Inl err \<Rightarrow> t' = t
    | Inr tok \<Rightarrow> tok \<noteq> [] \<and> token t' = tok
        \<and> (\<forall>w2. clock w2 < expiresAt t' - 60 * Second \<longrightarrow> get w2 t' = (Inr tok, t', w2))"
proof (cases r)
  case (Inl err)
  then show ?thesis using get_error assms by simp
next
  case (Inr tok)
  then have "get w t = (Inr tok, t', w')" using assms by simp
  from token_source [OF this] have "tok \<noteq> [] \<and> token t' = tok"
    using accepted_nonempty by (auto simp: token_fresh_def)
  moreover have "get w2 t' = (Inr tok, t', w2)" if "clock w2 < expiresAt t' - 60 * Second" for w2
    using that calculation get_fresh [of w2 t'] by (simp add: token_fresh_def)
  ultimately show ?thesis using Inr by simp
qed

text \<open>The same with the source of the token, in terms of the clock.\<close>

lemma get_sourced:
  assumes "get w t = (r, t', w')"
  shows "case r of
      Inl err \<Rightarrow> t' = t \<and> (token t = [] \<or> expiresAt t - 60 * Second \<le> clock w)
    | Inr tok \<Rightarrow> tok \<noteq> [] \<and> token t' = tok
        \<and> (if token t \<noteq> [] \<and> clock w < expiresAt t - 60 * Second then tok = token t \<and> t' = t \<and> w' = w
           else (\<exists>d. accepted w tok d w' \<and> expiresAt t' = clock w' + d))
        \<and> (\<forall>w2. clock w2 < expiresAt t' - 60 * Second \<longrightarrow> get w2 t' = (Inr tok, t', w2))"
proof -
  have fresh: "token_fresh (clock w) t \<longleftrightarrow> token t \<noteq> [] \<and> clock w < expiresAt t - 60 * Second"
    by (simp add: token_fresh_def)
  show ?thesis
  proof (cases r)
    case (Inl err)
    then show ?thesis using get_error [of w t err t' w'] assms fresh by auto
  next
    case (Inr tok)
    then have "get w t = (Inr tok, t', w')" using assms by simp
    then have "if token_fresh (clock w) t then tok = token t \<and> t' = t \<and> w' = w
        else (\<exists>d. accepted w tok d w' \<and> expiresAt t' = clock w' + d)"
      using get_fresh [of w t] get_new [of w t tok t' w'] by auto
    then show ?thesis using get_outcome [OF assms] Inr fresh by simp
  qed
qed

end

definition token_accepted ::
  "Credentials \<Rightarrow> ('w, token_reply) http_client \<Rightarrow> 'w \<Rightarrow> string \<Rightarrow> duration \<Rightarrow> 'w \<Rightarrow> bool" where
  "token_accepted cfg httpc w tok d w' \<longleftrightarrow>
     (case httpc (token_request cfg) w of
        (Inl err, w1) \<Rightarrow> False
      | (Inr resp, w1) \<Rightarrow> w1 = w' \<and>
          (case token_accept resp of
             Inl err \<Rightarrow> False
           | Inr out \<Rightarrow> tok = accessToken out \<and> d = duration_seconds (default_expiry (expireIn out))))"

definition gettoken_accepted ::
  "Credentials \<Rightarrow> ('w, oapi_reply) http_client \<Rightarrow> 'w \<Rightarrow> string \<Rightarrow> duration \<Rightarrow> 'w \<Rightarrow> bool" where
  "gettoken_accepted cfg httpc w tok d w' \<longleftrightarrow>
     (case httpc (gettoken_request cfg) w of
        (Inl err, w1) \<Rightarrow> False
      | (Inr resp, w1) \<Rightarrow> w1 = w' \<and>
          (case gettoken_accept resp of
             Inl err \<Rightarrow> False
           | Inr out \<Rightarrow> tok = AccessToken out \<and> d = duration_seconds (default_expiry (ExpiresIn out))))"

lemma token_accept_nonempty: "token_accept resp = Inr out \<Longrightarrow> accessToken out \<noteq> []"
  by (auto simp: token_accept_def split: if_splits sum.splits)

lemma gettoken_accept_nonempty: "gettoken_accept resp = Inr out \<Longrightarrow> AccessToken out \<noteq> []"
  by (auto simp: gettoken_accept_def split: if_splits sum.splits)

lemma else_mono: "(if P then A else B) \<Longrightarrow> (B \<Longrightarrow> C) \<Longrightarrow> if P then A else C"
  by (simp split: if_splits)

lemma token_stored:
  "\<exists>d. token_accepted cfg httpc w tok d w' \<and> e = clock w' + d \<Longrightarrow>
   \<exists>resp out. httpc (token_request cfg) w = (Inr resp, w') \<and> resp_status resp = 200 \<and> resp_json resp = Inr out
     \<and> tok = accessToken out \<and> e = clock w' + duration_seconds (if expireIn out \<le> 0 then 7200 else expireIn out)"
proof (elim exE conjE)
  fix d
  assume d: "token_accepted cfg httpc w tok d w'" and e: "e = clock w' + d"
  obtain resp where h: "httpc (token_request cfg) w = (Inr resp, w')"
    and acc: "case token_accept resp of Inl _ \<Rightarrow> False
      | Inr out \<Rightarrow> tok = accessToken out \<and> d = duration_seconds (default_expiry (expireIn out))"
    using d unfolding token_accepted_def by (cases "httpc (token_request cfg) w") (auto split: sum.splits)
  then obtain out where "token_accept resp = Inr out" "tok = accessToken out" "d = duration_seconds (default_expiry (expireIn out))"
    by (auto split: sum.splits)
  then show ?thesis
    using h e unfolding default_expiry_def [symmetric] by (auto simp: token_accept_def split: if_splits sum.splits)
qed

lemma gettoken_stored:
  "\<exists>d. gettoken_accepted cfg httpc w tok d w' \<and> e = clock w' + d \<Longrightarrow>
   \<exists>resp out. httpc (gettoken_request cfg) w = (Inr resp, w') \<and> resp_json resp = Inr out
     \<and> ErrCode out = 0 \<and> tok = AccessToken out
     \<and> e = clock w' + duration_seconds (if ExpiresIn out \<le> 0 then 7200 else ExpiresIn out)"
proof (elim exE conjE)
  fix d
  assume d: "gettoken_accepted cfg httpc w tok d w'" and e: "e = clock w' + d"
  obtain resp where h: "httpc (gettoken_request cfg) w = (Inr resp, w')"
    and acc: "case gettoken_accept resp of Inl _ \<Rightarrow> False
      | Inr out \<Rightarrow> tok = AccessToken out \<and> d = duration_seconds (default_expiry (ExpiresIn out))"
    using d unfolding gettoken_accepted_def by (cases "httpc (gettoken_request cfg) w") (auto split: sum.splits)
  then obtain out where "gettoken_accept resp = Inr out" "tok = AccessToken out" "d = duration_seconds (default_expiry (ExpiresIn out))"
    by (auto split: sum.splits)
  then show ?thesis
    using h e unfolding default_expiry_def [symmetric] by (auto simp: gettoken_accept_def split: if_splits sum.splits)
qed

interpretation api_token: credential "Token_Get cfg httpc clock" clock "token_accepted cfg httpc"
  for cfg httpc clock
  by unfold_locales
    (auto simp: Token_Get_def token_accepted_def dest: token_accept_nonempty split: if_splits prod.splits sum.splits)

interpretation oapi_token: credential "getToken cfg httpc clock" clock "gettoken_accepted cfg httpc"
  for cfg httpc clock
  by unfold_locales
    (auto simp: getToken_def gettoken_accepted_def dest: gettoken_accept_nonempty split: if_splits prod.splits sum.splits)

section \<open>Properties\<close>

text \<open>
  C35. Both token providers. An error leaves the cache alone, so a token that is still good is not lost
  to a failed refresh, and it happens only when there was no good token. A token that is returned is not empty, is
  in the cache afterwards, and is either the cached one, more than 60 seconds before its expiry and without any request, or
  the one the server gave just now: at 60 seconds before the expiry, or without a token, the request is always
  made, and its answer is stored with the validity the server gave, or two hours. Until 60 seconds before
  the stored expiry every later call returns the token without touching the network.
\<close>

theorem tokens_cached:
  assumes "Token_Get cfg httpc clock w t = (r, t', w')" and "getToken cfg oapi clock v u = (q, u', v')"
  shows "(case r of
      Inl err \<Rightarrow> t' = t \<and> (token t = [] \<or> expiresAt t - 60 * Second \<le> clock w)
    | Inr tok \<Rightarrow> tok \<noteq> [] \<and> token t' = tok
        \<and> (if token t \<noteq> [] \<and> clock w < expiresAt t - 60 * Second then tok = token t \<and> t' = t \<and> w' = w
           else (\<exists>resp out. httpc (token_request cfg) w = (Inr resp, w') \<and> resp_status resp = 200 \<and> resp_json resp = Inr out
             \<and> tok = accessToken out
             \<and> expiresAt t' = clock w' + duration_seconds (if expireIn out \<le> 0 then 7200 else expireIn out)))
        \<and> (\<forall>w2. clock w2 < expiresAt t' - 60 * Second \<longrightarrow> Token_Get cfg httpc clock w2 t' = (Inr tok, t', w2)))
    \<and> (case q of
      Inl err \<Rightarrow> u' = u \<and> (token u = [] \<or> expiresAt u - 60 * Second \<le> clock v)
    | Inr tok \<Rightarrow> tok \<noteq> [] \<and> token u' = tok
        \<and> (if token u \<noteq> [] \<and> clock v < expiresAt u - 60 * Second then tok = token u \<and> u' = u \<and> v' = v
           else (\<exists>resp out. oapi (gettoken_request cfg) v = (Inr resp, v') \<and> resp_json resp = Inr out
             \<and> ErrCode out = 0 \<and> tok = AccessToken out
             \<and> expiresAt u' = clock v' + duration_seconds (if ExpiresIn out \<le> 0 then 7200 else ExpiresIn out)))
        \<and> (\<forall>v2. clock v2 < expiresAt u' - 60 * Second \<longrightarrow> getToken cfg oapi clock v2 u' = (Inr tok, u', v2)))"
proof (rule conjI)
  show "case r of
      Inl err \<Rightarrow> t' = t \<and> (token t = [] \<or> expiresAt t - 60 * Second \<le> clock w)
    | Inr tok \<Rightarrow> tok \<noteq> [] \<and> token t' = tok
        \<and> (if token t \<noteq> [] \<and> clock w < expiresAt t - 60 * Second then tok = token t \<and> t' = t \<and> w' = w
           else (\<exists>resp out. httpc (token_request cfg) w = (Inr resp, w') \<and> resp_status resp = 200 \<and> resp_json resp = Inr out
             \<and> tok = accessToken out
             \<and> expiresAt t' = clock w' + duration_seconds (if expireIn out \<le> 0 then 7200 else expireIn out)))
        \<and> (\<forall>w2. clock w2 < expiresAt t' - 60 * Second \<longrightarrow> Token_Get cfg httpc clock w2 t' = (Inr tok, t', w2))"
  proof (cases r)
    case Inl
    then show ?thesis using api_token.get_sourced [OF assms(1)] by simp
  next
    case (Inr tok)
    show ?thesis
      using api_token.get_sourced [OF assms(1), unfolded Inr sum.case]
      unfolding Inr sum.case by (elim conjE) (intro conjI; (assumption | erule else_mono, erule token_stored))
  qed
  show "case q of
      Inl err \<Rightarrow> u' = u \<and> (token u = [] \<or> expiresAt u - 60 * Second \<le> clock v)
    | Inr tok \<Rightarrow> tok \<noteq> [] \<and> token u' = tok
        \<and> (if token u \<noteq> [] \<and> clock v < expiresAt u - 60 * Second then tok = token u \<and> u' = u \<and> v' = v
           else (\<exists>resp out. oapi (gettoken_request cfg) v = (Inr resp, v') \<and> resp_json resp = Inr out
             \<and> ErrCode out = 0 \<and> tok = AccessToken out
             \<and> expiresAt u' = clock v' + duration_seconds (if ExpiresIn out \<le> 0 then 7200 else ExpiresIn out)))
        \<and> (\<forall>v2. clock v2 < expiresAt u' - 60 * Second \<longrightarrow> getToken cfg oapi clock v2 u' = (Inr tok, u', v2))"
  proof (cases q)
    case Inl
    then show ?thesis using oapi_token.get_sourced [OF assms(2)] by simp
  next
    case (Inr tok)
    show ?thesis
      using oapi_token.get_sourced [OF assms(2), unfolded Inr sum.case]
      unfolding Inr sum.case by (elim conjE) (intro conjI; (assumption | erule else_mono, erule gettoken_stored))
  qed
qed

text \<open>A server that answers every request after a second; the world is the clock.\<close>

definition demo_cfg :: Credentials where
  "demo_cfg = \<lparr>ClientID = ''id'', ClientSecret = ''s'', APIBase = ''a'', OapiBase = ''o''\<rparr>"

definition demo_server :: "'a \<Rightarrow> (time, 'a) http_client" where
  "demo_server out r w = (Inr \<lparr>resp_status = 200, resp_raw = [], resp_json = Inr out\<rparr>, w + Second)"

definition demo_tokens :: "(time, token_reply) http_client" where
  "demo_tokens = demo_server \<lparr>accessToken = ''T'', expireIn = 100\<rparr>"

definition broken_oapi :: "(time, oapi_reply) http_client" where
  "broken_oapi = demo_server \<lparr>ErrCode = 40001, ErrMsg = ''no'', AccessToken = [], ExpiresIn = 0\<rparr>"

lemma demo_get: "Token_Get demo_cfg demo_tokens (\<lambda>w. w) 0 no_token
    = (Inr ''T'', \<lparr>token = ''T'', expiresAt = 101 * Second\<rparr>, Second)"
  by (simp add: Token_Get_def demo_tokens_def demo_server_def token_fresh_def no_token_def token_accept_def
      default_expiry_def duration_seconds_id)

lemma broken_get: "\<exists>err. getToken demo_cfg broken_oapi (\<lambda>w. w) 0 no_token = (Inl err, no_token, Second)"
  by (simp add: getToken_def broken_oapi_def demo_server_def token_fresh_def no_token_def gettoken_accept_def)

theorem tokens_cached_witness:
  "Token_Get demo_cfg demo_tokens (\<lambda>w. w) (40 * Second) \<lparr>token = ''T'', expiresAt = 101 * Second\<rparr>
     = (Inr ''T'', \<lparr>token = ''T'', expiresAt = 101 * Second\<rparr>, 40 * Second)"
  using broken_get tokens_cached [OF demo_get] by fastforce

text \<open>The content type a caller gives for an upload has no effect.\<close>

lemma upload_ignores_content_type:
  "UploadMedia cfg http_token http_upload clock form mediaType filename contentType data w t
   = UploadMedia cfg http_token http_upload clock form mediaType filename contentType' data w t"
  by (simp add: UploadMedia_def)

end
