(* ===== verification/BotIdentity.thy ===== *)
theory BotIdentity
  imports Token Types
begin

text \<open>
  The robot's own identity, \<open>bot_identity.go\<close>: a cached value with a time to live, a minimal distance
  between a failed refresh and the next one, and the last known value as the fallback. \<open>Get\<close> takes the
  mutex twice; each critical section is a function of the provider, the token cache and the world.
\<close>

definition zero_instant :: time where "zero_instant = - 62135596800 * Second"

record bot_provider =
  identity :: "BotIdentity option"
  fetchedAt :: time
  lastFailureAt :: time
  cacheTTL :: duration
  MinRefreshInterval :: duration

definition newBotIdentityProvider :: bot_provider where
  "newBotIdentityProvider =
     \<lparr>identity = None, fetchedAt = zero_instant, lastFailureAt = zero_instant,
      cacheTTL = 30 * Minute, MinRefreshInterval = 1 * Minute\<rparr>"

definition isCacheFreshLocked :: "time \<Rightarrow> bot_provider \<Rightarrow> bool" where
  "isCacheFreshLocked now p \<longleftrightarrow>
     identity p \<noteq> None \<and> (cacheTTL p \<le> 0 \<or> time_sub now (fetchedAt p) < cacheTTL p)"

definition shouldThrottleRefreshLocked :: "time \<Rightarrow> bot_provider \<Rightarrow> bool" where
  "shouldThrottleRefreshLocked now p \<longleftrightarrow>
     lastFailureAt p \<noteq> zero_instant \<and> \<not> MinRefreshInterval p \<le> 0
     \<and> time_sub now (lastFailureAt p) < MinRefreshInterval p"

section \<open>Fetching\<close>

record robot_info =
  info_Code :: string
  info_Name :: string
  info_Avatar :: string

definition info_request :: "Credentials \<Rightarrow> string \<Rightarrow> request" where
  "info_request cfg tok =
     \<lparr>req_method = ''GET'', req_url = APIBase cfg @ ''/v1.0/robot/robotInfo'',
      req_headers = [(''x-acs-dingtalk-access-token'', tok)], req_body = []\<rparr>"

definition info_identity :: "Credentials \<Rightarrow> robot_info \<Rightarrow> BotIdentity" where
  "info_identity cfg r =
     \<lparr>RobotCode = (if info_Code r = [] then ClientID cfg else info_Code r),
      RobotName = (if info_Name r = [] then ''Bot'' else info_Name r), Avatar = info_Avatar r\<rparr>"

definition info_accept :: "Credentials \<Rightarrow> robot_info response \<Rightarrow> goerr + BotIdentity" where
  "info_accept cfg resp =
     (if resp_status resp \<noteq> 200
      then Inl (PlainErr (''robotInfo API failed: status='' @ format_int (resp_status resp) @ '' body='' @ resp_raw resp))
      else
        (case resp_json resp of
           Inl err \<Rightarrow> Inl (WrapErr ''unmarshal response: '' err)
         | Inr r \<Rightarrow> Inr (info_identity cfg r)))"

type_synonym 'w tokens = "'w \<Rightarrow> token_cache \<Rightarrow> (goerr + string) \<times> token_cache \<times> 'w"

text \<open>How the request ends: it cannot be built, it gets no answer, the body breaks off, or the answer is there.\<close>

datatype info_reply = NotCreated goerr | NotSent goerr | NotRead goerr | Answered "robot_info response"

type_synonym 'w info_client = "request \<Rightarrow> 'w \<Rightarrow> info_reply \<times> 'w"

definition info_result :: "Credentials \<Rightarrow> info_reply \<Rightarrow> goerr + BotIdentity" where
  "info_result cfg rep =
     (case rep of
        NotCreated err \<Rightarrow> Inl (WrapErr ''create request: '' err)
      | NotSent err \<Rightarrow> Inl (WrapErr ''do request: '' err)
      | NotRead err \<Rightarrow> Inl (WrapErr ''read body: '' err)
      | Answered resp \<Rightarrow> info_accept cfg resp)"

definition fetch ::
  "Credentials \<Rightarrow> 'w tokens \<Rightarrow> 'w info_client \<Rightarrow> 'w \<Rightarrow> token_cache
     \<Rightarrow> (goerr + BotIdentity) \<times> token_cache \<times> 'w" where
  "fetch cfg get_token httpc w t =
     (case get_token w t of
        (Inl err, t', w') \<Rightarrow> (Inl (WrapErr ''get token: '' err), t', w')
      | (Inr tok, t', w') \<Rightarrow>
          (case httpc (info_request cfg tok) w' of (rep, w'') \<Rightarrow> (info_result cfg rep, t', w'')))"

section \<open>Get\<close>

text \<open>The first critical section: the fast path.\<close>

definition get_cached :: "time \<Rightarrow> bot_provider \<Rightarrow> BotIdentity option" where
  "get_cached now p = (if isCacheFreshLocked now p then identity p else None)"

text \<open>The second: check again, throttle, fetch. \<open>fetcher\<close> is \<open>p.fetch\<close> on the token cache and the world.\<close>

definition get_refresh ::
  "('s \<Rightarrow> (goerr + BotIdentity) \<times> 's) \<Rightarrow> ('s \<Rightarrow> time) \<Rightarrow> bot_provider \<Rightarrow> 's
     \<Rightarrow> BotIdentity option \<times> bot_provider \<times> 's" where
  "get_refresh fetcher clock p s =
     (let now = clock s in
      if isCacheFreshLocked now p then (identity p, p, s)
      else if shouldThrottleRefreshLocked now p then (identity p, p, s)
      else
        (case fetcher s of
           (Inl err, s') \<Rightarrow> (identity p, p\<lparr>lastFailureAt := now\<rparr>, s')
         | (Inr ident, s') \<Rightarrow>
             (Some ident, p\<lparr>identity := Some ident, fetchedAt := clock s', lastFailureAt := zero_instant\<rparr>, s')))"

definition bot_Get ::
  "('s \<Rightarrow> (goerr + BotIdentity) \<times> 's) \<Rightarrow> ('s \<Rightarrow> time) \<Rightarrow> bot_provider \<Rightarrow> 's
     \<Rightarrow> BotIdentity option \<times> bot_provider \<times> 's" where
  "bot_Get fetcher clock p s =
     (case get_cached (clock s) p of
        Some ident \<Rightarrow> (Some ident, p, s)
      | None \<Rightarrow> get_refresh fetcher clock p s)"

text \<open>The fetcher of the code, over the token cache and the world.\<close>

definition fetcher_of ::
  "Credentials \<Rightarrow> 'w tokens \<Rightarrow> 'w info_client \<Rightarrow> token_cache \<times> 'w
     \<Rightarrow> (goerr + BotIdentity) \<times> token_cache \<times> 'w" where
  "fetcher_of cfg get_token httpc = (\<lambda>(t, w). fetch cfg get_token httpc w t)"

section \<open>Lemmas\<close>

definition bot_known :: "bot_provider \<Rightarrow> bool" where
  "bot_known p \<longleftrightarrow> identity p \<noteq> None"

lemma get_fresh: "isCacheFreshLocked (clock s) p \<Longrightarrow> bot_Get fetcher clock p s = (identity p, p, s)"
  by (auto simp: bot_Get_def get_cached_def isCacheFreshLocked_def)

lemma get_stale: "\<not> isCacheFreshLocked (clock s) p \<Longrightarrow>
  bot_Get fetcher clock p s =
    (if shouldThrottleRefreshLocked (clock s) p then (identity p, p, s)
     else
       (case fetcher s of
          (Inl err, s') \<Rightarrow> (identity p, p\<lparr>lastFailureAt := clock s\<rparr>, s')
        | (Inr ident, s') \<Rightarrow>
            (Some ident, p\<lparr>identity := Some ident, fetchedAt := clock s', lastFailureAt := zero_instant\<rparr>, s')))"
  by (simp add: bot_Get_def get_cached_def get_refresh_def Let_def)

lemma identity_kept: "bot_Get fetcher clock p s = (r, p', s') \<Longrightarrow> identity p' = r"
  by (cases "isCacheFreshLocked (clock s) p")
    (auto simp: get_fresh get_stale split: if_splits prod.splits sum.splits)

section \<open>Properties\<close>

text \<open>
  The identity cache. A known identity is never lost to a failed refresh. A success is served for
  the time to live without another request, a failure is not retried before the minimal interval is
  over, and meanwhile the last known identity is served; no such call changes anything.
\<close>

theorem bot_identity_cached:
  assumes "bot_Get fetcher clock p s = (r, p', s')" and "clock s \<noteq> zero_instant" and "0 < MinRefreshInterval p"
  shows "(identity p \<noteq> None \<longrightarrow> r \<noteq> None) \<and> identity p' = r
    \<and> (\<forall>s2. p' \<noteq> p \<and> r \<noteq> None \<and> lastFailureAt p' = zero_instant \<and> time_sub (clock s2) (clock s') < cacheTTL p
         \<longrightarrow> bot_Get fetcher clock p' s2 = (r, p', s2))
    \<and> (\<forall>s2. p' \<noteq> p \<and> lastFailureAt p' \<noteq> zero_instant \<and> time_sub (clock s2) (clock s) < MinRefreshInterval p
         \<longrightarrow> bot_Get fetcher clock p' s2 = (r, p', s2))"
proof (cases "isCacheFreshLocked (clock s) p \<or> shouldThrottleRefreshLocked (clock s) p")
  case True
  then have "r = identity p" "p' = p"
    using assms(1) by (cases "isCacheFreshLocked (clock s) p"; auto simp: get_fresh get_stale)+
  then show ?thesis by simp
next
  case False
  show ?thesis
  proof (cases "fetcher s")
    case (Pair res s1)
    show ?thesis
    proof (cases res)
      case (Inl err)
      then have eqs: "r = identity p" "p' = p\<lparr>lastFailureAt := clock s\<rparr>" "s' = s1"
        using assms(1) False Pair by (auto simp: get_stale)
      have "bot_Get fetcher clock p' s2 = (r, p', s2)" if "time_sub (clock s2) (clock s) < MinRefreshInterval p" for s2
      proof (cases "isCacheFreshLocked (clock s2) p'")
        case False
        have "shouldThrottleRefreshLocked (clock s2) p'"
          using that assms(2,3) by (simp add: eqs shouldThrottleRefreshLocked_def)
        then show ?thesis using eqs get_stale [of clock s2 p' fetcher] False by simp
      qed (simp add: get_fresh eqs)
      then show ?thesis using eqs assms(2) by simp
    next
      case (Inr ident)
      then have eqs: "r = Some ident" "s' = s1"
        "p' = p\<lparr>identity := Some ident, fetchedAt := clock s1, lastFailureAt := zero_instant\<rparr>"
        using assms(1) False Pair by (auto simp: get_stale)
      have "isCacheFreshLocked (clock s2) p'" if "time_sub (clock s2) (clock s1) < cacheTTL p" for s2
        using that by (simp add: eqs isCacheFreshLocked_def)
      then show ?thesis using eqs by (auto simp: get_fresh)
    qed
  qed
qed

definition demo_fetcher :: "time \<Rightarrow> (goerr + BotIdentity) \<times> time" where
  "demo_fetcher s = (Inr \<lparr>RobotCode = ''r'', RobotName = ''Bot'', Avatar = []\<rparr>, s + Second)"

lemma demo_identity:
  "bot_Get demo_fetcher (\<lambda>s. s) newBotIdentityProvider 0 =
     (Some \<lparr>RobotCode = ''r'', RobotName = ''Bot'', Avatar = []\<rparr>,
      newBotIdentityProvider\<lparr>identity := Some \<lparr>RobotCode = ''r'', RobotName = ''Bot'', Avatar = []\<rparr>, fetchedAt := Second\<rparr>,
      Second)"
  by (simp add: bot_Get_def get_cached_def get_refresh_def newBotIdentityProvider_def demo_fetcher_def
      isCacheFreshLocked_def shouldThrottleRefreshLocked_def)

theorem bot_identity_cached_witness:
  "fst (bot_Get demo_fetcher (\<lambda>s. s)
     (newBotIdentityProvider\<lparr>identity := Some \<lparr>RobotCode = ''r'', RobotName = ''Bot'', Avatar = []\<rparr>, fetchedAt := Second\<rparr>)
     (29 * Minute)) = Some \<lparr>RobotCode = ''r'', RobotName = ''Bot'', Avatar = []\<rparr>"
proof -
  have clock: "(\<lambda>s. s) (0 :: time) \<noteq> zero_instant" by (simp add: zero_instant_def)
  have pos: "0 < MinRefreshInterval newBotIdentityProvider" by (simp add: newBotIdentityProvider_def)
  from bot_identity_cached [OF demo_identity clock pos, THEN conjunct2, THEN conjunct2, THEN conjunct1, rule_format, of "29 * Minute"]
  show ?thesis by (simp add: newBotIdentityProvider_def time_sub_def min_int64_def)
qed

end
