(* ===== verification/Cooldown.thy ===== *)
theory Cooldown
  imports TtlGate
begin

text \<open>
  The cooldown of the fallback texts, \<open>errorCooldownPass\<close> of \<open>reply.go\<close>: one text per conversation
  and window. The table is global; when it has more than 4096 conversations it is emptied. It is an
  association list with distinct keys, so its length is the \<open>len\<close> of the map.
\<close>

type_synonym cooldown_table = "(string \<times> time) list"

definition errorCooldownPass :: "duration \<Rightarrow> time \<Rightarrow> string \<Rightarrow> cooldown_table \<Rightarrow> bool \<times> cooldown_table" where
  "errorCooldownPass cooldown now key tbl =
     (if cooldown \<le> 0 then (True, tbl)
      else if (case map_of tbl key of None \<Rightarrow> False | Some t \<Rightarrow> time_sub now t < cooldown) then (False, tbl)
      else (True, AList.update key now (if 4096 < length tbl then [] else tbl)))"

definition cooling :: "duration \<Rightarrow> cooldown_table \<Rightarrow> time \<Rightarrow> string \<Rightarrow> bool" where
  "cooling cooldown tbl now key \<longleftrightarrow>
     0 < cooldown \<and> (case map_of tbl key of None \<Rightarrow> False | Some t \<Rightarrow> time_sub now t < cooldown)"

definition cooldown_window :: "duration \<Rightarrow> cooldown_table \<Rightarrow> time \<Rightarrow> time \<Rightarrow> bool" where
  "cooldown_window cooldown tbl now now' \<longleftrightarrow> 0 < cooldown \<and> time_sub now' now < cooldown"

interpretation cooldown: ttl_gate "errorCooldownPass d" "cooling d" "cooldown_window d"
  for d
  by unfold_locales
    (auto simp: errorCooldownPass_def cooling_def cooldown_window_def update_conv' split: option.splits if_splits)

text \<open>The table stays a map, and does not grow past 4097 entries.\<close>

lemma cooldown_distinct:
  "distinct (map fst tbl) \<Longrightarrow> distinct (map fst (snd (errorCooldownPass d now key tbl)))"
  by (simp add: errorCooldownPass_def distinct_update split: option.splits)

lemma length_update: "length (AList.update k v xs) \<le> Suc (length xs)"
  by (induction xs) auto

lemma cooldown_bounded:
  "length tbl \<le> 4097 \<Longrightarrow> length (snd (errorCooldownPass d now key tbl)) \<le> 4097"
  using length_update [of key now tbl] by (auto simp: errorCooldownPass_def split: option.splits)

text \<open>
  A conversation that got its text gets no other within the window, through the texts of other
  conversations, unless the table overflowed in between.
\<close>

fun cooldown_calls :: "duration \<Rightarrow> (time \<times> string) list \<Rightarrow> cooldown_table \<Rightarrow> cooldown_table" where
  "cooldown_calls d [] tbl = tbl"
| "cooldown_calls d ((now, key) # cs) tbl = cooldown_calls d cs (snd (errorCooldownPass d now key tbl))"

lemma cooldown_entry_kept:
  assumes "map_of tbl k = Some t" and "length tbl + length cs \<le> 4096" and "k \<notin> snd ` set cs"
  shows "map_of (cooldown_calls d cs tbl) k = Some t"
  using assms
proof (induction cs arbitrary: tbl)
  case (Cons c cs)
  obtain now key where c: "c = (now, key)" by fastforce
  let ?l = "snd (errorCooldownPass d now key tbl)"
  have "map_of ?l k = Some t" "length ?l \<le> Suc (length tbl)"
    using Cons.prems c length_update [of key now tbl]
    by (auto simp: errorCooldownPass_def update_conv' split: option.splits)
  with Cons show ?case by (simp add: c)
qed simp

end
