(* ===== verification/SSRFGuard.thy ===== *)
theory SSRFGuard
  imports Errors
begin

text \<open>
  The guard against requests to internal hosts, \<open>internal/safety/ssrf_guard.go\<close>. Addresses are machine
  words: 32 bits for the 4-byte form of \<open>net.IP\<close>, 128 bits for the 16-byte form. The parsers of the
  standard library (\<open>url.Parse\<close>, \<open>net.ParseIP\<close>) and the resolver are arguments; what the guard does with
  their results is modelled.
\<close>

unbundle bit_operations_syntax

section \<open>Addresses\<close>

datatype ip = V4 "32 word" | V6 "128 word"

text \<open>\<open>ip.To4()\<close>: a 16-byte address of the form \<open>::ffff:a.b.c.d\<close> is an IPv4 address.\<close>

fun To4 :: "ip \<Rightarrow> 32 word option" where
  "To4 (V4 w) = Some w"
| "To4 (V6 w) = (if drop_bit 32 w = 0xFFFF then Some (ucast w) else None)"

definition ip_byte :: "128 word \<Rightarrow> nat \<Rightarrow> nat" where
  "ip_byte w i = unat w div 2 ^ (8 * (15 - i)) mod 256"

definition ip_group :: "128 word \<Rightarrow> nat \<Rightarrow> nat" where
  "ip_group w i = unat w div 2 ^ (16 * (7 - i)) mod 65536"

definition byte4 :: "32 word \<Rightarrow> nat \<Rightarrow> nat" where
  "byte4 w i = unat w div 2 ^ (8 * (3 - i)) mod 256"

text \<open>The tests of \<open>net.IP\<close>: on the IPv4 form when there is one, on the 16 bytes otherwise.\<close>

definition IsUnspecified :: "ip \<Rightarrow> bool" where
  "IsUnspecified ip \<longleftrightarrow> (case To4 ip of Some w \<Rightarrow> w = 0 | None \<Rightarrow> ip = V6 0)"

definition IsLoopback :: "ip \<Rightarrow> bool" where
  "IsLoopback ip \<longleftrightarrow> (case To4 ip of Some w \<Rightarrow> byte4 w 0 = 127 | None \<Rightarrow> ip = V6 1)"

fun bytes6 :: "ip \<Rightarrow> nat \<Rightarrow> nat" where
  "bytes6 (V6 w) i = ip_byte w i"
| "bytes6 (V4 w) i = 0"

definition IsPrivate :: "ip \<Rightarrow> bool" where
  "IsPrivate ip \<longleftrightarrow>
     (case To4 ip of
        Some w \<Rightarrow> byte4 w 0 = 10 \<or> (byte4 w 0 = 172 \<and> byte4 w 1 div 16 = 1) \<or> (byte4 w 0 = 192 \<and> byte4 w 1 = 168)
      | None \<Rightarrow> bytes6 ip 0 div 2 = 0x7E)"

definition IsMulticast :: "ip \<Rightarrow> bool" where
  "IsMulticast ip \<longleftrightarrow> (case To4 ip of Some w \<Rightarrow> byte4 w 0 div 16 = 14 | None \<Rightarrow> bytes6 ip 0 = 0xFF)"

definition IsLinkLocalMulticast :: "ip \<Rightarrow> bool" where
  "IsLinkLocalMulticast ip \<longleftrightarrow>
     (case To4 ip of
        Some w \<Rightarrow> byte4 w 0 = 224 \<and> byte4 w 1 = 0 \<and> byte4 w 2 = 0
      | None \<Rightarrow> bytes6 ip 0 = 0xFF \<and> bytes6 ip 1 mod 16 = 2)"

definition IsLinkLocalUnicast :: "ip \<Rightarrow> bool" where
  "IsLinkLocalUnicast ip \<longleftrightarrow>
     (case To4 ip of
        Some w \<Rightarrow> byte4 w 0 = 169 \<and> byte4 w 1 = 254
      | None \<Rightarrow> bytes6 ip 0 = 0xFE \<and> bytes6 ip 1 div 64 = 2)"

section \<open>Printing an address\<close>

definition hex_char :: "nat \<Rightarrow> char" where
  "hex_char n = (if n < 10 then char_of (48 + n) else char_of (87 + n))"

fun hex_digits :: "nat \<Rightarrow> string" where
  "hex_digits n = (if n < 16 then [hex_char n] else hex_digits (n div 16) @ [hex_char (n mod 16)])"

declare hex_digits.simps [simp del]

definition zero_run :: "nat list \<Rightarrow> nat \<Rightarrow> nat" where
  "zero_run gs i = length (takeWhile (\<lambda>g. g = 0) (drop i gs))"

text \<open>The first longest run of at least two zero groups, which is printed as two colons.\<close>

definition best_run :: "nat list \<Rightarrow> (nat \<times> nat) option" where
  "best_run gs = foldl (\<lambda>best i.
     let l = zero_run gs i in
     if 2 \<le> l \<and> (case best of None \<Rightarrow> True | Some (s, e) \<Rightarrow> e - s < l) then Some (i, i + l) else best) None [0..<8]"

definition ip6_string :: "128 word \<Rightarrow> string" where
  "ip6_string w =
     (let gs = map (ip_group w) [0..<8] in
      case best_run gs of
        None \<Rightarrow> str_join '':'' (map hex_digits gs)
      | Some (s, e) \<Rightarrow>
          str_join '':'' (map hex_digits (take s gs)) @ ''::'' @ str_join '':'' (map hex_digits (drop e gs)))"

definition ip4_string :: "32 word \<Rightarrow> string" where
  "ip4_string w = str_join ''.'' (map (\<lambda>i. format_int (int (byte4 w i))) [0..<4])"

definition ip_string :: "ip \<Rightarrow> string" where
  "ip_string ip =
     (case To4 ip of
        Some w \<Rightarrow> ip4_string w
      | None \<Rightarrow> (case ip of V6 w \<Rightarrow> ip6_string w | V4 w \<Rightarrow> ip4_string w))"

section \<open>The guard\<close>

text \<open>The blocked networks, address and prefix length.\<close>

definition addr4 :: "nat \<Rightarrow> nat \<Rightarrow> nat \<Rightarrow> nat \<Rightarrow> 32 word" where
  "addr4 a b c d = of_nat (a * 16777216 + b * 65536 + c * 256 + d)"

definition blockedV4Blocks :: "(32 word \<times> nat) list" where
  "blockedV4Blocks =
     [(addr4 0 0 0 0, 8), (addr4 10 0 0 0, 8), (addr4 127 0 0 0, 8), (addr4 169 254 0 0, 16),
      (addr4 172 16 0 0, 12), (addr4 192 168 0 0, 16), (addr4 100 64 0 0, 10),
      (addr4 192 0 0 0, 24), (addr4 192 0 2 0, 24), (addr4 198 18 0 0, 15),
      (addr4 198 51 100 0, 24), (addr4 203 0 113 0, 24), (addr4 224 0 0 0, 4), (addr4 240 0 0 0, 4)]"

definition net_mask :: "nat \<Rightarrow> 32 word" where
  "net_mask n = push_bit (32 - n) (- 1)"

definition net_contains :: "32 word \<times> nat \<Rightarrow> 32 word \<Rightarrow> bool" where
  "net_contains block w \<longleftrightarrow> fst block AND net_mask (snd block) = w AND net_mask (snd block)"

definition ipv4Blocked :: "32 word \<Rightarrow> bool" where
  "ipv4Blocked w \<longleftrightarrow> (\<exists>block \<in> set blockedV4Blocks. net_contains block w)"

definition ipv6Blocked :: "ip \<Rightarrow> bool" where
  "ipv6Blocked ip \<longleftrightarrow>
     (if IsLoopback ip \<or> IsUnspecified ip \<or> IsLinkLocalUnicast ip \<or> IsLinkLocalMulticast ip \<or> IsPrivate ip
         \<or> IsMulticast ip then True
      else
        (case To4 ip of
           Some w \<Rightarrow> ipv4Blocked w
         | None \<Rightarrow>
             let lower = to_lower (ip_string ip) in
             has_prefix lower ''fe80:'' \<or> has_prefix lower ''fc'' \<or> has_prefix lower ''fd'' \<or> has_prefix lower ''ff''))"

definition hostAllowed :: "string \<Rightarrow> string list \<Rightarrow> bool" where
  "hostAllowed host allowlist =
     (if allowlist = [] \<or> host = [] then False
      else
        let h = to_lower (trim_suffix host ''.'') in
        \<exists>e0 \<in> set allowlist.
          let e = to_lower (trim_suffix e0 ''.'') in
          h = e \<or> (has_prefix e ''*.'' \<and> has_suffix h (drop 1 e)))"

record parsed_url =
  Scheme :: string
  Hostname :: string

definition ssrf_error :: "string \<Rightarrow> goerr" where
  "ssrf_error msg = ChannelErr ErrCodeSSRFBlocked msg None"

definition ip_blocked :: "ip \<Rightarrow> bool" where
  "ip_blocked ip \<longleftrightarrow> (case To4 ip of Some w \<Rightarrow> ipv4Blocked w | None \<Rightarrow> ipv6Blocked ip)"

fun first_blocked :: "ip list \<Rightarrow> goerr option" where
  "first_blocked [] = None"
| "first_blocked (ip # ips) = (if ip_blocked ip then Some (ssrf_error (ip_string ip)) else first_blocked ips)"

definition AssertPublicURLWithAllowlist ::
  "(string \<Rightarrow> goerr + parsed_url) \<Rightarrow> (string \<Rightarrow> ip option) \<Rightarrow> (string \<Rightarrow> goerr + ip list) \<Rightarrow> string \<Rightarrow> string list
     \<Rightarrow> goerr option" where
  "AssertPublicURLWithAllowlist parse parse_ip lookup u allowlist =
     (case parse u of
        Inl err \<Rightarrow> Some (ssrf_error ''invalid url'')
      | Inr url \<Rightarrow>
          if Scheme url \<noteq> ''http'' \<and> Scheme url \<noteq> ''https'' then Some (ssrf_error (''protocol '' @ Scheme url))
          else if hostAllowed (Hostname url) allowlist then None
          else
            (case parse_ip (Hostname url) of
               Some ip \<Rightarrow> first_blocked [ip]
             | None \<Rightarrow>
                 (case lookup (Hostname url) of
                    Inl err \<Rightarrow> Some (ssrf_error (''dns lookup failed: '' @ Error err))
                  | Inr ips \<Rightarrow> first_blocked ips)))"

definition AssertPublicURL ::
  "(string \<Rightarrow> goerr + parsed_url) \<Rightarrow> (string \<Rightarrow> ip option) \<Rightarrow> (string \<Rightarrow> goerr + ip list) \<Rightarrow> string
     \<Rightarrow> goerr option" where
  "AssertPublicURL parse parse_ip lookup u = AssertPublicURLWithAllowlist parse parse_ip lookup u []"

section \<open>Networks are ranges of addresses\<close>

lemma masked_eq_iff:
  fixes a b :: "32 word"
  assumes "n \<le> 32"
  shows "a AND net_mask n = b AND net_mask n \<longleftrightarrow> drop_bit (32 - n) a = drop_bit (32 - n) b"
proof
  assume eq: "a AND net_mask n = b AND net_mask n"
  show "drop_bit (32 - n) a = drop_bit (32 - n) b"
  proof (rule bit_word_eqI)
    fix i
    have "bit (a AND net_mask n) (32 - n + i) = bit (b AND net_mask n) (32 - n + i)" using eq by simp
    then show "bit (drop_bit (32 - n) a) i = bit (drop_bit (32 - n) b) i"
      by (auto simp: bit_simps net_mask_def dest: bit_imp_le_length)
  qed
next
  assume eq: "drop_bit (32 - n) a = drop_bit (32 - n) b"
  show "a AND net_mask n = b AND net_mask n"
  proof (rule bit_word_eqI)
    fix i
    have "bit (drop_bit (32 - n) a) (i - (32 - n)) = bit (drop_bit (32 - n) b) (i - (32 - n))" using eq by simp
    then show "bit (a AND net_mask n) i = bit (b AND net_mask n) i"
      by (cases "32 - n \<le> i") (auto simp: bit_simps net_mask_def)
  qed
qed

lemma net_contains_div:
  assumes "n \<le> 32"
  shows "net_contains (a, n) w \<longleftrightarrow> unat a div 2 ^ (32 - n) = unat w div 2 ^ (32 - n)"
  unfolding net_contains_def fst_conv snd_conv masked_eq_iff [OF assms, of a w]
  unfolding word_unat_eq_iff unat_drop_bit_eq by (simp add: drop_bit_eq_div)

definition dotted :: "nat \<Rightarrow> nat \<Rightarrow> nat \<Rightarrow> nat \<Rightarrow> nat" where
  "dotted a b c d = a * 16777216 + b * 65536 + c * 256 + d"

definition reserved4 :: "(nat \<times> nat) list" where
  "reserved4 =
     [(dotted 0 0 0 0, dotted 0 255 255 255), (dotted 10 0 0 0, dotted 10 255 255 255),
      (dotted 127 0 0 0, dotted 127 255 255 255), (dotted 169 254 0 0, dotted 169 254 255 255),
      (dotted 172 16 0 0, dotted 172 31 255 255), (dotted 192 168 0 0, dotted 192 168 255 255),
      (dotted 100 64 0 0, dotted 100 127 255 255), (dotted 192 0 0 0, dotted 192 0 0 255),
      (dotted 192 0 2 0, dotted 192 0 2 255), (dotted 198 18 0 0, dotted 198 19 255 255),
      (dotted 198 51 100 0, dotted 198 51 100 255), (dotted 203 0 113 0, dotted 203 0 113 255),
      (dotted 224 0 0 0, dotted 239 255 255 255), (dotted 240 0 0 0, dotted 255 255 255 255)]"

definition in_ranges :: "(nat \<times> nat) list \<Rightarrow> nat \<Rightarrow> bool" where
  "in_ranges rs n \<longleftrightarrow> (\<exists>(lo, hi) \<in> set rs. lo \<le> n \<and> n \<le> hi)"

lemma div_eq_range:
  fixes c n k :: nat
  assumes "0 < k"
  shows "c = n div k \<longleftrightarrow> c * k \<le> n \<and> n \<le> c * k + (k - 1)"
proof
  assume c: "c = n div k"
  have "n = n div k * k + n mod k" "n mod k < k" using assms by simp_all
  then show "c * k \<le> n \<and> n \<le> c * k + (k - 1)" unfolding c by linarith
next
  assume "c * k \<le> n \<and> n \<le> c * k + (k - 1)"
  then have "n div k = c" using assms by (intro div_nat_eqI) (auto simp: mult.commute)
  then show "c = n div k" ..
qed

lemma blocked4_ranges: "ipv4Blocked w \<longleftrightarrow> in_ranges reserved4 (unat w)"
  by (simp add: ipv4Blocked_def blockedV4Blocks_def net_contains_div addr4_def unat_of_nat div_eq_range
      in_ranges_def reserved4_def dotted_def disj_ac)

section \<open>Which IPv6 addresses are blocked\<close>

text \<open>The first 16 bits of the address.\<close>

definition reserved6 :: "128 word \<Rightarrow> bool" where
  "reserved6 w \<longleftrightarrow> w = 0 \<or> w = 1 \<or> (0xFE80 \<le> ip_group w 0 \<and> ip_group w 0 \<le> 0xFEBF)
     \<or> (0xFC00 \<le> ip_group w 0 \<and> ip_group w 0 \<le> 0xFDFF) \<or> 0xFF00 \<le> ip_group w 0"

text \<open>Groups that are only printed like a reserved prefix.\<close>

definition lookalike6 :: "128 word \<Rightarrow> bool" where
  "lookalike6 w \<longleftrightarrow> (let g = ip_group w 0 in
     g \<in> {0xFC, 0xFD, 0xFF} \<or> (0xFC0 \<le> g \<and> g \<le> 0xFDF) \<or> (0xFF0 \<le> g \<and> g \<le> 0xFFF))"

lemma unat_bound128: "unat (w :: 128 word) < 2 ^ 128"
  using unsigned_less [of w] by simp

lemma group0: "ip_group w 0 = unat w div 2 ^ 112" "ip_group w 0 < 65536"
proof -
  have "unat w div 2 ^ 112 < 65536" using unat_bound128 [of w] by (simp add: less_mult_imp_div_less)
  then show "ip_group w 0 = unat w div 2 ^ 112" "ip_group w 0 < 65536" by (simp_all add: ip_group_def)
qed

lemma bytes_of_group: "ip_byte w 0 = ip_group w 0 div 256" "ip_byte w 1 = ip_group w 0 mod 256"
proof -
  have "unat w div 2 ^ 120 = unat w div 2 ^ 112 div 256" by (simp add: div_mult2_eq flip: div_mult2_eq)
  moreover have "unat w div 2 ^ 112 div 256 < 256" using group0 [of w] by (simp add: less_mult_imp_div_less)
  ultimately show "ip_byte w 0 = ip_group w 0 div 256" by (simp add: ip_byte_def group0(1))
  show "ip_byte w 1 = ip_group w 0 mod 256" by (simp add: ip_byte_def group0(1))
qed

section \<open>The printed form\<close>

lemma foldl_invariant:
  "P a \<Longrightarrow> (\<And>a x. P a \<Longrightarrow> x \<in> set xs \<Longrightarrow> P (f a x)) \<Longrightarrow> P (foldl f a xs)"
  by (induction xs arbitrary: a) auto

lemma best_run_zero: "best_run gs = Some (s, e) \<Longrightarrow> 2 \<le> zero_run gs s"
proof -
  let ?f = "\<lambda>best i. let l = zero_run gs i in
     if 2 \<le> l \<and> (case best of None \<Rightarrow> True | Some (s, e) \<Rightarrow> e - s < l) then Some (i, i + l) else best"
  have "case foldl ?f None [0..<8] of None \<Rightarrow> True | Some (s, e) \<Rightarrow> 2 \<le> zero_run gs s"
    by (rule foldl_invariant) (auto simp: Let_def split: if_splits)
  moreover assume "best_run gs = Some (s, e)"
  ultimately show ?thesis by (simp add: best_run_def)
qed

lemma printed_group:
  assumes "ip_group w 0 \<noteq> 0"
  shows "\<exists>rest. ip6_string w = hex_digits (ip_group w 0) @ CHR '':'' # rest"
proof -
  define gs where "gs = map (ip_group w) [0..<8]"
  have gs: "gs = ip_group w 0 # map (ip_group w) [1..<8]" "length gs = 8"
    by (simp_all add: gs_def upt_conv_Cons)
  show ?thesis
  proof (cases "best_run gs")
    case None
    then show ?thesis
      using gs(1) by (simp add: ip6_string_def gs_def [symmetric] upt_conv_Cons)
  next
    case (Some r)
    obtain s e where r: "r = (s, e)" by fastforce
    have "zero_run gs 0 = 0" using gs(1) assms by (simp add: zero_run_def)
    then have "s \<noteq> 0" using best_run_zero [of gs s e] Some r by (cases s) auto
    then obtain s' where "take s gs = ip_group w 0 # take s' (map (ip_group w) [1..<8])"
      using gs(1) by (cases s) auto
    then show ?thesis
      using Some r by (cases "take s' (map (ip_group w) [1..<8])")
        (simp_all add: ip6_string_def gs_def [symmetric])
  qed
qed

lemma printed_zero_group:
  assumes "ip_group w 0 = 0"
  shows "\<exists>c rest. ip6_string w = c # rest \<and> c \<in> {CHR '':'', CHR ''0''}"
proof -
  define gs where "gs = map (ip_group w) [0..<8]"
  have gs: "gs = 0 # map (ip_group w) [1..<8]"
    by (simp add: gs_def upt_conv_Cons assms)
  have h: "hex_digits 0 = ''0''" 
    by (simp add: hex_digits.simps [of 0] hex_char_def) (simp add: char_of_def bit_iff_odd)
  have zero: "\<exists>rest. str_join '':'' (map hex_digits (0 # ns)) @ t = CHR ''0'' # rest" for ns t
    by (cases ns) (simp_all add: h)
  show ?thesis
  proof (cases "best_run gs")
    case None
    then show ?thesis
      using zero [of "map (ip_group w) [1..<8]" "[]"] by (auto simp: ip6_string_def gs_def [symmetric] gs)
  next
    case (Some r)
    obtain s e where r: "r = (s, e)" by fastforce
    show ?thesis
    proof (cases s)
      case 0
      then show ?thesis using Some r by (simp add: ip6_string_def gs_def [symmetric])
    next
      case (Suc s')
      then have "take s gs = 0 # take s' (map (ip_group w) [1..<8])" by (simp add: gs)
      then obtain rest where
        "str_join '':'' (map hex_digits (take s gs)) @ ''::'' @ str_join '':'' (map hex_digits (drop e gs)) = CHR ''0'' # rest"
        using zero by metis
      then show ?thesis by (simp add: Some r ip6_string_def gs_def [symmetric])
    qed
  qed
qed

lemma hex_digits_expand:
  "n < 16 \<Longrightarrow> hex_digits n = [hex_char n]"
  "16 \<le> n \<Longrightarrow> n < 256 \<Longrightarrow> hex_digits n = [hex_char (n div 16), hex_char (n mod 16)]"
  "256 \<le> n \<Longrightarrow> n < 4096 \<Longrightarrow> hex_digits n = [hex_char (n div 256), hex_char (n div 16 mod 16), hex_char (n mod 16)]"
  "4096 \<le> n \<Longrightarrow> n < 65536 \<Longrightarrow> hex_digits n =
     [hex_char (n div 4096), hex_char (n div 256 mod 16), hex_char (n div 16 mod 16), hex_char (n mod 16)]"
proof -
  show 1: "hex_digits n = [hex_char n]" if "n < 16" for n using that by (simp add: hex_digits.simps)
  show 2: "hex_digits n = [hex_char (n div 16), hex_char (n mod 16)]" if "16 \<le> n" "n < 256" for n
    using that 1 [of "n div 16"] by (simp add: hex_digits.simps [of n] less_mult_imp_div_less)
  show 3: "hex_digits n = [hex_char (n div 256), hex_char (n div 16 mod 16), hex_char (n mod 16)]"
    if "256 \<le> n" "n < 4096" for n
    using that 2 [of "n div 16"] by (simp add: hex_digits.simps [of n] less_mult_imp_div_less div_le_mono [of 256 n 16, simplified] flip: div_mult2_eq)
  show "hex_digits n = [hex_char (n div 4096), hex_char (n div 256 mod 16), hex_char (n div 16 mod 16), hex_char (n mod 16)]"
    if "4096 \<le> n" "n < 65536"
    using that 3 [of "n div 16"] by (simp add: hex_digits.simps [of n] less_mult_imp_div_less div_le_mono [of 4096 n 16, simplified] flip: div_mult2_eq)
qed

lemma hex_char_eqs:
  assumes "n < 16"
  shows "hex_char n = CHR ''f'' \<longleftrightarrow> n = 15" "hex_char n = CHR ''c'' \<longleftrightarrow> n = 12" "hex_char n = CHR ''d'' \<longleftrightarrow> n = 13"
    "hex_char n = CHR ''e'' \<longleftrightarrow> n = 14" "hex_char n = CHR ''8'' \<longleftrightarrow> n = 8" "hex_char n = CHR ''0'' \<longleftrightarrow> n = 0"
    "to_lower_char (hex_char n) = hex_char n"
proof -
  have code: "of_char (hex_char n) = (if n < 10 then 48 + n else 87 + n)"
    using assms by (simp add: hex_char_def)
  have eq: "hex_char n = c \<longleftrightarrow> of_char (hex_char n) = (of_char c :: nat)" for c by simp
  show "hex_char n = CHR ''f'' \<longleftrightarrow> n = 15" "hex_char n = CHR ''c'' \<longleftrightarrow> n = 12" "hex_char n = CHR ''d'' \<longleftrightarrow> n = 13"
    "hex_char n = CHR ''e'' \<longleftrightarrow> n = 14" "hex_char n = CHR ''8'' \<longleftrightarrow> n = 8" "hex_char n = CHR ''0'' \<longleftrightarrow> n = 0"
    unfolding eq code by auto
  show "to_lower_char (hex_char n) = hex_char n"
    unfolding to_lower_char_def code by (simp add: Let_def)
qed

lemma to_lower_Cons: "to_lower (c # cs) = to_lower_char c # to_lower cs"
  by (simp add: to_lower_def)

lemma lower_colon: "to_lower_char (CHR '':'') = CHR '':''"
  by (simp add: to_lower_char_def)

definition listed_prefix :: "string \<Rightarrow> bool" where
  "listed_prefix s \<longleftrightarrow> has_prefix s ''fe80:'' \<or> has_prefix s ''fc'' \<or> has_prefix s ''fd'' \<or> has_prefix s ''ff''"

lemma prefix_byte: "h < 256 \<Longrightarrow> h div 16 = 15 \<and> h mod 16 \<in> {12, 13, 15} \<longleftrightarrow> h \<in> {0xFC, 0xFD, 0xFF}" for h :: nat
  unfolding insert_iff empty_iff by presburger

lemma listed_prefix_group:
  assumes "g < 65536" "g \<noteq> 0"
  shows "listed_prefix (to_lower (hex_digits g @ CHR '':'' # rest)) \<longleftrightarrow>
    g = 0xFE80 \<or> g div 256 \<in> {0xFC, 0xFD, 0xFF} \<or> (256 \<le> g \<and> g < 4096 \<and> g div 16 \<in> {0xFC, 0xFD, 0xFF})
    \<or> g \<in> {0xFC, 0xFD, 0xFF}"
proof -
  consider "g < 16" | "16 \<le> g" "g < 256" | "256 \<le> g" "g < 4096" | "4096 \<le> g" by linarith
  then show ?thesis
  proof cases
    case 1
    then show ?thesis
      by (simp add: hex_digits_expand listed_prefix_def has_prefix_def to_lower_Cons lower_colon hex_char_eqs)
  next
    case 2
    have d: "g div 16 < 16" "g mod 16 < 16" using 2 by (simp_all add: less_mult_imp_div_less)
    have "listed_prefix (to_lower (hex_digits g @ CHR '':'' # rest)) \<longleftrightarrow> g div 16 = 15 \<and> g mod 16 \<in> {12, 13, 15}"
      using 2 d by (auto simp: hex_digits_expand listed_prefix_def has_prefix_def to_lower_Cons lower_colon hex_char_eqs)
    also note prefix_byte [OF 2(2)]
    finally show ?thesis using 2 by auto
  next
    case 3
    have d: "g div 256 < 16" "g div 16 mod 16 < 16" "g mod 16 < 16" using 3 by (simp_all add: less_mult_imp_div_less)
    have "listed_prefix (to_lower (hex_digits g @ CHR '':'' # rest)) \<longleftrightarrow> g div 256 = 15 \<and> g div 16 mod 16 \<in> {12, 13, 15}"
      using 3 d by (auto simp: hex_digits_expand listed_prefix_def has_prefix_def to_lower_Cons lower_colon hex_char_eqs)
    also have "g div 256 = g div 16 div 16" using div_mult2_eq [of g 16 16] by simp
    also have "(g div 16 div 16 = 15 \<and> g div 16 mod 16 \<in> {12, 13, 15}) \<longleftrightarrow> g div 16 \<in> {0xFC, 0xFD, 0xFF}"
      using 3 by (intro prefix_byte) (simp add: less_mult_imp_div_less)
    finally show ?thesis using 3 by auto
  next
    case 4
    have d: "g div 4096 < 16" "g div 256 mod 16 < 16" "g div 16 mod 16 < 16" "g mod 16 < 16"
      using assms by (simp_all add: less_mult_imp_div_less)
    have "listed_prefix (to_lower (hex_digits g @ CHR '':'' # rest)) \<longleftrightarrow>
        (g div 4096 = 15 \<and> g div 256 mod 16 = 14 \<and> g div 16 mod 16 = 8 \<and> g mod 16 = 0)
        \<or> (g div 4096 = 15 \<and> g div 256 mod 16 \<in> {12, 13, 15})"
      using 4 assms d by (auto simp: hex_digits_expand listed_prefix_def has_prefix_def to_lower_Cons lower_colon hex_char_eqs)
    also have "(g div 4096 = 15 \<and> g div 256 mod 16 = 14 \<and> g div 16 mod 16 = 8 \<and> g mod 16 = 0) \<longleftrightarrow> g = 0xFE80"
    proof
      have "g = 16 * (g div 16) + g mod 16" "g div 16 = 16 * (g div 256) + g div 16 mod 16"
        "g div 256 = 16 * (g div 4096) + g div 256 mod 16"
        using div_mult2_eq [of g 16 16] div_mult2_eq [of g 256 16] by simp_all
      then show "g = 0xFE80" if "g div 4096 = 15 \<and> g div 256 mod 16 = 14 \<and> g div 16 mod 16 = 8 \<and> g mod 16 = 0"
        using that by linarith
    qed simp
    also have "g div 4096 = g div 256 div 16" using div_mult2_eq [of g 256 16] by simp
    also have "(g div 256 div 16 = 15 \<and> g div 256 mod 16 \<in> {12, 13, 15}) \<longleftrightarrow> g div 256 \<in> {0xFC, 0xFD, 0xFF}"
      using assms by (intro prefix_byte) (simp add: less_mult_imp_div_less)
    finally show ?thesis using 4 by auto
  qed
qed

lemma div_range: "0 < k \<Longrightarrow> n div k = c \<longleftrightarrow> c * k \<le> n \<and> n \<le> c * k + (k - 1)" for c n k :: nat
  using div_eq_range [of k c n] by auto

lemma group_ranges:
  assumes "(g :: nat) < 65536"
  shows "g div 256 = 0xFE \<and> g mod 256 div 64 = 2 \<longleftrightarrow> 0xFE80 \<le> g \<and> g \<le> 0xFEBF"
    and "g div 256 div 2 = 0x7E \<longleftrightarrow> 0xFC00 \<le> g \<and> g \<le> 0xFDFF"
    and "g div 256 = 0xFF \<longleftrightarrow> 0xFF00 \<le> g"
    and "g div 16 = 0xFC \<or> g div 16 = 0xFD \<longleftrightarrow> 0xFC0 \<le> g \<and> g \<le> 0xFDF"
    and "g div 16 = 0xFF \<longleftrightarrow> 0xFF0 \<le> g \<and> g \<le> 0xFFF"
    and "g div 256 = 0xFC \<or> g div 256 = 0xFD \<longleftrightarrow> 0xFC00 \<le> g \<and> g \<le> 0xFDFF"
proof -
  have "g = 256 * (g div 256) + g mod 256" by simp
  then show "g div 256 = 0xFE \<and> g mod 256 div 64 = 2 \<longleftrightarrow> 0xFE80 \<le> g \<and> g \<le> 0xFEBF"
    by (cases "g div 256 = 0xFE") (auto simp: div_range)
  show "g div 256 div 2 = 0x7E \<longleftrightarrow> 0xFC00 \<le> g \<and> g \<le> 0xFDFF"
    by (simp add: div_range flip: div_mult2_eq)
  show "g div 256 = 0xFF \<longleftrightarrow> 0xFF00 \<le> g" using assms by (auto simp: div_range)
  show "g div 16 = 0xFC \<or> g div 16 = 0xFD \<longleftrightarrow> 0xFC0 \<le> g \<and> g \<le> 0xFDF" by (auto simp: div_range)
  show "g div 16 = 0xFF \<longleftrightarrow> 0xFF0 \<le> g \<and> g \<le> 0xFFF" by (auto simp: div_range)
  show "g div 256 = 0xFC \<or> g div 256 = 0xFD \<longleftrightarrow> 0xFC00 \<le> g \<and> g \<le> 0xFDFF" by (auto simp: div_range)
qed

lemma group_tests:
  assumes "(g :: nat) < 65536"
  shows "(g div 256 = 0xFE \<and> g mod 256 div 64 = 2) \<or> g div 256 div 2 = 0x7E \<or> g div 256 = 0xFF
      \<or> (g = 0xFE80 \<or> g div 256 \<in> {0xFC, 0xFD, 0xFF} \<or> (256 \<le> g \<and> g < 4096 \<and> g div 16 \<in> {0xFC, 0xFD, 0xFF})
          \<or> g \<in> {0xFC, 0xFD, 0xFF})
    \<longleftrightarrow> (0xFE80 \<le> g \<and> g \<le> 0xFEBF) \<or> (0xFC00 \<le> g \<and> g \<le> 0xFDFF) \<or> 0xFF00 \<le> g
      \<or> (g \<in> {0xFC, 0xFD, 0xFF} \<or> (0xFC0 \<le> g \<and> g \<le> 0xFDF) \<or> (0xFF0 \<le> g \<and> g \<le> 0xFFF))"
proof -
  note r = group_ranges [OF assms]
  have a: "g div 256 \<in> {0xFC, 0xFD, 0xFF} \<longleftrightarrow> (0xFC00 \<le> g \<and> g \<le> 0xFDFF) \<or> 0xFF00 \<le> g"
    using r(3,6) by blast
  have "g div 16 \<in> {0xFC, 0xFD, 0xFF} \<longleftrightarrow> (0xFC0 \<le> g \<and> g \<le> 0xFDF) \<or> (0xFF0 \<le> g \<and> g \<le> 0xFFF)"
    using r(4,5) by blast
  then have b: "256 \<le> g \<and> g < 4096 \<and> g div 16 \<in> {0xFC, 0xFD, 0xFF}
      \<longleftrightarrow> (0xFC0 \<le> g \<and> g \<le> 0xFDF) \<or> (0xFF0 \<le> g \<and> g \<le> 0xFFF)" by auto
  have c: "g = 0xFE80 \<Longrightarrow> 0xFE80 \<le> g \<and> g \<le> 0xFEBF" by simp
  show ?thesis unfolding r(1,2,3) a b using c by blast
qed

lemma listed_prefix_zero: "c \<in> {CHR '':'', CHR ''0''} \<Longrightarrow> \<not> listed_prefix (to_lower (c # rest))"
  by (auto simp: listed_prefix_def has_prefix_def to_lower_Cons to_lower_char_def)

lemma blocked6_iff:
  assumes "To4 (V6 w) = None"
  shows "ipv6Blocked (V6 w) \<longleftrightarrow> reserved6 w \<or> lookalike6 w"
proof -
  let ?g = "ip_group w 0"
  have tests: "IsLoopback (V6 w) \<longleftrightarrow> w = 1" "IsUnspecified (V6 w) \<longleftrightarrow> w = 0"
    "IsLinkLocalUnicast (V6 w) \<longleftrightarrow> ?g div 256 = 0xFE \<and> ?g mod 256 div 64 = 2"
    "IsLinkLocalMulticast (V6 w) \<longleftrightarrow> ?g div 256 = 0xFF \<and> ?g mod 256 mod 16 = 2"
    "IsPrivate (V6 w) \<longleftrightarrow> ?g div 256 div 2 = 0x7E" "IsMulticast (V6 w) \<longleftrightarrow> ?g div 256 = 0xFF"
    using assms
    by (simp_all add: IsLoopback_def IsUnspecified_def IsLinkLocalUnicast_def IsLinkLocalMulticast_def IsPrivate_def
        IsMulticast_def bytes_of_group bytes_of_group(2) [unfolded One_nat_def] split: option.split)
  have blocked: "ipv6Blocked (V6 w) \<longleftrightarrow> w = 0 \<or> w = 1 \<or> (?g div 256 = 0xFE \<and> ?g mod 256 div 64 = 2)
      \<or> ?g div 256 div 2 = 0x7E \<or> ?g div 256 = 0xFF \<or> listed_prefix (to_lower (ip6_string w))"
  proof -
    have "ipv6Blocked (V6 w) \<longleftrightarrow> IsLoopback (V6 w) \<or> IsUnspecified (V6 w) \<or> IsLinkLocalUnicast (V6 w)
        \<or> IsLinkLocalMulticast (V6 w) \<or> IsPrivate (V6 w) \<or> IsMulticast (V6 w)
        \<or> listed_prefix (to_lower (ip6_string w))"
      by (simp add: ipv6Blocked_def assms listed_prefix_def ip_string_def Let_def del: To4.simps)
    then show ?thesis unfolding tests by blast
  qed
  have bound: "?g < 65536" by (rule group0(2))
  show ?thesis
  proof (cases "?g = 0")
    case True
    from printed_zero_group [OF this] obtain c rest
      where c: "ip6_string w = c # rest" "c \<in> {CHR '':'', CHR ''0''}" by blast
    from listed_prefix_zero [OF c(2)] have "\<not> listed_prefix (to_lower (ip6_string w))" by (simp only: c(1)) simp
    then show ?thesis by (simp add: blocked reserved6_def lookalike6_def True Let_def)
  next
    case False
    from printed_group [OF this] obtain rest where "ip6_string w = hex_digits ?g @ CHR '':'' # rest" by blast
    then have "listed_prefix (to_lower (ip6_string w)) \<longleftrightarrow>
        ?g = 0xFE80 \<or> ?g div 256 \<in> {0xFC, 0xFD, 0xFF} \<or> (256 \<le> ?g \<and> ?g < 4096 \<and> ?g div 16 \<in> {0xFC, 0xFD, 0xFF})
        \<or> ?g \<in> {0xFC, 0xFD, 0xFF}"
      using listed_prefix_group [OF bound False] by simp
    then show ?thesis
      using group_tests [OF bound] unfolding blocked reserved6_def lookalike6_def Let_def by blast
  qed
qed

section \<open>The decision\<close>

lemma first_blocked_None: "first_blocked ips = None \<longleftrightarrow> (\<forall>ip \<in> set ips. \<not> ip_blocked ip)"
  by (induction ips) auto

text \<open>The specification: an address is refused by its numeric range.\<close>

definition refused :: "ip \<Rightarrow> bool" where
  "refused ip \<longleftrightarrow>
     (case To4 ip of
        Some w \<Rightarrow> in_ranges reserved4 (unat w)
      | None \<Rightarrow> (case ip of V6 w \<Rightarrow> reserved6 w \<or> lookalike6 w | V4 w \<Rightarrow> False))"

lemma ip_blocked_refused: "ip_blocked ip \<longleftrightarrow> refused ip"
proof (cases "To4 ip")
  case None
  then obtain w where "ip = V6 w" by (cases ip) auto
  with None blocked6_iff [of w] show ?thesis by (simp add: ip_blocked_def refused_def)
qed (simp add: ip_blocked_def refused_def blocked4_ranges)

text \<open>The hosts of a URL that are connected to: the literal address, or what the resolver answers.\<close>

definition addresses :: "(string \<Rightarrow> ip option) \<Rightarrow> (string \<Rightarrow> goerr + ip list) \<Rightarrow> string \<Rightarrow> ip list option" where
  "addresses parse_ip lookup host =
     (case parse_ip host of
        Some ip \<Rightarrow> Some [ip]
      | None \<Rightarrow> (case lookup host of Inl err \<Rightarrow> None | Inr ips \<Rightarrow> Some ips))"

section \<open>Properties\<close>

text \<open>
  C34. The guard lets a URL pass exactly when it parses, its scheme is http or https, and either its
  host is on the allow list or it has an address and none of its addresses is refused. Refused are,
  by their numeric ranges, the fourteen special IPv4 networks, also in their IPv4-mapped form, and
  the unspecified, loopback, link-local, unique-local and multicast IPv6 addresses; and besides, by
  accident of the textual test, the addresses whose first group merely prints as fc, fd or ff.
\<close>

theorem ssrf_guard:
  assumes "AssertPublicURLWithAllowlist parse parse_ip lookup u allowlist = res"
  shows "res = None \<longleftrightarrow>
    (\<exists>url. parse u = Inr url \<and> Scheme url \<in> {''http'', ''https''}
       \<and> (hostAllowed (Hostname url) allowlist
          \<or> (\<exists>ips. addresses parse_ip lookup (Hostname url) = Some ips \<and> (\<forall>ip \<in> set ips. \<not> refused ip))))"
proof (cases "parse u")
  case (Inr url)
  have "res = None \<longleftrightarrow> Scheme url \<in> {''http'', ''https''}
      \<and> (hostAllowed (Hostname url) allowlist
         \<or> (\<exists>ips. addresses parse_ip lookup (Hostname url) = Some ips \<and> first_blocked ips = None))"
    unfolding assms [symmetric] AssertPublicURLWithAllowlist_def Inr sum.case addresses_def
    by (cases "parse_ip (Hostname url)"; cases "lookup (Hostname url)") auto
  then show ?thesis by (simp add: Inr first_blocked_None ip_blocked_refused)
qed (simp add: assms [symmetric] AssertPublicURLWithAllowlist_def)

definition demo_parse :: "string \<Rightarrow> goerr + parsed_url" where
  "demo_parse u = Inr \<lparr>Scheme = ''https'', Hostname = u\<rparr>"

definition demo_lookup :: "string \<Rightarrow> goerr + ip list" where
  "demo_lookup host = Inr [V4 (addr4 93 184 216 34), V4 (addr4 10 0 0 1)]"

lemma demo_assert:
  "AssertPublicURLWithAllowlist demo_parse (\<lambda>h. None) demo_lookup ''x.corp'' [''*.corp''] = None"
  by (simp add: AssertPublicURLWithAllowlist_def demo_parse_def hostAllowed_def trim_suffix_def has_suffix_def
      to_lower_def to_lower_char_def has_prefix_def)

theorem ssrf_guard_witness:
  "(\<exists>url. demo_parse ''x.corp'' = Inr url)
   \<and> AssertPublicURLWithAllowlist demo_parse (\<lambda>h. None) demo_lookup ''x.org'' [] \<noteq> None"
proof
  show "\<exists>url. demo_parse ''x.corp'' = Inr url" using ssrf_guard [OF demo_assert] by blast
  have "refused (V4 (addr4 10 0 0 1))"
    by (simp add: refused_def in_ranges_def reserved4_def dotted_def addr4_def unat_of_nat)
  then have "\<not> (\<exists>ips. addresses (\<lambda>h. None) demo_lookup ''x.org'' = Some ips \<and> (\<forall>ip \<in> set ips. \<not> refused ip))"
    by (simp add: addresses_def demo_lookup_def)
  then show "AssertPublicURLWithAllowlist demo_parse (\<lambda>h. None) demo_lookup ''x.org'' [] \<noteq> None"
    using ssrf_guard [OF refl, of demo_parse "\<lambda>h. None" demo_lookup "''x.org''" "[]"]
    by (simp add: demo_parse_def hostAllowed_def)
qed

end
