(* ===== verification/Config.thy ===== *)
theory Config
  imports Types Token Retry Complex_Main
begin

text \<open>
  The configuration of a channel, \<open>config.go\<close>, its outbound part (\<open>OutboundConfig\<close> of
  \<open>types/types.go\<close>) and the retry options derived from it (\<open>outbound_retry.go\<close>). The hooks are user
  code with effects: functions on a world \<open>'w\<close>. A payload is the message parameter of a send, a
  \<open>map[string]string\<close> or whatever a hook put in its place, of which only the result of
  \<open>json.Marshal\<close> matters. The debug log is left out: it has no effect on the library.
\<close>

section \<open>Outbound configuration\<close>

datatype payload = StringMap string_map | Any "goerr + string"

record RetryConfig =
  rcMaxAttempts :: int
  rcBaseDelayMs :: int

type_synonym 'w before_hook = "string \<Rightarrow> string \<Rightarrow> payload \<Rightarrow> 'w \<Rightarrow> payload option \<times> 'w"
type_synonym 'w after_hook = "string \<Rightarrow> string \<Rightarrow> bool \<Rightarrow> string \<Rightarrow> 'w \<Rightarrow> 'w"

record 'w OutboundConfig =
  ocRetry :: RetryConfig
  BeforeSend :: "'w before_hook option"
  AfterSend :: "'w after_hook option"
  Footer :: string

section \<open>The configuration\<close>

definition DefaultAPIBase :: string where "DefaultAPIBase = ''https://api.dingtalk.com''"
definition DefaultOapiBase :: string where "DefaultOapiBase = ''https://oapi.dingtalk.com''"
definition DefaultCardTemplateID :: string where
  "DefaultCardTemplateID = ''02fcf2f4-5e02-4a85-b672-46d1f715543e.schema''"
definition DefaultStreamThrottle :: duration where "DefaultStreamThrottle = 800 * Millisecond"
definition DefaultCardWatchdog :: duration where "DefaultCardWatchdog = 10 * Minute"
definition DefaultErrorCooldown :: duration where "DefaultErrorCooldown = 60 * Second"
definition defaultTextChunkLimit :: int where "defaultTextChunkLimit = 3500"
definition defaultCardQPS :: rat where "defaultCardQPS = 20"
definition DefaultKeepAliveIdle :: duration where "DefaultKeepAliveIdle = 120 * Second"
definition DefaultHTTPTimestampTolerance :: duration where "DefaultHTTPTimestampTolerance = Hour"
definition TransportStream :: string where "TransportStream = ''stream''"
definition TransportHTTP :: string where "TransportHTTP = ''http''"

lemmas config_constants =
  DefaultAPIBase_def DefaultOapiBase_def DefaultCardTemplateID_def DefaultStreamThrottle_def
  DefaultCardWatchdog_def DefaultErrorCooldown_def defaultTextChunkLimit_def defaultCardQPS_def
  DefaultKeepAliveIdle_def DefaultHTTPTimestampTolerance_def TransportStream_def

record 'w Config = Credentials +
  CardTemplateID :: string
  StreamThrottle :: duration
  CardWatchdog :: duration
  ErrorCooldown :: duration
  StaleMessageWindow :: duration
  TextChunkLimit :: int
  CardQPS :: rat
  AutoReconnect :: "bool option"
  KeepAliveIdle :: duration
  cfgPolicy :: PolicyConfig
  cfgBatch :: "BatchConfig option"
  cfgChatQueue :: "ChatQueueConfig option"
  cfgMediaBatch :: "MediaBatchConfig option"
  cfgOutbound :: "'w OutboundConfig option"
  SSRFAllowlist :: "string list"
  Transport :: string
  HTTPTimestampTolerance :: duration
  cfgSafety :: SafetyConfig

text \<open>
  \<open>fill\<close> assigns the fields one after the other; none of the earlier tests reads a field an earlier
  assignment changed, apart from \<open>MediaBatch\<close>, which the last block reads after its default.
\<close>

definition fill_fields :: "'w Config \<Rightarrow> 'w Config" where
  "fill_fields c = c
     \<lparr>APIBase := (if APIBase c = [] then DefaultAPIBase else APIBase c),
      OapiBase := (if OapiBase c = [] then DefaultOapiBase else OapiBase c),
      CardTemplateID := (if CardTemplateID c = [] then DefaultCardTemplateID else CardTemplateID c),
      StreamThrottle := (if StreamThrottle c \<le> 0 then DefaultStreamThrottle else StreamThrottle c),
      CardWatchdog := (if CardWatchdog c = 0 then DefaultCardWatchdog else CardWatchdog c),
      ErrorCooldown := (if ErrorCooldown c = 0 then DefaultErrorCooldown else ErrorCooldown c),
      TextChunkLimit := (if TextChunkLimit c = 0 then defaultTextChunkLimit else TextChunkLimit c),
      CardQPS := (if CardQPS c \<le> 0 then defaultCardQPS else CardQPS c),
      KeepAliveIdle := (if KeepAliveIdle c \<le> 0 then DefaultKeepAliveIdle else KeepAliveIdle c),
      Transport := (if Transport c = [] then TransportStream else Transport c),
      HTTPTimestampTolerance :=
        (if HTTPTimestampTolerance c = 0 then DefaultHTTPTimestampTolerance else HTTPTimestampTolerance c),
      cfgChatQueue := (case cfgChatQueue c of None \<Rightarrow> Some DefaultChatQueueConfig | Some q \<Rightarrow> Some q),
      cfgMediaBatch :=
        (case cfgMediaBatch c of
           None \<Rightarrow> Some \<lparr>mbEnabled = False, mbDelayMs = 800, mbMaxItems = 9\<rparr>
         | Some m \<Rightarrow> Some m)\<rparr>"

text \<open>The safety configuration when its \<open>StaleWindow\<close> is zero: the defaults and the older fields.\<close>

definition default_safety :: "'w Config \<Rightarrow> SafetyConfig" where
  "default_safety c =
     (let s = DefaultSafetyConfig\<lparr>MediaBatch := the (cfgMediaBatch c)\<rparr>;
          s = (if 0 < StaleMessageWindow c then s\<lparr>StaleWindow := StaleMessageWindow c\<rparr> else s);
          s = (if cfgPolicy c \<noteq> zero_PolicyConfig then s\<lparr>Policy := cfgPolicy c\<rparr> else s)
      in (case cfgBatch c of None \<Rightarrow> s | Some b \<Rightarrow> s\<lparr>TextBatch := b\<rparr>))"

definition fill :: "'w Config \<Rightarrow> 'w Config" where
  "fill c0 =
     (let c = fill_fields c0 in
      if StaleWindow (cfgSafety c) = 0 then c\<lparr>cfgSafety := default_safety c\<rparr> else c)"

definition validateTransport :: "'w Config \<Rightarrow> goerr option" where
  "validateTransport c =
     (if Transport c = TransportStream \<or> Transport c = TransportHTTP then None
      else Some (PlainErr (''Config.Transport: unknown transport '' @ Transport c @ '' (supported: stream, http)'')))"

definition reconnectEnabled :: "'w Config \<Rightarrow> bool" where
  "reconnectEnabled c \<longleftrightarrow> (case AutoReconnect c of None \<Rightarrow> True | Some b \<Rightarrow> b)"

text \<open>\<open>retryOptions\<close>: the product of a delay in milliseconds wraps like any \<open>int64\<close>.\<close>

definition retryOptions :: "'w Config \<Rightarrow> RetryOptions" where
  "retryOptions c =
     (case cfgOutbound c of
        None \<Rightarrow> DefaultRetryOptions
      | Some out \<Rightarrow>
          if 0 < rcMaxAttempts (ocRetry out)
          then (let base = wrap64 (rcBaseDelayMs (ocRetry out) * Millisecond) in
                \<lparr>MaxAttempts = rcMaxAttempts (ocRetry out),
                 BaseDelay = (if base \<le> 0 then BaseDelay DefaultRetryOptions else base)\<rparr>)
          else DefaultRetryOptions)"

definition credentials :: "'w Config \<Rightarrow> Credentials" where
  "credentials c = Credentials.truncate c"

lemma credentials_simps [simp]:
  "ClientID (credentials c) = ClientID c" "ClientSecret (credentials c) = ClientSecret c"
  "APIBase (credentials c) = APIBase c" "OapiBase (credentials c) = OapiBase c"
  by (simp_all add: credentials_def Credentials.truncate_def)


section \<open>Facts\<close>

lemma retry_options_pos: "0 < MaxAttempts (retryOptions c) \<and> 0 < BaseDelay (retryOptions c)"
  by (auto simp: retryOptions_def DefaultRetryOptions_def Let_def split: option.splits)

text \<open>A field that is in range is kept; after \<open>fill\<close> every field is in range.\<close>

definition in_range :: "'w Config \<Rightarrow> bool" where
  "in_range c \<longleftrightarrow> APIBase c \<noteq> [] \<and> OapiBase c \<noteq> [] \<and> CardTemplateID c \<noteq> [] \<and> 0 < StreamThrottle c
     \<and> CardWatchdog c \<noteq> 0 \<and> ErrorCooldown c \<noteq> 0 \<and> TextChunkLimit c \<noteq> 0 \<and> 0 < CardQPS c
     \<and> 0 < KeepAliveIdle c \<and> Transport c \<noteq> [] \<and> HTTPTimestampTolerance c \<noteq> 0
     \<and> cfgChatQueue c \<noteq> None \<and> cfgMediaBatch c \<noteq> None \<and> StaleWindow (cfgSafety c) \<noteq> 0"

lemma fill_fields_id:
  "APIBase c \<noteq> [] \<Longrightarrow> OapiBase c \<noteq> [] \<Longrightarrow> CardTemplateID c \<noteq> [] \<Longrightarrow> 0 < StreamThrottle c
   \<Longrightarrow> CardWatchdog c \<noteq> 0 \<Longrightarrow> ErrorCooldown c \<noteq> 0 \<Longrightarrow> TextChunkLimit c \<noteq> 0 \<Longrightarrow> 0 < CardQPS c
   \<Longrightarrow> 0 < KeepAliveIdle c \<Longrightarrow> Transport c \<noteq> [] \<Longrightarrow> HTTPTimestampTolerance c \<noteq> 0
   \<Longrightarrow> cfgChatQueue c = Some q \<Longrightarrow> cfgMediaBatch c = Some m \<Longrightarrow> fill_fields c = c"
  by (simp add: fill_fields_def not_le)

lemma in_range_fill_id: "in_range c \<Longrightarrow> fill c = c"
  by (auto simp: in_range_def fill_def fill_fields_id)

lemma default_safety_window:
  "StaleWindow (default_safety c) = (if 0 < StaleMessageWindow c then StaleMessageWindow c else 30 * Minute)"
  by (simp add: default_safety_def DefaultSafetyConfig_def Let_def split: option.split)

lemma fill_fields_kept [simp]:
  "cfgSafety (fill_fields c) = cfgSafety c" "StaleMessageWindow (fill_fields c) = StaleMessageWindow c"
  "Transport (fill_fields c) = (if Transport c = [] then TransportStream else Transport c)"
  by (simp_all add: fill_fields_def)

lemma fill_fields_in_range:
  "StaleWindow (cfgSafety c) \<noteq> 0 \<Longrightarrow> in_range (fill_fields c)"
  by (auto simp: in_range_def fill_fields_def config_constants split: option.splits)

lemma in_range_safety:
  "in_range c \<Longrightarrow> StaleWindow s \<noteq> 0 \<Longrightarrow> in_range (c\<lparr>cfgSafety := s\<rparr>)"
  by (simp add: in_range_def)

lemma fill_fields_safety: "fill_fields (c\<lparr>cfgSafety := s\<rparr>) = (fill_fields c)\<lparr>cfgSafety := s\<rparr>"
  by (simp add: fill_fields_def)

lemma fill_in_range: "in_range (fill c)"
proof (cases "StaleWindow (cfgSafety (fill_fields c)) = 0")
  case True
  let ?s = "default_safety (fill_fields c)"
  have "in_range ((fill_fields c)\<lparr>cfgSafety := ?s\<rparr>)"
    using fill_fields_in_range [of "c\<lparr>cfgSafety := ?s\<rparr>"] by (simp add: fill_fields_safety default_safety_window)
  then show ?thesis using True by (simp add: fill_def Let_def)
next
  case False
  then show ?thesis using fill_fields_in_range [of c] by (simp add: fill_def Let_def)
qed

lemma fill_transport: "Transport (fill c) = (if Transport c = [] then TransportStream else Transport c)"
  by (simp add: fill_def Let_def)

lemma fill_safety: "StaleWindow (cfgSafety c) \<noteq> 0 \<Longrightarrow> cfgSafety (fill c) = cfgSafety c"
  by (simp add: fill_def Let_def)

text \<open>
  The defaults of a configuration: after \<open>fill\<close> every field is in its range; a configuration
  whose fields are in range is not changed, so filling twice is filling once; and whatever the user
  set in \<open>Safety\<close> is kept when its \<open>StaleWindow\<close> is not zero.
\<close>

theorem config_filled:
  "in_range (fill c) \<and> (in_range c \<longrightarrow> fill c = c) \<and> fill (fill c) = fill c
   \<and> (StaleWindow (cfgSafety c) \<noteq> 0 \<longrightarrow> cfgSafety (fill c) = cfgSafety c)
   \<and> (validateTransport (fill c) = None \<longleftrightarrow> Transport c \<in> {[], TransportStream, TransportHTTP})"
  by (simp add: fill_in_range in_range_fill_id fill_safety fill_transport validateTransport_def)

text \<open>
  A negative \<open>StaleMessageWindow\<close>, documented to switch the filter off, leaves the default of thirty
  minutes on, and with \<open>Safety.StaleWindow\<close> zero the rest of \<open>Safety\<close> is replaced by the defaults.
\<close>

lemma stale_filter_cannot_be_disabled:
  "StaleWindow (cfgSafety c) = 0 \<Longrightarrow> StaleMessageWindow c \<le> 0 \<Longrightarrow> StaleWindow (cfgSafety (fill c)) = 30 * Minute"
  by (simp add: fill_def Let_def default_safety_window)


definition sample_config :: "unit Config" where
  "sample_config = \<lparr>ClientID = ''robot'', ClientSecret = ''secret'', APIBase = ''https://api'', OapiBase = ''https://oapi'',
     CardTemplateID = ''t'', StreamThrottle = 800 * Millisecond, CardWatchdog = - 1,
     ErrorCooldown = 60 * Second, StaleMessageWindow = 0, TextChunkLimit = 3500, CardQPS = 20, AutoReconnect = None,
     KeepAliveIdle = 120 * Second, cfgPolicy = zero_PolicyConfig, cfgBatch = None,
     cfgChatQueue = Some DefaultChatQueueConfig, cfgMediaBatch = Some DefaultMediaBatchConfig, cfgOutbound = None,
     SSRFAllowlist = [], Transport = ''stream'', HTTPTimestampTolerance = Hour, cfgSafety = DefaultSafetyConfig\<rparr>"

theorem config_filled_witness: "fill sample_config = sample_config"
proof -
  have "in_range sample_config" by (simp add: in_range_def sample_config_def DefaultSafetyConfig_def)
  then show ?thesis using config_filled [of sample_config] by blast
qed

end
