(* ===== verification/Trim.thy ===== *)
theory Trim
  imports Utf8
begin

text \<open>
  White space as the package \<open>strings\<close> sees it: \<open>unicode.IsSpace\<close> on the runes of a string, and
  \<open>strings.TrimSpace\<close>, which cuts whole runes from both ends and leaves the bytes between as they are.
\<close>

definition unicode_space :: "nat \<Rightarrow> bool" where
  "unicode_space r \<longleftrightarrow> (9 \<le> r \<and> r \<le> 13) \<or> (0x2000 \<le> r \<and> r \<le> 0x200A)
     \<or> r \<in> {0x20, 0x85, 0xA0, 0x1680, 0x2028, 0x2029, 0x202F, 0x205F, 0x3000}"

text \<open>\<open>strings.TrimSpace(s) == ""\<close>.\<close>

definition blank :: "string \<Rightarrow> bool" where
  "blank line \<longleftrightarrow> list_all unicode_space (decode_runes line)"

text \<open>The bytes of the runes of a string, and the runes that are white space.\<close>

function rune_chunks :: "string \<Rightarrow> string list" where
  "rune_chunks [] = []"
| "rune_chunks (c # cs) =
     take (snd (decode_rune c cs)) (c # cs) # rune_chunks (drop (snd (decode_rune c cs)) (c # cs))"
  by pat_completeness auto
termination
proof (relation "measure length", goal_cases)
  case (2 c cs)
  then show ?case using decode_rune_size [of c cs] by simp
qed simp

definition space_chunk :: "string \<Rightarrow> bool" where
  "space_chunk w \<longleftrightarrow> (case w of [] \<Rightarrow> False | c # cs \<Rightarrow> unicode_space (fst (decode_rune c cs)))"

definition trim_right :: "('a \<Rightarrow> bool) \<Rightarrow> 'a list \<Rightarrow> 'a list" where
  "trim_right p xs = rev (dropWhile p (rev xs))"

definition TrimSpace :: "string \<Rightarrow> string" where
  "TrimSpace s = concat (trim_right space_chunk (dropWhile space_chunk (rune_chunks s)))"

lemma concat_rune_chunks: "concat (rune_chunks s) = s"
  by (induction s rule: rune_chunks.induct) simp_all

lemma trim_right_prefix: "\<exists>ys. xs = trim_right p xs @ ys"
proof -
  have "rev (rev xs) = rev (dropWhile p (rev xs)) @ rev (takeWhile p (rev xs))"
    by (metis rev_append takeWhile_dropWhile_id)
  then show ?thesis unfolding trim_right_def by (metis rev_rev_ident)
qed

text \<open>\<open>TrimSpace\<close> returns a part of the string between two runs of white space.\<close>

lemma TrimSpace_part: "\<exists>a b. s = a @ TrimSpace s @ b"
proof -
  let ?d = "dropWhile space_chunk (rune_chunks s)"
  obtain ys where "?d = trim_right space_chunk ?d @ ys" using trim_right_prefix by blast
  then have "concat ?d = TrimSpace s @ concat ys" unfolding TrimSpace_def by (metis concat_append)
  moreover have "concat (takeWhile space_chunk (rune_chunks s)) @ concat ?d = s"
    by (metis concat_append concat_rune_chunks takeWhile_dropWhile_id)
  ultimately show ?thesis by metis
qed

text \<open>A text between ASCII characters that are no spaces is kept, and the space before it is dropped.\<close>

lemma decode_rune_bounds: "snd (decode_rune c cs) \<le> Suc (length cs)"
  by (simp add: decode_rune_def Let_def split: list.split)

lemma decode_rune_ascii_end: "ord e < 0x80 \<Longrightarrow> decode_rune c (cs @ [e]) = decode_rune c cs"
  by (auto simp: decode_rune_def Let_def second_ok_def cont_def split: list.splits)

lemma rune_chunks_ascii_end: "ord e < 0x80 \<Longrightarrow> rune_chunks (s @ [e]) = rune_chunks s @ [[e]]"
proof (induction s rule: rune_chunks.induct)
  case (2 c cs)
  let ?n = "snd (decode_rune c cs)"
  have "take ?n (c # cs @ [e]) = take ?n (c # cs)" "drop ?n (c # cs @ [e]) = drop ?n (c # cs) @ [e]"
    using decode_rune_bounds [of c cs] by (simp_all flip: append_Cons)
  then show ?case using 2 by (simp add: decode_rune_ascii_end)
qed (simp add: decode_rune_def)

lemma TrimSpace_framed:
  assumes "ord c < 0x80" "\<not> unicode_space (ord c)" "ord e < 0x80" "\<not> unicode_space (ord e)"
  shows "TrimSpace ('' '' @ c # mid @ [e]) = c # mid @ [e]"
proof -
  let ?s = "c # mid @ [e]"
  have hd: "rune_chunks ('' '' @ ?s) = '' '' # rune_chunks ?s" "rune_chunks ?s = [c] # rune_chunks (mid @ [e])"
    using assms(1) by (simp_all add: decode_rune_def)
  have last: "rune_chunks ?s = rune_chunks (c # mid) @ [[e]]"
    using rune_chunks_ascii_end [OF assms(3), of "c # mid"] by (simp del: rune_chunks.simps)
  have space: "space_chunk '' ''" "\<not> space_chunk [c]" "\<not> space_chunk [e]"
    using assms by (simp_all add: space_chunk_def decode_rune_def unicode_space_def)
  have "dropWhile space_chunk (rune_chunks ('' '' @ ?s)) = rune_chunks ?s"
    unfolding hd(1) using space(1,2) by (simp add: hd(2) del: rune_chunks.simps)
  moreover have "trim_right space_chunk (rune_chunks ?s) = rune_chunks ?s"
    unfolding last using space(3) by (simp add: trim_right_def)
  ultimately show ?thesis unfolding TrimSpace_def by (simp only: concat_rune_chunks)
qed

end
