(* ===== verification/Markdown.thy ===== *)
theory Markdown
  imports Trim
begin

text \<open>
  Markdown for the card renderer, \<open>internal/outbound/markdown.go\<close>. The regular expressions of the file
  are kept as data: a small language of expressions with a matcher by derivatives. Only the
  existence of a match matters to the code, except for the two replacements, which are written out.
\<close>

section \<open>Regular expressions\<close>

datatype rx =
    Nothing
  | Empty
  | Class "char \<Rightarrow> bool"
  | Seq rx rx
  | Alt rx rx
  | Star rx

fun nullable :: "rx \<Rightarrow> bool" where
  "nullable Nothing = False"
| "nullable Empty = True"
| "nullable (Class p) = False"
| "nullable (Seq r s) = (nullable r \<and> nullable s)"
| "nullable (Alt r s) = (nullable r \<or> nullable s)"
| "nullable (Star r) = True"

fun deriv :: "char \<Rightarrow> rx \<Rightarrow> rx" where
  "deriv c Nothing = Nothing"
| "deriv c Empty = Nothing"
| "deriv c (Class p) = (if p c then Empty else Nothing)"
| "deriv c (Seq r s) = (if nullable r then Alt (Seq (deriv c r) s) (deriv c s) else Seq (deriv c r) s)"
| "deriv c (Alt r s) = Alt (deriv c r) (deriv c s)"
| "deriv c (Star r) = Seq (deriv c r) (Star r)"

text \<open>A match of the whole string, at its start, and anywhere.\<close>

fun full_match :: "rx \<Rightarrow> string \<Rightarrow> bool" where
  "full_match r [] = nullable r"
| "full_match r (c # cs) = full_match (deriv c r) cs"

fun prefix_match :: "rx \<Rightarrow> string \<Rightarrow> bool" where
  "prefix_match r s = (nullable r \<or> (case s of [] \<Rightarrow> False | c # cs \<Rightarrow> prefix_match (deriv c r) cs))"

fun search :: "rx \<Rightarrow> string \<Rightarrow> bool" where
  "search r s = (prefix_match r s \<or> (case s of [] \<Rightarrow> False | c # cs \<Rightarrow> search r cs))"

declare prefix_match.simps [simp del] search.simps [simp del]

text \<open>The language an expression stands for, and the correctness of the matcher.\<close>

inductive lang :: "rx \<Rightarrow> string \<Rightarrow> bool" where
  lang_Empty: "lang Empty []"
| lang_Class: "p c \<Longrightarrow> lang (Class p) [c]"
| lang_Seq: "lang r s \<Longrightarrow> lang r' s' \<Longrightarrow> lang (Seq r r') (s @ s')"
| lang_Alt1: "lang r s \<Longrightarrow> lang (Alt r r') s"
| lang_Alt2: "lang r' s \<Longrightarrow> lang (Alt r r') s"
| lang_Star0: "lang (Star r) []"
| lang_Star: "lang r s \<Longrightarrow> lang (Star r) s' \<Longrightarrow> lang (Star r) (s @ s')"

inductive_cases lang_NothingE: "lang Nothing s"
inductive_cases lang_EmptyE: "lang Empty s"
inductive_cases lang_ClassE: "lang (Class p) s"
inductive_cases lang_SeqE: "lang (Seq r r') s"
inductive_cases lang_AltE: "lang (Alt r r') s"

lemma nullable_lang: "nullable r \<longleftrightarrow> lang r []"
proof (induction r)
  case (Seq r r')
  have "lang r [] \<and> lang r' [] \<longleftrightarrow> lang (Seq r r') []"
    using lang_Seq [of r "[]" r' "[]"] by (auto elim!: lang_SeqE)
  then show ?case by (simp add: Seq)
qed (auto intro: lang.intros elim: lang_NothingE lang_ClassE lang_AltE)

lemma lang_Star_Cons:
  assumes "lang (Star r) s" and "s = c # cs"
  shows "\<exists>s1 s2. cs = s1 @ s2 \<and> lang r (c # s1) \<and> lang (Star r) s2"
  using assms
proof (induction "Star r" s arbitrary: cs rule: lang.induct)
  case (lang_Star s s')
  show ?case
  proof (cases s)
    case Nil
    then show ?thesis using lang_Star by auto
  next
    case (Cons d ds)
    then show ?thesis using lang_Star by (intro exI [of _ ds] exI [of _ s']) auto
  qed
qed auto

lemma lang_Seq_Cons:
  "lang (Seq r r') (c # cs) \<longleftrightarrow>
     (\<exists>s1 s2. cs = s1 @ s2 \<and> lang r (c # s1) \<and> lang r' s2) \<or> (lang r [] \<and> lang r' (c # cs))"
proof
  assume "lang (Seq r r') (c # cs)"
  then obtain s s' where "c # cs = s @ s'" "lang r s" "lang r' s'" by (auto elim: lang_SeqE)
  then show "(\<exists>s1 s2. cs = s1 @ s2 \<and> lang r (c # s1) \<and> lang r' s2) \<or> (lang r [] \<and> lang r' (c # cs))"
    by (cases s) auto
next
  assume "(\<exists>s1 s2. cs = s1 @ s2 \<and> lang r (c # s1) \<and> lang r' s2) \<or> (lang r [] \<and> lang r' (c # cs))"
  then show "lang (Seq r r') (c # cs)"
    using lang_Seq [of r _ r'] by (metis append_Cons append_Nil)
qed

lemma deriv_lang: "lang (deriv c r) cs \<longleftrightarrow> lang r (c # cs)"
proof (induction r arbitrary: cs)
  case (Seq r r')
  have "lang (Seq (deriv c r) r') cs \<longleftrightarrow> (\<exists>s1 s2. cs = s1 @ s2 \<and> lang r (c # s1) \<and> lang r' s2)"
    using Seq.IH(1) by (auto elim!: lang_SeqE intro: lang_Seq)
  then show ?case
    by (auto simp: lang_Seq_Cons nullable_lang Seq.IH(2) elim: lang_AltE intro: lang_Alt1 lang_Alt2)
next
  case (Star r)
  have "lang (Seq (deriv c r) (Star r)) cs \<longleftrightarrow> (\<exists>s1 s2. cs = s1 @ s2 \<and> lang r (c # s1) \<and> lang (Star r) s2)"
    using Star.IH by (auto elim!: lang_SeqE intro: lang_Seq)
  also have "\<dots> \<longleftrightarrow> lang (Star r) (c # cs)"
    using lang_Star_Cons [of r "c # cs" c cs] lang.lang_Star [of r] by (metis append_Cons)
  finally show ?case by simp
qed (auto elim: lang_NothingE lang_EmptyE lang_ClassE lang_AltE intro: lang.intros)

lemma full_match_lang: "full_match r s \<longleftrightarrow> lang r s"
  by (induction s arbitrary: r) (simp_all add: nullable_lang deriv_lang)

lemma prefix_match_lang: "prefix_match r s \<longleftrightarrow> (\<exists>p q. s = p @ q \<and> lang r p)"
proof (induction s arbitrary: r)
  case Nil
  then show ?case by (subst prefix_match.simps) (simp add: nullable_lang)
next
  case (Cons c cs)
  have "(\<exists>p q. c # cs = p @ q \<and> lang r p) \<longleftrightarrow> lang r [] \<or> (\<exists>p q. cs = p @ q \<and> lang r (c # p))"
    by (auto simp: Cons_eq_append_conv)
  then show ?case by (subst prefix_match.simps) (simp add: Cons.IH nullable_lang deriv_lang)
qed

lemma search_lang: "search r s \<longleftrightarrow> (\<exists>a p q. s = a @ p @ q \<and> lang r p)"
proof (induction s)
  case Nil
  then show ?case by (subst search.simps) (simp add: prefix_match_lang)
next
  case (Cons c cs)
  have "(\<exists>a p q. c # cs = a @ p @ q \<and> lang r p) \<longleftrightarrow>
      (\<exists>p q. c # cs = p @ q \<and> lang r p) \<or> (\<exists>a p q. cs = a @ p @ q \<and> lang r p)"
    (is "?l \<longleftrightarrow> ?r")
  proof
    assume ?l
    then obtain a p q where "c # cs = a @ p @ q" "lang r p" by blast
    then show ?r by (cases a) auto
  next
    assume ?r
    then show ?l by (metis append_Cons append_Nil)
  qed
  then show ?case by (subst search.simps) (simp add: Cons.IH prefix_match_lang)
qed

section \<open>The expressions of the file\<close>

definition chr :: "char \<Rightarrow> rx" where "chr c = Class (\<lambda>d. d = c)"
definition opt :: "rx \<Rightarrow> rx" where "opt r = Alt r Empty"
definition plus :: "rx \<Rightarrow> rx" where "plus r = Seq r (Star r)"

fun seqs :: "rx list \<Rightarrow> rx" where
  "seqs [] = Empty"
| "seqs [r] = r"
| "seqs (r # rs) = Seq r (seqs rs)"

fun upto_times :: "nat \<Rightarrow> rx \<Rightarrow> rx" where
  "upto_times 0 r = Empty"
| "upto_times (Suc n) r = Alt Empty (Seq r (upto_times n r))"

abbreviation md_nl :: char where "md_nl \<equiv> CHR 0x0A"

definition md_space :: "char \<Rightarrow> bool" where
  "md_space c \<longleftrightarrow> c \<in> {CHR 0x09, CHR 0x0A, CHR 0x0C, CHR 0x0D, CHR 0x20}"

definition ws :: rx where "ws = Class md_space"
definition dot :: rx where "dot = Class (\<lambda>c. c \<noteq> md_nl)"
definition pipe :: rx where "pipe = chr (CHR ''|'')"
definition bullet :: rx where "bullet = Class (\<lambda>c. c \<in> {CHR ''-'', CHR ''*'', CHR ''+''})"
definition rule_char :: rx where "rule_char = Class (\<lambda>c. c \<in> {CHR ''-'', CHR ''*'', CHR ''_''})"
definition digit_char :: rx where "digit_char = Class (\<lambda>c. 48 \<le> ord c \<and> ord c \<le> 57)"

definition divider_cell :: "rx list" where
  "divider_cell = [Star ws, opt (chr (CHR '':'')), plus (chr (CHR ''-'')), opt (chr (CHR '':'')), Star ws]"

definition tableDividerRe :: rx where
  "tableDividerRe =
     seqs ([Star ws, opt pipe] @ divider_cell @ [plus (seqs (opt pipe # divider_cell)), opt pipe, Star ws])"

definition tableRowRe :: rx where
  "tableRowRe = seqs [Star ws, opt pipe, Star dot, pipe, Star dot, opt pipe, Star ws]"

definition fenceRe :: rx where
  "fenceRe = seqs [upto_times 3 ws, chr (CHR ''`''), chr (CHR ''`''), chr (CHR ''`'')]"

definition quoteRe :: rx where
  "quoteRe = seqs [upto_times 3 ws, chr (CHR ''>''), opt ws]"

text \<open>
  \<open>blockStartRe\<close> is an alternation whose anchor belongs to its first branch only, because
  alternation binds weakest: the other three match anywhere in the line.
\<close>

definition block_list :: rx where
  "block_list = seqs [upto_times 3 ws,
     Alt bullet (seqs [plus digit_char, Class (\<lambda>c. c \<in> {CHR ''.'', CHR '')''})]), chr (CHR '' '')]"

definition block_table :: rx where "block_table = seqs [upto_times 3 ws, pipe]"

definition block_heading :: rx where
  "block_heading = seqs [upto_times 3 ws, seqs [chr (CHR ''#''), upto_times 5 (chr (CHR ''#''))], ws]"

definition block_rule :: rx where
  "block_rule = seqs [upto_times 3 ws, rule_char, Star ws, rule_char, Star ws, rule_char]"

definition is_block_start :: "string \<Rightarrow> bool" where
  "is_block_start line \<longleftrightarrow>
     prefix_match block_list line \<or> search block_table line \<or> search block_heading line \<or> search block_rule line"

definition is_fence :: "string \<Rightarrow> bool" where
  "is_fence line \<longleftrightarrow> prefix_match fenceRe line"

definition is_quote :: "string \<Rightarrow> bool" where
  "is_quote line \<longleftrightarrow> prefix_match quoteRe line"

text \<open>\<open>quoteRe.ReplaceAllString(line, "")\<close> removes the longest choice of each part.\<close>

definition strip_quote :: "string \<Rightarrow> string" where
  "strip_quote line =
     (if is_quote line
      then (case tl (dropWhile md_space line) of [] \<Rightarrow> [] | c # cs \<Rightarrow> if md_space c then cs else c # cs)
      else line)"

text \<open>\<open>crlfRe.ReplaceAllString(text, "\n")\<close>.\<close>

fun fix_crlf :: "string \<Rightarrow> string" where
  "fix_crlf [] = []"
| "fix_crlf (c # cs) =
     (if c = CHR 0x0D
      then md_nl # (case cs of [] \<Rightarrow> [] | d # ds \<Rightarrow> if d = md_nl then fix_crlf ds else fix_crlf cs)
      else c # fix_crlf cs)"

section \<open>Tables\<close>

definition isDivider :: "string \<Rightarrow> bool" where
  "isDivider line \<longleftrightarrow> line \<noteq> [] \<and> CHR ''|'' \<in> set line \<and> full_match tableDividerRe line"

definition is_table_row :: "string \<Rightarrow> bool" where
  "is_table_row line \<longleftrightarrow> full_match tableRowRe line"

fun table_lines :: "string option \<Rightarrow> string list \<Rightarrow> string list" where
  "table_lines prev [] = []"
| "table_lines prev (cur # rest) =
     (let next = (case rest of [] \<Rightarrow> [] | n # _ \<Rightarrow> n) in
      if (case prev of
            None \<Rightarrow> False
          | Some p \<Rightarrow> is_table_row cur \<and> isDivider next \<and> \<not> blank p \<and> \<not> is_table_row p)
      then [] # cur # table_lines (Some cur) rest
      else cur # table_lines (Some cur) rest)"

definition ensureTableBlankLines :: "string \<Rightarrow> string" where
  "ensureTableBlankLines text = str_join [md_nl] (table_lines None (str_split md_nl (fix_crlf text)))"

section \<open>Line breaks\<close>

definition pending_line :: "string list \<Rightarrow> string list" where
  "pending_line pending = (if pending = [] then [] else [str_join ''<br>'' pending])"

fun merge_quotes :: "bool \<Rightarrow> string list \<Rightarrow> string list \<Rightarrow> string list" where
  "merge_quotes inCode pending [] = pending_line pending"
| "merge_quotes inCode pending (line # ls) =
     (if inCode then pending_line pending @ line # merge_quotes (\<not> is_fence line) [] ls
      else if is_fence line then pending_line pending @ line # merge_quotes True [] ls
      else if is_quote line
      then merge_quotes False (pending @ [if pending = [] then line else strip_quote line]) ls
      else pending_line pending @ line # merge_quotes False [] ls)"

definition keep_newline :: "bool \<Rightarrow> string \<Rightarrow> string \<Rightarrow> bool" where
  "keep_newline nextInCode cur next \<longleftrightarrow>
     nextInCode \<or> cur = [] \<or> next = [] \<or> is_fence next \<or> is_block_start next"

definition next_in_code :: "bool \<Rightarrow> string \<Rightarrow> bool" where
  "next_in_code inCode cur = (if is_fence cur then \<not> inCode else inCode)"

fun emit :: "bool \<Rightarrow> string list \<Rightarrow> string" where
  "emit inCode [] = []"
| "emit inCode [cur] = cur"
| "emit inCode (cur # next # rest) =
     cur @ (if keep_newline (next_in_code inCode cur) cur next then [md_nl] else ''<br>'')
       @ emit (next_in_code inCode cur) (next # rest)"

definition fixNewlines :: "string \<Rightarrow> string" where
  "fixNewlines text = emit False (merge_quotes False [] (str_split md_nl (fix_crlf text)))"

definition NormalizeForCard :: "string \<Rightarrow> string" where
  "NormalizeForCard content = fixNewlines (ensureTableBlankLines content)"

section \<open>What happens to code blocks\<close>

text \<open>The lines strictly inside the code blocks of a text.\<close>

fun code_body :: "bool \<Rightarrow> string list \<Rightarrow> string list" where
  "code_body inCode [] = []"
| "code_body inCode (l # ls) =
     (if is_fence l then code_body (\<not> inCode) ls
      else (if inCode then [l] else []) @ code_body inCode ls)"

lemma lang_upto: "lang (upto_times n (Class p)) s \<Longrightarrow> list_all p s"
  by (induction n arbitrary: s) (auto elim!: lang_SeqE lang_AltE lang_EmptyE lang_ClassE)

lemma lang_fence: "lang fenceRe s \<Longrightarrow> \<exists>w. s = w @ ''```'' \<and> list_all md_space w"
  unfolding fenceRe_def ws_def chr_def
  by (auto elim!: lang_SeqE lang_ClassE dest: lang_upto)

text \<open>A fence does not look past a character that is neither white space nor a backtick.\<close>

lemma fence_append:
  assumes "\<not> md_space c" "c \<noteq> CHR ''`''"
  shows "is_fence (a @ c # b) \<longleftrightarrow> is_fence a"
proof
  assume "is_fence (a @ c # b)"
  then obtain p q where p: "a @ c # b = p @ q" "lang fenceRe p"
    by (auto simp: is_fence_def prefix_match_lang)
  have "c \<notin> set p" using lang_fence [OF p(2)] assms by (auto simp: list_all_iff)
  have "length p \<le> length a"
  proof (rule ccontr)
    assume "\<not> length p \<le> length a"
    then have "p ! length a = (a @ c # b) ! length a" "length a < length p" by (simp_all add: p(1) nth_append)
    then have "c \<in> set p" by (metis nth_append_length nth_mem)
    with \<open>c \<notin> set p\<close> show False by blast
  qed
  then have "a = p @ drop (length p) a" using p(1) by (auto simp: append_eq_append_conv2)
  then show "is_fence a" using p(2) by (metis is_fence_def prefix_match_lang)
next
  assume "is_fence a"
  then obtain p q where "a = p @ q" "lang fenceRe p" by (auto simp: is_fence_def prefix_match_lang)
  then have "a @ c # b = p @ (q @ c # b)" "lang fenceRe p" by simp_all
  then show "is_fence (a @ c # b)" by (metis is_fence_def prefix_match_lang)
qed

lemma fence_br: "is_fence (a @ ''<br>'' @ b) \<longleftrightarrow> is_fence a"
  using fence_append [of "CHR ''<''" a "''br>'' @ b"] by (simp add: md_space_def)

lemma fence_join: "ps \<noteq> [] \<Longrightarrow> is_fence (str_join ''<br>'' ps) \<longleftrightarrow> is_fence (hd ps)"
  using fence_br by (cases ps; cases "tl ps") (auto simp: str_join_Cons simp del: append_Cons)

lemma not_fence_Nil: "\<not> is_fence []"
  by (auto simp: is_fence_def prefix_match_lang dest: lang_fence)


lemma fix_crlf_no_cr: "CHR 0x0D \<notin> set (fix_crlf s)"
  by (induction s rule: fix_crlf.induct) (auto split: list.splits)

lemma fix_crlf_id: "CHR 0x0D \<notin> set s \<Longrightarrow> fix_crlf s = s"
  by (induction s rule: fix_crlf.induct) auto

lemma code_body_append_text: "\<not> is_fence l \<Longrightarrow> code_body False (l # ls) = code_body False ls"
  by simp

text \<open>The blank line put before a table is never a fence: only empty lines are added.\<close>

lemma table_lines_code:
  "filter (\<lambda>l. l \<noteq> []) (code_body b (table_lines p ls)) = filter (\<lambda>l. l \<noteq> []) (code_body b ls)"
  by (induction p ls arbitrary: b rule: table_lines.induct) (auto simp: Let_def not_fence_Nil)

lemma table_lines_set: "set (table_lines p ls) \<subseteq> insert [] (set ls)"
  by (induction p ls rule: table_lines.induct) (auto simp: Let_def)

lemma table_lines_Nil_iff: "table_lines p ls = [] \<longleftrightarrow> ls = []"
  by (cases ls) (auto simp: Let_def)

text \<open>Quotes are only merged outside a code block, behind a line that is no fence.\<close>

lemma pending_code:
  "(pending \<noteq> [] \<Longrightarrow> \<not> is_fence (hd pending)) \<Longrightarrow> code_body False (pending_line pending @ ls) = code_body False ls"
  by (auto simp: pending_line_def fence_join)

lemma merge_quotes_code:
  "(inCode \<longrightarrow> pending = []) \<Longrightarrow> (pending \<noteq> [] \<Longrightarrow> \<not> is_fence (hd pending))
   \<Longrightarrow> code_body inCode (merge_quotes inCode pending ls) = code_body inCode ls"
proof (induction inCode pending ls rule: merge_quotes.induct)
  case (1 inCode pending)
  then show ?case by (cases inCode) (use pending_code [of pending "[]"] in \<open>auto simp: pending_line_def\<close>)
next
  case (2 inCode pending line ls)
  show ?case
  proof (cases inCode)
    case True
    with 2 show ?thesis by (auto simp: pending_line_def)
  next
    case False
    then show ?thesis using 2(2-4) 2(5,6)
      by (auto simp: pending_code hd_append)
  qed
qed

lemma strip_quote_set: "set (strip_quote l) \<subseteq> set l"
proof -
  have *: "set (tl (dropWhile md_space l)) \<subseteq> set l"
  proof
    fix x assume "x \<in> set (tl (dropWhile md_space l))"
    then have "x \<in> set (dropWhile md_space l)" by (cases "dropWhile md_space l") auto
    then show "x \<in> set l" by (rule set_dropWhileD)
  qed
  show ?thesis
  proof (cases "tl (dropWhile md_space l)")
    case (Cons d ds)
    then have "set (d # ds) \<subseteq> set l" using * by simp
    then show ?thesis using Cons by (auto simp: strip_quote_def)
  qed (simp add: strip_quote_def)
qed

lemma str_join_set: "set (str_join sep xs) \<subseteq> set sep \<union> \<Union> (set ` set xs)"
  by (induction sep xs rule: str_join.induct) auto

lemma str_split_set: "w \<in> set (str_split c s) \<Longrightarrow> set w \<subseteq> set s"
proof (induction s arbitrary: w)
  case (Cons d ds)
  show ?case
  proof (cases "str_split c ds")
    case (Cons v vs)
    then have "set v \<subseteq> set ds" "\<And>u. u \<in> set vs \<Longrightarrow> set u \<subseteq> set ds" using Cons.IH by simp_all
    then show ?thesis using Cons.prems Cons by (auto split: if_splits dest: subsetD)
  qed simp
qed simp

lemma merge_quotes_no_nl:
  assumes "\<forall>l \<in> set pending \<union> set ls. md_nl \<notin> set l" and "l \<in> set (merge_quotes inCode pending ls)"
  shows "md_nl \<notin> set l"
  using assms
proof (induction inCode pending ls rule: merge_quotes.induct)
  case (1 inCode pending)
  then show ?case using str_join_set [of "''<br>''" pending] by (auto simp: pending_line_def split: if_splits)
next
  case (2 inCode pending line ls)
  have p: "md_nl \<notin> set l" if "l \<in> set (pending_line pending)"
    using that 2(5) str_join_set [of "''<br>''" pending] by (auto simp: pending_line_def split: if_splits)
  have q: "md_nl \<notin> set (strip_quote line)" using strip_quote_set 2(5) by auto
  show ?case using 2 p q by (auto split: if_splits)
qed


lemma merge_quotes_Nil: "merge_quotes inCode pending ls = [] \<longleftrightarrow> pending = [] \<and> ls = []"
  by (induction inCode pending ls rule: merge_quotes.induct) (auto simp: pending_line_def)

text \<open>
  The lines of the output: a line break is kept before every fence and throughout a code block, so
  a line of the output starts with a line of the input, and joined lines are outside code blocks.
\<close>

lemma str_split_prefix:
  "c \<notin> set w \<Longrightarrow> str_split c (w @ s) = (w @ hd (str_split c s)) # tl (str_split c s)"
proof (induction w)
  case Nil
  then show ?case by simp
qed auto

lemma fence_emit_hd:
  assumes "\<forall>l \<in> set (cur # ls). md_nl \<notin> set l"
  shows "is_fence (hd (str_split md_nl (emit b (cur # ls)))) \<longleftrightarrow> is_fence cur"
proof (cases ls)
  case Nil
  then show ?thesis using assms by (simp add: str_split_singleton)
next
  case (Cons n ns)
  let ?k = "keep_newline (next_in_code b cur) cur n"
  let ?s = "emit (next_in_code b cur) (n # ns)"
  show ?thesis
  proof (cases ?k)
    case True
    then show ?thesis using assms Cons by (simp add: str_split_append)
  next
    case False
    have "str_split md_nl ((cur @ ''<br>'') @ ?s) = ((cur @ ''<br>'') @ hd (str_split md_nl ?s)) # tl (str_split md_nl ?s)"
      by (rule str_split_prefix) (use assms in auto)
    then have "hd (str_split md_nl (emit b (cur # ls))) = cur @ ''<br>'' @ hd (str_split md_nl ?s)"
      using False Cons by simp
    then show ?thesis by (simp only: fence_br)
  qed
qed

lemma emit_code:
  "ls \<noteq> [] \<Longrightarrow> \<forall>l \<in> set ls. md_nl \<notin> set l
   \<Longrightarrow> code_body b (str_split md_nl (emit b ls)) = code_body b ls"
proof (induction b ls rule: emit.induct)
  case (2 b cur)
  then show ?case by (simp add: str_split_singleton)
next
  case (3 b cur n ns)
  let ?b = "next_in_code b cur"
  let ?s = "str_split md_nl (emit ?b (n # ns))"
  have IH: "code_body ?b ?s = code_body ?b (n # ns)" using 3 by simp
  show ?case
  proof (cases "keep_newline ?b cur n")
    case True
    then have eq: "str_split md_nl (emit b (cur # n # ns)) = cur # ?s" using 3(3) by (simp add: str_split_append)
    show ?thesis
      unfolding eq code_body.simps(2) [of b cur] using IH
      by (cases "is_fence cur") (simp_all add: next_in_code_def del: code_body.simps emit.simps)
  next
    case False
    then have out: "\<not> ?b" "\<not> is_fence n" by (simp_all add: keep_newline_def)
    have sp: "str_split md_nl (emit b (cur # n # ns)) = (cur @ ''<br>'' @ hd ?s) # tl ?s"
      using False 3(3) str_split_prefix [of md_nl "cur @ ''<br>''" "emit ?b (n # ns)"] by simp
    have "code_body False (hd ?s # tl ?s) = code_body False (tl ?s)"
      using fence_emit_hd [of n ns ?b] 3(3) out by (intro code_body_append_text) simp
    then have tl: "code_body False (tl ?s) = code_body False (n # ns)" using IH out by simp
    have fc: "is_fence (cur @ ''<br>'' @ hd ?s) = is_fence cur" by (rule fence_br)
    show ?thesis
    proof (cases "is_fence cur")
      case True
      then have "b" using out by (simp add: next_in_code_def)
      then show ?thesis unfolding sp code_body.simps(2) fc using True tl by simp
    next
      case nf: False
      then have "\<not> b" using out by (simp add: next_in_code_def)
      then show ?thesis unfolding sp code_body.simps(2) fc using nf tl by simp
    qed
  qed
qed simp

lemma fixNewlines_code:
  "code_body False (str_split md_nl (fixNewlines text)) = code_body False (str_split md_nl (fix_crlf text))"
proof -
  let ?l = "str_split md_nl (fix_crlf text)"
  have "code_body False (str_split md_nl (fixNewlines text)) = code_body False (merge_quotes False [] ?l)"
    unfolding fixNewlines_def
    by (rule emit_code) (auto simp: merge_quotes_Nil dest: split_no_sep merge_quotes_no_nl [rotated])
  then show ?thesis using merge_quotes_code [of False "[]" ?l] by simp
qed

lemma ensureTable_lines:
  "str_split md_nl (fix_crlf (ensureTableBlankLines text)) = table_lines None (str_split md_nl (fix_crlf text))"
proof -
  let ?l = "table_lines None (str_split md_nl (fix_crlf text))"
  have cr: "CHR 0x0D \<notin> set w" if "w \<in> set (str_split md_nl (fix_crlf text))" for w
    using that str_split_set fix_crlf_no_cr by blast
  have "CHR 0x0D \<notin> set w" if "w \<in> set ?l" for w
    using that table_lines_set [of None "str_split md_nl (fix_crlf text)"] cr by (cases "w = []") auto
  then have "CHR 0x0D \<notin> set (ensureTableBlankLines text)"
    using str_join_set [of "[md_nl]" ?l] by (auto simp: ensureTableBlankLines_def dest!: subsetD)
  moreover have "str_split md_nl (str_join [md_nl] ?l) = ?l"
    using table_lines_set [of None "str_split md_nl (fix_crlf text)"]
    by (intro split_join) (auto simp: table_lines_Nil_iff dest: split_no_sep)
  ultimately show ?thesis by (simp add: fix_crlf_id ensureTableBlankLines_def)
qed


section \<open>Properties\<close>

text \<open>
  C36. The code blocks of a card text survive the conversion: \<open>fixNewlines\<close> keeps every line inside a
  code block, in order and each on a line of its own (no \<open><br>\<close> is ever put inside a block, and no line
  outside becomes one inside); \<open>NormalizeForCard\<close> adds at most empty lines to them.
\<close>

theorem code_blocks_kept:
  "code_body False (str_split md_nl (fixNewlines text)) = code_body False (str_split md_nl (fix_crlf text))
   \<and> filter (\<lambda>l. l \<noteq> []) (code_body False (str_split md_nl (NormalizeForCard text)))
      = filter (\<lambda>l. l \<noteq> []) (code_body False (str_split md_nl (fix_crlf text)))"
  by (simp add: fixNewlines_code NormalizeForCard_def ensureTable_lines table_lines_code)

text \<open>
  The anchor of \<open>blockStartRe\<close> belongs to its first alternative only: a bar or three rule characters
  anywhere in a line make it the start of a block.
\<close>

lemma block_start_unanchored: "is_block_start ''see a|b'' \<and> is_block_start ''x = y---z''"
  by code_simp

text \<open>The blank line before a table is also put into a code block that shows a table.\<close>

lemma doc_not_blank: "\<not> blank ''doc''"
  by (simp add: blank_def decode_rune_def Let_def unicode_space_def)

lemma table_rows_of_doc:
  "is_table_row ''|a|b|'' \<and> isDivider ''|-|-|'' \<and> \<not> is_table_row ''doc'' \<and> \<not> isDivider ''```''
   \<and> \<not> isDivider ''|a|b|'' \<and> \<not> isDivider [] \<and> \<not> isDivider ''doc''"
  by code_simp

lemma table_blank_in_code:
  "ensureTableBlankLines (str_join [md_nl] [''```'', ''doc'', ''|a|b|'', ''|-|-|'', ''```''])
     = str_join [md_nl] [''```'', ''doc'', [], ''|a|b|'', ''|-|-|'', ''```'']"
  by (simp add: ensureTableBlankLines_def doc_not_blank table_rows_of_doc)

text \<open>The line after a code block is joined to the closing fence.\<close>

lemma closing_fence_joined:
  "fixNewlines (str_join [md_nl] [''```'', ''x'', ''```'', ''after'']) = str_join [md_nl] [''```'', ''x'', ''```<br>after'']"
  by code_simp

end
