(* ===== verification/CardClient.thy ===== *)
theory CardClient
  imports Config RateLimit Markdown
begin

text \<open>
  The client of the card API, the first half of \<open>card.go\<close>. A call goes through the global token
  bucket, asks for an access token, sends one request, and after a QpsLimit answer backs off and sends
  it once more. The environment of a call is a record of functions on a world: the HTTP client for
  token requests and for API requests, the clock, the rounds a wait of the bucket goes through, and
  the random draws of \<open>randSuffix\<close>. A call whose wait has no more rounds has not returned: \<open>None\<close>.

  The state of the client is the token cache, the bucket and the world; \<open>apiLog\<close> is a history
  of what the client did, for the statements about it. What other goroutines do to the bucket between
  two critical sections of a call is not part of the model of a call; \<open>RateLimit\<close> has their
  interleavings.
\<close>

section \<open>Environment and state\<close>

text \<open>
  What \<open>json.Unmarshal\<close> leaves of an error answer, whether it reports an error or not: the fields \<open>code\<close> and
  \<open>message\<close> (\<open>decode_api_error\<close> in \<open>ApiDecode\<close>).
\<close>

type_synonym error_reply = "string \<times> string"

record 'w card_env =
  env_token :: "('w, token_reply) http_client"
  env_api :: "('w, error_reply) http_client"
  env_clock :: "'w \<Rightarrow> time"
  env_rounds :: "'w \<Rightarrow> tick list \<times> 'w"
  env_draws :: "nat \<Rightarrow> 'w \<Rightarrow> nat list \<times> 'w"

datatype api_event =
    Granted_at time
  | Wait_refused
  | Sent request "goerr + error_reply response"
  | Backed_off time

record 'w api_state =
  apiTokens :: token_cache
  apiBucket :: tokenBucket
  apiWorld :: 'w
  apiLog :: "api_event list"

definition randAlphabet :: string where "randAlphabet = ''abcdefghijklmnopqrstuvwxyz0123456789''"

text \<open>\<open>randSuffix\<close>, from the results of \<open>Intn(36)\<close>.\<close>

definition randSuffix :: "nat list \<Rightarrow> string" where
  "randSuffix draws = map (\<lambda>k. randAlphabet ! k) draws"

section \<open>One call\<close>

definition api_request :: "'c Config \<Rightarrow> string \<Rightarrow> string \<Rightarrow> json option \<Rightarrow> string \<Rightarrow> request" where
  "api_request cfg method path data tok =
     \<lparr>req_method = method, req_url = APIBase cfg @ path,
      req_headers = [(''Content-Type'', ''application/json''), (''x-acs-dingtalk-access-token'', tok)],
      req_body = (case data of None \<Rightarrow> [] | Some j \<Rightarrow> marshal j)\<rparr>"

text \<open>The answer: an API error from status 400 on, otherwise the body and its decoding into \<open>out\<close>.\<close>

type_synonym 'o api_result = "goerr + string \<times> 'o option"

definition api_error_of :: "error_reply response \<Rightarrow> apiError" where
  "api_error_of resp =
     (let e = (case resp_json resp of Inl _ \<Rightarrow> ([], []) | Inr e \<Rightarrow> e) in
      \<lparr>Status = resp_status resp, Code = fst e, Msg = snd e, Body = resp_raw resp\<rparr>)"

definition api_accept :: "(string \<Rightarrow> goerr + 'o) option \<Rightarrow> error_reply response \<Rightarrow> 'o api_result" where
  "api_accept out resp =
     (if 400 \<le> resp_status resp then Inl (ApiErr (api_error_of resp))
      else
        (case out of
           None \<Rightarrow> Inr (resp_raw resp, None)
         | Some decode \<Rightarrow>
             if resp_raw resp = [] then Inr (resp_raw resp, None)
             else (case decode (resp_raw resp) of Inl err \<Rightarrow> Inl err | Inr v \<Rightarrow> Inr (resp_raw resp, Some v))))"

text \<open>The closure \<open>do\<close>.\<close>

definition do_request ::
  "'w card_env \<Rightarrow> 'c Config \<Rightarrow> string \<Rightarrow> string \<Rightarrow> json option \<Rightarrow> (string \<Rightarrow> goerr + 'o) option
     \<Rightarrow> 'w api_state \<Rightarrow> 'o api_result \<times> 'w api_state" where
  "do_request env cfg method path data out st =
     (case Token_Get (credentials cfg) (env_token env) (env_clock env) (apiWorld st) (apiTokens st) of
        (Inl err, cache, w) \<Rightarrow> (Inl err, st\<lparr>apiTokens := cache, apiWorld := w\<rparr>)
      | (Inr tok, cache, w) \<Rightarrow>
          let req = api_request cfg method path data tok in
          (case env_api env req w of
             (r, w') \<Rightarrow>
               ((case r of Inl err \<Rightarrow> Inl err | Inr resp \<Rightarrow> api_accept out resp),
                st\<lparr>apiTokens := cache, apiWorld := w', apiLog := apiLog st @ [Sent req r]\<rparr>)))"

text \<open>\<open>c.bucket.waitFor(ctx.Done())\<close>: \<open>Some None\<close> when a token was granted.\<close>

definition contextCanceled :: goerr where "contextCanceled = PlainErr ''context canceled''"

definition bucket_wait :: "'w card_env \<Rightarrow> 'w api_state \<Rightarrow> (goerr option \<times> 'w api_state) option" where
  "bucket_wait env st =
     (case env_rounds env (apiWorld st) of
        (ticks, w) \<Rightarrow>
          (case waitFor ticks (apiBucket st) of
             (Got now, b) \<Rightarrow>
               Some (None, st\<lparr>apiWorld := w, apiBucket := b, apiLog := apiLog st @ [Granted_at now]\<rparr>)
           | (CtxCanceled, b) \<Rightarrow>
               Some (Some contextCanceled, st\<lparr>apiWorld := w, apiBucket := b, apiLog := apiLog st @ [Wait_refused]\<rparr>)
           | (Waiting, b) \<Rightarrow> None))"

fun asAPIError :: "goerr \<Rightarrow> apiError option" where
  "asAPIError (ApiErr e) = Some e"
| "asAPIError _ = None"

definition qps_limited :: "goerr \<Rightarrow> bool" where
  "qps_limited err \<longleftrightarrow> (case asAPIError err of None \<Rightarrow> False | Some e \<Rightarrow> isQpsLimit e)"

definition back_off :: "'w card_env \<Rightarrow> 'w api_state \<Rightarrow> 'w api_state" where
  "back_off env st =
     (let now = env_clock env (apiWorld st) in
      st\<lparr>apiBucket := triggerBackoff now (apiBucket st), apiLog := apiLog st @ [Backed_off now]\<rparr>)"

definition callRaw ::
  "'w card_env \<Rightarrow> 'c Config \<Rightarrow> string \<Rightarrow> string \<Rightarrow> json option \<Rightarrow> (string \<Rightarrow> goerr + 'o) option
     \<Rightarrow> 'w api_state \<Rightarrow> ('o api_result \<times> 'w api_state) option" where
  "callRaw env cfg method path data out st =
     (case bucket_wait env st of
        None \<Rightarrow> None
      | Some (Some werr, st1) \<Rightarrow> Some (Inl werr, st1)
      | Some (None, st1) \<Rightarrow>
          (case do_request env cfg method path data out st1 of
             (Inr v, st2) \<Rightarrow> Some (Inr v, st2)
           | (Inl err, st2) \<Rightarrow>
               if qps_limited err
               then
                 (case bucket_wait env (back_off env st2) of
                    None \<Rightarrow> None
                  | Some (Some werr, st3) \<Rightarrow> Some (Inl werr, st3)
                  | Some (None, st3) \<Rightarrow> Some (do_request env cfg method path data out st3))
               else Some (Inl err, st2)))"

definition result_error :: "'o api_result \<Rightarrow> goerr option" where
  "result_error r = (case r of Inl err \<Rightarrow> Some err | Inr _ \<Rightarrow> None)"

type_synonym 'w api_outcome = "(goerr option \<times> 'w api_state) option"

text \<open>\<open>call\<close> without \<open>out\<close>, and \<open>callChecked\<close>, which also looks for a failure inside a 200 answer.\<close>

abbreviation no_out :: "(string \<Rightarrow> goerr + unit) option" where "no_out \<equiv> None"

definition card_call ::
  "'w card_env \<Rightarrow> 'c Config \<Rightarrow> string \<Rightarrow> string \<Rightarrow> json \<Rightarrow> 'w api_state \<Rightarrow> 'w api_outcome" where
  "card_call env cfg method path data st =
     map_option (apfst result_error) (callRaw env cfg method path (Some data) no_out st)"

definition business_failure :: "string \<Rightarrow> bool" where
  "business_failure raw \<longleftrightarrow> str_contains raw (quote_char # ''success'' @ [quote_char] @ '':false'')"

definition callChecked ::
  "'w card_env \<Rightarrow> 'c Config \<Rightarrow> string \<Rightarrow> string \<Rightarrow> json \<Rightarrow> 'w api_state \<Rightarrow> 'w api_outcome" where
  "callChecked env cfg method path data st =
     (case callRaw env cfg method path (Some data) no_out st of
        None \<Rightarrow> None
      | Some (Inl err, st') \<Rightarrow> Some (Some err, st')
      | Some (Inr (raw, _), st') \<Rightarrow>
          if business_failure raw
          then Some (Some (ApiErr \<lparr>Status = 200, Code = ''BusinessFailure'', Msg = raw, Body = []\<rparr>), st')
          else Some (None, st'))"


section \<open>The card protocol\<close>

record cardTarget =
  IsGroup :: bool
  tgtConversationID :: string
  tgtUserID :: string
  tgtRobotCode :: string

record cardInstance =
  OutTrackID :: string
  inputingStarted :: bool

definition flowProcessing :: string where "flowProcessing = ''1''"
definition flowInputing :: string where "flowInputing = ''2''"
definition flowFinished :: string where "flowFinished = ''3''"
definition flowFailed :: string where "flowFailed = ''5''"

definition autoLayout :: string where
  "autoLayout = ''{'' @ json_string ''autoLayout'' @ '':true}''"

definition create_body :: "'c Config \<Rightarrow> string \<Rightarrow> json" where
  "create_body cfg outTrackID = JObj
     [(''callbackType'', JStr ''STREAM''),
      (''cardData'', JObj [(''cardParamMap'', JObj [(''config'', JStr autoLayout)])]),
      (''cardTemplateId'', JStr (CardTemplateID cfg)),
      (''imGroupOpenSpaceModel'', JObj [(''supportForward'', JBool True)]),
      (''imRobotOpenSpaceModel'', JObj [(''supportForward'', JBool True)]),
      (''outTrackId'', JStr outTrackID)]"

definition deliver_body :: "cardTarget \<Rightarrow> string \<Rightarrow> json" where
  "deliver_body t outTrackID =
     (if IsGroup t
      then JObj
        [(''imGroupOpenDeliverModel'', JObj [(''robotCode'', JStr (tgtRobotCode t))]),
         (''openSpaceId'', JStr (''dtv1.card//IM_GROUP.'' @ tgtConversationID t)),
         (''outTrackId'', JStr outTrackID), (''userIdType'', JInt 1)]
      else JObj
        [(''imRobotOpenDeliverModel'', JObj
           [(''extension'', JObj [(''dynamicSummary'', JStr ''true'')]),
            (''robotCode'', JStr (tgtRobotCode t)), (''spaceType'', JStr ''IM_ROBOT'')]),
         (''openSpaceId'', JStr (''dtv1.card//IM_ROBOT.'' @ tgtUserID t)),
         (''outTrackId'', JStr outTrackID), (''userIdType'', JInt 1)])"

definition draw_suffix :: "'w card_env \<Rightarrow> nat \<Rightarrow> 'w api_state \<Rightarrow> string \<times> 'w api_state" where
  "draw_suffix env n st =
     (case env_draws env n (apiWorld st) of (ds, w) \<Rightarrow> (randSuffix ds, st\<lparr>apiWorld := w\<rparr>))"

definition createAndDeliver ::
  "'w card_env \<Rightarrow> 'c Config \<Rightarrow> cardTarget \<Rightarrow> 'w api_state \<Rightarrow> ((goerr + cardInstance) \<times> 'w api_state) option" where
  "createAndDeliver env cfg t st =
     (let now = unix_milli (env_clock env (apiWorld st)) in
      case draw_suffix env 8 st of
        (suffix, st0) \<Rightarrow>
          let outTrackID = ''card_'' @ format_int now @ ''_'' @ suffix in
          (case card_call env cfg ''POST'' ''/v1.0/card/instances'' (create_body cfg outTrackID) st0 of
             None \<Rightarrow> None
           | Some (Some err, st1) \<Rightarrow> Some (Inl err, st1)
           | Some (None, st1) \<Rightarrow>
               (case callChecked env cfg ''POST'' ''/v1.0/card/instances/deliver'' (deliver_body t outTrackID) st1 of
                  None \<Rightarrow> None
                | Some (Some err, st2) \<Rightarrow> Some (Inl err, st2)
                | Some (None, st2) \<Rightarrow>
                    Some (Inr \<lparr>OutTrackID = outTrackID, inputingStarted = False\<rparr>, st2))))"

definition status_body :: "cardInstance \<Rightarrow> string \<Rightarrow> string \<Rightarrow> json" where
  "status_body ci status content = JObj
     ((''cardData'', JObj [(''cardParamMap'', JObj
          [(''config'', JStr autoLayout), (''flowStatus'', JStr status), (''msgContent'', JStr content),
           (''staticMsgContent'', JStr []),
           (''sys_full_json_obj'', JStr (marshal (JObj [(''order'', JArr [JStr ''msgContent''])])))])])
      # (if status = flowFinished
         then [(''cardUpdateOptions'', JObj [(''updateCardDataByKey'', JBool True)])] else [])
      @ [(''outTrackId'', JStr (OutTrackID ci))])"

definition setStatus ::
  "'w card_env \<Rightarrow> 'c Config \<Rightarrow> cardInstance \<Rightarrow> string \<Rightarrow> string \<Rightarrow> 'w api_state \<Rightarrow> 'w api_outcome" where
  "setStatus env cfg ci status content st =
     card_call env cfg ''PUT'' ''/v1.0/card/instances'' (status_body ci status content) st"

text \<open>\<open>trailingNewlinesRe.ReplaceAllString(norm, "")\<close>.\<close>

definition strip_newlines :: "string \<Rightarrow> string" where
  "strip_newlines s = rev (dropWhile (\<lambda>c. c = md_nl) (rev s))"

definition stream_body :: "cardInstance \<Rightarrow> string \<Rightarrow> string \<Rightarrow> bool \<Rightarrow> json" where
  "stream_body ci guid content finalize = JObj
     [(''content'', JStr content), (''guid'', JStr guid), (''isError'', JBool False),
      (''isFinalize'', JBool finalize), (''isFull'', JBool True), (''key'', JStr ''msgContent''),
      (''outTrackId'', JStr (OutTrackID ci))]"

definition stream ::
  "'w card_env \<Rightarrow> 'c Config \<Rightarrow> cardInstance \<Rightarrow> string \<Rightarrow> bool \<Rightarrow> 'w api_state \<Rightarrow> 'w api_outcome" where
  "stream env cfg ci content finalize st =
     (let norm = NormalizeForCard content;
          norm = (if finalize then norm else strip_newlines norm);
          now = unix_milli (env_clock env (apiWorld st)) in
      case draw_suffix env 6 st of
        (suffix, st0) \<Rightarrow>
          card_call env cfg ''PUT'' ''/v1.0/card/streaming''
            (stream_body ci (format_int now @ ''_'' @ suffix) norm finalize) st0)"


section \<open>What a call does\<close>

lemma token_nonempty:
  "Token_Get cfg httpc clock w t = (Inr tok, t', w') \<Longrightarrow> tok \<noteq> []"
  by (drule api_token.get_outcome) simp

lemma waitFor_after_backoff: "waitFor ticks b = (Got now, b') \<Longrightarrow> \<not> time_before now (backoffEnd b)"
proof (induction ticks b rule: waitFor.induct)
  case (3 now ts b)
  then show ?case by (auto simp: wait_round_def Let_def split: round.splits if_splits)
qed auto

definition throttled :: "'o api_result \<Rightarrow> bool" where
  "throttled r \<longleftrightarrow> (case r of Inl err \<Rightarrow> qps_limited err | Inr _ \<Rightarrow> False)"

text \<open>One attempt: no token, or one authorised request and what its answer means.\<close>

inductive attempt ::
  "(string \<Rightarrow> request) \<Rightarrow> (string \<Rightarrow> goerr + 'o) option \<Rightarrow> api_event list \<Rightarrow> 'o api_result \<Rightarrow> bool"
  for req :: "string \<Rightarrow> request" and out :: "(string \<Rightarrow> goerr + 'o) option" where
  no_token: "attempt req out [] (Inl err)"
| unreachable: "tok \<noteq> [] \<Longrightarrow> attempt req out [Sent (req tok) (Inl err)] (Inl err)"
| answered: "tok \<noteq> [] \<Longrightarrow> attempt req out [Sent (req tok) (Inr resp)] (api_accept out resp)"

text \<open>The four histories of a call.\<close>

inductive call_history ::
  "(string \<Rightarrow> request) \<Rightarrow> (string \<Rightarrow> goerr + 'o) option \<Rightarrow> api_event list \<Rightarrow> 'o api_result \<Rightarrow> bool"
  for req :: "string \<Rightarrow> request" and out :: "(string \<Rightarrow> goerr + 'o) option" where
  refused: "call_history req out [Wait_refused] (Inl contextCanceled)"
| once: "attempt req out a r \<Longrightarrow> \<not> throttled r \<Longrightarrow> call_history req out (Granted_at t # a) r"
| refused_again: "attempt req out a r \<Longrightarrow> throttled r
    \<Longrightarrow> call_history req out (Granted_at t # a @ [Backed_off b, Wait_refused]) (Inl contextCanceled)"
| retried: "attempt req out a r \<Longrightarrow> throttled r \<Longrightarrow> \<not> time_before t' (time_add b defaultQPSBackoff)
    \<Longrightarrow> attempt req out a' r'
    \<Longrightarrow> call_history req out (Granted_at t # a @ [Backed_off b, Granted_at t'] @ a') r'"

lemma do_request_attempt:
  assumes "do_request env cfg method path data out st = (r, st')"
  obtains a where "apiLog st' = apiLog st @ a" "attempt (api_request cfg method path data) out a r"
    "apiBucket st' = apiBucket st"
proof (cases "Token_Get (credentials cfg) (env_token env) (env_clock env) (apiWorld st) (apiTokens st)")
  case (fields tok cache w)
  show ?thesis
  proof (cases tok)
    case (Inl err)
    then have "r = Inl err" "st' = st\<lparr>apiTokens := cache, apiWorld := w\<rparr>" using assms fields by (simp_all add: do_request_def)
    then have log: "apiLog st' = apiLog st @ []" "apiBucket st' = apiBucket st" by simp_all
    have "attempt (api_request cfg method path data) out [] r" unfolding \<open>r = Inl err\<close> by (rule no_token)
    with that [OF log(1) _ log(2)] show ?thesis .
  next
    case (Inr t)
    have t: "t \<noteq> []" using fields unfolding Inr by (rule token_nonempty)
    obtain rep w' where rep: "env_api env (api_request cfg method path data t) w = (rep, w')" by fastforce
    let ?e = "Sent (api_request cfg method path data t) rep"
    have r: "r = (case rep of Inl err \<Rightarrow> Inl err | Inr resp \<Rightarrow> api_accept out resp)"
        and st': "apiLog st' = apiLog st @ [?e]" "apiBucket st' = apiBucket st"
      using assms fields Inr rep by (auto simp: do_request_def Let_def)
    have "attempt (api_request cfg method path data) out [?e] r"
      using t by (cases rep) (simp_all add: r attempt.unreachable attempt.answered)
    then show ?thesis using that st' by blast
  qed
qed

lemma bucket_wait_log:
  assumes "bucket_wait env st = Some (res, st')"
  shows "(res = None \<and> (\<exists>t. apiLog st' = apiLog st @ [Granted_at t] \<and> \<not> time_before t (backoffEnd (apiBucket st))))
       \<or> (res = Some contextCanceled \<and> apiLog st' = apiLog st @ [Wait_refused])"
  using assms waitFor_after_backoff
  by (fastforce simp: bucket_wait_def split: prod.splits wait_result.splits)

lemma callRaw_history:
  assumes "callRaw env cfg method path data out st = Some (r, st')"
  shows "\<exists>h. apiLog st' = apiLog st @ h \<and> call_history (api_request cfg method path data) out h r"
proof -
  obtain res st1 where w1: "bucket_wait env st = Some (res, st1)"
    using assms by (auto simp: callRaw_def split: option.splits)
  show ?thesis
  proof (cases res)
    case (Some e)
    then show ?thesis using assms w1 bucket_wait_log [OF w1] by (auto simp: callRaw_def intro: refused)
  next
    case None
    obtain t where t: "apiLog st1 = apiLog st @ [Granted_at t]" using bucket_wait_log [OF w1] None by auto
    obtain r1 st2 where d1: "do_request env cfg method path data out st1 = (r1, st2)" by fastforce
    obtain a where a: "apiLog st2 = apiLog st1 @ a" "attempt (api_request cfg method path data) out a r1"
      using do_request_attempt [OF d1] by metis
    show ?thesis
    proof (cases "throttled r1")
      case False
      then have "r = r1" "st' = st2" using assms w1 None d1
        by (auto simp: callRaw_def throttled_def split: sum.splits)
      then show ?thesis using a t False by (auto intro!: call_history.once)
    next
      case True
      let ?b = "back_off env st2"
      let ?now = "env_clock env (apiWorld st2)"
      have b: "apiLog ?b = apiLog st2 @ [Backed_off ?now]"
          "backoffEnd (apiBucket ?b) = time_add ?now defaultQPSBackoff"
        by (simp_all add: back_off_def triggerBackoff_def Let_def)
      have rest: "(case bucket_wait env ?b of None \<Rightarrow> None | Some (Some werr, st3) \<Rightarrow> Some (Inl werr, st3)
          | Some (None, st3) \<Rightarrow> Some (do_request env cfg method path data out st3)) = Some (r, st')"
        using assms w1 None d1 True by (auto simp: callRaw_def throttled_def split: sum.splits)
      then obtain res2 st3 where w2: "bucket_wait env ?b = Some (res2, st3)" by (auto split: option.splits)
      show ?thesis
      proof (cases res2)
        case (Some e)
        then show ?thesis
          using rest w2 bucket_wait_log [OF w2] a t b refused_again [OF a(2) True, of t ?now] by auto
      next
        case nr: None
        obtain t' where t': "apiLog st3 = apiLog ?b @ [Granted_at t']"
            "\<not> time_before t' (time_add ?now defaultQPSBackoff)"
          using bucket_wait_log [OF w2] nr b(2) by auto
        have d2: "do_request env cfg method path data out st3 = (r, st')" using rest w2 nr by simp
        obtain a' where a': "apiLog st' = apiLog st3 @ a'" "attempt (api_request cfg method path data) out a' r"
          using do_request_attempt [OF d2] by metis
        show ?thesis using retried [OF a(2) True t'(2) a'(2), of t] a a' t t' b by auto
      qed
    qed
  qed
qed

text \<open>
  C18. The history of a card API call: its requests carry an access token, each follows a granted token
  of the bucket, there is a second one only after the first was answered with a QpsLimit error, and
  then the second token was granted no earlier than the two seconds of backoff; the result is what
  the last answer means, or the cancellation of a wait.
\<close>

theorem api_call_history:
  assumes "callRaw env cfg method path data out st = Some (r, st')"
  shows "\<exists>h. apiLog st' = apiLog st @ h \<and> call_history (api_request cfg method path data) out h r"
  using assms by (rule callRaw_history)

text \<open>A server that answers the first request with a QpsLimit error and the next one with \<open>ok\<close>.\<close>

definition demo_config :: "unit Config" where
  "demo_config = \<lparr>ClientID = ''robot'', ClientSecret = ''secret'', APIBase = ''https://api'', OapiBase = ''https://oapi'',
     CardTemplateID = ''t'', StreamThrottle = 800 * Millisecond, CardWatchdog = 10 * Minute,
     ErrorCooldown = 60 * Second, StaleMessageWindow = 0, TextChunkLimit = 3500, CardQPS = 20, AutoReconnect = None,
     KeepAliveIdle = 120 * Second, cfgPolicy = zero_PolicyConfig, cfgBatch = None, cfgChatQueue = None,
     cfgMediaBatch = None, cfgOutbound = None, SSRFAllowlist = [], Transport = ''stream'',
     HTTPTimestampTolerance = Hour, cfgSafety = DefaultSafetyConfig\<rparr>"

definition busy_answer :: "error_reply response" where
  "busy_answer = \<lparr>resp_status = 403, resp_raw = ''{}'', resp_json = Inr (''QpsLimit'', ''slow down'')\<rparr>"

definition ok_answer :: "error_reply response" where
  "ok_answer = \<lparr>resp_status = 200, resp_raw = ''ok'', resp_json = Inr ([], [])\<rparr>"

definition busy_env :: "time card_env" where
  "busy_env = \<lparr>env_token = (\<lambda>req w. (Inl Canceled, w)),
     env_api = (\<lambda>req w. (Inr (if w < 4 * Second then busy_answer else ok_answer), w)),
     env_clock = (\<lambda>w. w), env_rounds = (\<lambda>w. ([At w, At (w + 3 * Second)], w + 3 * Second)),
     env_draws = (\<lambda>n w. (replicate n 0, w))\<rparr>"


definition demo_state :: "time api_state" where
  "demo_state = \<lparr>apiTokens = \<lparr>token = ''T'', expiresAt = Hour\<rparr>, apiBucket = newTokenBucket 20 0, apiWorld = 0, apiLog = []\<rparr>"

abbreviation demo_call :: "time api_state \<Rightarrow> (unit api_result \<times> time api_state) option" where
  "demo_call \<equiv> callRaw busy_env demo_config ''GET'' ''/x'' None no_out"

text \<open>The states the call goes through.\<close>

definition demo_state1 :: "time api_state" where
  "demo_state1 = demo_state\<lparr>apiBucket := \<lparr>rate = 20, tokens = 19, lastRefill = 0, backoffEnd = zero_time\<rparr>,
     apiWorld := 3 * Second, apiLog := [Granted_at 0]\<rparr>"

definition demo_request :: request where
  "demo_request = api_request demo_config ''GET'' ''/x'' None ''T''"

definition demo_state2 :: "time api_state" where
  "demo_state2 = demo_state1\<lparr>apiLog := [Granted_at 0, Sent demo_request (Inr busy_answer)]\<rparr>"

definition demo_state3 :: "time api_state" where
  "demo_state3 = demo_state2\<lparr>apiBucket := \<lparr>rate = 20, tokens = 19, lastRefill = 6 * Second, backoffEnd = 5 * Second\<rparr>,
     apiWorld := 6 * Second, apiLog := apiLog demo_state2 @ [Backed_off (3 * Second), Granted_at (6 * Second)]\<rparr>"

definition demo_state4 :: "time api_state" where
  "demo_state4 = demo_state3\<lparr>apiLog := apiLog demo_state3 @ [Sent demo_request (Inr ok_answer)]\<rparr>"

lemmas demo_defs = demo_state_def demo_state1_def demo_state2_def demo_state3_def demo_state4_def

lemma busy_wait1: "bucket_wait busy_env demo_state = Some (None, demo_state1)"
  by (simp add: bucket_wait_def busy_env_def demo_defs newTokenBucket_def wait_round_def refillLocked_def
      zero_time_def seconds_def time_sub_def min_int64_def max_int64_def Let_def)

lemma busy_wait2: "bucket_wait busy_env (back_off busy_env demo_state2) = Some (None, demo_state3)"
  by (simp add: bucket_wait_def busy_env_def demo_defs wait_round_def refillLocked_def back_off_def
      triggerBackoff_def defaultQPSBackoff_def seconds_def time_sub_def min_int64_def max_int64_def Let_def)

lemma busy_request1:
  "do_request busy_env demo_config ''GET'' ''/x'' None no_out demo_state1
     = (Inl (ApiErr (api_error_of busy_answer)), demo_state2)"
  by (simp add: do_request_def busy_env_def demo_defs Token_Get_def token_fresh_def demo_request_def Let_def
      api_accept_def busy_answer_def)

lemma busy_request2:
  "do_request busy_env demo_config ''GET'' ''/x'' None no_out demo_state3 = (Inr (''ok'', None), demo_state4)"
  by (simp add: do_request_def busy_env_def demo_defs Token_Get_def token_fresh_def demo_request_def Let_def
      api_accept_def ok_answer_def)

lemma busy_limited: "qps_limited (ApiErr (api_error_of busy_answer))"
  by (simp add: qps_limited_def isQpsLimit_def api_error_of_def busy_answer_def has_prefix_def)

lemma busy_call: "demo_call demo_state = Some (Inr (''ok'', None), demo_state4)"
  unfolding callRaw_def busy_wait1 by (simp add: busy_request1 busy_limited busy_wait2 busy_request2)

theorem api_call_history_witness:
  "\<exists>h. apiLog demo_state4 = apiLog demo_state @ h
     \<and> call_history (api_request demo_config ''GET'' ''/x'' None) no_out h (Inr (''ok'', None))"
  by (rule api_call_history [OF busy_call])

end
