(* ===== verification/CardStreamer.thy ===== *)
theory CardStreamer
  imports CardClient
begin

text \<open>
  The streaming handle of an AI card, \<open>cardStreamer\<close>, the second half of \<open>card.go\<close>. Its methods and its
  two timers run in goroutines of their own: they hold the mutex in short critical sections and make
  their HTTP calls outside it. A goroutine is a \<open>task\<close>, a point of the code between two such steps
  with the values its local variables have there; a step of the system runs one task to its next
  point. The outcome of a call is chosen by the schedule, so every theorem about schedules holds for
  any behaviour of the network. Fields that the code reads outside the mutex (\<open>frameCount\<close> and
  \<open>lastFrameAt\<close> in \<open>update\<close>, \<open>inputingStarted\<close> in \<open>Fail\<close>) are read atomically here.
\<close>

section \<open>State\<close>

definition cardFrameGap :: duration where "cardFrameGap = 500 * Millisecond"
definition cardMaxContent :: nat where "cardMaxContent = 20000"
definition longGapThreshold :: duration where "longGapThreshold = 2 * Second"
definition longGapBatchWait :: duration where "longGapBatchWait = 300 * Millisecond"

text \<open>
  \<open>watchdog\<close> is the time the armed timer is due; a stopped or expired timer is \<open>None\<close>. The pointer
  \<open>s.card\<close> never changes after \<open>Stream\<close> has set it.
\<close>

record cardStreamer =
  accumulated :: string
  lastUpdate :: time
  closed :: bool
  hasPending :: bool
  frameCount :: int
  lastFrameAt :: time
  watchdog :: "time option"
  aborted :: bool
  the_card :: "cardInstance option"

text \<open>The fields fixed at creation; the two closures may be nil.\<close>

record streamer_setup =
  throttle :: duration
  watchdogAfter :: duration
  hasFallback :: bool
  hasDeliverRest :: bool

definition new_streamer :: "cardInstance option \<Rightarrow> cardStreamer" where
  "new_streamer c = \<lparr>accumulated = [], lastUpdate = zero_time, closed = False, hasPending = False,
     frameCount = 0, lastFrameAt = zero_time, watchdog = None, aborted = False, the_card = c\<rparr>"

definition CardDelivered :: "cardStreamer \<Rightarrow> bool" where
  "CardDelivered s \<longleftrightarrow> the_card s \<noteq> None"

definition started :: "cardStreamer \<Rightarrow> bool" where
  "started s \<longleftrightarrow> (case the_card s of None \<Rightarrow> False | Some c \<Rightarrow> inputingStarted c)"

definition mark_started :: "cardStreamer \<Rightarrow> cardStreamer" where
  "mark_started s = s\<lparr>the_card := map_option (\<lambda>c. c\<lparr>inputingStarted := True\<rparr>) (the_card s)\<rparr>"

definition resetWatchdogLocked :: "streamer_setup \<Rightarrow> time \<Rightarrow> cardStreamer \<Rightarrow> cardStreamer" where
  "resetWatchdogLocked cfg now s =
     (if watchdogAfter cfg \<le> 0 \<or> the_card s = None then s
      else s\<lparr>watchdog := Some (time_add now (watchdogAfter cfg))\<rparr>)"

definition armWatchdog :: "streamer_setup \<Rightarrow> time \<Rightarrow> cardStreamer \<Rightarrow> cardStreamer" where
  "armWatchdog = resetWatchdogLocked"

text \<open>The content of a frame is cut after 20000 characters; the rest is sent another way.\<close>

definition frame_content :: "string \<Rightarrow> string" where
  "frame_content s =
     (let r = decode_runes s in if cardMaxContent < length r then encode_runes (take cardMaxContent r) else s)"

definition overflowRemainder :: "string \<Rightarrow> string" where
  "overflowRemainder s =
     (let r = decode_runes s in if cardMaxContent < length r then encode_runes (drop cardMaxContent r) else [])"

section \<open>Tasks\<close>

datatype call =
    SetStatus string string
  | StreamFrame string bool
  | Fallback string
  | DeliverRest string
  | CancelCtx

text \<open>Where \<open>update\<close> returns to.\<close>

datatype caller = ByAppend | ByFlush | ByFinish

datatype task =
    AppendT string | FinishT string | AbortT | FailT string | FlushT time | WatchdogT
  | UpdateT string bool caller | GapT string bool caller | LockT string bool caller
  | InputingT string bool caller | MarkT string bool caller | SendT string bool caller
  | NoCardT string | FinishedT string | UpdateFailedT string goerr | StatusFailedT string goerr
  | RestT string "goerr option" | CancelT "goerr option"
  | AbortFrameT string | AbortStatusT string
  | FailStartT string | FailInputingT string | FailFrameT string | FailStatusT string
  | FailTextT string | FailCancelT "goerr option"
  | WatchdogFrameT string | WatchdogStatusT string

text \<open>The call a task is about to make; \<open>tryFallback\<close> makes one when there is something to send.\<close>

definition fallback_call :: "streamer_setup \<Rightarrow> string \<Rightarrow> call option" where
  "fallback_call cfg txt = (if \<not> hasFallback cfg \<or> blank txt then None else Some (Fallback txt))"

fun call_of :: "streamer_setup \<Rightarrow> task \<Rightarrow> call option" where
  "call_of cfg (InputingT c fin k) = Some (SetStatus flowInputing (NormalizeForCard (frame_content c)))"
| "call_of cfg (SendT c fin k) = Some (StreamFrame (frame_content c) fin)"
| "call_of cfg (NoCardT c) = fallback_call cfg c"
| "call_of cfg (FinishedT c) = Some (SetStatus flowFinished (NormalizeForCard c))"
| "call_of cfg (UpdateFailedT c err) = fallback_call cfg c"
| "call_of cfg (StatusFailedT c err) = fallback_call cfg c"
| "call_of cfg (RestT c err) =
     (if overflowRemainder c \<noteq> [] \<and> hasDeliverRest cfg then Some (DeliverRest (overflowRemainder c)) else None)"
| "call_of cfg (CancelT err) = Some CancelCtx"
| "call_of cfg (AbortFrameT c) = Some (StreamFrame c True)"
| "call_of cfg (AbortStatusT c) = Some (SetStatus flowFailed (NormalizeForCard c))"
| "call_of cfg (FailInputingT c) = Some (SetStatus flowInputing [])"
| "call_of cfg (FailFrameT c) = Some (StreamFrame c True)"
| "call_of cfg (FailStatusT c) = Some (SetStatus flowFailed (NormalizeForCard c))"
| "call_of cfg (FailTextT c) = fallback_call cfg c"
| "call_of cfg (FailCancelT err) = Some CancelCtx"
| "call_of cfg (WatchdogFrameT c) = Some (StreamFrame c True)"
| "call_of cfg (WatchdogStatusT c) = Some (SetStatus flowFinished (NormalizeForCard c))"
| "call_of cfg t = None"

text \<open>The history: the calls, the calls and returns of \<open>update\<close>, appended text, the closing, results.\<close>

datatype event =
    Called call "goerr option"
  | UpdateCalled string bool
  | UpdateReturned string bool "goerr option"
  | Appended string
  | Closed string
  | Returned "goerr option"

type_synonym task_result = "event list \<times> task list \<times> cardStreamer"

definition schedulePendingLocked :: "time \<Rightarrow> duration \<Rightarrow> cardStreamer \<Rightarrow> task list \<times> cardStreamer" where
  "schedulePendingLocked now d s =
     (if hasPending s then ([], s) else ([FlushT (time_add now d)], s\<lparr>hasPending := True\<rparr>))"

definition append_step :: "streamer_setup \<Rightarrow> time \<Rightarrow> string \<Rightarrow> cardStreamer \<Rightarrow> task_result" where
  "append_step cfg now delta s =
     (if closed s then ([Returned (Some (PlainErr ''streamer already closed''))], [], s)
      else
        let s = s\<lparr>accumulated := accumulated s @ delta\<rparr>;
            elapsed = time_sub now (lastUpdate s) in
        if the_card s = None then ([Appended delta, Returned None], [], s)
        else if throttle cfg \<le> elapsed \<and> longGapThreshold < elapsed
        then (case schedulePendingLocked now longGapBatchWait s of
                (ts, s') \<Rightarrow> ([Appended delta, Returned None], ts, s'))
        else if throttle cfg \<le> elapsed
        then ([Appended delta, UpdateCalled (accumulated s) False],
              [UpdateT (accumulated s) False ByAppend], s\<lparr>lastUpdate := now\<rparr>)
        else if \<not> hasPending s
        then (case schedulePendingLocked now (throttle cfg - elapsed) s of
                (ts, s') \<Rightarrow> ([Appended delta, Returned None], ts, s'))
        else ([Appended delta, Returned None], [], s))"

definition flush_step :: "time \<Rightarrow> cardStreamer \<Rightarrow> task_result" where
  "flush_step now s =
     (let s = s\<lparr>hasPending := False\<rparr> in
      if closed s \<or> the_card s = None then ([], [], s)
      else ([UpdateCalled (accumulated s) False], [UpdateT (accumulated s) False ByFlush], s\<lparr>lastUpdate := now\<rparr>))"

text \<open>\<open>Finish\<close>, \<open>Abort\<close>, \<open>Fail\<close> and the watchdog up to the end of their critical sections.\<close>

definition finish_step :: "string \<Rightarrow> cardStreamer \<Rightarrow> task_result" where
  "finish_step txt s =
     (if closed s then ([Returned None], [], s)
      else
        let s = s\<lparr>closed := True, watchdog := None, accumulated := (if txt \<noteq> [] then txt else accumulated s)\<rparr> in
        if the_card s = None then ([Closed (accumulated s)], [NoCardT (accumulated s)], s)
        else ([Closed (accumulated s), UpdateCalled (accumulated s) True],
              [UpdateT (accumulated s) True ByFinish], s))"

definition abort_step :: "cardStreamer \<Rightarrow> task_result" where
  "abort_step s =
     (if closed s then ([Returned None], [], s)
      else
        let s = s\<lparr>closed := True, aborted := True, watchdog := None\<rparr> in
        if the_card s = None then ([Closed (accumulated s), Returned None], [], s)
        else ([Closed (accumulated s)], [AbortFrameT (accumulated s)], s))"

definition fail_step :: "string \<Rightarrow> cardStreamer \<Rightarrow> task_result" where
  "fail_step errText s =
     (if closed s then ([Returned None], [], s)
      else
        let s = s\<lparr>closed := True\<rparr> in
        if the_card s = None then ([Closed (accumulated s)], [FailTextT errText], s)
        else ([Closed (accumulated s)], [FailStartT errText], s))"

definition watchdog_step :: "cardStreamer \<Rightarrow> task_result" where
  "watchdog_step s =
     (if closed s \<or> the_card s = None then ([], [], s)
      else ([Closed (accumulated s)], [WatchdogFrameT (accumulated s)], s\<lparr>closed := True\<rparr>))"

text \<open>\<open>update\<close>: its entry, where it may have to wait for the frame gap, and its two critical sections.\<close>

definition update_entry :: "time \<Rightarrow> string \<Rightarrow> bool \<Rightarrow> caller \<Rightarrow> cardStreamer \<Rightarrow> task" where
  "update_entry now c fin k s =
     (if (frameCount s = 0 \<or> fin) \<and> time_sub now (lastFrameAt s) < cardFrameGap then GapT c fin k
      else LockT c fin k)"

definition count_frame :: "streamer_setup \<Rightarrow> time \<Rightarrow> cardStreamer \<Rightarrow> cardStreamer" where
  "count_frame cfg now s = resetWatchdogLocked cfg now (s\<lparr>frameCount := frameCount s + 1, lastFrameAt := now\<rparr>)"

definition update_return :: "string \<Rightarrow> bool \<Rightarrow> caller \<Rightarrow> goerr option \<Rightarrow> cardStreamer \<Rightarrow> task_result" where
  "update_return c fin k res s =
     (UpdateReturned c fin res # (if k = ByAppend then [Returned res] else []),
      (if k = ByFinish
       then (case res of Some err \<Rightarrow> [UpdateFailedT c err] | None \<Rightarrow> [FinishedT c])
       else []), s)"

definition card_unavailable :: goerr where "card_unavailable = PlainErr ''card unavailable''"

fun task_step :: "streamer_setup \<Rightarrow> time \<Rightarrow> goerr option \<Rightarrow> task \<Rightarrow> cardStreamer \<Rightarrow> task_result" where
  "task_step cfg now res (AppendT delta) s = append_step cfg now delta s"
| "task_step cfg now res (FinishT txt) s = finish_step txt s"
| "task_step cfg now res AbortT s = abort_step s"
| "task_step cfg now res (FailT errText) s = fail_step errText s"
| "task_step cfg now res (FlushT due) s = flush_step now s"
| "task_step cfg now res WatchdogT s = watchdog_step s"
| "task_step cfg now res (UpdateT c fin k) s =
     (if the_card s = None then update_return c fin k (Some card_unavailable) s
      else ([], [update_entry now c fin k s], s))"
| "task_step cfg now res (GapT c fin k) s =
     (case res of Some err \<Rightarrow> update_return c fin k (Some err) s | None \<Rightarrow> ([], [LockT c fin k], s))"
| "task_step cfg now res (LockT c fin k) s =
     (if the_card s = None then update_return c fin k (Some card_unavailable) s
      else if started s then ([], [SendT c fin k], count_frame cfg now s)
      else ([], [InputingT c fin k], s))"
| "task_step cfg now res (InputingT c fin k) s =
     (case res of Some err \<Rightarrow> update_return c fin k (Some err) s | None \<Rightarrow> ([], [MarkT c fin k], s))"
| "task_step cfg now res (MarkT c fin k) s = ([], [SendT c fin k], count_frame cfg now (mark_started s))"
| "task_step cfg now res (SendT c fin k) s = update_return c fin k res s"
| "task_step cfg now res (NoCardT c) s = ([Returned (if call_of cfg (NoCardT c) = None then None else res)], [], s)"
| "task_step cfg now res (FinishedT c) s =
     ([], [case res of Some err \<Rightarrow> StatusFailedT c err | None \<Rightarrow> RestT c None], s)"
| "task_step cfg now res (UpdateFailedT c err) s = ([Returned (Some err)], [], s)"
| "task_step cfg now res (StatusFailedT c err) s = ([], [RestT c (Some err)], s)"
| "task_step cfg now res (RestT c err) s = ([], [CancelT err], s)"
| "task_step cfg now res (CancelT err) s = ([Returned err], [], s)"
| "task_step cfg now res (AbortFrameT c) s = ([], [AbortStatusT c], s)"
| "task_step cfg now res (AbortStatusT c) s = ([Returned res], [], s)"
| "task_step cfg now res (FailStartT c) s = ([], [if started s then FailFrameT c else FailInputingT c], s)"
| "task_step cfg now res (FailInputingT c) s = ([], [FailFrameT c], mark_started s)"
| "task_step cfg now res (FailFrameT c) s = ([], [FailStatusT c], s)"
| "task_step cfg now res (FailStatusT c) s = ([], [FailTextT c], s)"
| "task_step cfg now res (FailTextT c) s =
     ([], [FailCancelT (if call_of cfg (FailTextT c) = None then None else res)], s)"
| "task_step cfg now res (FailCancelT err) s = ([Returned err], [], s)"
| "task_step cfg now res (WatchdogFrameT c) s = ([], (if res = None then [WatchdogStatusT c] else []), s)"
| "task_step cfg now res (WatchdogStatusT c) s = ([], [], s)"

end
