(* ===== verification/CardSystem.thy ===== *)
theory CardSystem
  imports CardStreamer "HOL-Library.Sublist"
begin

text \<open>
  All goroutines of one streaming handle together, and what holds for every schedule of them: it is
  closed once, nothing appended is dropped, the frames show what was appended, and the work ends.
\<close>

section \<open>The system\<close>

text \<open>
  The goroutines of one streamer, the clock, and the history. A schedule starts operations, lets time
  pass, lets the watchdog expire, and runs one step of one task with an outcome for its call or wait
  (\<open>None\<close> is success). A flush timer can only run when it is due.
\<close>

datatype operation = Append string | Finish string | Abort | Fail string

fun entry :: "operation \<Rightarrow> task" where
  "entry (Append delta) = AppendT delta"
| "entry (Finish txt) = FinishT txt"
| "entry Abort = AbortT"
| "entry (Fail errText) = FailT errText"

datatype action = Start operation | Tick duration | WatchdogExpires | RunTask nat "goerr option"

record system =
  streamer :: cardStreamer
  tasks :: "task list"
  clock :: time
  history :: "event list"

definition new_system :: "cardStreamer \<Rightarrow> time \<Rightarrow> system" where
  "new_system s now = \<lparr>streamer = s, tasks = [], clock = now, history = []\<rparr>"

fun is_due :: "time \<Rightarrow> task \<Rightarrow> bool" where
  "is_due now (FlushT due) = (due \<le> now)"
| "is_due now t = True"

definition call_event :: "streamer_setup \<Rightarrow> goerr option \<Rightarrow> task \<Rightarrow> event list" where
  "call_event cfg res t = (case call_of cfg t of None \<Rightarrow> [] | Some c \<Rightarrow> [Called c res])"

definition run_task :: "streamer_setup \<Rightarrow> nat \<Rightarrow> goerr option \<Rightarrow> system \<Rightarrow> system" where
  "run_task cfg i res y =
     (case task_step cfg (clock y) res (tasks y ! i) (streamer y) of
        (es, ts, s) \<Rightarrow>
          y\<lparr>streamer := s, tasks := take i (tasks y) @ ts @ drop (Suc i) (tasks y),
            history := history y @ call_event cfg res (tasks y ! i) @ es\<rparr>)"

fun system_step :: "streamer_setup \<Rightarrow> action \<Rightarrow> system \<Rightarrow> system option" where
  "system_step cfg (Start op) y = Some (y\<lparr>tasks := tasks y @ [entry op]\<rparr>)"
| "system_step cfg (Tick d) y = (if d < 0 then None else Some (y\<lparr>clock := clock y + d\<rparr>))"
| "system_step cfg WatchdogExpires y =
     (case watchdog (streamer y) of
        None \<Rightarrow> None
      | Some due \<Rightarrow>
          if due \<le> clock y
          then Some (y\<lparr>streamer := (streamer y)\<lparr>watchdog := None\<rparr>, tasks := tasks y @ [WatchdogT]\<rparr>)
          else None)"
| "system_step cfg (RunTask i res) y =
     (if i < length (tasks y) \<and> is_due (clock y) (tasks y ! i) then Some (run_task cfg i res y) else None)"

fun run :: "streamer_setup \<Rightarrow> action list \<Rightarrow> system \<Rightarrow> system option" where
  "run cfg [] y = Some y"
| "run cfg (a # acts) y = (case system_step cfg a y of None \<Rightarrow> None | Some y' \<Rightarrow> run cfg acts y')"

lemma run_invariant:
  assumes "run cfg acts y = Some y'" and "P y"
    and step: "\<And>a y y'. P y \<Longrightarrow> system_step cfg a y = Some y' \<Longrightarrow> P y'"
  shows "P y'"
  using assms(1,2) by (induction acts arbitrary: y) (auto split: option.splits intro: step)

text \<open>A quantity summed over the tasks changes by what the task that runs becomes.\<close>

lemma sum_tasks_nth:
  "i < length ts \<Longrightarrow> sum_list (map w ts)
     = sum_list (map w (take i ts)) + w (ts ! i) + (sum_list (map w (drop (Suc i) ts)) :: nat)"
  by (metis id_take_nth_drop map_append list.simps(9) sum_list.append sum_list.Cons add.assoc)

definition task_sum :: "(task \<Rightarrow> nat) \<Rightarrow> system \<Rightarrow> nat" where
  "task_sum w y = sum_list (map w (tasks y))"

definition event_sum :: "(event \<Rightarrow> nat) \<Rightarrow> system \<Rightarrow> nat" where
  "event_sum w y = sum_list (map w (history y))"

text \<open>
  Counting: what a step adds to the history, plus what its task may still add, is what the task could
  add before, apart from the entry points, whose steps may add \<open>g\<close>.
\<close>

lemma task_sum_step:
  assumes "i < length (tasks y)" "task_step cfg (clock y) res (tasks y ! i) (streamer y) = (es, ts, s)"
  shows "task_sum w (run_task cfg i res y) + w (tasks y ! i) = task_sum w y + sum_list (map w ts)"
    "event_sum e (run_task cfg i res y)
       = event_sum e y + sum_list (map e (call_event cfg res (tasks y ! i))) + sum_list (map e es)"
    "streamer (run_task cfg i res y) = s"
  using assms sum_tasks_nth [OF assms(1), of w] by (simp_all add: run_task_def task_sum_def event_sum_def)

section \<open>Closing\<close>

text \<open>The final frames, the last status updates and the closings of a history.\<close>

fun is_final_frame :: "event \<Rightarrow> nat" where
  "is_final_frame (Called (StreamFrame c True) r) = 1"
| "is_final_frame _ = 0"

definition is_last_status :: "event \<Rightarrow> nat" where
  "is_last_status e =
     (case e of Called (SetStatus st c) r \<Rightarrow> of_bool (st = flowFinished \<or> st = flowFailed) | _ \<Rightarrow> 0)"

fun is_closing :: "event \<Rightarrow> nat" where
  "is_closing (Closed c) = 1"
| "is_closing _ = 0"

text \<open>How many of them a task may still cause, once the streamer is closed.\<close>

fun frames_left :: "task \<Rightarrow> nat" where
  "frames_left (UpdateT c fin k) = of_bool fin"
| "frames_left (GapT c fin k) = of_bool fin"
| "frames_left (LockT c fin k) = of_bool fin"
| "frames_left (InputingT c fin k) = of_bool fin"
| "frames_left (MarkT c fin k) = of_bool fin"
| "frames_left (SendT c fin k) = of_bool fin"
| "frames_left (AbortFrameT c) = 1"
| "frames_left (FailStartT c) = 1"
| "frames_left (FailInputingT c) = 1"
| "frames_left (FailFrameT c) = 1"
| "frames_left (WatchdogFrameT c) = 1"
| "frames_left t = 0"

fun status_left :: "task \<Rightarrow> nat" where
  "status_left (UpdateT c fin k) = of_bool (k = ByFinish)"
| "status_left (GapT c fin k) = of_bool (k = ByFinish)"
| "status_left (LockT c fin k) = of_bool (k = ByFinish)"
| "status_left (InputingT c fin k) = of_bool (k = ByFinish)"
| "status_left (MarkT c fin k) = of_bool (k = ByFinish)"
| "status_left (SendT c fin k) = of_bool (k = ByFinish)"
| "status_left (FinishedT c) = 1"
| "status_left (AbortFrameT c) = 1"
| "status_left (AbortStatusT c) = 1"
| "status_left (FailStartT c) = 1"
| "status_left (FailInputingT c) = 1"
| "status_left (FailFrameT c) = 1"
| "status_left (FailStatusT c) = 1"
| "status_left (WatchdogFrameT c) = 1"
| "status_left (WatchdogStatusT c) = 1"
| "status_left t = 0"

lemmas step_defs =
  append_step_def flush_step_def finish_step_def abort_step_def fail_step_def watchdog_step_def
  update_entry_def update_return_def schedulePendingLocked_def count_frame_def resetWatchdogLocked_def
  mark_started_def Let_def call_event_def

lemma status_codes [simp]: "flowInputing \<noteq> flowFinished" "flowInputing \<noteq> flowFailed" "flowFinished \<noteq> flowFailed"
  by (simp_all add: flowInputing_def flowFinished_def flowFailed_def)

lemma step_closed:
  "task_step cfg now res t s = (es, ts, s') \<Longrightarrow> closed s \<Longrightarrow> closed s' \<and> sum_list (map is_closing es) = 0"
  by (cases t) (auto simp: step_defs split: if_splits option.splits prod.splits)


lemma step_closings:
  assumes "task_step cfg now res t s = (es, ts, s')"
  shows "sum_list (map is_closing es) + of_bool (closed s) = of_bool (closed s')"
    and "sum_list (map is_closing (call_event cfg res t)) = 0"
  using assms
  by (cases t; auto simp: step_defs split: if_splits option.splits prod.splits)+

lemma step_frames:
  assumes "task_step cfg now res t s = (es, ts, s')"
  shows "sum_list (map is_final_frame (call_event cfg res t)) + sum_list (map is_final_frame es)
      + sum_list (map frames_left ts) + of_bool (closed s) \<le> frames_left t + of_bool (closed s')"
  using assms
  by (cases t) (auto simp: step_defs fallback_call_def split: if_splits option.splits prod.splits bool.splits)

lemma step_statuses:
  assumes "task_step cfg now res t s = (es, ts, s')"
  shows "sum_list (map is_last_status (call_event cfg res t)) + sum_list (map is_last_status es)
      + sum_list (map status_left ts) + of_bool (closed s) \<le> status_left t + of_bool (closed s')"
  using assms
  by (cases t) (auto simp: step_defs fallback_call_def is_last_status_def split: if_splits option.splits prod.splits bool.splits)


definition closing_inv :: "system \<Rightarrow> bool" where
  "closing_inv y \<longleftrightarrow> event_sum is_closing y = of_bool (closed (streamer y))
     \<and> event_sum is_final_frame y + task_sum frames_left y \<le> of_bool (closed (streamer y))
     \<and> event_sum is_last_status y + task_sum status_left y \<le> of_bool (closed (streamer y))"

lemma closing_inv_run_task:
  assumes "closing_inv y" "i < length (tasks y)"
  shows "closing_inv (run_task cfg i res y)"
proof -
  obtain es ts s where st: "task_step cfg (clock y) res (tasks y ! i) (streamer y) = (es, ts, s)"
    by (metis prod_cases3)
  note sums = task_sum_step [OF assms(2) st]
  have "event_sum is_closing (run_task cfg i res y) = of_bool (closed s)"
    using assms(1) step_closings [OF st] sums(2) [of is_closing] unfolding closing_inv_def by linarith
  moreover have "event_sum is_final_frame (run_task cfg i res y) + task_sum frames_left (run_task cfg i res y)
      \<le> of_bool (closed s)"
    using assms(1) step_frames [OF st] sums(1) [of frames_left] sums(2) [of is_final_frame]
    unfolding closing_inv_def by linarith
  moreover have "event_sum is_last_status (run_task cfg i res y) + task_sum status_left (run_task cfg i res y)
      \<le> of_bool (closed s)"
    using assms(1) step_statuses [OF st] sums(1) [of status_left] sums(2) [of is_last_status]
    unfolding closing_inv_def by linarith
  ultimately show ?thesis by (simp add: closing_inv_def sums(3))
qed

text \<open>A step of the system: a step of a task, a new task at its entry point, or the clock.\<close>

lemma system_step_cases:
  assumes "system_step cfg a y = Some y'"
  obtains (task) i res where "a = RunTask i res" "i < length (tasks y)" "is_due (clock y) (tasks y ! i)"
      "y' = run_task cfg i res y"
    | (start) op where "a = Start op" "y' = y\<lparr>tasks := tasks y @ [entry op]\<rparr>"
    | (tick) d where "a = Tick d" "0 \<le> d" "y' = y\<lparr>clock := clock y + d\<rparr>"
    | (watch) due where "a = WatchdogExpires" "watchdog (streamer y) = Some due" "due \<le> clock y"
        "y' = y\<lparr>streamer := (streamer y)\<lparr>watchdog := None\<rparr>, tasks := tasks y @ [WatchdogT]\<rparr>"
  using assms by (cases a) (auto split: if_splits option.splits)

lemma entry_left [simp]: "frames_left (entry op) = 0" "status_left (entry op) = 0"
  by (cases op; simp)+

lemma closing_inv_step: "closing_inv y \<Longrightarrow> system_step cfg a y = Some y' \<Longrightarrow> closing_inv y'"
  by (erule system_step_cases)
    (auto simp: closing_inv_run_task, auto simp: closing_inv_def task_sum_def event_sum_def)

lemma closing_inv_new: "closed s = False \<Longrightarrow> closing_inv (new_system s now)"
  by (simp add: closing_inv_def new_system_def task_sum_def event_sum_def)

text \<open>
  C5. A card is closed once: however \<open>Append\<close>, \<open>Finish\<close>, \<open>Abort\<close>, \<open>Fail\<close>, the flush timers and the
  watchdog interleave, and whatever the calls answer, at most one of the closing operations takes
  effect, at most one final frame is sent and the card gets at most one FINISHED or FAILED status, and
  none of these before the streamer is closed.
\<close>

theorem card_closed_once:
  assumes "run cfg acts (new_system (new_streamer c) now) = Some y"
  shows "event_sum is_closing y = of_bool (closed (streamer y))
    \<and> event_sum is_final_frame y \<le> of_bool (closed (streamer y))
    \<and> event_sum is_last_status y \<le> of_bool (closed (streamer y))"
proof -
  have "closing_inv y"
    by (rule run_invariant [where P = closing_inv, OF assms])
      (auto simp: new_streamer_def intro: closing_inv_new closing_inv_step)
  then show ?thesis unfolding closing_inv_def by linarith
qed


section \<open>Nothing is dropped\<close>

fun update_arg :: "task \<Rightarrow> (string \<times> bool) option" where
  "update_arg (UpdateT c fin k) = Some (c, fin)"
| "update_arg (GapT c fin k) = Some (c, fin)"
| "update_arg (LockT c fin k) = Some (c, fin)"
| "update_arg (InputingT c fin k) = Some (c, fin)"
| "update_arg (MarkT c fin k) = Some (c, fin)"
| "update_arg (SendT c fin k) = Some (c, fin)"
| "update_arg _ = None"

definition updating :: "string \<Rightarrow> bool \<Rightarrow> task \<Rightarrow> nat" where
  "updating c fin t = of_bool (update_arg t = Some (c, fin))"

definition update_called :: "string \<Rightarrow> bool \<Rightarrow> event \<Rightarrow> nat" where
  "update_called c fin e = of_bool (e = UpdateCalled c fin)"

definition update_returned :: "string \<Rightarrow> bool \<Rightarrow> event \<Rightarrow> nat" where
  "update_returned c fin e = of_bool (\<exists>r. e = UpdateReturned c fin r)"

fun is_flush :: "task \<Rightarrow> nat" where
  "is_flush (FlushT due) = 1"
| "is_flush _ = 0"

lemma step_updates:
  assumes "task_step cfg now res t s = (es, ts, s')"
  shows "sum_list (map (update_called c fin) es) + updating c fin t
     = sum_list (map (update_returned c fin) es) + sum_list (map (updating c fin) ts)"
    and "sum_list (map (update_called c fin) (call_event cfg res t)) = 0"
    and "sum_list (map (update_returned c fin) (call_event cfg res t)) = 0"
  using assms
  by (cases t; auto simp: step_defs updating_def update_called_def update_returned_def
      split: if_splits option.splits prod.splits)+

lemma step_returned:
  "task_step cfg now res t s = (es, ts, s') \<Longrightarrow> UpdateReturned c fin None \<in> set es
   \<Longrightarrow> Called (StreamFrame (frame_content c) fin) None \<in> set (call_event cfg res t)"
  by (cases t) (auto simp: step_defs split: if_splits option.splits prod.splits)

lemma step_flush:
  "task_step cfg now res t s = (es, ts, s') \<Longrightarrow> (is_flush t = 1 \<Longrightarrow> hasPending s)
   \<Longrightarrow> is_flush t + of_bool (hasPending s') = sum_list (map is_flush ts) + of_bool (hasPending s)"
  by (cases t) (auto simp: step_defs split: if_splits option.splits prod.splits)

text \<open>The text collected so far waits for a flush or was handed to \<open>update\<close>.\<close>

definition handed_over :: "cardStreamer \<Rightarrow> event set \<Rightarrow> bool" where
  "handed_over s h \<longleftrightarrow> (\<not> closed s \<and> the_card s \<noteq> None \<and> accumulated s \<noteq> []
     \<longrightarrow> hasPending s \<or> UpdateCalled (accumulated s) False \<in> h)"

lemma handed_over_mono: "handed_over s h \<Longrightarrow> h \<subseteq> h' \<Longrightarrow> handed_over s h'"
  by (auto simp: handed_over_def)

lemma step_handed_over:
  "task_step cfg now res t s = (es, ts, s') \<Longrightarrow> handed_over s h \<Longrightarrow> handed_over s' (h \<union> set es)"
  by (cases t) (auto simp: step_defs handed_over_def split: if_splits option.splits prod.splits)

definition delivery_inv :: "system \<Rightarrow> bool" where
  "delivery_inv y \<longleftrightarrow> handed_over (streamer y) (set (history y))
     \<and> task_sum is_flush y = of_bool (hasPending (streamer y))
     \<and> (\<forall>c fin. event_sum (update_called c fin) y
          = event_sum (update_returned c fin) y + task_sum (updating c fin) y)
     \<and> (\<forall>c fin. UpdateReturned c fin None \<in> set (history y)
          \<longrightarrow> Called (StreamFrame (frame_content c) fin) None \<in> set (history y))"

lemma set_history_run_task:
  "task_step cfg (clock y) res (tasks y ! i) (streamer y) = (es, ts, s) \<Longrightarrow>
   set (history (run_task cfg i res y)) = set (history y) \<union> set (call_event cfg res (tasks y ! i)) \<union> set es"
  by (auto simp: run_task_def)

lemma delivery_inv_run_task:
  assumes inv: "delivery_inv y" and i: "i < length (tasks y)"
  shows "delivery_inv (run_task cfg i res y)"
proof -
  let ?y = "run_task cfg i res y"
  obtain es ts s where st: "task_step cfg (clock y) res (tasks y ! i) (streamer y) = (es, ts, s)"
    by (metis prod_cases3)
  note sums = task_sum_step [OF i st] and hist = set_history_run_task [OF st]
  have "handed_over s (set (history y) \<union> set es)"
    using step_handed_over [OF st] inv by (simp add: delivery_inv_def)
  then have 1: "handed_over (streamer ?y) (set (history ?y))"
    unfolding sums(3) by (rule handed_over_mono) (auto simp: hist)
  have "is_flush (tasks y ! i) \<le> task_sum is_flush y"
    using i by (auto simp: task_sum_def intro!: member_le_sum_list)
  moreover have flushes: "task_sum is_flush y = of_bool (hasPending (streamer y))"
    using inv by (simp add: delivery_inv_def)
  ultimately have "is_flush (tasks y ! i) = 1 \<Longrightarrow> hasPending (streamer y)" by (cases "hasPending (streamer y)") simp_all
  from step_flush [OF st this] have 2: "task_sum is_flush ?y = of_bool (hasPending (streamer ?y))"
    using sums(1) [of is_flush] flushes unfolding sums(3) by linarith
  have 3: "event_sum (update_called c fin) ?y = event_sum (update_returned c fin) ?y + task_sum (updating c fin) ?y" for c fin
  proof -
    have "event_sum (update_called c fin) y = event_sum (update_returned c fin) y + task_sum (updating c fin) y"
      using inv by (simp add: delivery_inv_def)
    then show ?thesis
      using step_updates [OF st, of c fin] sums(1) [of "updating c fin"] sums(2) [of "update_called c fin"]
        sums(2) [of "update_returned c fin"] by linarith
  qed
  have 4: "Called (StreamFrame (frame_content c) fin) None \<in> set (history ?y)"
    if "UpdateReturned c fin None \<in> set (history ?y)" for c fin
    using that step_returned [OF st, of c fin] inv
    by (auto simp: hist delivery_inv_def call_event_def split: option.splits)
  show ?thesis unfolding delivery_inv_def using 1 2 3 4 by blast
qed

lemma entry_idle [simp]:
  "is_flush (entry op) = 0" "updating c fin (entry op) = 0" "updating c fin WatchdogT = 0"
  by (cases op; simp add: updating_def)+

lemma is_flushE: "is_flush t \<noteq> 0 \<Longrightarrow> \<exists>due. t = FlushT due"
  by (cases t) auto

lemma delivery_inv_step: "delivery_inv y \<Longrightarrow> system_step cfg a y = Some y' \<Longrightarrow> delivery_inv y'"
  by (erule system_step_cases)
    (simp add: delivery_inv_run_task,
     simp_all add: delivery_inv_def task_sum_def event_sum_def handed_over_def)

lemma delivery_inv_new: "delivery_inv (new_system (new_streamer c) now)"
  by (simp add: delivery_inv_def handed_over_def new_streamer_def new_system_def task_sum_def event_sum_def)

text \<open>
  C13. Nothing appended is dropped: as long as the streamer of a delivered card is open, the text
  collected so far either waits for a scheduled flush, or is being sent by an \<open>update\<close>, or was sent: an
  \<open>update\<close> with exactly this text has returned, and when it succeeded the frame with it was accepted.
\<close>

theorem nothing_dropped:
  assumes "run cfg acts (new_system (new_streamer c) now) = Some y"
    and "\<not> closed (streamer y)" and "CardDelivered (streamer y)" and "accumulated (streamer y) \<noteq> []"
  shows "(\<exists>due. FlushT due \<in> set (tasks y))
    \<or> (\<exists>t \<in> set (tasks y). update_arg t = Some (accumulated (streamer y), False))
    \<or> (\<exists>r. UpdateReturned (accumulated (streamer y)) False r \<in> set (history y)
        \<and> (r = None \<longrightarrow> Called (StreamFrame (frame_content (accumulated (streamer y))) False) None \<in> set (history y)))"
proof -
  have inv: "delivery_inv y"
    by (rule run_invariant [where P = delivery_inv, OF assms(1) delivery_inv_new delivery_inv_step])
  let ?a = "accumulated (streamer y)"
  consider "hasPending (streamer y)" | "UpdateCalled ?a False \<in> set (history y)"
    using inv assms(2-4) by (auto simp: delivery_inv_def handed_over_def CardDelivered_def)
  then show ?thesis
  proof cases
    case 1
    then have "sum_list (map is_flush (tasks y)) = 1" using inv by (simp add: delivery_inv_def task_sum_def)
    then obtain t where "t \<in> set (tasks y)" "is_flush t \<noteq> 0" by (metis sum_list_eq_0_iff imageE list.set_map zero_neq_one)
    then show ?thesis using is_flushE by blast
  next
    case 2
    then have "0 < event_sum (update_called ?a False) y"
      by (auto simp: event_sum_def update_called_def neq0_conv [symmetric] simp del: neq0_conv)
    then have "0 < event_sum (update_returned ?a False) y + task_sum (updating ?a False) y"
      using inv by (simp add: delivery_inv_def)
    then consider "0 < event_sum (update_returned ?a False) y" | "0 < task_sum (updating ?a False) y" by linarith
    then show ?thesis
    proof cases
      case 1
      then obtain r where "UpdateReturned ?a False r \<in> set (history y)"
        by (auto simp: event_sum_def update_returned_def neq0_conv [symmetric] simp del: neq0_conv)
      then show ?thesis using inv by (cases r) (auto simp: delivery_inv_def)
    next
      case 2
      then show ?thesis by (auto simp: task_sum_def updating_def neq0_conv [symmetric] simp del: neq0_conv)
    qed
  qed
qed


section \<open>The work ends\<close>

definition caller_rank :: "caller \<Rightarrow> nat" where
  "caller_rank k = (if k = ByFinish then 4 else 0)"

fun rank :: "task \<Rightarrow> nat" where
  "rank (AppendT d) = 8"
| "rank (FinishT c) = 11"
| "rank AbortT = 3"
| "rank (FailT c) = 7"
| "rank (FlushT due) = 7"
| "rank WatchdogT = 3"
| "rank (UpdateT c fin k) = 6 + caller_rank k"
| "rank (GapT c fin k) = 5 + caller_rank k"
| "rank (LockT c fin k) = 4 + caller_rank k"
| "rank (InputingT c fin k) = 3 + caller_rank k"
| "rank (MarkT c fin k) = 2 + caller_rank k"
| "rank (SendT c fin k) = 1 + caller_rank k"
| "rank (FinishedT c) = 4"
| "rank (StatusFailedT c err) = 3"
| "rank (RestT c err) = 2"
| "rank (AbortFrameT c) = 2"
| "rank (FailStartT c) = 6"
| "rank (FailInputingT c) = 5"
| "rank (FailFrameT c) = 4"
| "rank (FailStatusT c) = 3"
| "rank (FailTextT c) = 2"
| "rank (WatchdogFrameT c) = 2"
| "rank t = 1"

lemma step_rank: "task_step cfg now res t s = (es, ts, s') \<Longrightarrow> sum_list (map rank ts) < rank t"
  by (cases t) (auto simp: step_defs caller_rank_def split: if_splits option.splits prod.splits)

lemma run_task_rank:
  assumes "i < length (tasks y)"
  shows "task_sum rank (run_task cfg i res y) < task_sum rank y"
proof -
  obtain es ts s where st: "task_step cfg (clock y) res (tasks y ! i) (streamer y) = (es, ts, s)"
    by (metis prod_cases3)
  show ?thesis using step_rank [OF st] task_sum_step(1) [OF assms st, of rank] by linarith
qed

fun is_run :: "action \<Rightarrow> nat" where
  "is_run (RunTask i res) = 1"
| "is_run _ = 0"

fun brings :: "action \<Rightarrow> nat" where
  "brings (Start op) = 11"
| "brings WatchdogExpires = 3"
| "brings _ = 0"

lemma entry_rank: "rank (entry op) \<le> 11"
  by (cases op) simp_all

lemma step_work:
  "system_step cfg a y = Some y' \<Longrightarrow> task_sum rank y' + is_run a \<le> task_sum rank y + brings a"
  by (erule system_step_cases)
    (auto simp: Suc_le_eq run_task_rank, auto simp: task_sum_def entry_rank)

lemma run_work:
  "run cfg acts y = Some y' \<Longrightarrow>
     task_sum rank y' + sum_list (map is_run acts) \<le> task_sum rank y + sum_list (map brings acts)"
proof (induction acts arbitrary: y)
  case (Cons a acts)
  then obtain y1 where y1: "system_step cfg a y = Some y1" "run cfg acts y1 = Some y'"
    by (auto split: option.splits)
  show ?case using step_work [OF y1(1)] Cons.IH [OF y1(2)] by simp
qed simp

definition internal :: "action \<Rightarrow> bool" where
  "internal a \<longleftrightarrow> (case a of Tick d \<Rightarrow> True | RunTask i res \<Rightarrow> True | _ \<Rightarrow> False)"

lemma run_append: "run cfg (as @ bs) y = (case run cfg as y of None \<Rightarrow> None | Some y' \<Rightarrow> run cfg bs y')"
  by (induction as arbitrary: y) (auto split: option.splits)

text \<open>The first task can always be brought to its next point.\<close>

lemma can_run_first:
  assumes "tasks y \<noteq> []"
  obtains as y' where "list_all internal as" "run cfg as y = Some y'" "task_sum rank y' < task_sum rank y"
proof (cases "is_due (clock y) (tasks y ! 0)")
  case True
  then show ?thesis
    using that [of "[RunTask 0 None]" "run_task cfg 0 None y"] run_task_rank [of 0 y cfg None] assms
    by (simp add: internal_def)
next
  case False
  then obtain due where due: "tasks y ! 0 = FlushT due" "clock y < due" by (cases "tasks y ! 0") auto
  let ?y = "y\<lparr>clock := due\<rparr>"
  have "run cfg [Tick (due - clock y), RunTask 0 None] y = Some (run_task cfg 0 None ?y)"
    using due assms by simp
  moreover have "task_sum rank (run_task cfg 0 None ?y) < task_sum rank ?y"
    by (rule run_task_rank) (simp add: assms)
  moreover have "list_all internal [Tick (due - clock y), RunTask 0 None]" by (simp add: internal_def)
  moreover have "task_sum rank ?y = task_sum rank y" by (simp add: task_sum_def)
  ultimately show ?thesis using that by metis
qed

lemma can_finish_all: "\<exists>as y'. list_all internal as \<and> run cfg as y = Some y' \<and> tasks y' = []"
proof (induction "task_sum rank y" arbitrary: y rule: less_induct)
  case less
  show ?case
  proof (cases "tasks y = []")
    case True
    then show ?thesis by (intro exI [of _ "[]"]) simp
  next
    case False
    then obtain as y1 where 1: "list_all internal as" "run cfg as y = Some y1" "task_sum rank y1 < task_sum rank y"
      using can_run_first by metis
    then obtain bs y2 where "list_all internal bs" "run cfg bs y1 = Some y2" "tasks y2 = []"
      using less by metis
    with 1 show ?thesis by (intro exI [of _ "as @ bs"] exI [of _ y2]) (simp add: run_append)
  qed
qed

text \<open>
  C21. The goroutines of a streamer end: a schedule runs at most eleven steps of tasks for each operation
  and three for each expiry of the watchdog, and from every state it reaches, time and the tasks that
  are there can finish all the work.
\<close>

theorem streamer_work_ends:
  assumes "run cfg acts (new_system s now) = Some y"
  shows "sum_list (map is_run acts) \<le> sum_list (map brings acts)
    \<and> (\<exists>as y'. list_all internal as \<and> run cfg as y = Some y' \<and> tasks y' = [])"
  using run_work [OF assms] can_finish_all [of cfg y] by (simp add: new_system_def task_sum_def)


section \<open>What the frames show\<close>

fun appended_text :: "event \<Rightarrow> string" where
  "appended_text (Appended d) = d"
| "appended_text _ = []"

definition appended :: "event list \<Rightarrow> string" where
  "appended h = concat (map appended_text h)"

lemma appended_append [simp]: "appended (h @ h') = appended h @ appended h'"
  by (simp add: appended_def)

lemma step_appended:
  assumes "task_step cfg now res t s = (es, ts, s')"
  shows "\<not> closed s' \<Longrightarrow> accumulated s' = accumulated s @ appended es"
    and "closed s \<Longrightarrow> appended es = []"
    and "appended (call_event cfg res t) = []"
  using assms
  by (cases t; auto simp: step_defs appended_def split: if_splits option.splits prod.splits)+

lemma step_partial:
  assumes "task_step cfg now res t s = (es, ts, s')" "u \<in> set ts" "update_arg u = Some (c, False)"
  shows "update_arg t = Some (c, False) \<or> (\<not> closed s' \<and> c = accumulated s')"
  using assms by (cases t) (auto simp: step_defs split: if_splits option.splits prod.splits)

lemma call_partial:
  "Called (StreamFrame c False) r \<in> set (call_event cfg res t)
     \<Longrightarrow> \<exists>p. update_arg t = Some (p, False) \<and> c = frame_content p"
  by (cases t) (auto simp: call_event_def fallback_call_def split: if_splits)

lemma step_calls_nothing: "task_step cfg now res t s = (es, ts, s') \<Longrightarrow> Called c r \<notin> set es"
  by (cases t) (auto simp: step_defs split: if_splits option.splits prod.splits)

definition shown_inv :: "system \<Rightarrow> bool" where
  "shown_inv y \<longleftrightarrow> (\<not> closed (streamer y) \<longrightarrow> accumulated (streamer y) = appended (history y))
     \<and> (\<forall>t \<in> set (tasks y). \<forall>c. update_arg t = Some (c, False) \<longrightarrow> prefix c (appended (history y)))
     \<and> (\<forall>c r. Called (StreamFrame c False) r \<in> set (history y)
          \<longrightarrow> (\<exists>p. prefix p (appended (history y)) \<and> c = frame_content p))"

lemma shown_inv_run_task:
  assumes inv: "shown_inv y" and i: "i < length (tasks y)"
  shows "shown_inv (run_task cfg i res y)"
proof -
  let ?y = "run_task cfg i res y"
  obtain es ts s where st: "task_step cfg (clock y) res (tasks y ! i) (streamer y) = (es, ts, s)"
    by (metis prod_cases3)
  note app = step_appended [OF st] and hist = set_history_run_task [OF st]
  have h: "appended (history ?y) = appended (history y) @ appended es"
    using st app(3) by (simp add: run_task_def)
  have s: "streamer ?y = s" using task_sum_step(3) [OF i st] .
  have tasks: "set (tasks ?y) \<subseteq> set (tasks y) \<union> set ts"
    using st by (auto simp: run_task_def dest: in_set_takeD in_set_dropD)
  have open_before: "\<not> closed (streamer y)" if "\<not> closed s"
    using that step_closed [OF st] by auto
  have 1: "accumulated s = appended (history ?y)" if "\<not> closed s"
    using that app(1) open_before inv by (simp add: h shown_inv_def)
  have 2: "prefix c (appended (history ?y))"
    if t: "t \<in> set (tasks ?y)" "update_arg t = Some (c, False)" for t c
  proof (cases "t \<in> set (tasks y)")
    case True
    then show ?thesis using t inv by (auto simp: h shown_inv_def intro: prefix_prefix)
  next
    case False
    then consider "update_arg (tasks y ! i) = Some (c, False)" | "\<not> closed s" "c = accumulated s"
      using step_partial [OF st, of t c] t tasks by blast
    then show ?thesis
    proof cases
      case 1
      then have "prefix c (appended (history y))" using inv i unfolding shown_inv_def by (meson nth_mem)
      then show ?thesis by (simp add: h)
    qed (simp add: 1)
  qed
  have 3: "\<exists>p. prefix p (appended (history ?y)) \<and> c = frame_content p"
    if called: "Called (StreamFrame c False) r \<in> set (history ?y)" for c r
  proof -
    consider "Called (StreamFrame c False) r \<in> set (history y)"
      | "Called (StreamFrame c False) r \<in> set (call_event cfg res (tasks y ! i))"
      using called step_calls_nothing [OF st] by (auto simp: hist)
    then obtain p where "prefix p (appended (history y))" "c = frame_content p"
      using inv i call_partial unfolding shown_inv_def by (metis nth_mem)
    then show ?thesis by (auto simp: h intro: prefix_prefix)
  qed
  show ?thesis unfolding shown_inv_def s using 1 2 3 by blast
qed

lemma entry_update [simp]: "update_arg (entry op) = None"
  by (cases op) simp_all

lemma shown_inv_step: "shown_inv y \<Longrightarrow> system_step cfg a y = Some y' \<Longrightarrow> shown_inv y'"
  by (erule system_step_cases) (simp add: shown_inv_run_task, simp_all add: shown_inv_def)

text \<open>
  C14. The card only ever shows what was appended: every frame that is not final is the beginning (cut at
  the frame limit) of a prefix of the text appended so far, and while the streamer is open its text is
  what was appended, in the order the appends got the mutex.
\<close>

theorem frames_show_prefixes:
  assumes "run cfg acts (new_system (new_streamer c) now) = Some y"
  shows "(closed (streamer y) \<or> accumulated (streamer y) = appended (history y))
    \<and> {f. \<exists>r. Called (StreamFrame f False) r \<in> set (history y)}
       \<subseteq> frame_content ` {p. prefix p (appended (history y))}"
proof -
  have "shown_inv y"
    by (rule run_invariant [where P = shown_inv, OF assms _ shown_inv_step])
      (simp_all add: shown_inv_def new_system_def new_streamer_def appended_def)
  then show ?thesis by (auto simp: shown_inv_def)
qed


section \<open>Finish reaches the user\<close>

text \<open>
  What a finished content has got: the final frame and the FINISHED status, and the part over the frame
  limit sent on; or else the fallback has been called with all of it.
\<close>

definition fell_back :: "streamer_setup \<Rightarrow> string \<Rightarrow> event set \<Rightarrow> bool" where
  "fell_back cfg c h \<longleftrightarrow> fallback_call cfg c = None \<or> (\<exists>r. Called (Fallback c) r \<in> h)"

definition framed :: "string \<Rightarrow> event set \<Rightarrow> bool" where
  "framed c h \<longleftrightarrow> Called (StreamFrame (frame_content c) True) None \<in> h"

definition marked_finished :: "string \<Rightarrow> event set \<Rightarrow> bool" where
  "marked_finished c h \<longleftrightarrow> Called (SetStatus flowFinished (NormalizeForCard c)) None \<in> h"

definition rest_sent :: "streamer_setup \<Rightarrow> string \<Rightarrow> event set \<Rightarrow> bool" where
  "rest_sent cfg c h \<longleftrightarrow> overflowRemainder c = [] \<or> \<not> hasDeliverRest cfg
     \<or> (\<exists>r. Called (DeliverRest (overflowRemainder c)) r \<in> h)"

definition settled :: "streamer_setup \<Rightarrow> string \<Rightarrow> event set \<Rightarrow> bool" where
  "settled cfg c h \<longleftrightarrow> (framed c h \<and> marked_finished c h \<and> rest_sent cfg c h) \<or> fell_back cfg c h"

text \<open>The tasks a call of \<open>Finish\<close> goes through, with what it has done by then.\<close>

definition finishing :: "streamer_setup \<Rightarrow> string \<Rightarrow> task \<Rightarrow> event set \<Rightarrow> bool" where
  "finishing cfg c t h \<longleftrightarrow>
     t \<in> {UpdateT c True ByFinish, GapT c True ByFinish, LockT c True ByFinish, InputingT c True ByFinish,
          MarkT c True ByFinish, SendT c True ByFinish}
     \<or> (t = FinishedT c \<and> framed c h) \<or> (\<exists>err. t = UpdateFailedT c err) \<or> (\<exists>err. t = StatusFailedT c err)
     \<or> (t = RestT c None \<and> framed c h \<and> marked_finished c h) \<or> (\<exists>err. t = RestT c (Some err) \<and> fell_back cfg c h)"

lemmas finish_defs = fell_back_def framed_def marked_finished_def rest_sent_def

lemma settled_mono: "settled cfg c h \<Longrightarrow> h \<subseteq> h' \<Longrightarrow> settled cfg c h'"
  by (auto simp: settled_def finish_defs)

lemma finishing_mono: "finishing cfg c t h \<Longrightarrow> h \<subseteq> h' \<Longrightarrow> finishing cfg c t h'"
  by (auto simp: finishing_def finish_defs)

lemma step_starts_finishing:
  "task_step cfg now res t s = (es, ts, s') \<Longrightarrow> UpdateCalled c True \<in> set es \<Longrightarrow> UpdateT c True ByFinish \<in> set ts"
  by (cases t) (auto simp: step_defs split: if_splits option.splits prod.splits)

lemma step_finishing:
  assumes "task_step cfg now res t s = (es, ts, s')" and "finishing cfg c t h"
    and "h \<union> set (call_event cfg res t) \<subseteq> h'"
  shows "settled cfg c h' \<or> (\<exists>t' \<in> set ts. finishing cfg c t' h')"
proof -
  have h: "h \<subseteq> h'" "set (call_event cfg res t) \<subseteq> h'" using assms(3) by auto
  have call: "Called cc res \<in> h'" if "call_of cfg t = Some cc" for cc
    using that h(2) by (auto simp: call_event_def)
  have fin: "finishing cfg c t h'" by (rule finishing_mono [OF assms(2) h(1)])
  have ts: "ts = fst (snd (task_step cfg now res t s))" by (simp add: assms(1))
  have fb: "fell_back cfg c h'" if "call_of cfg t = fallback_call cfg c"
  proof (cases "fallback_call cfg c")
    case (Some cc)
    then have "cc = Fallback c" by (auto simp: fallback_call_def split: if_splits)
    moreover have "Called cc res \<in> h'" by (rule call) (simp only: that Some)
    ultimately show ?thesis unfolding fell_back_def by blast
  qed (simp add: fell_back_def)
  from fin consider
      (before) "t \<in> {UpdateT c True ByFinish, GapT c True ByFinish, LockT c True ByFinish,
        InputingT c True ByFinish, MarkT c True ByFinish}"
    | (send) "t = SendT c True ByFinish" | (framed) "t = FinishedT c" "framed c h'"
    | (failed) err where "t = UpdateFailedT c err" | (status) err where "t = StatusFailedT c err"
    | (rest) err where "t = RestT c err" "fell_back cfg c h' \<or> (framed c h' \<and> marked_finished c h')"
    unfolding finishing_def by blast
  then show ?thesis
  proof cases
    case before
    then show ?thesis unfolding ts
      by (elim insertE emptyE; cases res; simp add: finishing_def update_return_def update_entry_def)
  next
    case send
    then have "Called (StreamFrame (frame_content c) True) res \<in> h'" by (intro call) simp
    then show ?thesis unfolding ts send
      by (cases res) (simp_all add: finishing_def update_return_def framed_def)
  next
    case framed
    then have "Called (SetStatus flowFinished (NormalizeForCard c)) res \<in> h'" by (intro call) simp
    with framed(2) show ?thesis unfolding ts framed(1)
      by (cases res) (simp_all add: finishing_def marked_finished_def)
  next
    case failed
    then show ?thesis using fb by (simp add: settled_def)
  next
    case status
    then have "fell_back cfg c h'" using fb by simp
    then show ?thesis unfolding ts status by (simp add: finishing_def)
  next
    case rest
    have "rest_sent cfg c h'"
      using call [of "DeliverRest (overflowRemainder c)"] rest(1) unfolding rest_sent_def by auto
    then show ?thesis using rest(2) by (auto simp: settled_def)
  qed
qed

definition finish_inv :: "streamer_setup \<Rightarrow> system \<Rightarrow> bool" where
  "finish_inv cfg y \<longleftrightarrow> (\<forall>c. UpdateCalled c True \<in> set (history y)
     \<longrightarrow> settled cfg c (set (history y)) \<or> (\<exists>t \<in> set (tasks y). finishing cfg c t (set (history y))))"

lemma finish_inv_run_task:
  assumes inv: "finish_inv cfg y" and i: "i < length (tasks y)"
  shows "finish_inv cfg (run_task cfg i res y)"
  unfolding finish_inv_def
proof (intro allI impI)
  fix c
  let ?y = "run_task cfg i res y"
  let ?h = "set (history ?y)"
  assume called: "UpdateCalled c True \<in> ?h"
  obtain es ts s where st: "task_step cfg (clock y) res (tasks y ! i) (streamer y) = (es, ts, s)"
    by (metis prod_cases3)
  note hist = set_history_run_task [OF st]
  have tasks: "set (tasks ?y) = set (take i (tasks y)) \<union> set ts \<union> set (drop (Suc i) (tasks y))"
    using st by (auto simp: run_task_def)
  have others: "t = tasks y ! i \<or> t \<in> set (tasks ?y)" if "t \<in> set (tasks y)" for t
    using that tasks id_take_nth_drop [OF i] by (metis UnCI Un_iff list.set_intros set_ConsD set_append)
  show "settled cfg c ?h \<or> (\<exists>t \<in> set (tasks ?y). finishing cfg c t ?h)"
  proof (cases "UpdateCalled c True \<in> set (history y)")
    case False
    then have "UpdateCalled c True \<in> set es" using called by (auto simp: hist call_event_def split: option.splits)
    then have "UpdateT c True ByFinish \<in> set (tasks ?y)" using step_starts_finishing [OF st] tasks by auto
    then show ?thesis by (auto simp: finishing_def)
  next
    case True
    then consider "settled cfg c (set (history y))"
      | t where "t \<in> set (tasks y)" "finishing cfg c t (set (history y))"
      using inv by (auto simp: finish_inv_def)
    then show ?thesis
    proof cases
      case 1
      then show ?thesis using settled_mono [of cfg c "set (history y)" ?h] by (auto simp: hist)
    next
      case (2 t)
      show ?thesis
      proof (cases "t \<in> set (tasks ?y)")
        case True
        then show ?thesis using finishing_mono [OF 2(2), of ?h] by (auto simp: hist)
      next
        case False
        then have "t = tasks y ! i" using others 2(1) by blast
        then have "settled cfg c ?h \<or> (\<exists>t' \<in> set ts. finishing cfg c t' ?h)"
          using step_finishing [OF st, of c "set (history y)" ?h] 2(2) by (auto simp: hist)
        then show ?thesis using tasks by auto
      qed
    qed
  qed
qed

lemma finish_inv_step: "finish_inv cfg y \<Longrightarrow> system_step cfg a y = Some y' \<Longrightarrow> finish_inv cfg y'"
  by (erule system_step_cases) (simp add: finish_inv_run_task, auto simp: finish_inv_def)

lemma frame_and_rest:
  assumes "list_all valid_rune rs"
  shows "frame_content (encode_runes rs) @ overflowRemainder (encode_runes rs) = encode_runes rs"
proof -
  have "encode_runes (take cardMaxContent rs) @ encode_runes (drop cardMaxContent rs) = encode_runes rs"
    by (simp flip: encode_runes_append)
  then show ?thesis by (simp add: frame_content_def overflowRemainder_def Let_def decode_encode [OF assms])
qed

lemma finish_settled:
  assumes "run cfg acts (new_system (new_streamer c) now) = Some y" and "tasks y = []"
    and "UpdateCalled content True \<in> set (history y)"
  shows "settled cfg content (set (history y))"
proof -
  have "finish_inv cfg y"
    by (rule run_invariant [where P = "finish_inv cfg", OF assms(1) _ finish_inv_step])
      (simp_all add: finish_inv_def new_system_def)
  then show ?thesis using assms(2,3) by (auto simp: finish_inv_def)
qed

text \<open>
  C7. What a \<open>Finish\<close> promises: when the work has ended, a finished content of a delivered card was put
  on the card by an accepted final frame and an accepted FINISHED status, with everything over the
  frame limit sent on; or else the whole content was sent through the fallback (unless there is none or
  the content is blank). And the frame and the rest together are the content, when it is UTF-8.
\<close>

theorem finish_reaches_user:
  assumes "run cfg acts (new_system (new_streamer c) now) = Some y" and "tasks y = []"
    and "UpdateCalled content True \<in> set (history y)" and "content = encode_runes rs" and "list_all valid_rune rs"
  shows "settled cfg content (set (history y)) \<and> frame_content content @ overflowRemainder content = content"
  using finish_settled [OF assms(1-3)] frame_and_rest [OF assms(5)] assms(4) by simp

section \<open>A run\<close>

definition demo_setup :: streamer_setup where
  "demo_setup = \<lparr>throttle = 800 * Millisecond, watchdogAfter = 10 * Minute, hasFallback = True, hasDeliverRest = True\<rparr>"

definition demo_card :: "bool \<Rightarrow> cardInstance" where
  "demo_card b = \<lparr>OutTrackID = ''card_1'', inputingStarted = b\<rparr>"

text \<open>One append, whose text waits for the flush after the long gap and is then sent.\<close>

definition append_schedule :: "action list" where
  "append_schedule = [Start (Append ''a''), RunTask 0 None, Tick (300 * Millisecond), RunTask 0 None,
     RunTask 0 None, RunTask 0 None, RunTask 0 None, RunTask 0 None, RunTask 0 None]"

definition append_history :: "event list" where
  "append_history = [Appended ''a'', Returned None, UpdateCalled ''a'' False,
     Called (SetStatus flowInputing (NormalizeForCard (frame_content ''a''))) None,
     Called (StreamFrame (frame_content ''a'') False) None, UpdateReturned ''a'' False None]"

definition append_result :: system where
  "append_result = \<lparr>streamer = \<lparr>accumulated = ''a'', lastUpdate = 300 * Millisecond, closed = False,
       hasPending = False, frameCount = 1, lastFrameAt = 300 * Millisecond, watchdog = Some (600300 * Millisecond),
       aborted = False, the_card = Some (demo_card True)\<rparr>,
     tasks = [], clock = 300 * Millisecond, history = append_history\<rparr>"

lemma append_run:
  "run demo_setup append_schedule (new_system (new_streamer (Some (demo_card False))) 0) = Some append_result"
  by (simp add: append_schedule_def append_result_def append_history_def demo_setup_def demo_card_def
      new_system_def new_streamer_def run_task_def step_defs zero_time_def longGapThreshold_def
      longGapBatchWait_def cardFrameGap_def started_def time_sub_def min_int64_def max_int64_def)

text \<open>Two goroutines finish and abort it at the same time; the finish gets the mutex first.\<close>

definition closing_schedule :: "action list" where
  "closing_schedule = append_schedule @ [Tick Second, Start (Finish []), Start Abort, RunTask 0 None, RunTask 1 None]
     @ replicate 6 (RunTask 0 None)"

definition closing_result :: system where
  "closing_result = \<lparr>streamer = (streamer append_result)\<lparr>closed := True, frameCount := 2,
       lastFrameAt := 1300 * Millisecond, watchdog := Some (601300 * Millisecond)\<rparr>,
     tasks = [], clock = 1300 * Millisecond,
     history = append_history @ [Closed ''a'', UpdateCalled ''a'' True, Returned None,
       Called (StreamFrame (frame_content ''a'') True) None, UpdateReturned ''a'' True None,
       Called (SetStatus flowFinished (NormalizeForCard ''a'')) None, Called CancelCtx None, Returned None]\<rparr>"

lemma short_text: "overflowRemainder ''a'' = []"
  by (simp add: overflowRemainder_def cardMaxContent_def decode_rune_def Let_def)

lemma closing_run:
  "run demo_setup closing_schedule (new_system (new_streamer (Some (demo_card False))) 0) = Some closing_result"
  unfolding closing_schedule_def run_append append_run
  by (simp add: append_result_def closing_result_def demo_setup_def demo_card_def run_task_def step_defs
      cardFrameGap_def started_def time_sub_def min_int64_def max_int64_def short_text numeral_nat)

theorem card_closed_once_witness:
  "event_sum is_final_frame closing_result \<le> 1 \<and> event_sum is_last_status closing_result \<le> 1"
  using card_closed_once [OF closing_run] by (simp add: closing_result_def)

theorem nothing_dropped_witness:
  "\<exists>r. UpdateReturned ''a'' False r \<in> set (history append_result)"
  using nothing_dropped [OF append_run] by (auto simp: append_result_def CardDelivered_def demo_card_def)

theorem streamer_work_ends_witness:
  "sum_list (map is_run closing_schedule) \<le> 33"
  using streamer_work_ends [OF closing_run] by (simp add: closing_schedule_def append_schedule_def numeral_nat)

theorem frames_show_prefixes_witness:
  "frame_content ''a'' \<in> frame_content ` {p. prefix p (appended append_history)}"
proof -
  have "\<exists>r. Called (StreamFrame (frame_content ''a'') False) r \<in> set (history append_result)"
    by (auto simp: append_result_def append_history_def)
  then show ?thesis using frames_show_prefixes [OF append_run] by (auto simp: append_result_def)
qed


theorem finish_reaches_user_witness:
  "settled demo_setup ''a'' (set (history closing_result))"
proof -
  have "byte 97 = CHR ''a''" by code_simp
  moreover have "valid_rune 97" "(97 :: nat) < 0x80" by (simp_all add: valid_rune_def)
  ultimately have "''a'' = encode_runes [97]" "list_all valid_rune [97]"
    unfolding encode_runes_def encode_rune_def encode_valid_def
    by (simp_all only: if_True list.map concat.simps append_Nil2 list.pred_inject simp_thms)
  moreover have "tasks closing_result = []" "UpdateCalled ''a'' True \<in> set (history closing_result)"
    by (simp_all add: closing_result_def)
  ultimately show ?thesis using finish_reaches_user [OF closing_run] by blast
qed


text \<open>
  The calls of \<open>update\<close> are made outside the mutex, so a frame that was taken before the closing can be
  sent after the final frame: here an append is about to send when \<open>Finish\<close> overtakes it.
\<close>

fun is_frame :: "event \<Rightarrow> bool" where
  "is_frame (Called (StreamFrame c f) r) = True"
| "is_frame _ = False"

definition overtaken_schedule :: "action list" where
  "overtaken_schedule = append_schedule @ [Tick Second, Start (Append ''b''), RunTask 0 None, RunTask 0 None,
     RunTask 0 None, Start (Finish []), RunTask 1 None, Tick Second, RunTask 1 None, RunTask 1 None,
     RunTask 1 None, RunTask 0 None]"

lemma late_frame_after_final:
  "\<exists>y. run demo_setup overtaken_schedule (new_system (new_streamer (Some (demo_card False))) 0) = Some y
     \<and> filter is_frame (drop (length append_history) (history y))
        = [Called (StreamFrame (frame_content ''ab'') True) None, Called (StreamFrame (frame_content ''ab'') False) None]"
  unfolding overtaken_schedule_def run_append append_run
  by (simp add: append_result_def demo_setup_def demo_card_def run_task_def step_defs append_history_def
      cardFrameGap_def longGapThreshold_def started_def time_sub_def min_int64_def max_int64_def)


text \<open>
  The pause before the first frame of a card never happens: \<open>lastFrameAt\<close> is still the zero time then.
\<close>

lemma first_frame_without_gap:
  "0 \<le> now \<Longrightarrow> update_entry now c False k (new_streamer crd) = LockT c False k"
  by (auto simp: update_entry_def new_streamer_def zero_time_def cardFrameGap_def time_sub_def max_int64_def min_int64_def)

end
