(* ===== verification/Attempts.thy ===== *)
theory Attempts
  imports Retry
begin

text \<open>
  \<open>Retry\<close> around operations that may not return, over a state that keeps a log: what a run leaves in the
  log. The contract between the retry loop and the code it retries is the locale \<open>logged_operation\<close>; the
  webhook post and the card API call are interpretations of it, and so is a retried operation itself when
  a loop over chunks calls it.
\<close>

section \<open>Operations that may not return\<close>

type_synonym 's fallible = "'s \<Rightarrow> (goerr option \<times> 's) option"

text \<open>A run of \<open>Retry\<close> does not return when an attempt does not: from then on the state is \<open>None\<close>.\<close>

definition lift_op :: "'s fallible \<Rightarrow> 's option operation" where
  "lift_op op attempt so =
     (case so of
        None \<Rightarrow> (None, None)
      | Some s \<Rightarrow> (case op s of None \<Rightarrow> (None, None) | Some (r, s') \<Rightarrow> (r, Some s')))"

definition lift_wait :: "'s waiting \<Rightarrow> 's option waiting" where
  "lift_wait wait d so =
     (case so of None \<Rightarrow> (None, None) | Some s \<Rightarrow> (case wait d s of (r, s') \<Rightarrow> (r, Some s')))"

definition retry_fallible :: "'s fallible \<Rightarrow> 's waiting \<Rightarrow> RetryOptions \<Rightarrow> 's fallible" where
  "retry_fallible op wait opts s =
     (case Retry (lift_op op) (lift_wait wait) (Some opts) (Some s) of
        (r, None) \<Rightarrow> None
      | (r, Some s') \<Rightarrow> Some (r, s'))"

text \<open>The rest of a function after a step, when the step returned no error; and a loop over a list.\<close>

definition and_then :: "(goerr option \<times> 's) option \<Rightarrow> 's fallible \<Rightarrow> (goerr option \<times> 's) option" where
  "and_then m f =
     (case m of None \<Rightarrow> None | Some (Some err, s) \<Rightarrow> Some (Some err, s) | Some (None, s) \<Rightarrow> f s)"

fun for_each :: "('c \<Rightarrow> 's fallible) \<Rightarrow> 'c list \<Rightarrow> 's fallible" where
  "for_each f [] s = Some (None, s)"
| "for_each f (c # cs) s = and_then (f c s) (for_each f cs)"

section \<open>Logs\<close>

text \<open>The log of a retried operation: at most so many attempts, every failed one but the last retryable.\<close>

inductive attempts :: "('e list \<Rightarrow> goerr option \<Rightarrow> bool) \<Rightarrow> nat \<Rightarrow> 'e list \<Rightarrow> goerr option \<Rightarrow> bool"
  for P :: "'e list \<Rightarrow> goerr option \<Rightarrow> bool" where
  success: "P a None \<Longrightarrow> attempts P (Suc n) a None"
| final: "P a (Some e) \<Longrightarrow> n = 0 \<or> \<not> retryable e \<Longrightarrow> attempts P (Suc n) a (Some (ClassifyError e))"
| interrupted: "P a (Some e) \<Longrightarrow> retryable e \<Longrightarrow> 0 < n \<Longrightarrow> attempts P (Suc n) a (Some c)"
| again: "P a (Some e) \<Longrightarrow> retryable e \<Longrightarrow> attempts P n b r \<Longrightarrow> attempts P (Suc n) (a @ b) r"

text \<open>The log of a loop: one part for every element reached, and it stops at the first error.\<close>

inductive in_turn :: "('c \<Rightarrow> 'e list \<Rightarrow> goerr option \<Rightarrow> bool) \<Rightarrow> 'c list \<Rightarrow> 'e list \<Rightarrow> goerr option \<Rightarrow> bool"
  for P :: "'c \<Rightarrow> 'e list \<Rightarrow> goerr option \<Rightarrow> bool" where
  all_done: "in_turn P [] [] None"
| stopped: "P c a (Some e) \<Longrightarrow> in_turn P (c # cs) a (Some e)"
| passed: "P c a None \<Longrightarrow> in_turn P cs b r \<Longrightarrow> in_turn P (c # cs) (a @ b) r"

text \<open>A property of the events of every attempt, and of the last event of a success, holds for the run.\<close>

lemma attempts_all:
  assumes "attempts P n h r" and "\<And>a r. P a r \<Longrightarrow> list_all Q a"
  shows "list_all Q h"
  using assms(1) by induction (simp_all add: assms(2))

lemma attempts_count:
  assumes "attempts P n h r" and "\<And>a r. P a r \<Longrightarrow> length (filter Q a) \<le> k"
  shows "length (filter Q h) \<le> n * k"
  using assms(1)
proof (induction)
  case (again a e n b r)
  with assms(2) [OF again(1)] show ?case by simp
qed (simp_all add: trans_le_add1 assms(2))

lemma attempts_success:
  assumes "attempts P n h None"
  shows "\<exists>g a. h = g @ a \<and> P a None"
  using assms
proof (induction n h "None :: goerr option")
  case (success a n)
  then show ?case by (metis append_Nil)
next
  case (again a e n b)
  then obtain g a' where "b = g @ a'" "P a' None" by blast
  then show ?case by (metis append.assoc)
qed

lemma attempts_mono:
  assumes "attempts P n h r" and "\<And>a r. P a r \<Longrightarrow> Q a r"
  shows "attempts Q n h r"
  using assms by (induction) (auto intro: attempts.intros)

lemma in_turn_done:
  assumes "in_turn P cs h None"
  shows "\<exists>hs. h = concat hs \<and> list_all2 (\<lambda>c a. P c a None) cs hs"
  using assms
proof (induction cs h "None :: goerr option")
  case (passed c a cs b)
  then obtain hs where "b = concat hs" "list_all2 (\<lambda>c a. P c a None) cs hs" by blast
  with passed(1) show ?case by (intro exI [of _ "a # hs"]) simp
qed simp

lemma in_turn_failed:
  assumes "in_turn P cs h (Some e)"
  shows "\<exists>ds c rest hs a. cs = ds @ c # rest \<and> h = concat hs @ a
    \<and> list_all2 (\<lambda>c a. P c a None) ds hs \<and> P c a (Some e)"
  using assms
proof (induction cs h "Some e")
  case (stopped c a cs)
  then show ?case by (intro exI [of _ "[]"] exI [of _ c] exI [of _ cs] exI [of _ a]) simp
next
  case (passed c a cs b)
  then obtain ds c' rest hs a' where "cs = ds @ c' # rest" "b = concat hs @ a'"
    "list_all2 (\<lambda>c a. P c a None) ds hs" "P c' a' (Some e)" by blast
  with passed(1) show ?case
    by (intro exI [of _ "c # ds"] exI [of _ c'] exI [of _ rest] exI [of _ "a # hs"] exI [of _ a']) simp
qed

lemma in_turn_mono:
  assumes "in_turn P cs h r" and "\<And>c a r. P c a r \<Longrightarrow> Q c a r"
  shows "in_turn Q cs h r"
  using assms by (induction) (auto intro: in_turn.intros)

section \<open>The contract\<close>

locale logged_operation =
  fixes op :: "'s \<Rightarrow> (goerr option \<times> 's) option"
    and wait :: "duration \<Rightarrow> 's \<Rightarrow> goerr option \<times> 's"
    and log :: "'s \<Rightarrow> 'e list"
    and P :: "'e list \<Rightarrow> goerr option \<Rightarrow> bool"
  assumes op_log: "op s = Some (r, s') \<Longrightarrow> \<exists>a. log s' = log s @ a \<and> P a r"
    and wait_log: "wait d s = (c, s') \<Longrightarrow> log s' = log s"
begin

lemma lifted_none: "snd (retry_loop (lift_op op) (lift_wait wait) limit base k le None) = None"
  by (induction "nat (limit + 1 - k)" arbitrary: k le)
    (subst retry_loop.simps, auto simp: lift_op_def)+

lemma retry_loop_log:
  assumes "k \<le> limit"
    and "retry_loop (lift_op op) (lift_wait wait) limit base k le (Some s) = (r, Some s')"
  shows "\<exists>h. log s' = log s @ h \<and> attempts P (nat (limit + 1 - k)) h r"
  using assms
proof (induction "nat (limit - k)" arbitrary: k le s)
  case 0
  then have k: "k = limit" "nat (limit + 1 - k) = Suc 0" by simp_all
  obtain r1 s1 where op: "op s = Some (r1, s1)"
    using "0.prems" by (subst (asm) retry_loop.simps) (auto simp: lift_op_def split: option.splits)
  obtain a where a: "log s1 = log s @ a" "P a r1" using op_log [OF op] by blast
  have "s' = s1" "r = map_option ClassifyError r1"
    using "0.prems" op k(1)
    by (subst (asm) retry_loop.simps; auto simp: lift_op_def Let_def split: option.splits)+
  then show ?case using a k(2) by (cases r1) (auto intro: attempts.intros)
next
  case (Suc d)
  then have k: "k < limit" "d = nat (limit - (k + 1))" "nat (limit + 1 - k) = Suc (nat (limit + 1 - (k + 1)))"
    "0 < nat (limit + 1 - (k + 1))" by simp_all
  obtain r1 s1 where op: "op s = Some (r1, s1)"
    using Suc.prems by (subst (asm) retry_loop.simps) (auto simp: lift_op_def split: option.splits)
  obtain a where a: "log s1 = log s @ a" "P a r1" using op_log [OF op] by blast
  show ?case
  proof (cases r1)
    case None
    then have "s' = s1" "r = None"
      using Suc.prems op by (subst (asm) retry_loop.simps; auto simp: lift_op_def)+
    then show ?thesis using a k(3) None by (auto intro: attempts.success)
  next
    case (Some e)
    obtain c s2 where w: "wait (retry_delay base k) s1 = (c, s2)" by fastforce
    note log2 = wait_log [OF w]
    consider (stop) "\<not> retryable e" | (ctx) ce where "retryable e" "c = Some ce" | (go) "retryable e" "c = None"
      by (cases c) auto
    then show ?thesis
    proof cases
      case stop
      then have "s' = s1" "r = Some (ClassifyError e)"
        using Suc.prems op Some
        by (subst (asm) retry_loop.simps; auto simp: lift_op_def retryable_def Let_def)+
      then show ?thesis using a k(3) Some stop by (auto intro: attempts.final)
    next
      case ctx
      then have "s' = s2" "r = Some ce"
        using Suc.prems op Some w k(1)
        by (subst (asm) retry_loop.simps; auto simp: lift_op_def lift_wait_def retryable_def Let_def)+
      then show ?thesis using a k(3,4) Some ctx log2 by (auto intro: attempts.interrupted)
    next
      case go
      then have "retry_loop (lift_op op) (lift_wait wait) limit base (k + 1) (Some (ClassifyError e)) (Some s2)
          = (r, Some s')"
        using Suc.prems op Some w k(1)
        by (subst (asm) retry_loop.simps) (auto simp: lift_op_def lift_wait_def retryable_def Let_def)
      from Suc.hyps(1) [OF k(2) _ this] k(1)
      obtain b where "log s' = log s2 @ b" "attempts P (nat (limit + 1 - (k + 1))) b r" by auto
      then show ?thesis using a k(3) Some go log2 by (auto intro!: attempts.again)
    qed
  qed
qed

lemma retried_log:
  assumes "retry_fallible op wait opts s = Some (r, s')"
  shows "\<exists>h. log s' = log s @ h \<and> attempts P (nat (effective_max opts)) h r"
proof -
  have "retry_loop (lift_op op) (lift_wait wait) (effective_max opts) (effective_base opts) 1 None (Some s)
      = (r, Some s')"
    using assms by (auto simp: retry_fallible_def Retry_def given_options_def split: prod.splits option.splits)
  from retry_loop_log [OF _ this] effective_pos(1) [of opts] show ?thesis by auto
qed

end

text \<open>The loop over chunks: every call of its body appends a part of the log that fits its element.\<close>

locale logged_loop =
  fixes f :: "'c \<Rightarrow> 's \<Rightarrow> (goerr option \<times> 's) option"
    and log :: "'s \<Rightarrow> 'e list"
    and P :: "'c \<Rightarrow> 'e list \<Rightarrow> goerr option \<Rightarrow> bool"
  assumes body_log: "f c s = Some (r, s') \<Longrightarrow> \<exists>a. log s' = log s @ a \<and> P c a r"
begin

lemma loop_log:
  "for_each f cs s = Some (r, s') \<Longrightarrow> \<exists>h. log s' = log s @ h \<and> in_turn P cs h r"
proof (induction cs arbitrary: s)
  case Nil
  then show ?case by (auto intro: in_turn.all_done)
next
  case (Cons c cs)
  obtain r1 s1 where f: "f c s = Some (r1, s1)"
    using Cons.prems by (auto simp: and_then_def split: option.splits)
  obtain a where a: "log s1 = log s @ a" "P c a r1" using body_log [OF f] by blast
  show ?case
  proof (cases r1)
    case None
    then have "for_each f cs s1 = Some (r, s')" using Cons.prems f by (simp add: and_then_def)
    from Cons.IH [OF this] obtain b where "log s' = log s1 @ b" "in_turn P cs b r" by blast
    with a None show ?thesis by (auto intro!: in_turn.passed)
  next
    case (Some e)
    then have "r = Some e" "s' = s1" using Cons.prems f by (auto simp: and_then_def)
    with a Some show ?thesis by (auto intro: in_turn.stopped)
  qed
qed

end

end
