(* ===== verification/Outbound.thy ===== *)
theory Outbound
  imports Attempts CardClient
begin

text \<open>
  Proactive sending, \<open>send.go\<close>, with the outbound hooks it shares with the replies: the footer and
  \<open>BeforeSend\<close> in front of a send, \<open>AfterSend\<close> behind it. A send is one card API call, retried. The
  environment adds the wait between two attempts to that of the card client. A hook that changes the map
  it is given in place is, here, a hook that returns the changed map: nobody else holds that map.
\<close>

record 'w out_env =
  out_api :: "'w card_env"
  out_sleep :: "duration \<Rightarrow> 'w \<Rightarrow> goerr option \<times> 'w"

definition sleep :: "'w out_env \<Rightarrow> duration \<Rightarrow> 'w api_state \<Rightarrow> goerr option \<times> 'w api_state" where
  "sleep env d st = (case out_sleep env d (apiWorld st) of (r, w) \<Rightarrow> (r, st\<lparr>apiWorld := w\<rparr>))"

section \<open>Hooks\<close>

text \<open>
  \<open>m[k] += s\<close> on a \<open>map[string]string\<close>. \<open>json.Marshal\<close> prints the keys in ascending order, so the list
  of fields keeps that order.
\<close>

fun bytes_less :: "string \<Rightarrow> string \<Rightarrow> bool" where
  "bytes_less a [] = False"
| "bytes_less [] (c # cs) = True"
| "bytes_less (b # bs) (c # cs) = (ord b < ord c \<or> b = c \<and> bytes_less bs cs)"

fun map_append_value :: "string \<Rightarrow> string \<Rightarrow> string_map \<Rightarrow> string_map" where
  "map_append_value k s [] = [(k, s)]"
| "map_append_value k s ((k', v) # m) =
     (if k = k' then (k, v @ s) # m
      else if bytes_less k k' then (k, s) # (k', v) # m
      else (k', v) # map_append_value k s m)"

definition sampleText :: string where "sampleText = ''sampleText''"
definition sampleMarkdown :: string where "sampleMarkdown = ''sampleMarkdown''"

definition text_footer :: "string \<Rightarrow> string" where
  "text_footer footer = [CHR 0x0A, CHR 0x0A] @ footer"

definition markdown_footer :: "string \<Rightarrow> string" where
  "markdown_footer footer = [CHR 0x0A, CHR 0x0A] @ ''---'' @ [CHR 0x0A] @ footer"

fun add_footer :: "string \<Rightarrow> string \<Rightarrow> payload \<Rightarrow> payload" where
  "add_footer footer msgKey (StringMap m) = StringMap
     (if msgKey = sampleText then map_append_value ''content'' (text_footer footer) m
      else if msgKey = sampleMarkdown then map_append_value ''text'' (markdown_footer footer) m
      else m)"
| "add_footer footer msgKey (Any j) = Any j"

definition before_send ::
  "'w Config \<Rightarrow> string \<Rightarrow> string \<Rightarrow> string \<Rightarrow> payload \<Rightarrow> 'w api_state \<Rightarrow> payload \<times> 'w api_state" where
  "before_send cfg kind target msgKey p st =
     (case cfgOutbound cfg of
        None \<Rightarrow> (p, st)
      | Some out \<Rightarrow>
          let p' = (if Footer out \<noteq> [] then add_footer (Footer out) msgKey p else p) in
          (case BeforeSend out of
             None \<Rightarrow> (p', st)
           | Some hook \<Rightarrow>
               (case hook kind target p' (apiWorld st) of
                  (replaced, w) \<Rightarrow>
                    (case replaced of None \<Rightarrow> p' | Some q \<Rightarrow> q, st\<lparr>apiWorld := w\<rparr>))))"

definition after_send ::
  "'w Config \<Rightarrow> string \<Rightarrow> string \<Rightarrow> goerr option \<Rightarrow> 'w api_state \<Rightarrow> 'w api_state" where
  "after_send cfg kind target res st =
     (case Option.bind (cfgOutbound cfg) AfterSend of
        None \<Rightarrow> st
      | Some hook \<Rightarrow>
          st\<lparr>apiWorld := hook kind target (res = None) (case res of None \<Rightarrow> [] | Some err \<Rightarrow> Error err) (apiWorld st)\<rparr>)"

lemma before_send_kept:
  assumes "before_send cfg kind target msgKey p st = (q, st')"
  shows "apiLog st' = apiLog st" "apiTokens st' = apiTokens st" "apiBucket st' = apiBucket st"
  using assms by (auto simp: before_send_def Let_def split: option.splits prod.splits)

lemma after_send_kept [simp]:
  "apiLog (after_send cfg kind target res st) = apiLog st"
  "apiTokens (after_send cfg kind target res st) = apiTokens st"
  "apiBucket (after_send cfg kind target res st) = apiBucket st"
  by (simp_all add: after_send_def split: option.split)

lemma before_send_plain: "cfgOutbound cfg = None \<Longrightarrow> before_send cfg kind target msgKey p st = (p, st)"
  by (simp add: before_send_def)

text \<open>\<open>json.Marshal(msgParam)\<close>.\<close>

fun payload_json :: "payload \<Rightarrow> goerr + string" where
  "payload_json (StringMap m) = Inr (marshal (map_json m))"
| "payload_json (Any j) = j"

section \<open>Proactive sending\<close>

record SendTarget =
  stUserID :: string
  stConversationID :: string
  stAtUserIds :: "string list"
  stAtDingtalkIds :: "string list"
  stAtAll :: bool

definition valid_target :: "SendTarget \<Rightarrow> bool" where
  "valid_target t \<longleftrightarrow> (stUserID t \<noteq> []) \<noteq> (stConversationID t \<noteq> [])"

definition target_id :: "SendTarget \<Rightarrow> string" where
  "target_id t = (if stUserID t = [] then stConversationID t else stUserID t)"

definition invalid_target :: goerr where
  "invalid_target = PlainErr
  (''SendTarget: '' @ [CHR 0xE6, CHR 0x81, CHR 0xB0, CHR 0xE5, CHR 0xA5, CHR 0xBD, CHR 0xE8, CHR 0xAE, CHR 0xBE, CHR 0xE7, CHR 0xBD, CHR 0xAE]
   @ '' UserID'' @ [CHR 0xEF, CHR 0xBC, CHR 0x88, CHR 0xE5, CHR 0x8D, CHR 0x95, CHR 0xE8, CHR 0x81, CHR 0x8A, CHR 0xEF, CHR 0xBC, CHR 0x89, CHR 0xE6, CHR 0x88, CHR 0x96]
   @ '' ConversationID'' @ [CHR 0xEF, CHR 0xBC, CHR 0x88, CHR 0xE7, CHR 0xBE, CHR 0xA4, CHR 0xE8, CHR 0x81, CHR 0x8A, CHR 0xEF, CHR 0xBC, CHR 0x89, CHR 0xE4, CHR 0xB9, CHR 0x8B, CHR 0xE4, CHR 0xB8, CHR 0x80])"

definition oto_path :: string where "oto_path = ''/v1.0/robot/oToMessages/batchSend''"
definition group_path :: string where "group_path = ''/v1.0/robot/groupMessages/send''"

definition oto_body :: "'w Config \<Rightarrow> SendTarget \<Rightarrow> string \<Rightarrow> string \<Rightarrow> json" where
  "oto_body cfg t msgKey param = JObj
     [(''msgKey'', JStr msgKey), (''msgParam'', JStr param), (''robotCode'', JStr (ClientID cfg)),
      (''userIds'', JArr [JStr (stUserID t)])]"

definition group_body :: "'w Config \<Rightarrow> SendTarget \<Rightarrow> string \<Rightarrow> string \<Rightarrow> json" where
  "group_body cfg t msgKey param = JObj
     ((if stAtDingtalkIds t \<noteq> [] then [(''atOpendingtalkIds'', JArr (map JStr (stAtDingtalkIds t)))] else [])
      @ (if stAtUserIds t \<noteq> [] then [(''atUserIds'', JArr (map JStr (stAtUserIds t)))] else [])
      @ (if stAtAll t then [(''isAtAll'', JBool True)] else [])
      @ [(''msgKey'', JStr msgKey), (''msgParam'', JStr param),
         (''openConversationId'', JStr (stConversationID t)), (''robotCode'', JStr (ClientID cfg))])"

definition proactiveSendInner ::
  "'w out_env \<Rightarrow> 'w Config \<Rightarrow> SendTarget \<Rightarrow> string \<Rightarrow> payload \<Rightarrow> 'w api_state \<Rightarrow> 'w api_outcome" where
  "proactiveSendInner env cfg t msgKey p st =
     (case payload_json p of
        Inl err \<Rightarrow> Some (Some err, st)
      | Inr param \<Rightarrow>
          if stUserID t \<noteq> []
          then retry_fallible (card_call (out_api env) cfg ''POST'' oto_path (oto_body cfg t msgKey param))
                 (sleep env) (retryOptions cfg) st
          else retry_fallible (card_call (out_api env) cfg ''POST'' group_path (group_body cfg t msgKey param))
                 (sleep env) (retryOptions cfg) st)"

definition proactiveSend ::
  "'w out_env \<Rightarrow> 'w Config \<Rightarrow> SendTarget \<Rightarrow> string \<Rightarrow> payload \<Rightarrow> 'w api_state \<Rightarrow> 'w api_outcome" where
  "proactiveSend env cfg t msgKey p st =
     (if \<not> valid_target t then Some (Some invalid_target, st)
      else
        (case before_send cfg ''send'' (target_id t) msgKey p st of
           (q, st1) \<Rightarrow>
             (case proactiveSendInner env cfg t msgKey q st1 of
                None \<Rightarrow> None
              | Some (r, st2) \<Rightarrow> Some (r, after_send cfg ''send'' (target_id t) r st2))))"

text \<open>The message kinds. \<open>firstLineTitle\<close> cuts after 20 bytes.\<close>

definition title_trim :: "string \<Rightarrow> string" where
  "title_trim line = dropWhile (\<lambda>c. c \<in> set ''#*-> '' \<or> c = CHR 0x09) line"

fun first_title :: "string list \<Rightarrow> string" where
  "first_title [] = ''Message''"
| "first_title (line # ls) =
     (let t = title_trim line in if t \<noteq> [] then take 20 t else first_title ls)"

definition firstLineTitle :: "string \<Rightarrow> string" where
  "firstLineTitle txt = first_title (str_split (CHR 0x0A) txt)"

definition text_payload :: "string \<Rightarrow> payload" where
  "text_payload content = StringMap [(''content'', content)]"

definition markdown_payload :: "string \<Rightarrow> string \<Rightarrow> payload" where
  "markdown_payload title txt =
     StringMap [(''text'', txt), (''title'', if title = [] then firstLineTitle txt else title)]"

definition image_payload :: "string \<Rightarrow> payload" where
  "image_payload imageURL = StringMap [(''photoURL'', imageURL)]"

definition sampleImageMsg :: string where "sampleImageMsg = ''sampleImageMsg''"

definition SendText where
  "SendText env cfg t content = proactiveSend env cfg t sampleText (text_payload content)"

definition SendMarkdown where
  "SendMarkdown env cfg t title txt = proactiveSend env cfg t sampleMarkdown (markdown_payload title txt)"

definition SendFile where
  "SendFile env cfg t fileName rawMediaID = proactiveSend env cfg t ''sampleFile''
     (StringMap [(''fileName'', fileName), (''fileType'', ''png''), (''mediaId'', rawMediaID)])"

definition default_duration :: "int \<Rightarrow> int" where
  "default_duration durationMs = (if durationMs \<le> 0 then 60000 else durationMs)"

definition SendVideo where
  "SendVideo env cfg t rawVideoMediaID rawPicMediaID durationMs = proactiveSend env cfg t ''sampleVideo''
     (StringMap [(''duration'', format_int (default_duration durationMs)), (''picMediaId'', rawPicMediaID),
                 (''videoMediaId'', rawVideoMediaID), (''videoType'', ''mp4'')])"

definition SendAudio where
  "SendAudio env cfg t rawMediaID durationMs = proactiveSend env cfg t ''sampleAudio''
     (StringMap [(''duration'', format_int (default_duration durationMs)), (''mediaId'', rawMediaID)])"

definition SendImage where
  "SendImage env cfg t imageURL = proactiveSend env cfg t sampleImageMsg (image_payload imageURL)"

fun firstNonEmpty :: "string list \<Rightarrow> string" where
  "firstNonEmpty [] = []"
| "firstNonEmpty (v # vs) = (if v \<noteq> [] then v else firstNonEmpty vs)"

text \<open>The fallback of a reply: the group of the message, or its sender.\<close>

definition reply_target :: "IncomingMessage \<Rightarrow> SendTarget" where
  "reply_target m =
     (if ConversationKind (body m) = ConversationTypeGroup
      then \<lparr>stUserID = [], stConversationID = ConversationID (body m), stAtUserIds = [], stAtDingtalkIds = [], stAtAll = False\<rparr>
      else \<lparr>stUserID = firstNonEmpty [SenderID (body m), SenderStaffID (body m)],
            stConversationID = [], stAtUserIds = [], stAtDingtalkIds = [], stAtAll = False\<rparr>)"

definition proactiveReply ::
  "'w out_env \<Rightarrow> 'w Config \<Rightarrow> IncomingMessage \<Rightarrow> string \<Rightarrow> payload \<Rightarrow> 'w api_state \<Rightarrow> 'w api_outcome" where
  "proactiveReply env cfg m msgKey p st = proactiveSend env cfg (reply_target m) msgKey p st"


section \<open>What a send leaves in the log\<close>

definition is_sent :: "api_event \<Rightarrow> bool" where
  "is_sent e \<longleftrightarrow> (case e of Sent req r \<Rightarrow> True | _ \<Rightarrow> False)"

definition sent_as :: "(string \<Rightarrow> request) \<Rightarrow> api_event \<Rightarrow> bool" where
  "sent_as req e \<longleftrightarrow> (case e of Sent q r \<Rightarrow> \<exists>tok. tok \<noteq> [] \<and> q = req tok | _ \<Rightarrow> True)"

definition accepted :: "api_event \<Rightarrow> bool" where
  "accepted e \<longleftrightarrow> (case e of Sent req (Inr resp) \<Rightarrow> resp_status resp < 400 | _ \<Rightarrow> False)"

lemmas event_defs = is_sent_def sent_as_def accepted_def

lemma attempt_events:
  assumes "attempt req out a r"
  shows "list_all (sent_as req) a \<and> length (filter is_sent a) \<le> 1
    \<and> (result_error r = None \<longrightarrow> a \<noteq> [] \<and> accepted (last a))"
  using assms
  by cases (auto simp: event_defs result_error_def api_accept_def split: option.splits if_splits)

lemma call_history_events:
  assumes "call_history req out h r"
  shows "list_all (sent_as req) h \<and> length (filter is_sent h) \<le> 2
    \<and> (result_error r = None \<longrightarrow> h \<noteq> [] \<and> accepted (last h))"
  using assms
proof cases
  case (once a t)
  then show ?thesis using attempt_events [OF once(2)] by (auto simp: event_defs)
next
  case (refused_again a r t b)
  then show ?thesis using attempt_events [OF refused_again(3)] by (auto simp: event_defs result_error_def)
next
  case (retried a r t' b a' t)
  then show ?thesis
    using attempt_events [OF retried(2)] attempt_events [OF retried(5)] by (auto simp: event_defs)
qed (auto simp: event_defs result_error_def)

text \<open>The card API call as a retried operation.\<close>

definition call_log :: "(string \<Rightarrow> request) \<Rightarrow> api_event list \<Rightarrow> goerr option \<Rightarrow> bool" where
  "call_log req h e \<longleftrightarrow> (\<exists>r. call_history req no_out h r \<and> result_error r = e)"

lemma card_call_log:
  "card_call env cfg method path data st = Some (e, st') \<Longrightarrow>
     \<exists>h. apiLog st' = apiLog st @ h \<and> call_log (api_request cfg method path (Some data)) h e"
  using callRaw_history by (fastforce simp: card_call_def call_log_def)

lemma sleep_log: "sleep env d st = (c, st') \<Longrightarrow> apiLog st' = apiLog st"
  by (auto simp: sleep_def split: prod.splits)

interpretation api_retry: logged_operation "card_call (out_api env) cfg m p d" "sleep env" apiLog
    "call_log (api_request cfg m p (Some d))"
  for env cfg m p d
  by unfold_locales (fact card_call_log, fact sleep_log)

lemma call_log_events:
  assumes "call_log req h e"
  shows "list_all (sent_as req) h" "length (filter is_sent h) \<le> 2" "e = None \<Longrightarrow> h \<noteq> [] \<and> accepted (last h)"
  using assms call_history_events by (auto simp: call_log_def)

lemma retried_call_events:
  assumes "attempts (call_log req) n h r"
  shows "list_all (sent_as req) h" "length (filter is_sent h) \<le> n * 2" "r = None \<Longrightarrow> h \<noteq> [] \<and> accepted (last h)"
proof -
  show "list_all (sent_as req) h" using assms call_log_events(1) by (rule attempts_all)
  show "length (filter is_sent h) \<le> n * 2" using assms call_log_events(2) by (rule attempts_count)
  assume "r = None"
  then obtain g a where "h = g @ a" "call_log req a None" using attempts_success assms by blast
  then show "h \<noteq> [] \<and> accepted (last h)" using call_log_events(3) by fastforce
qed

text \<open>The request of a send, and the most attempts of one.\<close>

definition send_request :: "'w Config \<Rightarrow> SendTarget \<Rightarrow> string \<Rightarrow> string \<Rightarrow> string \<Rightarrow> request" where
  "send_request cfg t msgKey param =
     (if stUserID t \<noteq> [] then api_request cfg ''POST'' oto_path (Some (oto_body cfg t msgKey param))
      else api_request cfg ''POST'' group_path (Some (group_body cfg t msgKey param)))"

definition max_attempts :: "'w Config \<Rightarrow> nat" where
  "max_attempts cfg = nat (effective_max (retryOptions cfg))"

lemma send_inner_log:
  assumes "proactiveSendInner env cfg t msgKey p st = Some (r, st')"
  shows "\<exists>h. apiLog st' = apiLog st @ h \<and>
    (case payload_json p of
       Inl err \<Rightarrow> r = Some err \<and> h = []
     | Inr param \<Rightarrow> attempts (call_log (send_request cfg t msgKey param)) (max_attempts cfg) h r)"
proof (cases "payload_json p")
  case (Inl err)
  then show ?thesis using assms by (simp add: proactiveSendInner_def)
next
  case (Inr param)
  show ?thesis
  proof (cases "stUserID t = []")
    case True
    have "retry_fallible (card_call (out_api env) cfg ''POST'' group_path (group_body cfg t msgKey param))
        (sleep env) (retryOptions cfg) st = Some (r, st')" using assms Inr True by (simp add: proactiveSendInner_def)
    from api_retry.retried_log [OF this] show ?thesis using True Inr by (simp add: send_request_def max_attempts_def)
  next
    case False
    have "retry_fallible (card_call (out_api env) cfg ''POST'' oto_path (oto_body cfg t msgKey param))
        (sleep env) (retryOptions cfg) st = Some (r, st')" using assms Inr False by (simp add: proactiveSendInner_def)
    from api_retry.retried_log [OF this] show ?thesis using False Inr by (simp add: send_request_def max_attempts_def)
  qed
qed

text \<open>The log of a proactive send; \<open>q\<close> is the payload the hooks leave.\<close>

inductive send_log :: "'w Config \<Rightarrow> SendTarget \<Rightarrow> string \<Rightarrow> payload \<Rightarrow> api_event list \<Rightarrow> goerr option \<Rightarrow> bool"
  for cfg :: "'w Config" and t :: SendTarget and msgKey :: string and q :: payload where
  bad_target: "\<not> valid_target t \<Longrightarrow> send_log cfg t msgKey q [] (Some invalid_target)"
| no_json: "valid_target t \<Longrightarrow> payload_json q = Inl err \<Longrightarrow> send_log cfg t msgKey q [] (Some err)"
| tried: "valid_target t \<Longrightarrow> payload_json q = Inr param
    \<Longrightarrow> attempts (call_log (send_request cfg t msgKey param)) (max_attempts cfg) h r
    \<Longrightarrow> send_log cfg t msgKey q h r"

lemma proactiveSend_log:
  assumes "proactiveSend env cfg t msgKey p st = Some (r, st')"
  shows "\<exists>h. apiLog st' = apiLog st @ h
    \<and> send_log cfg t msgKey (fst (before_send cfg ''send'' (target_id t) msgKey p st)) h r"
proof (cases "valid_target t")
  case False
  then show ?thesis using assms by (auto simp: proactiveSend_def intro: bad_target)
next
  case True
  obtain q st1 where b: "before_send cfg ''send'' (target_id t) msgKey p st = (q, st1)" by fastforce
  obtain st2 where i: "proactiveSendInner env cfg t msgKey q st1 = Some (r, st2)"
      "st' = after_send cfg ''send'' (target_id t) r st2"
    using assms True b by (auto simp: proactiveSend_def split: option.splits)
  from send_inner_log [OF i(1)] i(2) before_send_kept(1) [OF b] b True show ?thesis
    by (cases "payload_json q") (auto intro: send_log.intros)
qed


section \<open>Properties\<close>

lemma send_request_target:
  "req_url (send_request cfg t msgKey param tok) = APIBase cfg @ (if stUserID t \<noteq> [] then oto_path else group_path)"
  "req_method (send_request cfg t msgKey param tok) = ''POST''"
  "(''x-acs-dingtalk-access-token'', tok) \<in> set (req_headers (send_request cfg t msgKey param tok))"
  by (simp_all add: send_request_def api_request_def)

text \<open>
  C17. A proactive send. A target that does not name exactly one of user and conversation is refused before
  anything happens. Otherwise every request it sends is a POST of the hooked message to the endpoint of
  that target, with an access token; there are at most two of them for every attempt of the retry
  configuration; and it reports success only when the last thing it did was to get an answer below 400.
\<close>

theorem proactive_send_history:
  assumes "proactiveSend env cfg t msgKey p st = Some (r, st')"
    and "before_send cfg ''send'' (target_id t) msgKey p st = (q, st1)"
  shows "((stUserID t = [] \<longleftrightarrow> stConversationID t = []) \<longrightarrow> r = Some invalid_target \<and> apiLog st' = apiLog st)
    \<and> (\<exists>h. apiLog st' = apiLog st @ h \<and> length (filter is_sent h) \<le> max_attempts cfg * 2
        \<and> (\<forall>req a. Sent req a \<in> set h \<longrightarrow> (\<exists>param tok. payload_json q = Inr param \<and> tok \<noteq> []
              \<and> req = send_request cfg t msgKey param tok))
        \<and> (r = None \<longrightarrow> h \<noteq> [] \<and> accepted (last h)))"
proof -
  obtain h where h: "apiLog st' = apiLog st @ h" "send_log cfg t msgKey q h r"
    using proactiveSend_log [OF assms(1)] assms(2) by auto
  have sent: "\<exists>tok. tok \<noteq> [] \<and> req = send_request cfg t msgKey param tok"
    if "list_all (sent_as (send_request cfg t msgKey param)) h" "Sent req a \<in> set h" for param req a
    using that by (auto simp: list_all_iff sent_as_def split: api_event.splits)
  show ?thesis
    using h(2)
  proof cases
    case (tried param)
    note ev = retried_call_events [OF tried(3)]
    show ?thesis
      using h(1) tried(1,2) ev sent [OF ev(1)] by (intro conjI exI [of _ h]) (auto simp: valid_target_def)
  qed (use h(1) in \<open>auto simp: valid_target_def\<close>)
qed


section \<open>Instances\<close>

text \<open>A server that always gives one answer, a plain configuration, and a send to a user.\<close>

definition calm_env :: "error_reply response \<Rightarrow> time out_env" where
  "calm_env ans = \<lparr>out_api = \<lparr>env_token = (\<lambda>req w. (Inl Canceled, w)), env_api = (\<lambda>req w. (Inr ans, w)),
     env_clock = (\<lambda>w. w), env_rounds = (\<lambda>w. ([At w], w)), env_draws = (\<lambda>n w. (replicate n 0, w))\<rparr>,
     out_sleep = (\<lambda>d w. (None, w + d))\<rparr>"

definition plain_config :: "time Config" where
  "plain_config = \<lparr>ClientID = ''robot'', ClientSecret = ''secret'', APIBase = ''https://api'', OapiBase = ''https://oapi'',
     CardTemplateID = ''t'', StreamThrottle = 800 * Millisecond, CardWatchdog = 10 * Minute,
     ErrorCooldown = 60 * Second, StaleMessageWindow = 0, TextChunkLimit = 3500, CardQPS = 20, AutoReconnect = None,
     KeepAliveIdle = 120 * Second, cfgPolicy = zero_PolicyConfig, cfgBatch = None, cfgChatQueue = None,
     cfgMediaBatch = None, cfgOutbound = None, SSRFAllowlist = [], Transport = ''stream'',
     HTTPTimestampTolerance = Hour, cfgSafety = DefaultSafetyConfig\<rparr>"

definition to_user :: "string \<Rightarrow> SendTarget" where
  "to_user u = \<lparr>stUserID = u, stConversationID = [], stAtUserIds = [], stAtDingtalkIds = [], stAtAll = False\<rparr>"

definition calm_state :: "api_event list \<Rightarrow> time api_state" where
  "calm_state es = \<lparr>apiTokens = \<lparr>token = ''T'', expiresAt = Hour\<rparr>,
     apiBucket = \<lparr>rate = 20, tokens = 19, lastRefill = 0, backoffEnd = zero_time\<rparr>, apiWorld = 0, apiLog = es\<rparr>"

lemma plain_outbound [simp]: "cfgOutbound plain_config = None"
  by (simp add: plain_config_def)

lemma calm_wait: "bucket_wait (out_api (calm_env ans)) demo_state = Some (None, calm_state [Granted_at 0])"
  by (simp add: bucket_wait_def calm_env_def demo_state_def calm_state_def newTokenBucket_def wait_round_def
      refillLocked_def zero_time_def seconds_def time_sub_def min_int64_def max_int64_def Let_def)

lemma calm_request:
  "do_request (out_api (calm_env ok_answer)) plain_config method path (Some bd) no_out (calm_state es)
     = (Inr (''ok'', None), calm_state (es @ [Sent (api_request plain_config method path (Some bd) ''T'') (Inr ok_answer)]))"
  by (simp add: do_request_def calm_state_def Token_Get_def token_fresh_def calm_env_def api_accept_def
      ok_answer_def Let_def)

lemma calm_call:
  "card_call (out_api (calm_env ok_answer)) plain_config method path bd demo_state
     = Some (None, calm_state [Granted_at 0, Sent (api_request plain_config method path (Some bd) ''T'') (Inr ok_answer)])"
  by (simp add: card_call_def callRaw_def calm_wait calm_request result_error_def)

lemma retry_at_once [simp]:
  "op s = Some (None, s') \<Longrightarrow> retry_fallible op wait opts s = Some (None, s')"
  using effective_pos(1) [of opts]
  by (simp add: retry_fallible_def Retry_def given_options_def lift_op_def retry_loop.simps [of _ _ _ _ 1])

lemma calm_send:
  "proactiveSend (calm_env ok_answer) plain_config (to_user ''u'') sampleText (text_payload ''hi'') demo_state
     = Some (None, calm_state [Granted_at 0, Sent (api_request plain_config ''POST'' oto_path
         (Some (oto_body plain_config (to_user ''u'') sampleText (marshal (map_json [(''content'', ''hi'')])))) ''T'')
         (Inr ok_answer)])"
  by (simp add: proactiveSend_def valid_target_def before_send_plain proactiveSendInner_def text_payload_def
      calm_call after_send_def plain_outbound)
    (simp add: to_user_def)

theorem proactive_send_history_witness:
  "\<exists>h. apiLog (calm_state [Granted_at 0, Sent (api_request plain_config ''POST'' oto_path
         (Some (oto_body plain_config (to_user ''u'') sampleText (marshal (map_json [(''content'', ''hi'')])))) ''T'')
         (Inr ok_answer)]) = apiLog demo_state @ h
     \<and> length (filter is_sent h) \<le> max_attempts plain_config * 2 \<and> h \<noteq> [] \<and> accepted (last h)"
  using proactive_send_history [OF calm_send before_send_plain, OF plain_outbound] by blast

text \<open>
  The footer of a reply that falls back to a proactive send is added twice: once by the reply, once by the
  send it turns into.
\<close>

definition footer_config :: "time Config" where
  "footer_config = plain_config\<lparr>cfgOutbound :=
     Some \<lparr>ocRetry = \<lparr>rcMaxAttempts = 0, rcBaseDelayMs = 0\<rparr>, BeforeSend = None, AfterSend = None, Footer = ''F''\<rparr>\<rparr>"

lemma footer_twice:
  "fst (before_send footer_config ''send'' tg sampleText
          (fst (before_send footer_config ''reply'' cid sampleText (text_payload ''hi'') st)) st')
     = text_payload (''hi'' @ text_footer ''F'' @ text_footer ''F'')"
  by (simp add: before_send_def footer_config_def text_payload_def)

end
