(* ===== verification/Reply.thy ===== *)
theory Reply
  imports Outbound Splitter Cooldown CardStreamer
begin

text \<open>
  The reply handle, \<open>reply.go\<close>: texts, Markdown and images go to the webhook of the message, long texts in
  several posts, each post retried; a webhook that is missing, expired or answers 404 is replaced by a
  proactive send. The handle also opens the streaming card (\<open>Stream\<close>) whose fallback it is. \<open>UploadMedia\<close>
  is the one of \<open>Token\<close>. A webhook URL that \<open>http.NewRequest\<close> cannot parse is an error of the HTTP client.
\<close>

record 'w replier =
  rpMsg :: IncomingMessage
  rpProactive :: "(IncomingMessage \<Rightarrow> string \<Rightarrow> payload \<Rightarrow> 'w api_state \<Rightarrow> 'w api_outcome) option"

abbreviation hook_url :: "'w replier \<Rightarrow> string" where "hook_url r \<equiv> SessionWebhook (body (rpMsg r))"

section \<open>One post\<close>

definition webhook_param :: "payload \<Rightarrow> string" where
  "webhook_param p = (case payload_json p of Inl err \<Rightarrow> [] | Inr s \<Rightarrow> s)"

definition webhook_request :: "string \<Rightarrow> string \<Rightarrow> payload \<Rightarrow> string \<Rightarrow> request" where
  "webhook_request url msgKey p tok =
     \<lparr>req_method = ''POST'', req_url = url,
      req_headers = [(''Content-Type'', ''application/json''), (''x-acs-dingtalk-access-token'', tok)],
      req_body = marshal (JObj [(''msgKey'', JStr msgKey), (''msgParam'', JStr (webhook_param p))])\<rparr>"

definition webhook_answer :: "goerr + 'o response \<Rightarrow> goerr option" where
  "webhook_answer ans =
     (case ans of
        Inl err \<Rightarrow> Some err
      | Inr resp \<Rightarrow>
          if 400 \<le> resp_status resp
          then Some (ApiErr \<lparr>Status = resp_status resp, Code = [], Msg = [], Body = resp_raw resp\<rparr>)
          else None)"

definition webhookDo ::
  "'w out_env \<Rightarrow> 'w Config \<Rightarrow> 'w replier \<Rightarrow> string \<Rightarrow> payload \<Rightarrow> 'w api_state \<Rightarrow> 'w api_outcome" where
  "webhookDo env cfg r msgKey p st =
     (let e = out_api env in
      case Token_Get (credentials cfg) (env_token e) (env_clock e) (apiWorld st) (apiTokens st) of
        (Inl err, cache, w) \<Rightarrow> Some (Some err, st\<lparr>apiTokens := cache, apiWorld := w\<rparr>)
      | (Inr tok, cache, w) \<Rightarrow>
          let req = webhook_request (hook_url r) msgKey p tok in
          (case env_api e req w of
             (ans, w') \<Rightarrow>
               Some (webhook_answer ans,
                     st\<lparr>apiTokens := cache, apiWorld := w', apiLog := apiLog st @ [Sent req ans]\<rparr>)))"

definition webhookOnceInner ::
  "'w out_env \<Rightarrow> 'w Config \<Rightarrow> 'w replier \<Rightarrow> string \<Rightarrow> payload \<Rightarrow> 'w api_state \<Rightarrow> 'w api_outcome" where
  "webhookOnceInner env cfg r msgKey p st =
     retry_fallible (webhookDo env cfg r msgKey p) (sleep env) (retryOptions cfg) st"

definition afterSend :: "'w Config \<Rightarrow> 'w replier \<Rightarrow> goerr option \<Rightarrow> 'w api_state \<Rightarrow> 'w api_state" where
  "afterSend cfg r res st = after_send cfg ''reply'' (msg_chat (rpMsg r)) res st"

definition webhookOnce ::
  "'w out_env \<Rightarrow> 'w Config \<Rightarrow> 'w replier \<Rightarrow> string \<Rightarrow> payload \<Rightarrow> 'w api_state \<Rightarrow> 'w api_outcome" where
  "webhookOnce env cfg r msgKey p st =
     (case webhookOnceInner env cfg r msgKey p st of
        None \<Rightarrow> None
      | Some (res, st') \<Rightarrow> Some (res, afterSend cfg r res st'))"

definition target_gone :: "goerr \<Rightarrow> bool" where
  "target_gone err \<longleftrightarrow> IsReplyTargetGone (ClassifyError err)"

definition deliverOnce ::
  "'w out_env \<Rightarrow> 'w Config \<Rightarrow> 'w replier \<Rightarrow> string \<Rightarrow> payload \<Rightarrow> 'w api_state \<Rightarrow> 'w api_outcome" where
  "deliverOnce env cfg r msgKey p st =
     (case webhookOnce env cfg r msgKey p st of
        None \<Rightarrow> None
      | Some (None, st') \<Rightarrow> Some (None, st')
      | Some (Some err, st') \<Rightarrow>
          (case rpProactive r of
             None \<Rightarrow> Some (Some err, st')
           | Some proactive \<Rightarrow>
               if target_gone err then proactive (rpMsg r) msgKey p st' else Some (Some err, st')))"

section \<open>A reply\<close>

definition applyOutbound ::
  "'w Config \<Rightarrow> 'w replier \<Rightarrow> string \<Rightarrow> payload \<Rightarrow> 'w api_state \<Rightarrow> payload \<times> 'w api_state" where
  "applyOutbound cfg r msgKey p st = before_send cfg ''reply'' (msg_chat (rpMsg r)) msgKey p st"

definition webhookExpired :: "time \<Rightarrow> IncomingMessage \<Rightarrow> bool" where
  "webhookExpired now m \<longleftrightarrow> 0 < WebhookExpiredAt (body m) \<and> WebhookExpiredAt (body m) < unix_milli now"

definition title_text :: "string \<Rightarrow> string \<Rightarrow> payload" where
  "title_text title txt = StringMap [(''text'', txt), (''title'', title)]"

definition map_title :: "string_map \<Rightarrow> string" where
  "map_title m = (case map_of m ''title'' of None \<Rightarrow> [] | Some t \<Rightarrow> t)"

definition webhook_posts ::
  "'w out_env \<Rightarrow> 'w Config \<Rightarrow> 'w replier \<Rightarrow> string \<Rightarrow> payload \<Rightarrow> 'w api_state \<Rightarrow> 'w api_outcome" where
  "webhook_posts env cfg r msgKey p st =
     (let post = deliverOnce env cfg r msgKey; limit = TextChunkLimit cfg in
      if 0 < limit then
        (case p of
           StringMap m \<Rightarrow>
             (case map_of m ''content'' of
                Some content \<Rightarrow> for_each (\<lambda>c. post (text_payload c)) (chunkText content limit) st
              | None \<Rightarrow>
                  (case map_of m ''text'' of
                     Some txt \<Rightarrow> for_each (\<lambda>c. post (title_text (map_title m) c)) (chunkText txt limit) st
                   | None \<Rightarrow> post p st))
         | Any j \<Rightarrow> post p st)
      else post p st)"

definition webhook_missing :: goerr where
  "webhook_missing = PlainErr ''reply: sessionWebhook missing''"

definition webhook ::
  "'w out_env \<Rightarrow> 'w Config \<Rightarrow> 'w replier \<Rightarrow> string \<Rightarrow> payload \<Rightarrow> 'w api_state \<Rightarrow> 'w api_outcome" where
  "webhook env cfg r msgKey p0 st0 =
     (case applyOutbound cfg r msgKey p0 st0 of
        (p, st) \<Rightarrow>
          if hook_url r = [] \<or> webhookExpired (env_clock (out_api env) (apiWorld st)) (rpMsg r)
          then
            (case rpProactive r of
               Some proactive \<Rightarrow> proactive (rpMsg r) msgKey p st
             | None \<Rightarrow>
                 if hook_url r = [] then Some (Some webhook_missing, st) else webhook_posts env cfg r msgKey p st)
          else webhook_posts env cfg r msgKey p st)"

definition reply_Text where
  "reply_Text env cfg r content st = webhook env cfg r sampleText (text_payload content) st"

definition reply_Markdown where
  "reply_Markdown env cfg r title txt st = webhook env cfg r sampleMarkdown (markdown_payload title txt) st"

definition reply_Image where
  "reply_Image env cfg r imageURL st = webhook env cfg r sampleImageMsg (image_payload imageURL) st"

text \<open>\<open>DownloadURL\<close>; \<open>decode\<close> reads the field \<open>downloadUrl\<close> of the answer. Nothing in the path is escaped.\<close>

definition download_path :: "'w Config \<Rightarrow> string \<Rightarrow> string \<Rightarrow> string" where
  "download_path cfg downloadCode msgID =
     ''/v1.0/robot/messageFiles/download?downloadCode='' @ downloadCode @ ''&messageId='' @ msgID
       @ ''&robotCode='' @ ClientID cfg"

definition DownloadURL ::
  "'w out_env \<Rightarrow> 'w Config \<Rightarrow> (string \<Rightarrow> goerr + string) \<Rightarrow> string \<Rightarrow> string \<Rightarrow> 'w api_state
     \<Rightarrow> ((goerr + string) \<times> 'w api_state) option" where
  "DownloadURL env cfg decode downloadCode msgID st =
     (case callRaw (out_api env) cfg ''GET'' (download_path cfg downloadCode msgID) None (Some decode) st of
        None \<Rightarrow> None
      | Some (Inl err, st') \<Rightarrow> Some (Inl err, st')
      | Some (Inr (raw, decoded), st') \<Rightarrow> Some (Inr (case decoded of None \<Rightarrow> [] | Some url \<Rightarrow> url), st'))"


section \<open>The streaming card of a reply\<close>

text \<open>
  The closures \<open>fallback\<close> and \<open>deliverRest\<close>. The cooldown table is global, so it is threaded beside the
  state of the client. Inside its cooldown the fallback sends nothing and reports success.
\<close>

definition stream_fallback ::
  "'w out_env \<Rightarrow> 'w Config \<Rightarrow> 'w replier \<Rightarrow> string \<Rightarrow> cooldown_table \<times> 'w api_state
     \<Rightarrow> (goerr option \<times> cooldown_table \<times> 'w api_state) option" where
  "stream_fallback env cfg r txt = (\<lambda>(tbl, st).
     (case errorCooldownPass (ErrorCooldown cfg) (env_clock (out_api env) (apiWorld st)) (msg_chat (rpMsg r)) tbl of
        (False, tbl') \<Rightarrow> Some (None, tbl', st)
      | (True, tbl') \<Rightarrow> map_option (\<lambda>(e, st'). (e, tbl', st')) (reply_Text env cfg r txt st)))"

lemma cooling_text_dropped:
  "cooling (ErrorCooldown cfg) tbl (env_clock (out_api env) (apiWorld st)) (msg_chat (rpMsg r))
   \<Longrightarrow> stream_fallback env cfg r txt (tbl, st) = Some (None, tbl, st)"
  by (auto simp: stream_fallback_def errorCooldownPass_def cooling_def split: option.splits)

definition stream_target :: "'w Config \<Rightarrow> IncomingMessage \<Rightarrow> cardTarget" where
  "stream_target cfg m =
     \<lparr>IsGroup = (ConversationKind (body m) = ConversationTypeGroup), tgtConversationID = ConversationID (body m),
      tgtUserID = firstNonEmpty [SenderStaffID (body m), SenderID (body m)], tgtRobotCode = ClientID cfg\<rparr>"

definition stream_setup :: "'w Config \<Rightarrow> streamer_setup" where
  "stream_setup cfg =
     \<lparr>throttle = StreamThrottle cfg, watchdogAfter = CardWatchdog cfg, hasFallback = True, hasDeliverRest = True\<rparr>"

text \<open>A card that could not be created leaves a streamer without one; that is not an error of \<open>Stream\<close>.\<close>

definition Stream ::
  "'w out_env \<Rightarrow> 'w Config \<Rightarrow> 'w replier \<Rightarrow> 'w api_state \<Rightarrow> (cardStreamer \<times> 'w api_state) option" where
  "Stream env cfg r st =
     (case createAndDeliver (out_api env) cfg (stream_target cfg (rpMsg r)) st of
        None \<Rightarrow> None
      | Some (Inl err, st') \<Rightarrow> Some (new_streamer None, st')
      | Some (Inr ci, st') \<Rightarrow>
          Some (armWatchdog (stream_setup cfg) (env_clock (out_api env) (apiWorld st')) (new_streamer (Some ci)), st'))"

text \<open>What the calls of a streamer do.\<close>

definition stream_call ::
  "'w out_env \<Rightarrow> 'w Config \<Rightarrow> 'w replier \<Rightarrow> cardInstance \<Rightarrow> call \<Rightarrow> cooldown_table \<times> 'w api_state
     \<Rightarrow> (goerr option \<times> cooldown_table \<times> 'w api_state) option" where
  "stream_call env cfg r ci k = (\<lambda>(tbl, st).
     (case k of
        SetStatus status content \<Rightarrow> map_option (\<lambda>(e, st'). (e, tbl, st')) (setStatus (out_api env) cfg ci status content st)
      | StreamFrame content fin \<Rightarrow> map_option (\<lambda>(e, st'). (e, tbl, st')) (stream (out_api env) cfg ci content fin st)
      | Fallback txt \<Rightarrow> stream_fallback env cfg r txt (tbl, st)
      | DeliverRest txt \<Rightarrow> map_option (\<lambda>(e, st'). (e, tbl, st')) (reply_Text env cfg r txt st)
      | CancelCtx \<Rightarrow> Some (None, tbl, st)))"


section \<open>What a reply leaves in the log\<close>

text \<open>The reply handle of a channel: its fallback is the proactive send of that channel.\<close>

definition channel_replier :: "'w out_env \<Rightarrow> 'w Config \<Rightarrow> IncomingMessage \<Rightarrow> 'w replier" where
  "channel_replier env cfg m = \<lparr>rpMsg = m, rpProactive = Some (proactiveReply env cfg)\<rparr>"

lemma channel_replier_simps [simp]:
  "rpMsg (channel_replier env cfg m) = m"
  "rpProactive (channel_replier env cfg m) = Some (proactiveReply env cfg)"
  by (simp_all add: channel_replier_def)

inductive post_log :: "(string \<Rightarrow> request) \<Rightarrow> api_event list \<Rightarrow> goerr option \<Rightarrow> bool"
  for req :: "string \<Rightarrow> request" where
  no_token: "post_log req [] (Some err)"
| posted: "tok \<noteq> [] \<Longrightarrow> post_log req [Sent (req tok) ans] (webhook_answer ans)"

lemma post_log_events:
  assumes "post_log req a e"
  shows "list_all (sent_as req) a" "length (filter is_sent a) \<le> 1" "e = None \<Longrightarrow> a \<noteq> [] \<and> accepted (last a)"
  using assms by (cases, auto simp: event_defs webhook_answer_def split: sum.splits if_splits)+

lemma webhookDo_log:
  assumes "webhookDo env cfg r msgKey p st = Some (e, st')"
  shows "\<exists>a. apiLog st' = apiLog st @ a \<and> post_log (webhook_request (hook_url r) msgKey p) a e"
proof -
  obtain tok cache w where t: "Token_Get (credentials cfg) (env_token (out_api env)) (env_clock (out_api env))
      (apiWorld st) (apiTokens st) = (tok, cache, w)" by (metis prod_cases3)
  show ?thesis
  proof (cases tok)
    case (Inl err)
    then show ?thesis using assms t by (auto simp: webhookDo_def intro: post_log.no_token)
  next
    case (Inr tk)
    have "tk \<noteq> []" using t unfolding Inr by (rule token_nonempty)
    then show ?thesis
      using assms t Inr by (auto simp: webhookDo_def Let_def split: prod.splits intro: post_log.posted)
  qed
qed

interpretation hook_retry: logged_operation "webhookDo env cfg r k p" "sleep env" apiLog
    "post_log (webhook_request (hook_url r) k p)"
  for env cfg r k p
  by unfold_locales (fact webhookDo_log, fact sleep_log)

lemma retried_post_events:
  assumes "attempts (post_log req) n h e"
  shows "list_all (sent_as req) h" "length (filter is_sent h) \<le> n" "e = None \<Longrightarrow> h \<noteq> [] \<and> accepted (last h)"
proof -
  show "list_all (sent_as req) h" using assms post_log_events(1) by (rule attempts_all)
  show "length (filter is_sent h) \<le> n" using attempts_count [OF assms post_log_events(2)] by simp
  assume "e = None"
  then obtain g a where "h = g @ a" "post_log req a None" using attempts_success assms by blast
  then show "h \<noteq> [] \<and> accepted (last h)" using post_log_events(3) by fastforce
qed

lemma webhookOnce_log:
  assumes "webhookOnce env cfg r msgKey p st = Some (e, st')"
  shows "\<exists>a. apiLog st' = apiLog st @ a
    \<and> attempts (post_log (webhook_request (hook_url r) msgKey p)) (max_attempts cfg) a e"
  using assms hook_retry.retried_log
  by (fastforce simp: webhookOnce_def webhookOnceInner_def afterSend_def max_attempts_def split: option.splits)

text \<open>
  The log of one delivery over a channel's reply handle: the posts alone, or, when they end with the error
  that the target is gone, the posts and then the log of one proactive send of the same payload.
\<close>

definition resent_payload :: "'w Config \<Rightarrow> IncomingMessage \<Rightarrow> string \<Rightarrow> payload \<Rightarrow> payload \<Rightarrow> bool" where
  "resent_payload cfg m msgKey p q \<longleftrightarrow>
     (\<exists>st. q = fst (before_send cfg ''send'' (target_id (reply_target m)) msgKey p st))"

inductive deliver_log ::
  "'w Config \<Rightarrow> IncomingMessage \<Rightarrow> string \<Rightarrow> payload \<Rightarrow> api_event list \<Rightarrow> goerr option \<Rightarrow> bool"
  for cfg :: "'w Config" and m :: IncomingMessage and msgKey :: string and p :: payload where
  direct: "attempts (post_log (webhook_request (SessionWebhook (body m)) msgKey p)) (max_attempts cfg) h e
    \<Longrightarrow> e = None \<or> \<not> target_gone (the e) \<Longrightarrow> deliver_log cfg m msgKey p h e"
| redirected: "attempts (post_log (webhook_request (SessionWebhook (body m)) msgKey p)) (max_attempts cfg) h (Some err)
    \<Longrightarrow> target_gone err \<Longrightarrow> resent_payload cfg m msgKey p q \<Longrightarrow> send_log cfg (reply_target m) msgKey q h' e
    \<Longrightarrow> deliver_log cfg m msgKey p (h @ h') e"

lemma deliverOnce_log:
  assumes "deliverOnce env cfg (channel_replier env cfg m) msgKey p st = Some (e, st')"
  shows "\<exists>h. apiLog st' = apiLog st @ h \<and> deliver_log cfg m msgKey p h e"
proof -
  let ?r = "channel_replier env cfg m"
  obtain e1 st1 where w: "webhookOnce env cfg ?r msgKey p st = Some (e1, st1)"
    using assms by (auto simp: deliverOnce_def split: option.splits)
  obtain a where a: "apiLog st1 = apiLog st @ a"
      "attempts (post_log (webhook_request (SessionWebhook (body m)) msgKey p)) (max_attempts cfg) a e1"
    using webhookOnce_log [OF w] by auto
  show ?thesis
  proof (cases "\<exists>err. e1 = Some err \<and> target_gone err")
    case True
    then obtain err where err: "e1 = Some err" "target_gone err" by blast
    then have "proactiveSend env cfg (reply_target m) msgKey p st1 = Some (e, st')"
      using assms w by (simp add: deliverOnce_def proactiveReply_def)
    from proactiveSend_log [OF this] obtain h where "apiLog st' = apiLog st1 @ h"
      "send_log cfg (reply_target m) msgKey (fst (before_send cfg ''send'' (target_id (reply_target m)) msgKey p st1)) h e"
      by blast
    then show ?thesis using a err by (auto intro!: deliver_log.redirected simp: resent_payload_def)
  next
    case False
    then have "e = e1" "st' = st1" using assms w by (auto simp: deliverOnce_def split: option.splits if_splits)
    then show ?thesis using a False by (auto intro!: deliver_log.direct)
  qed
qed

interpretation parts_loop: logged_loop "deliverOnce env cfg (channel_replier env cfg m) k" apiLog "deliver_log cfg m k"
  for env cfg m k
  by unfold_locales (fact deliverOnce_log)

text \<open>The payloads a reply is sent as: the chunks of its text, or the payload itself.\<close>

definition payload_parts :: "'w Config \<Rightarrow> payload \<Rightarrow> payload list" where
  "payload_parts cfg p =
     (case p of
        Any j \<Rightarrow> [p]
      | StringMap m \<Rightarrow>
          if TextChunkLimit cfg \<le> 0 then [p]
          else
            (case map_of m ''content'' of
               Some content \<Rightarrow> map text_payload (chunkText content (TextChunkLimit cfg))
             | None \<Rightarrow>
                 (case map_of m ''text'' of
                    Some txt \<Rightarrow> map (title_text (map_title m)) (chunkText txt (TextChunkLimit cfg))
                  | None \<Rightarrow> [p])))"

lemma for_each_one: "for_each f [c] s = f c s"
  by (auto simp: and_then_def split: option.splits prod.splits)

lemma for_each_map: "for_each (\<lambda>c. f (g c)) cs s = for_each f (map g cs) s"
proof (induction cs arbitrary: s)
  case (Cons c cs)
  then have "for_each (\<lambda>c. f (g c)) cs = for_each f (map g cs)" by (intro ext)
  then show ?case by simp
qed simp

lemma webhook_posts_parts:
  "webhook_posts env cfg r msgKey p st = for_each (deliverOnce env cfg r msgKey) (payload_parts cfg p) st"
  by (auto simp: webhook_posts_def payload_parts_def for_each_one for_each_map Let_def simp del: for_each.simps
      split: payload.split option.split)


text \<open>An event that is no request, or a request that carries the given payload to the sender's side.\<close>

definition resends :: "'w Config \<Rightarrow> IncomingMessage \<Rightarrow> string \<Rightarrow> payload \<Rightarrow> api_event \<Rightarrow> bool" where
  "resends cfg m msgKey p e \<longleftrightarrow>
     (\<exists>q param. resent_payload cfg m msgKey p q \<and> payload_json q = Inr param
        \<and> sent_as (send_request cfg (reply_target m) msgKey param) e)"

definition carries :: "'w Config \<Rightarrow> IncomingMessage \<Rightarrow> string \<Rightarrow> payload \<Rightarrow> api_event \<Rightarrow> bool" where
  "carries cfg m msgKey p e \<longleftrightarrow>
     sent_as (webhook_request (SessionWebhook (body m)) msgKey p) e \<or> resends cfg m msgKey p e"

lemma send_log_events:
  assumes "send_log cfg (reply_target m) msgKey q h e" and "resent_payload cfg m msgKey p q"
  shows "list_all (resends cfg m msgKey p) h \<and> (e = None \<longrightarrow> h \<noteq> [] \<and> accepted (last h))
    \<and> length (filter is_sent h) \<le> max_attempts cfg * 2"
  using assms(1)
proof cases
  case (tried param)
  note ev = retried_call_events [OF tried(3)]
  have "list_all (resends cfg m msgKey p) h"
    using ev(1) tried(2) assms(2) unfolding list_all_iff resends_def by blast
  with ev(2,3) show ?thesis by blast
qed simp_all

lemma deliver_log_events:
  assumes "deliver_log cfg m msgKey p h e"
  shows "list_all (carries cfg m msgKey p) h \<and> (e = None \<longrightarrow> h \<noteq> [] \<and> accepted (last h))
    \<and> length (filter is_sent h) \<le> max_attempts cfg * 3"
  using assms
proof cases
  case direct
  note ev = retried_post_events [OF direct(1)]
  have "list_all (carries cfg m msgKey p) h" using ev(1) unfolding list_all_iff carries_def by blast
  with ev(2,3) show ?thesis by simp
next
  case (redirected h1 err q h2)
  note ev1 = retried_post_events [OF redirected(2)] and ev2 = send_log_events [OF redirected(5,4)]
  have "list_all (carries cfg m msgKey p) h1" using ev1(1) unfolding list_all_iff carries_def by blast
  moreover have "list_all (carries cfg m msgKey p) h2" using ev2 unfolding list_all_iff carries_def by blast
  ultimately show ?thesis using redirected(1) ev1(2) ev2 by auto
qed

lemma in_turn_split:
  assumes "in_turn P cs h r"
  shows "\<exists>n hs a. h = concat hs @ a \<and> list_all2 (\<lambda>c b. P c b None) (take n cs) hs
    \<and> (if r = None then n = length cs \<and> a = [] else n < length cs \<and> P (cs ! n) a r)"
proof (cases r)
  case None
  then obtain hs where "h = concat hs" "list_all2 (\<lambda>c a. P c a None) cs hs" using assms in_turn_done by blast
  then show ?thesis using None by (intro exI [of _ "length cs"] exI [of _ hs] exI [of _ "[]"]) simp
next
  case (Some e)
  then obtain ds c rest hs a where "cs = ds @ c # rest" "h = concat hs @ a"
      "list_all2 (\<lambda>c a. P c a None) ds hs" "P c a (Some e)" using assms in_turn_failed by blast
  then show ?thesis using Some by (intro exI [of _ "length ds"] exI [of _ hs] exI [of _ a]) simp
qed

section \<open>A whole reply\<close>

lemma webhook_log:
  assumes "webhook env cfg (channel_replier env cfg m) msgKey p st = Some (r, st')"
    and "applyOutbound cfg (channel_replier env cfg m) msgKey p st = (q, st1)"
    and "ps = payload_parts cfg q"
  shows "if SessionWebhook (body m) = [] \<or> webhookExpired (env_clock (out_api env) (apiWorld st1)) m
    then \<exists>h. apiLog st' = apiLog st @ h \<and> list_all (resends cfg m msgKey q) h
        \<and> (r = None \<longrightarrow> h \<noteq> [] \<and> accepted (last h))
    else \<exists>n hs h. apiLog st' = apiLog st @ concat hs @ h
        \<and> list_all2 (\<lambda>c a. list_all (carries cfg m msgKey c) a \<and> a \<noteq> [] \<and> accepted (last a)) (take n ps) hs
        \<and> (if r = None then n = length ps \<and> h = []
           else n < length ps \<and> list_all (carries cfg m msgKey (ps ! n)) h)"
proof -
  have log: "apiLog st1 = apiLog st" using assms(2) before_send_kept(1) by (simp add: applyOutbound_def)
  show ?thesis
  proof (cases "SessionWebhook (body m) = [] \<or> webhookExpired (env_clock (out_api env) (apiWorld st1)) m")
    case True
    then have "proactiveSend env cfg (reply_target m) msgKey q st1 = Some (r, st')"
      using assms(1,2) by (auto simp: webhook_def proactiveReply_def)
    from proactiveSend_log [OF this] obtain h where h: "apiLog st' = apiLog st1 @ h"
      "send_log cfg (reply_target m) msgKey
         (fst (before_send cfg ''send'' (target_id (reply_target m)) msgKey q st1)) h r" by blast
    have "resent_payload cfg m msgKey q (fst (before_send cfg ''send'' (target_id (reply_target m)) msgKey q st1))"
      by (auto simp: resent_payload_def)
    from send_log_events [OF h(2) this] show ?thesis using True h(1) log by auto
  next
    case False
    then have "for_each (deliverOnce env cfg (channel_replier env cfg m) msgKey) ps st1 = Some (r, st')"
      using assms by (simp add: webhook_def webhook_posts_parts)
    from parts_loop.loop_log [OF this] obtain g where g: "apiLog st' = apiLog st1 @ g"
      "in_turn (deliver_log cfg m msgKey) ps g r" by blast
    from in_turn_split [OF g(2)] obtain n hs h where h: "g = concat hs @ h"
      "list_all2 (\<lambda>c b. deliver_log cfg m msgKey c b None) (take n ps) hs"
      "if r = None then n = length ps \<and> h = []
       else n < length ps \<and> deliver_log cfg m msgKey (ps ! n) h r" by blast
    have "list_all2 (\<lambda>c a. list_all (carries cfg m msgKey c) a \<and> a \<noteq> [] \<and> accepted (last a)) (take n ps) hs"
      using h(2) by (rule list_all2_mono) (use deliver_log_events in blast)
    moreover have "if r = None then n = length ps \<and> h = []
        else n < length ps \<and> list_all (carries cfg m msgKey (ps ! n)) h"
      using h(3) deliver_log_events by (metis (full_types))
    moreover have "apiLog st' = apiLog st @ concat hs @ h" using g(1) h(1) log by simp
    ultimately show ?thesis using False by (simp only: if_False) blast
  qed
qed

section \<open>Properties\<close>

text \<open>
  C6. A reply over a channel's handle, after its footer and hooks: a text, a Markdown text, an image, or what a
  hook made of it. Without a usable webhook nothing is posted: everything sent is the fallback message to
  the sender's group or user. With one, the parts of the reply, for a text its chunks, go out one after the
  other: what was sent for a part carries that part, to the webhook or, when it is gone, to the fallback
  target, and ends with an answer below 400 before the next part is touched; the first failure stops the
  reply with that error, and only a reply without a failure has sent all of them.
\<close>

theorem reply_in_order:
  assumes "webhook env cfg (channel_replier env cfg m) msgKey p st = Some (r, st')"
    and "applyOutbound cfg (channel_replier env cfg m) msgKey p st = (q, st1)"
    and "ps = payload_parts cfg q"
  shows "if SessionWebhook (body m) = [] \<or> webhookExpired (env_clock (out_api env) (apiWorld st1)) m
    then \<exists>h. apiLog st' = apiLog st @ h \<and> list_all (resends cfg m msgKey q) h
        \<and> (r = None \<longrightarrow> h \<noteq> [] \<and> accepted (last h))
    else \<exists>n hs h. apiLog st' = apiLog st @ concat hs @ h
        \<and> list_all2 (\<lambda>c a. list_all (carries cfg m msgKey c) a \<and> a \<noteq> [] \<and> accepted (last a)) (take n ps) hs
        \<and> (if r = None then n = length ps \<and> h = []
           else n < length ps \<and> list_all (carries cfg m msgKey (ps ! n)) h)"
  by (rule webhook_log [OF assms])


section \<open>Instances\<close>

text \<open>A reply of three characters over a webhook that accepts everything, with two characters to a post.\<close>

definition hooked_msg :: IncomingMessage where
  "hooked_msg = Message ((body (sample_msg ''m1'' ''cid'' ''hi''))\<lparr>SessionWebhook := ''https://hook''\<rparr>) []"

definition short_config :: "time Config" where
  "short_config = plain_config\<lparr>TextChunkLimit := 2\<rparr>"

abbreviation short_replier :: "time replier" where
  "short_replier \<equiv> channel_replier (calm_env ok_answer) short_config hooked_msg"

definition hook_post :: "string \<Rightarrow> api_event" where
  "hook_post c = Sent (webhook_request ''https://hook'' sampleText (text_payload c) ''T'') (Inr ok_answer)"

lemma short_config_simps [simp]: "cfgOutbound short_config = None" "TextChunkLimit short_config = 2"
  by (simp_all add: short_config_def)

lemma hooked_msg_simps [simp]: "SessionWebhook (body hooked_msg) = ''https://hook''" "WebhookExpiredAt (body hooked_msg) = 0"
  by (simp_all add: hooked_msg_def sample_msg_def empty_fields_def)

lemma short_chunks: "chunkText ''abc'' 2 = [''ab'', ''c'']"
proof -
  have runes: "decode_runes ''abc'' = [97, 98, 99]"
    by (simp add: decode_rune_def Let_def)
  have "cut_at [97, 98, 99] 2 = 2"
    by (simp add: cut_at_def find_cut.simps [of _ _ 2] find_cut.simps [of _ "Suc 0" "Suc 0"] find_cut.simps [of _ "Suc 0" 0])
  then have "chunk_runes 2 [97, 98, 99] = [[97, 98], [99]]"
    by (simp add: chunk_runes.simps [of 2 "[97, 98, 99]"] chunk_runes.simps [of 2 "[99]"])
  moreover have "byte 97 = CHR ''a''" "byte 98 = CHR ''b''" "byte 99 = CHR ''c''" by code_simp+
  ultimately show ?thesis
    using runes by (simp add: chunkText_def has_prefix_def encode_runes_def encode_rune_def encode_valid_def valid_rune_def)
qed

lemma short_post:
  "deliverOnce (calm_env ok_answer) short_config short_replier sampleText (text_payload c) (calm_state es)
     = Some (None, calm_state (es @ [hook_post c]))"
proof -
  have "webhookDo (calm_env ok_answer) short_config short_replier sampleText (text_payload c) (calm_state es)
      = Some (None, calm_state (es @ [hook_post c]))"
    by (simp add: webhookDo_def calm_state_def Token_Get_def token_fresh_def calm_env_def webhook_answer_def
        ok_answer_def hook_post_def Let_def)
  then show ?thesis by (simp add: deliverOnce_def webhookOnce_def webhookOnceInner_def afterSend_def after_send_def)
qed

lemma short_reply:
  "webhook (calm_env ok_answer) short_config short_replier sampleText (text_payload ''abc'') (calm_state [])
     = Some (None, calm_state [hook_post ''ab'', hook_post ''c''])"
  by (simp add: webhook_def applyOutbound_def before_send_plain webhookExpired_def webhook_posts_def text_payload_def
      short_chunks short_post [unfolded text_payload_def] and_then_def)

theorem reply_in_order_witness:
  "\<exists>n hs. apiLog (calm_state [hook_post ''ab'', hook_post ''c'']) = concat hs
     \<and> list_all2 (\<lambda>c a. list_all (carries short_config hooked_msg sampleText c) a \<and> a \<noteq> [] \<and> accepted (last a))
         (take n [text_payload ''ab'', text_payload ''c'']) hs \<and> n = 2"
proof -
  have plain: "applyOutbound short_config short_replier sampleText (text_payload ''abc'') (calm_state [])
      = (StringMap [(''content'', ''abc'')], calm_state [])"
    by (simp add: applyOutbound_def before_send_plain text_payload_def)
  show ?thesis
    using reply_in_order [OF short_reply plain, of "[text_payload ''ab'', text_payload ''c'']"]
    by (simp add: payload_parts_def short_chunks webhookExpired_def calm_state_def)
qed

end
