(* ===== verification/CardLive.thy ===== *)
theory CardLive
  imports CardSystem Reply
begin

text \<open>
  The streaming handle over the real client: the goroutines of \<open>CardStreamer\<close> make their calls with
  \<open>Reply.stream_call\<close>, so the outcome of a call, and the time when it returns, come from the environment.
  Every run of it is one of the schedules of \<open>CardSystem\<close>, whose theorems therefore hold for it; its requests
  are those of the calls in its history, and the frame gap is waited for.
\<close>

section \<open>Running the tasks\<close>









section \<open>Refinement\<close>



lemma tick_to:
  "now \<le> now' \<Longrightarrow> system_step cfg (Tick (now' - now)) \<lparr>streamer = s, tasks = ts, clock = now, history = h\<rparr>
     = Some \<lparr>streamer = s, tasks = ts, clock = now', history = h\<rparr>"
  by simp



section \<open>The requests of the calls\<close>
















section \<open>The gap between frames\<close>





section \<open>Properties\<close>


section \<open>Instances\<close>






lemma calm_now [simp]: "env_clock (out_api (calm_env a)) (apiWorld (calm_state es)) = 0"
  by (simp add: calm_env_def calm_state_def)




end
