(* ===== verification/Normalize.thy ===== *)
theory Normalize
  imports Types Trim Errors "HOL-Library.Sublist"
begin

text \<open>
  Inbound normalisation, \<open>internal/normalize\<close>: the callback payload becomes an \<open>IncomingMessage\<close>. Reading
  JSON is left to two decoders, arguments of the definitions: one for the callback struct, one for the
  content of a message, which the code reads into a \<open>map[string]interface{}\<close>. A value of that map is a
  string, a list, a map, or one of the kinds the code never looks into.
\<close>

section \<open>JSON values\<close>

datatype jval =
    VStr string
  | VArr "jval list"
  | VObj "(string \<times> jval) list"
  | VOther

type_synonym jmap = "(string \<times> jval) list"

text \<open>The type assertions \<open>m[k].(string)\<close>, \<open>.([]interface{})\<close> and \<open>.(map[string]interface{})\<close>.\<close>

definition get_string :: "jmap \<Rightarrow> string \<Rightarrow> string option" where
  "get_string m k = (case map_of m k of Some (VStr s) \<Rightarrow> Some s | _ \<Rightarrow> None)"

definition get_array :: "jmap \<Rightarrow> string \<Rightarrow> jval list option" where
  "get_array m k = (case map_of m k of Some (VArr vs) \<Rightarrow> Some vs | _ \<Rightarrow> None)"

definition get_object :: "jmap \<Rightarrow> string \<Rightarrow> jmap option" where
  "get_object m k = (case map_of m k of Some (VObj kvs) \<Rightarrow> Some kvs | _ \<Rightarrow> None)"

definition str_or_empty :: "jmap \<Rightarrow> string \<Rightarrow> string" where
  "str_or_empty m k = (case get_string m k of None \<Rightarrow> [] | Some s \<Rightarrow> s)"

definition arr_or_empty :: "jmap \<Rightarrow> string \<Rightarrow> jval list" where
  "arr_or_empty m k = (case get_array m k of None \<Rightarrow> [] | Some vs \<Rightarrow> vs)"

fun toString :: "jval \<Rightarrow> string" where
  "toString (VStr s) = s"
| "toString _ = []"

record botCallbackData =
  cbConversationID :: string
  cbAtUsers :: "AtUser list"
  cbChatbotCorpID :: string
  cbChatbotUserID :: string
  cbMsgID :: string
  cbSenderNick :: string
  cbIsAdmin :: bool
  cbSenderStaffID :: string
  cbSessionWebhookExpiredTime :: int
  cbCreateAt :: int
  cbSenderCorpID :: string
  cbConversationType :: string
  cbSenderID :: string
  cbConversationTitle :: string
  cbIsInAtList :: bool
  cbSessionWebhook :: string
  cbTextContent :: string
  cbMsgType :: string
  cbContent :: string

type_synonym content_decoder = "string \<Rightarrow> jmap option"
type_synonym callback_decoder = "string \<Rightarrow> goerr + botCallbackData"

section \<open>Texts\<close>

definition picture_text :: string where
  "picture_text = ''['' @ [CHR 0xE5, CHR 0x9B, CHR 0xBE, CHR 0xE7, CHR 0x89, CHR 0x87] @ '']''"

definition file_word :: string where
  "file_word = [CHR 0xE6, CHR 0x96, CHR 0x87, CHR 0xE4, CHR 0xBB, CHR 0xB6]"

definition file_open :: string where
  "file_open = ''['' @ [CHR 0xE6, CHR 0x96, CHR 0x87, CHR 0xE4, CHR 0xBB, CHR 0xB6] @ '': ''"

definition audio_text :: string where
  "audio_text = ''['' @ [CHR 0xE8, CHR 0xAF, CHR 0xAD, CHR 0xE9, CHR 0x9F, CHR 0xB3, CHR 0xE6, CHR 0xB6, CHR 0x88, CHR 0xE6, CHR 0x81, CHR 0xAF] @ '']''"

definition video_text :: string where
  "video_text = ''['' @ [CHR 0xE8, CHR 0xA7, CHR 0x86, CHR 0xE9, CHR 0xA2, CHR 0x91] @ '']''"

definition link_label :: string where
  "link_label = [CHR 0xE6, CHR 0x93, CHR 0x8D, CHR 0xE4, CHR 0xBD, CHR 0x9C, CHR 0xE9, CHR 0x93, CHR 0xBE, CHR 0xE6, CHR 0x8E, CHR 0xA5, CHR 0xEF, CHR 0xBC, CHR 0x9A]"

definition action_card_text :: string where
  "action_card_text = ''[actionCard'' @ [CHR 0xE6, CHR 0xB6, CHR 0x88, CHR 0xE6, CHR 0x81, CHR 0xAF] @ '']''"

definition card_link_label :: string where
  "card_link_label = [CHR 0xE6, CHR 0x94, CHR 0xB6, CHR 0xE5, CHR 0x88, CHR 0xB0, CHR 0xE4, CHR 0xBA, CHR 0xA4, CHR 0xE4, CHR 0xBA, CHR 0x92, CHR 0xE5, CHR 0xBC, CHR 0x8F, CHR 0xE5, CHR 0x8D, CHR 0xA1, CHR 0xE7, CHR 0x89, CHR 0x87, CHR 0xE9, CHR 0x93, CHR 0xBE, CHR 0xE6, CHR 0x8E, CHR 0xA5, CHR 0xEF, CHR 0xBC, CHR 0x9A]"

definition interactive_card_text :: string where
  "interactive_card_text = ''[interactiveCard'' @ [CHR 0xE6, CHR 0xB6, CHR 0x88, CHR 0xE6, CHR 0x81, CHR 0xAF] @ '']''"

definition quote_mark :: string where
  "quote_mark = ''['' @ [CHR 0xE5, CHR 0xBC, CHR 0x95, CHR 0xE7, CHR 0x94, CHR 0xA8] @ ''] ''"

definition message_word :: string where
  "message_word = [CHR 0xE6, CHR 0xB6, CHR 0x88, CHR 0xE6, CHR 0x81, CHR 0xAF]"

section \<open>Converters\<close>

definition convertText :: "jmap \<Rightarrow> string" where
  "convertText m = TrimSpace (str_or_empty m ''content'')"

definition convertMarkdown :: "jmap \<Rightarrow> string" where
  "convertMarkdown m = str_or_empty m ''text''"

definition convertPicture :: "jmap \<Rightarrow> string \<times> Resource list" where
  "convertPicture m =
     (let dc = str_or_empty m ''downloadCode'' in
      (picture_text,
       if dc \<noteq> [] then [\<lparr>ResourceType = ''image'', DownloadCode = dc, FileName = [], Recognition = []\<rparr>] else []))"

definition convertFile :: "jmap \<Rightarrow> string \<times> Resource list" where
  "convertFile m =
     (let dc = str_or_empty m ''downloadCode''; fn = str_or_empty m ''fileName'' in
      (file_open @ (if fn = [] then file_word else fn) @ '']'',
       if dc \<noteq> [] then [\<lparr>ResourceType = ''file'', DownloadCode = dc, FileName = fn, Recognition = []\<rparr>] else []))"

definition convertAudio :: "jmap \<Rightarrow> string \<times> Resource list" where
  "convertAudio m =
     (let dc = str_or_empty m ''downloadCode''; fn = str_or_empty m ''fileName'';
          rec = str_or_empty m ''recognition'' in
      (if rec \<noteq> [] then rec else audio_text,
       if dc \<noteq> [] then [\<lparr>ResourceType = ''audio'', DownloadCode = dc, FileName = fn, Recognition = rec\<rparr>] else []))"

definition convertVideo :: "jmap \<Rightarrow> string \<times> Resource list" where
  "convertVideo m =
     (let dc = str_or_empty m ''downloadCode''; fn = str_or_empty m ''fileName'' in
      (video_text,
       if dc \<noteq> [] then [\<lparr>ResourceType = ''video'', DownloadCode = dc, FileName = fn, Recognition = []\<rparr>] else []))"

definition newline :: string where "newline = [CHR 0x0A]"

fun action_urls :: "jval list \<Rightarrow> string list" where
  "action_urls [] = []"
| "action_urls (VObj um # us) =
     (case get_string um ''actionUrl'' of
        Some url \<Rightarrow> if url \<noteq> [] then url # action_urls us else action_urls us
      | None \<Rightarrow> action_urls us)"
| "action_urls (_ # us) = action_urls us"

definition convertActionCard :: "jmap \<Rightarrow> string" where
  "convertActionCard m =
     (let title = str_or_empty m ''title''; bd = str_or_empty m ''text'';
          urls = action_urls (arr_or_empty m ''actionUrlItemList'');
          links = (case urls of
                     [] \<Rightarrow> []
                   | [u] \<Rightarrow> [link_label @ u]
                   | _ \<Rightarrow> [link_label @ newline @ ''- '' @ str_join (newline @ ''- '') urls]);
          parts = (if title \<noteq> [] then [title] else []) @ (if bd \<noteq> [] then [bd] else []) @ links
      in if parts \<noteq> [] then str_join (newline @ newline) parts else action_card_text)"

definition convertInteractiveCard :: "jmap \<Rightarrow> string" where
  "convertInteractiveCard m =
     (let url = str_or_empty m ''biz_custom_action_url'' in
      if url \<noteq> [] then card_link_label @ url else interactive_card_text)"

definition user_mention :: "string \<Rightarrow> string \<Rightarrow> Mention" where
  "user_mention uid nm = \<lparr>MentionKey = [], UserID = uid, MentionName = nm, IsBot = False, IsAll = False\<rparr>"

fun rich_elements :: "jval list \<Rightarrow> string \<times> Mention list" where
  "rich_elements [] = ([], [])"
| "rich_elements (VObj elem # es) =
     (let (txt, ms) = rich_elements es; typ = str_or_empty elem ''type'' in
      if typ = ''text'' then (str_or_empty elem ''text'' @ txt, ms)
      else if typ = ''at''
      then (txt, map (\<lambda>u. user_mention (toString u) []) (arr_or_empty elem ''atUserIds'')
                 @ map (\<lambda>u. user_mention (toString u) (toString u)) (arr_or_empty elem ''atMobiles'') @ ms)
      else (txt, ms))"
| "rich_elements (_ # es) = rich_elements es"

definition convertRichText :: "jmap \<Rightarrow> string \<times> Mention list" where
  "convertRichText m = (case get_array m ''richText'' of None \<Rightarrow> ([], []) | Some es \<Rightarrow> rich_elements es)"

definition extractQuotedText :: "content_decoder \<Rightarrow> jmap \<Rightarrow> string" where
  "extractQuotedText dec m =
     (let mt = str_or_empty m ''msgType''; raw = str_or_empty m ''content'';
          placeholder = quote_mark @ mt @ message_word in
      if raw = [] then
        (case get_object m ''content'' of
           None \<Rightarrow> placeholder
         | Some c \<Rightarrow>
             if mt = ''text''
             then (case get_string c ''text'' of Some t \<Rightarrow> quote_mark @ t | None \<Rightarrow> placeholder)
             else placeholder)
      else
        (case dec raw of
           None \<Rightarrow> quote_mark @ raw
         | Some c \<Rightarrow>
             if mt = ''text''
             then (case get_string c ''text'' of Some t \<Rightarrow> quote_mark @ t | None \<Rightarrow> placeholder)
             else if mt = ''picture'' then quote_mark @ picture_text
             else if mt = ''file'' then quote_mark @ file_open @ str_or_empty c ''fileName'' @ '']''
             else placeholder))"

definition convertReply :: "content_decoder \<Rightarrow> jmap \<Rightarrow> string" where
  "convertReply dec m =
     (let txt = str_or_empty m ''text'' in
      case get_object m ''repliedMsg'' of
        None \<Rightarrow> txt
      | Some rm \<Rightarrow>
          (let quoted = extractQuotedText dec rm in
           if quoted \<noteq> [] then (if txt \<noteq> [] then txt @ newline @ quoted else quoted) else txt))"

section \<open>The message\<close>

definition parseContent :: "content_decoder \<Rightarrow> string \<Rightarrow> string \<Rightarrow> string \<times> Resource list \<times> Mention list" where
  "parseContent dec msgType rawContent =
     (if rawContent = [] then ([], [], [])
      else
        (case dec rawContent of
           None \<Rightarrow> ([], [], [])
         | Some m \<Rightarrow>
             if msgType = ''text'' then (convertText m, [], [])
             else if msgType = ''richText'' then (case convertRichText m of (t, ms) \<Rightarrow> (t, [], ms))
             else if msgType = ''picture'' then (case convertPicture m of (t, rs) \<Rightarrow> (t, rs, []))
             else if msgType = ''file'' then (case convertFile m of (t, rs) \<Rightarrow> (t, rs, []))
             else if msgType = ''audio'' then (case convertAudio m of (t, rs) \<Rightarrow> (t, rs, []))
             else if msgType = ''video'' then (case convertVideo m of (t, rs) \<Rightarrow> (t, rs, []))
             else if msgType = ''markdown'' then (convertMarkdown m, [], [])
             else if msgType = ''actionCard'' then (convertActionCard m, [], [])
             else if msgType = ''interactiveCard'' then (convertInteractiveCard m, [], [])
             else if msgType = ''reply'' then (convertReply dec m, [], [])
             else (str_or_empty m ''content'', [], [])))"

definition normalizeConversationType :: "string \<Rightarrow> string" where
  "normalizeConversationType t = (if t = ''1'' then ConversationTypeDM else ConversationTypeGroup)"

text \<open>A text that starts with \<open>@\<close> loses everything up to its first space.\<close>

definition strip_mention :: "string \<Rightarrow> string" where
  "strip_mention txt =
     (if has_prefix txt ''@''
      then (case dropWhile (\<lambda>c. c \<noteq> CHR '' '') txt of [] \<Rightarrow> txt | _ # rest \<Rightarrow> TrimSpace rest)
      else txt)"

definition at_mention :: "AtUser \<Rightarrow> Mention" where
  "at_mention au = user_mention (StaffID au) (StaffID au)"

definition mentions_all :: "AtUser \<Rightarrow> bool" where
  "mentions_all au \<longleftrightarrow> StaffID au = ''all'' \<or> DingtalkID au = ''all''"

definition message_text :: "string \<Rightarrow> botCallbackData \<Rightarrow> string \<Rightarrow> string" where
  "message_text ctype d parsed =
     (let txt = (if cbMsgType d = [] \<or> cbMsgType d = ''text'' then TrimSpace (cbTextContent d) else parsed) in
      if ctype = ConversationTypeGroup then strip_mention txt else txt)"

definition NormalizeIncoming ::
  "callback_decoder \<Rightarrow> content_decoder \<Rightarrow> string \<Rightarrow> goerr + IncomingMessage" where
  "NormalizeIncoming decode dec raw =
     (case decode raw of
        Inl err \<Rightarrow> Inl err
      | Inr d \<Rightarrow>
          (let ctype = normalizeConversationType (cbConversationType d) in
           case parseContent dec (cbMsgType d) (cbContent d) of
             (parsed, resources, mentions) \<Rightarrow>
               Inr (Message
                 \<lparr>ConversationID = cbConversationID d, ConversationKind = ctype,
                  ConversationTitle = cbConversationTitle d, SenderID = cbSenderID d,
                  SenderStaffID = cbSenderStaffID d, SenderNick = cbSenderNick d,
                  SenderCorpID = cbSenderCorpID d, Text = message_text ctype d parsed,
                  MsgType = cbMsgType d, Content = cbContent d, Resources = resources,
                  Mentions = mentions @ map at_mention (cbAtUsers d),
                  MentionAll = list_ex mentions_all (cbAtUsers d), AtUsers = cbAtUsers d,
                  SessionWebhook = cbSessionWebhook d, WebhookExpiredAt = cbSessionWebhookExpiredTime d,
                  MsgID = cbMsgID d, CreateAt = cbCreateAt d, IsAdmin = cbIsAdmin d,
                  IsInAtList = cbIsInAtList d, Raw = raw\<rparr> [])))"


section \<open>Properties\<close>

text \<open>
  What the rest of the library relies on in a normalised message, said of the fields of the payload \<open>d\<close>
  and of the decoded content: which messages carry a resource, who was mentioned, and whether everybody
  was. A mention for an entry of \<open>atUsers\<close> has that user's staff id as its id and as its name.
\<close>

definition media_kind :: "string \<Rightarrow> string option" where
  "media_kind mt = map_of [(''picture'', ''image''), (''file'', ''file''), (''audio'', ''audio''), (''video'', ''video'')] mt"

definition resource_ok :: "string \<Rightarrow> jmap option \<Rightarrow> Resource \<Rightarrow> bool" where
  "resource_ok mt content r \<longleftrightarrow> DownloadCode r \<noteq> [] \<and> media_kind mt = Some (ResourceType r)
     \<and> (case content of None \<Rightarrow> False | Some c \<Rightarrow> map_of c ''downloadCode'' = Some (VStr (DownloadCode r)))"

definition has_download :: "jmap option \<Rightarrow> bool" where
  "has_download content \<longleftrightarrow> (\<exists>c code. content = Some c \<and> map_of c ''downloadCode'' = Some (VStr code) \<and> code \<noteq> [])"

definition content_of :: "content_decoder \<Rightarrow> botCallbackData \<Rightarrow> jmap option" where
  "content_of dec d = (if cbContent d = [] then None else dec (cbContent d))"

definition copied_fields :: "botCallbackData \<Rightarrow> message_fields \<Rightarrow> bool" where
  "copied_fields d b \<longleftrightarrow>
     ConversationID b = cbConversationID d \<and> ConversationTitle b = cbConversationTitle d
     \<and> SenderID b = cbSenderID d \<and> SenderStaffID b = cbSenderStaffID d \<and> SenderNick b = cbSenderNick d
     \<and> SenderCorpID b = cbSenderCorpID d \<and> MsgType b = cbMsgType d \<and> Content b = cbContent d
     \<and> AtUsers b = cbAtUsers d \<and> SessionWebhook b = cbSessionWebhook d
     \<and> WebhookExpiredAt b = cbSessionWebhookExpiredTime d \<and> MsgID b = cbMsgID d \<and> CreateAt b = cbCreateAt d
     \<and> IsAdmin b = cbIsAdmin d \<and> IsInAtList b = cbIsInAtList d"

definition mentions_ok :: "message_fields \<Rightarrow> bool" where
  "mentions_ok b \<longleftrightarrow>
     (MentionAll b \<longleftrightarrow> (\<exists>u. u \<in> set (AtUsers b) \<and> (StaffID u = ''all'' \<or> DingtalkID u = ''all'')))
     \<and> (\<exists>front users. Mentions b = front @ users \<and> (MsgType b = ''richText'' \<or> front = [])
         \<and> map UserID users = map StaffID (AtUsers b) \<and> map MentionName users = map StaffID (AtUsers b))"

definition wf_message :: "content_decoder \<Rightarrow> botCallbackData \<Rightarrow> IncomingMessage \<Rightarrow> bool" where
  "wf_message dec d m \<longleftrightarrow>
     ConversationKind (body m) = (if cbConversationType d = ''1'' then ConversationTypeDM else ConversationTypeGroup)
     \<and> copied_fields d (body m) \<and> mentions_ok (body m)
     \<and> length (Resources (body m)) = (if media_kind (cbMsgType d) \<noteq> None \<and> has_download (content_of dec d) then 1 else 0)
     \<and> list_all (resource_ok (cbMsgType d) (content_of dec d)) (Resources (body m))
     \<and> BatchedSources m = []"

text \<open>What the four converters of media give.\<close>

definition media_list :: "string \<Rightarrow> jmap \<Rightarrow> Resource list \<Rightarrow> bool" where
  "media_list k c rs \<longleftrightarrow>
     (if str_or_empty c ''downloadCode'' = [] then rs = []
      else \<exists>r. rs = [r] \<and> ResourceType r = k \<and> DownloadCode r = str_or_empty c ''downloadCode'')"

lemma media_converters:
  "media_list ''image'' c (snd (convertPicture c))" "media_list ''file'' c (snd (convertFile c))"
  "media_list ''audio'' c (snd (convertAudio c))" "media_list ''video'' c (snd (convertVideo c))"
  by (simp_all add: media_list_def convertPicture_def convertFile_def convertAudio_def convertVideo_def Let_def)

lemma download_code:
  "str_or_empty c ''downloadCode'' = code \<and> code \<noteq> []
     \<longleftrightarrow> map_of c ''downloadCode'' = Some (VStr code) \<and> code \<noteq> []"
  by (auto simp: str_or_empty_def get_string_def split: option.splits jval.splits)

lemma media_list_ok:
  assumes "media_list k c rs" and "media_kind mt = Some k"
  shows "length rs = (if has_download (Some c) then 1 else 0) \<and> list_all (resource_ok mt (Some c)) rs"
proof (cases "str_or_empty c ''downloadCode'' = []")
  case True
  then have "\<not> has_download (Some c)" unfolding has_download_def using download_code [of c] by (metis option.inject)
  then show ?thesis using True assms(1) by (simp add: media_list_def)
next
  case False
  then have c: "map_of c ''downloadCode'' = Some (VStr (str_or_empty c ''downloadCode''))" using download_code [of c] by blast
  then have "has_download (Some c)" using False unfolding has_download_def by blast
  then show ?thesis using False assms c by (auto simp: media_list_def resource_ok_def)
qed

lemma parseContent_none:
  assumes "parseContent dec mt raw = (t, rs, ms)" and "raw = [] \<or> dec raw = None \<or> media_kind mt = None"
  shows "rs = []"
proof -
  have "fst (snd (parseContent dec mt raw)) = []"
  proof (cases "raw = [] \<or> dec raw = None")
    case True
    then show ?thesis by (auto simp: parseContent_def)
  next
    case False
    then have "mt \<noteq> ''picture''" "mt \<noteq> ''file''" "mt \<noteq> ''audio''" "mt \<noteq> ''video''"
      using assms(2) by (auto simp: media_kind_def)
    then show ?thesis using False by (simp add: parseContent_def case_prod_beta split: option.split)
  qed
  then show ?thesis using assms(1) by simp
qed

lemma parseContent_media:
  assumes "parseContent dec mt raw = (t, rs, ms)" and "raw \<noteq> []" and "dec raw = Some c" and "media_kind mt = Some k"
  shows "media_list k c rs"
proof -
  consider "mt = ''picture''" | "mt = ''file''" | "mt = ''audio''" | "mt = ''video''"
    using assms(4) by (auto simp: media_kind_def split: if_splits)
  then show ?thesis
    by cases (use assms media_converters [of c] in \<open>auto simp: parseContent_def media_kind_def split: prod.splits\<close>)
qed

lemma parseContent_mentions:
  assumes "parseContent dec mt raw = (t, rs, ms)" and "mt \<noteq> ''richText''"
  shows "ms = []"
proof -
  have "snd (snd (parseContent dec mt raw)) = []"
    using assms(2) by (simp add: parseContent_def case_prod_beta split: option.split)
  then show ?thesis using assms(1) by simp
qed

lemma parseContent_ok:
  assumes "parseContent dec (cbMsgType d) (cbContent d) = (t, rs, ms)"
  shows "length rs = (if media_kind (cbMsgType d) \<noteq> None \<and> has_download (content_of dec d) then 1 else 0)"
    and "list_all (resource_ok (cbMsgType d) (content_of dec d)) rs"
proof -
  have "length rs = (if media_kind (cbMsgType d) \<noteq> None \<and> has_download (content_of dec d) then 1 else 0)
      \<and> list_all (resource_ok (cbMsgType d) (content_of dec d)) rs"
  proof (cases "content_of dec d = None \<or> media_kind (cbMsgType d) = None")
    case True
    then have "rs = []" using parseContent_none [OF assms] by (auto simp: content_of_def split: if_splits)
    then show ?thesis using True by (auto simp: has_download_def)
  next
    case False
    then obtain c k where ck: "content_of dec d = Some c" "media_kind (cbMsgType d) = Some k" by auto
    then have "media_list k c rs" using parseContent_media [OF assms] by (simp add: content_of_def split: if_splits)
    then show ?thesis using media_list_ok [of k c rs] ck by simp
  qed
  then show "length rs = (if media_kind (cbMsgType d) \<noteq> None \<and> has_download (content_of dec d) then 1 else 0)"
    and "list_all (resource_ok (cbMsgType d) (content_of dec d)) rs" by blast+
qed

lemma at_mentions:
  "map UserID (map at_mention us) = map StaffID us" "map MentionName (map at_mention us) = map StaffID us"
  by (simp_all add: at_mention_def user_mention_def)

text \<open>
  C37. Normalisation fails exactly when the payload does not parse. Every message it gives is well formed:
  it is a direct message exactly for conversation type 1 and else one of a group; its ids, sender, webhook and
  flags are those of the payload; \<open>MentionAll\<close> is set exactly when one of the payload's \<open>atUsers\<close>
  has \<open>all\<close> as its staff id or its DingTalk id; its mentions end with one mention for each of the
  \<open>atUsers\<close>, in their order, under their staff ids, and only a rich text puts others before them; it
  carries one resource, of the kind of its message type and with the download code of its content, exactly
  when it is a picture, a file, an audio or a video whose content has a download code; and it is not a batch.
\<close>

theorem normalized_wellformed:
  "(\<exists>d m. decode raw = Inr d \<and> NormalizeIncoming decode dec raw = Inr m \<and> wf_message dec d m \<and> Raw (body m) = raw)
   \<or> (\<exists>e. decode raw = Inl e \<and> NormalizeIncoming decode dec raw = Inl e)"
proof (cases "decode raw")
  case (Inr d)
  obtain t rs ms where p: "parseContent dec (cbMsgType d) (cbContent d) = (t, rs, ms)" by (metis prod_cases3)
  let ?b = "\<lambda>m. Mentions (body m) = ms @ map at_mention (cbAtUsers d)"
  obtain m where m: "NormalizeIncoming decode dec raw = Inr m" "Raw (body m) = raw" "?b m" "Resources (body m) = rs"
    "copied_fields d (body m)" "MentionAll (body m) = list_ex mentions_all (cbAtUsers d)" "BatchedSources m = []"
    "ConversationKind (body m) = normalizeConversationType (cbConversationType d)"
    using Inr p by (simp add: NormalizeIncoming_def Let_def copied_fields_def)
  have "mentions_ok (body m)"
    unfolding mentions_ok_def
    using m(3,5,6) parseContent_mentions [OF p] at_mentions [of "cbAtUsers d"]
    by (intro conjI exI [of _ ms] exI [of _ "map at_mention (cbAtUsers d)"])
      (auto simp: copied_fields_def list_ex_iff mentions_all_def simp del: map_map)
  then have "wf_message dec d m"
    using m parseContent_ok [OF p] by (simp add: wf_message_def normalizeConversationType_def)
  then show ?thesis using Inr m(1,2) by blast
qed (simp add: NormalizeIncoming_def)

text \<open>The other fields of a mention stay empty on every path, also in a mention of everybody.\<close>

lemma rich_mentions: "list_all (\<lambda>n. \<not> IsBot n \<and> \<not> IsAll n) (snd (rich_elements es))"
  by (induction es rule: rich_elements.induct)
    (auto simp: Let_def user_mention_def list_all_iff split: prod.splits)

lemma convertRichText_mentions:
  "convertRichText m = (t, ms) \<Longrightarrow> list_all (\<lambda>n. \<not> IsBot n \<and> \<not> IsAll n) ms"
  using rich_mentions by (auto simp: convertRichText_def split: option.splits) (metis snd_conv)

lemma mention_flags_never_set:
  assumes "NormalizeIncoming decode dec raw = Inr m"
  shows "list_all (\<lambda>n. \<not> IsBot n \<and> \<not> IsAll n) (Mentions (body m))"
proof -
  obtain d where d: "decode raw = Inr d" using assms by (auto simp: NormalizeIncoming_def split: sum.splits)
  obtain t rs ms where p: "parseContent dec (cbMsgType d) (cbContent d) = (t, rs, ms)" by (metis prod_cases3)
  then have "list_all (\<lambda>n. \<not> IsBot n \<and> \<not> IsAll n) ms"
    by (auto simp: parseContent_def dest: convertRichText_mentions split: if_splits option.splits prod.splits)
  then show ?thesis
    using assms d p by (auto simp: NormalizeIncoming_def Let_def at_mention_def user_mention_def list_all_iff)
qed

lemma strip_mention_part: "\<exists>a b. txt = a @ strip_mention txt @ b"
proof (cases "dropWhile (\<lambda>c. c \<noteq> CHR '' '') txt")
  case (Cons c rest)
  have "txt = takeWhile (\<lambda>c. c \<noteq> CHR '' '') txt @ c # rest" using Cons by (metis takeWhile_dropWhile_id)
  moreover obtain a b where "rest = a @ TrimSpace rest @ b" using TrimSpace_part by blast
  ultimately have "txt = (takeWhile (\<lambda>c. c \<noteq> CHR '' '') txt @ c # a) @ TrimSpace rest @ b" by simp
  moreover have "txt = [] @ txt @ []" by simp
  moreover have "strip_mention txt \<in> {TrimSpace rest, txt}" using Cons by (simp add: strip_mention_def)
  ultimately show ?thesis by (metis insertE singletonD)
next
  case Nil
  then have "strip_mention txt = txt" unfolding strip_mention_def Nil by simp
  then show ?thesis by (metis append_Nil append_Nil2)
qed

text \<open>
  The text of a text message is a part of what the user sent: the trimmed content, and in a group, when
  it starts with \<open>@\<close> and a name followed by a space, the trimmed part after that space.
\<close>

theorem message_text_part:
  assumes "NormalizeIncoming decode dec raw = Inr m" and "decode raw = Inr d" and "cbMsgType d \<in> {[], ''text''}"
  shows "(\<exists>a b. cbTextContent d = a @ msg_text m @ b)
    \<and> (cbConversationType d = ''1'' \<or> \<not> has_prefix (TrimSpace (cbTextContent d)) ''@''
        \<longrightarrow> msg_text m = TrimSpace (cbTextContent d))
    \<and> (\<forall>name rest. cbConversationType d \<noteq> ''1'' \<and> TrimSpace (cbTextContent d) = ''@'' @ name @ '' '' @ rest
        \<and> CHR '' '' \<notin> set name \<longrightarrow> msg_text m = TrimSpace rest)"
proof -
  let ?c = "TrimSpace (cbTextContent d)"
  have m: "msg_text m = (if cbConversationType d = ''1'' then ?c else strip_mention ?c)"
    using assms by (auto simp: NormalizeIncoming_def Let_def message_text_def normalizeConversationType_def
        ConversationTypeDM_def ConversationTypeGroup_def split: prod.splits)
  obtain a b where ab: "cbTextContent d = a @ ?c @ b" using TrimSpace_part by blast
  obtain x y where "?c = x @ strip_mention ?c @ y" using strip_mention_part by blast
  then have "cbTextContent d = (a @ x) @ strip_mention ?c @ (y @ b)" using ab by (metis append.assoc)
  then have 1: "\<exists>a b. cbTextContent d = a @ msg_text m @ b"
    using m ab by (cases "cbConversationType d = ''1''") metis+
  have 2: "msg_text m = TrimSpace rest"
    if "cbConversationType d \<noteq> ''1''" "?c = ''@'' @ name @ '' '' @ rest" "CHR '' '' \<notin> set name" for name rest
  proof -
    have "dropWhile (\<lambda>c. c \<noteq> CHR '' '') (''@'' @ name @ '' '' @ rest) = CHR '' '' # rest"
      using that(3) by (simp add: dropWhile_append3 dropWhile_eq_self_iff) (metis dropWhile_append2 append_Nil dropWhile.simps)
    then show ?thesis using that m by (simp add: strip_mention_def has_prefix_def)
  qed
  show ?thesis using 1 2 m by (auto simp: strip_mention_def)
qed


section \<open>Instances\<close>

definition demo_callback :: "string \<Rightarrow> string \<Rightarrow> string \<Rightarrow> botCallbackData" where
  "demo_callback kind mt txt =
     \<lparr>cbConversationID = ''cid'', cbAtUsers = [\<lparr>DingtalkID = ''d1'', StaffID = ''s1''\<rparr>], cbChatbotCorpID = [],
      cbChatbotUserID = [], cbMsgID = ''m1'', cbSenderNick = [], cbIsAdmin = False, cbSenderStaffID = ''s2'',
      cbSessionWebhookExpiredTime = 0, cbCreateAt = 0, cbSenderCorpID = [], cbConversationType = kind,
      cbSenderID = ''u2'', cbConversationTitle = [], cbIsInAtList = True, cbSessionWebhook = ''https://hook'',
      cbTextContent = txt, cbMsgType = mt, cbContent = ''{}''\<rparr>"

abbreviation demo_decoder :: "string \<Rightarrow> string \<Rightarrow> string \<Rightarrow> callback_decoder" where
  "demo_decoder kind mt txt \<equiv> \<lambda>_. Inr (demo_callback kind mt txt)"

text \<open>Everybody is mentioned by an entry with the staff id \<open>all\<close>.\<close>

definition demo_all :: botCallbackData where
  "demo_all = (demo_callback ''2'' ''picture'' [])\<lparr>cbAtUsers := [\<lparr>DingtalkID = ''d1'', StaffID = ''all''\<rparr>]\<rparr>"

theorem normalized_wellformed_witness:
  "\<exists>m. NormalizeIncoming (\<lambda>_. Inr demo_all) (\<lambda>_. Some [(''downloadCode'', VStr ''dc'')]) ''raw'' = Inr m
     \<and> MentionAll (body m) \<and> map UserID (Mentions (body m)) = [''all''] \<and> map DownloadCode (Resources (body m)) = [''dc'']"
proof -
  let ?dec = "\<lambda>_. Some [(''downloadCode'', VStr ''dc'')]"
  obtain m where m: "NormalizeIncoming (\<lambda>_. Inr demo_all) ?dec ''raw'' = Inr m" "wf_message ?dec demo_all m"
    using normalized_wellformed [of "\<lambda>_. Inr demo_all" "''raw''" ?dec] by auto
  have len: "length (Resources (body m)) = 1" "list_all (resource_ok ''picture'' (Some [(''downloadCode'', VStr ''dc'')])) (Resources (body m))"
    "copied_fields demo_all (body m)" "mentions_ok (body m)"
    using m(2) by (simp_all add: wf_message_def demo_all_def demo_callback_def media_kind_def has_download_def content_of_def)
  have "map DownloadCode (Resources (body m)) = [''dc'']"
    using len(1,2) by (auto simp: resource_ok_def length_Suc_conv)
  moreover have "MentionAll (body m)" "map UserID (Mentions (body m)) = [''all'']"
    using len(3,4) by (auto simp: copied_fields_def mentions_ok_def demo_all_def demo_callback_def)
  ultimately show ?thesis using m(1) by simp
qed

lemma trim_at_bot: "TrimSpace '' @bot hi '' = ''@bot hi''" "TrimSpace ''hi'' = ''hi''"
  by (simp_all add: TrimSpace_def trim_right_def space_chunk_def decode_rune_def unicode_space_def Let_def)

lemma demo_text:
  "\<exists>m. NormalizeIncoming (demo_decoder ''2'' ''text'' '' @bot hi '') (\<lambda>_. None) ''raw'' = Inr m"
  by (simp add: NormalizeIncoming_def demo_callback_def parseContent_def Let_def)

theorem message_text_part_witness:
  "\<exists>m. NormalizeIncoming (demo_decoder ''2'' ''text'' '' @bot hi '') (\<lambda>_. None) ''raw'' = Inr m \<and> msg_text m = ''hi''"
proof -
  obtain m where m: "NormalizeIncoming (demo_decoder ''2'' ''text'' '' @bot hi '') (\<lambda>_. None) ''raw'' = Inr m"
    using demo_text by blast
  let ?d = "demo_callback ''2'' ''text'' '' @bot hi ''"
  have "cbMsgType ?d \<in> {[], ''text''}" by (simp add: demo_callback_def)
  from message_text_part [OF m _ this, THEN conjunct2, THEN conjunct2, rule_format, of "''bot''" "''hi''"]
  have "msg_text m = TrimSpace ''hi''" using trim_at_bot(1) by (simp add: demo_callback_def)
  then show ?thesis using m trim_at_bot(2) by simp
qed

text \<open>
  Only one word goes: of the mention of a robot whose name has a space in it the rest stays in the
  text, and a mention with nothing behind it is not removed at all.
\<close>

lemma mention_with_space_stays: "strip_mention ''@My Bot hi'' = ''Bot hi'' \<and> strip_mention ''@bot'' = ''@bot''"
  by (simp add: strip_mention_def has_prefix_def TrimSpace_def trim_right_def space_chunk_def decode_rune_def
      unicode_space_def Let_def)

end
