(* ===== verification/HttpMode.thy ===== *)
theory HttpMode
  imports Digest Errors
begin

text \<open>
  The signature check of the HTTP mode, \<open>verifyHTTPSign\<close> of \<open>http_mode.go\<close>, with what it uses of the
  standard library: \<open>strconv.ParseInt(s, 10, 64)\<close>, \<open>crypto/hmac\<close> over the SHA-256 of \<open>Digest\<close>, and
  \<open>base64.StdEncoding\<close>. The difference of two times in milliseconds is an \<open>int64\<close> and wraps.
\<close>

section \<open>Reading a number\<close>

definition ParseInt :: "string \<Rightarrow> int option" where
  "ParseInt s =
     (let (neg, ds) = (case s of
          [] \<Rightarrow> (False, [])
        | c # cs \<Rightarrow> if c = CHR ''-'' then (True, cs) else if c = CHR ''+'' then (False, cs) else (False, s)) in
      if ds = [] \<or> \<not> list_all is_digit ds then None
      else
        (let n = int (digits_value ds) in
         if neg then (if 2 ^ 63 < n then None else Some (- n))
         else (if 2 ^ 63 \<le> n then None else Some n)))"

lemma nat_digits_nonempty [simp]: "nat_digits n \<noteq> []"
  by (subst nat_digits.simps) simp

lemma nat_digits_no_sign: "hd (nat_digits n) \<noteq> CHR ''-'' \<and> hd (nat_digits n) \<noteq> CHR ''+''"
  using nat_digits_digits [of "hd (nat_digits n)" n] by (auto simp: is_digit_def)

lemma ParseInt_nat_digits:
  "ParseInt (nat_digits n) = (if 2 ^ 63 \<le> int n then None else Some (int n))"
proof -
  obtain c cs where c: "nat_digits n = c # cs" by (cases "nat_digits n") auto
  have "list_all is_digit (c # cs)" using nat_digits_digits [of _ n] c by (auto simp: list_all_iff)
  moreover have "digits_value (c # cs) = n" using nat_digits_value [of n] c by simp
  moreover have "c \<noteq> CHR ''-''" "c \<noteq> CHR ''+''" using nat_digits_no_sign [of n] c by simp_all
  ultimately show ?thesis unfolding ParseInt_def c by (simp add: Let_def)
qed

lemma ParseInt_format: "int64_ok i \<Longrightarrow> ParseInt (format_int i) = Some i"
proof (cases "i < 0")
  case True
  assume "int64_ok i"
  moreover have "list_all is_digit (nat_digits (nat (- i)))" using nat_digits_digits by (auto simp: list_all_iff)
  ultimately show ?thesis using True
    by (simp add: ParseInt_def format_int_def Let_def int64_ok_def min_int64_def)
next
  case False
  assume "int64_ok i"
  then show ?thesis using False by (simp add: format_int_def ParseInt_nat_digits int64_ok_def max_int64_def)
qed

section \<open>HMAC and base64\<close>

definition hmac_key :: "8 word list \<Rightarrow> 8 word list" where
  "hmac_key key = (let k = (if 64 < length key then Sum256_bytes key else key) in k @ replicate (64 - length k) 0)"

definition HMAC :: "8 word list \<Rightarrow> 8 word list \<Rightarrow> 8 word list" where
  "HMAC key msg =
     (let k = hmac_key key in
      Sum256_bytes (map (\<lambda>b. b XOR 0x5C) k @ Sum256_bytes (map (\<lambda>b. b XOR 0x36) k @ msg)))"

definition base64_char :: "nat \<Rightarrow> char" where
  "base64_char n = ''ABCDEFGHIJKLMNOPQRSTUVWXYZabcdefghijklmnopqrstuvwxyz0123456789+/'' ! n"

fun base64_groups :: "nat list \<Rightarrow> string" where
  "base64_groups [] = []"
| "base64_groups [x] = [base64_char (x div 4), base64_char (x mod 4 * 16), CHR ''='', CHR ''='']"
| "base64_groups [x, y] =
     [base64_char (x div 4), base64_char (x mod 4 * 16 + y div 16), base64_char (y mod 16 * 4), CHR ''='']"
| "base64_groups (x # y # z # bs) =
     [base64_char (x div 4), base64_char (x mod 4 * 16 + y div 16),
      base64_char (y mod 16 * 4 + z div 64), base64_char (z mod 64)] @ base64_groups bs"

definition base64 :: "8 word list \<Rightarrow> string" where
  "base64 bs = base64_groups (map unat bs)"

section \<open>The signature\<close>

definition http_signature :: "string \<Rightarrow> string \<Rightarrow> string" where
  "http_signature secret timestamp =
     base64 (HMAC (map byte_of_char secret) (map byte_of_char (timestamp @ [CHR 0x0A] @ secret)))"

text \<open>Seconds are turned into milliseconds; the distance in time, and the window.\<close>

definition timestamp_ms :: "int \<Rightarrow> int" where
  "timestamp_ms ts = (if ts < 100000000000 then wrap64 (ts * 1000) else ts)"

definition age_ms :: "time \<Rightarrow> int \<Rightarrow> int" where
  "age_ms now ts =
     (let age = wrap64 (unix_milli now - ts) in if age < 0 then wrap64 (- age) else age)"

definition in_window :: "duration \<Rightarrow> time \<Rightarrow> int \<Rightarrow> bool" where
  "in_window tolerance now ts \<longleftrightarrow> tolerance \<le> 0 \<or> age_ms now ts \<le> tolerance div Millisecond"

definition verifyHTTPSign :: "string \<Rightarrow> string \<Rightarrow> string \<Rightarrow> duration \<Rightarrow> time \<Rightarrow> goerr option" where
  "verifyHTTPSign secret timestamp sign tolerance now =
     (if sign = [] \<or> timestamp = [] then Some (PlainErr ''http mode: missing timestamp/sign headers'')
      else
        (case ParseInt timestamp of
           None \<Rightarrow> Some (PlainErr ''http mode: invalid timestamp header'')
         | Some ts \<Rightarrow>
             if \<not> in_window tolerance now (timestamp_ms ts)
             then Some (PlainErr ''http mode: timestamp outside tolerance window'')
             else if sign \<noteq> http_signature secret timestamp
             then Some (PlainErr ''http mode: signature mismatch'')
             else None))"

section \<open>Properties\<close>

text \<open>A digest is never empty, so a signature is never empty.\<close>

lemma base64_nonempty: "bs \<noteq> [] \<Longrightarrow> base64_groups bs \<noteq> []"
  by (induction bs rule: base64_groups.induct) auto

lemma length_sha_round: "length st = 8 \<Longrightarrow> length (sha_round st kw) = 8"
  by (cases "(st, kw)" rule: sha_round.cases) (auto simp: Let_def)

lemma length_sha_rounds: "length st = 8 \<Longrightarrow> length (foldl sha_round st kws) = 8"
  by (induction kws arbitrary: st) (simp_all add: length_sha_round)

lemma length_sha_block: "length st = 8 \<Longrightarrow> length (sha_block st b) = 8"
  by (simp add: sha_block_def length_sha_rounds)

lemma length_sha_blocks: "length st = 8 \<Longrightarrow> length (foldl sha_block st bs) = 8"
  by (induction bs arbitrary: st) (simp_all add: length_sha_block)

lemma length_concat_words: "length (concat (map bytes_of_word ws)) = 4 * length ws"
  by (induction ws) (simp_all add: bytes_of_word_def)

lemma length_Sum256: "length (Sum256_bytes bs) = 32"
  by (simp add: Sum256_bytes_def length_concat_words length_sha_blocks sha_H0_def)

lemma http_signature_nonempty: "http_signature secret timestamp \<noteq> []"
proof -
  have "HMAC k m \<noteq> []" for k m using length_Sum256 by (metis HMAC_def Let_def list.size(3) zero_neq_numeral)
  then show ?thesis by (simp add: http_signature_def base64_def base64_nonempty)
qed

lemma format_int_nonempty: "format_int i \<noteq> []"
  by (simp add: format_int_def)

lemma wrap64_range: "- (2 ^ 63) \<le> wrap64 x \<and> wrap64 x < 2 ^ 63"
  by (simp add: wrap64_def)

lemma age_small:
  "0 \<le> n \<Longrightarrow> n < 2 ^ 62 \<Longrightarrow> 0 \<le> ts \<Longrightarrow> ts < 2 ^ 62 \<Longrightarrow> unix_milli now = n \<Longrightarrow> age_ms now ts = \<bar>n - ts\<bar>"
  by (auto simp: age_ms_def Let_def wrap64_id int64_ok_def min_int64_def max_int64_def)

text \<open>Two times that are both near one timestamp are near each other, wrap-around included.\<close>

lemma ages_close:
  assumes n: "0 \<le> n1" "n1 < 2 ^ 61" "0 \<le> n2" "n2 < 2 ^ 61" and t: "0 \<le> t" "t < 2 ^ 61"
    and u: "unix_milli now1 = n1" "unix_milli now2 = n2"
    and a: "age_ms now1 ts \<le> t" "age_ms now2 ts \<le> t"
  shows "\<bar>n1 - n2\<bar> \<le> 2 * t"
proof -
  let ?w1 = "wrap64 (n1 - ts)" and ?w2 = "wrap64 (n2 - ts)"
  have near: "w = - (2 ^ 63) \<or> \<bar>w\<bar> \<le> t" if "w = wrap64 (unix_milli now - ts)" "age_ms now ts \<le> t" for now w
  proof (cases "w < 0 \<and> w \<noteq> - (2 ^ 63)")
    case True
    then have "wrap64 (- w) = - w" using wrap64_range [of "unix_milli now - ts"] that(1)
      by (intro wrap64_id) (auto simp: int64_ok_def min_int64_def max_int64_def)
    then show ?thesis using True that by (simp add: age_ms_def Let_def)
  qed (use that in \<open>auto simp: age_ms_def Let_def\<close>)
  have "?w1 mod 2 ^ 64 = (n1 - ts) mod 2 ^ 64" "?w2 mod 2 ^ 64 = (n2 - ts) mod 2 ^ 64"
    by (simp_all add: wrap64_def mod_diff_left_eq)
  then have "(?w1 - ?w2) mod 2 ^ 64 = ((n1 - ts) - (n2 - ts)) mod 2 ^ 64" by (rule mod_diff_cong)
  then have "(?w1 - ?w2) mod 2 ^ 64 = (n1 - n2) mod 2 ^ 64" by simp
  then obtain k where k: "n1 - n2 = ?w1 - ?w2 + k * 2 ^ 64" by (metis mod_eqE mult.commute)
  have "?w1 = - (2 ^ 63) \<or> \<bar>?w1\<bar> \<le> t" "?w2 = - (2 ^ 63) \<or> \<bar>?w2\<bar> \<le> t"
    using near a u by blast+
  then show ?thesis using k n t wrap64_range [of "n1 - ts"] wrap64_range [of "n2 - ts"]
    by (cases "k = 0"; cases "k > 0") auto
qed


lemma verify_accepts_iff:
  "verifyHTTPSign secret timestamp sign tolerance now = None \<longleftrightarrow>
     (\<exists>ts. ParseInt timestamp = Some ts \<and> in_window tolerance now (timestamp_ms ts))
     \<and> sign = http_signature secret timestamp"
  using http_signature_nonempty by (auto simp: verifyHTTPSign_def ParseInt_def split: option.splits if_splits)

text \<open>
  A callback signed as documented, with the time in milliseconds or in seconds, is accepted exactly
  when its time is within the tolerance of the clock; any other signature for the timestamp is refused.
\<close>

theorem http_sign_accepts:
  assumes "unix_milli now = n" and "0 \<le> n" and "n < 2 ^ 61" and "0 < tolerance"
    and "100000000000 \<le> ms" and "ms < 2 ^ 61" and "0 \<le> s" and "s < 100000000000"
  shows "(verifyHTTPSign secret (format_int ms) sign tolerance now = None
        \<longleftrightarrow> \<bar>n - ms\<bar> \<le> tolerance div Millisecond \<and> sign = http_signature secret (format_int ms))
    \<and> (verifyHTTPSign secret (format_int s) sign tolerance now = None
        \<longleftrightarrow> \<bar>n - s * 1000\<bar> \<le> tolerance div Millisecond \<and> sign = http_signature secret (format_int s))"
proof -
  have p: "ParseInt (format_int ms) = Some ms" "ParseInt (format_int s) = Some s"
    using assms by (simp_all add: ParseInt_format int64_ok_def min_int64_def max_int64_def)
  have ms: "timestamp_ms ms = ms" "timestamp_ms s = s * 1000"
    using assms by (simp_all add: timestamp_ms_def wrap64_id int64_ok_def min_int64_def max_int64_def)
  have a: "age_ms now ms = \<bar>n - ms\<bar>" "age_ms now (s * 1000) = \<bar>n - s * 1000\<bar>"
    using assms by (intro age_small; simp)+
  show ?thesis using assms(4) by (simp add: verify_accepts_iff in_window_def p ms a)
qed

theorem http_sign_accepts_witness:
  "verifyHTTPSign ''s'' (format_int 1700000000000) (http_signature ''s'' (format_int 1700000000000)) Hour
     (1700000000123 * Millisecond) = None"
  using http_sign_accepts [of "1700000000123 * Millisecond" 1700000000123 Hour 1700000000000 0 "''s''"
      "http_signature ''s'' (format_int 1700000000000)"]
  by (simp add: unix_milli_def)

text \<open>
  C38. The replay window: two times at which the same callback is accepted are at most twice the tolerance
  apart, whatever its timestamp says.
\<close>

theorem http_replay_window:
  assumes "verifyHTTPSign secret timestamp sign tolerance now1 = None"
    and "verifyHTTPSign secret timestamp sign' tolerance now2 = None"
    and "0 < tolerance" and "tolerance < 2 ^ 61"
    and "0 \<le> unix_milli now1" and "unix_milli now1 < 2 ^ 61" and "0 \<le> unix_milli now2" and "unix_milli now2 < 2 ^ 61"
  shows "\<bar>unix_milli now1 - unix_milli now2\<bar> \<le> 2 * (tolerance div Millisecond) \<and> sign' = sign"
proof -
  obtain ts where ts: "ParseInt timestamp = Some ts" using assms(1) by (auto simp: verify_accepts_iff)
  have "age_ms now1 (timestamp_ms ts) \<le> tolerance div Millisecond"
      "age_ms now2 (timestamp_ms ts) \<le> tolerance div Millisecond"
    using assms(1-3) ts by (auto simp: verify_accepts_iff in_window_def)
  moreover have "0 \<le> tolerance div Millisecond" "tolerance div Millisecond < 2 ^ 61" using assms(3,4) by auto
  ultimately have "\<bar>unix_milli now1 - unix_milli now2\<bar> \<le> 2 * (tolerance div Millisecond)"
    using assms(5-8) ages_close [OF _ _ _ _ _ _ refl refl, of now1 now2 "tolerance div Millisecond"] by auto
  then show ?thesis using assms(1,2) by (simp add: verify_accepts_iff)
qed

lemma demo_signed:
  "verifyHTTPSign ''s'' (format_int 1700000000000) (http_signature ''s'' (format_int 1700000000000)) Hour
     (1700000000000 * Millisecond) = None"
  "verifyHTTPSign ''s'' (format_int 1700000000000) (http_signature ''s'' (format_int 1700000000000)) Hour
     (1700003600000 * Millisecond) = None"
  by (simp_all add: verify_accepts_iff ParseInt_format int64_ok_def min_int64_def max_int64_def timestamp_ms_def
      in_window_def age_ms_def unix_milli_def wrap64_id Let_def)

theorem http_replay_window_witness:
  "\<bar>unix_milli (1700000000000 * Millisecond) - unix_milli (1700003600000 * Millisecond)\<bar> \<le> 2 * 3600000"
  using http_replay_window [OF demo_signed] by (simp add: unix_milli_def)

end
