(* ===== verification/Emotion.thy ===== *)
theory Emotion
  imports CardClient
begin

text \<open>
  The status badge on a user's message, \<open>emotion.go\<close>: one card API call to add it, one to recall it, and
  \<open>MarkDone\<close>, which recalls the one and adds the other whatever became of the recall.
\<close>

definition EmotionThinking :: string where
  "EmotionThinking = [CHR 0xF0, CHR 0x9F, CHR 0xA4, CHR 0x94, CHR 0xE6, CHR 0x80, CHR 0x9D, CHR 0xE8, CHR 0x80, CHR 0x83, CHR 0xE4, CHR 0xB8, CHR 0xAD]"

definition EmotionDone :: string where
  "EmotionDone = [CHR 0xF0, CHR 0x9F, CHR 0xA5, CHR 0xB3, CHR 0xE5, CHR 0xAE, CHR 0x8C, CHR 0xE6, CHR 0x88, CHR 0x90]"

definition emotion_path :: "bool \<Rightarrow> string" where
  "emotion_path recall = (if recall then ''/v1.0/robot/emotion/recall'' else ''/v1.0/robot/emotion/reply'')"

definition emotion_body :: "'c Config \<Rightarrow> string \<Rightarrow> string \<Rightarrow> string \<Rightarrow> json" where
  "emotion_body cfg conversationID msgID name = JObj
     [(''emotionName'', JStr name), (''emotionType'', JInt 2), (''openConversationId'', JStr conversationID),
      (''openMsgId'', JStr msgID), (''robotCode'', JStr (ClientID cfg)),
      (''textEmotion'', JObj
         [(''backgroundId'', JStr ''im_bg_1''), (''emotionId'', JStr ''2659900''),
          (''emotionName'', JStr name), (''text'', JStr name)])]"

definition emotion_needs_ids :: goerr where
  "emotion_needs_ids = PlainErr ''emotion needs openConversationId and openMsgId''"

definition sendEmotion ::
  "'w card_env \<Rightarrow> 'c Config \<Rightarrow> string \<Rightarrow> string \<Rightarrow> string \<Rightarrow> bool \<Rightarrow> 'w api_state \<Rightarrow> 'w api_outcome" where
  "sendEmotion env cfg conversationID msgID name recall st =
     (if conversationID = [] \<or> msgID = [] then Some (Some emotion_needs_ids, st)
      else card_call env cfg ''POST'' (emotion_path recall) (emotion_body cfg conversationID msgID name) st)"

definition MarkThinking ::
  "'w card_env \<Rightarrow> 'c Config \<Rightarrow> string \<Rightarrow> string \<Rightarrow> 'w api_state \<Rightarrow> 'w api_outcome" where
  "MarkThinking env cfg conversationID msgID st = sendEmotion env cfg conversationID msgID EmotionThinking False st"

definition RecallThinking ::
  "'w card_env \<Rightarrow> 'c Config \<Rightarrow> string \<Rightarrow> string \<Rightarrow> 'w api_state \<Rightarrow> 'w api_outcome" where
  "RecallThinking env cfg conversationID msgID st = sendEmotion env cfg conversationID msgID EmotionThinking True st"

definition MarkDone ::
  "'w card_env \<Rightarrow> 'c Config \<Rightarrow> string \<Rightarrow> string \<Rightarrow> 'w api_state \<Rightarrow> 'w api_outcome" where
  "MarkDone env cfg conversationID msgID st =
     (case sendEmotion env cfg conversationID msgID EmotionThinking True st of
        None \<Rightarrow> None
      | Some (ignored, st') \<Rightarrow> sendEmotion env cfg conversationID msgID EmotionDone False st')"

text \<open>
  The result of \<open>MarkDone\<close> is that of the second call, and the log has the history of both calls, the
  recall first.
\<close>

lemma mark_done_history:
  assumes "MarkDone env cfg cid mid st = Some (e, st')" and "cid \<noteq> []" and "mid \<noteq> []"
  shows "\<exists>h1 h2 r1 r2. apiLog st' = apiLog st @ h1 @ h2 \<and> result_error r2 = e
    \<and> call_history (api_request cfg ''POST'' (emotion_path True) (Some (emotion_body cfg cid mid EmotionThinking))) no_out h1 r1
    \<and> call_history (api_request cfg ''POST'' (emotion_path False) (Some (emotion_body cfg cid mid EmotionDone))) no_out h2 r2"
proof -
  obtain r1 st1 r2 where c:
    "callRaw env cfg ''POST'' (emotion_path True) (Some (emotion_body cfg cid mid EmotionThinking)) no_out st = Some (r1, st1)"
    "callRaw env cfg ''POST'' (emotion_path False) (Some (emotion_body cfg cid mid EmotionDone)) no_out st1 = Some (r2, st')"
    "result_error r2 = e"
    using assms by (auto simp: MarkDone_def sendEmotion_def card_call_def split: option.splits)
  show ?thesis using callRaw_history [OF c(1)] callRaw_history [OF c(2)] c(3) by fastforce
qed

end
