(* ===== verification/Channel.thy ===== *)
theory Channel
  imports Reply Emotion Normalize HttpMode Pipeline Connection BotIdentity SSRFGuard
begin

text \<open>
  \<open>channel.go\<close> and the handlers of \<open>http_mode.go\<close>: the object that ties the components together. Its state
  here is what its own operations change: the registrations, the safety pipeline, the robot identity, the
  hooks and the connection. The user's handlers are outside the repository, so a registration is a flag and
  an operation that may call one takes its result, as in \<open>Pipeline\<close>. The queue manager behind the pipeline is
  the one of \<open>PipelineQueue\<close>. Nothing in the repository calls \<open>lockConversation\<close>.
\<close>

section \<open>The channel\<close>

record CardAction =
  caOutTrackID :: string
  caUserID :: string
  caDataContent :: string
  caRaw :: string

record 'w Channel =
  chCfg :: "'w Config"
  chPipeline :: "CardAction SafetyPipeline"
  chConn :: conn_state
  chConnHooks :: "'w LifecycleHooks option"
  chTopicWanted :: bool
  chBot :: bot_provider
  chHooks :: "'w LifecycleHooks"
  chOnMessage :: bool
  chOnBatch :: bool
  chOnReject :: bool
  chOnCardAction :: bool

definition pipeline_options :: "'w Config \<Rightarrow> PipelineOptions" where
  "pipeline_options cfg =
     \<lparr>optOnMessage = True, optOnBatch = True, optOnReject = True,
      optQueueOn = cqm_Enabled (NewChatQueueManager DefaultBatchConfig (cfgChatQueue cfg) (cfgMediaBatch cfg)
        :: (unit, CardAction pl_task) ChatQueueManager),
      optHasOnBatch = Some False, optBotRobotCode = []\<rparr>"

text \<open>\<open>New\<close>: the closures of the pipeline are always set; \<open>newStreamConn\<close> leaves \<open>hooks\<close> nil.\<close>

definition New :: "'w Config \<Rightarrow> 'w Channel" where
  "New cfg0 =
     (let cfg = fill cfg0 in
      \<lparr>chCfg = cfg, chPipeline = NewSafetyPipeline (cfgSafety cfg) (pipeline_options cfg),
       chConn = \<lparr>conn_open = False, conn_closed = False, stop_signalled = False\<rparr>, chConnHooks = None,
       chTopicWanted = False, chBot = newBotIdentityProvider, chHooks = newLifecycleHooks,
       chOnMessage = False, chOnBatch = False, chOnReject = False, chOnCardAction = False\<rparr>)"

section \<open>Registration\<close>

definition OnMessage :: "'w Channel \<Rightarrow> 'w Channel" where
  "OnMessage ch = ch\<lparr>chOnMessage := True\<rparr>"

definition OnCardAction :: "'w Channel \<Rightarrow> 'w Channel" where
  "OnCardAction ch = ch\<lparr>chOnCardAction := True, chTopicWanted := True\<rparr>"

definition OnReject :: "'w Channel \<Rightarrow> 'w Channel" where
  "OnReject ch = ch\<lparr>chOnReject := True\<rparr>"

text \<open>The pipeline asks \<open>HasOnBatch\<close> at every dispatch, so a registration changes what it answers.\<close>

definition OnBatchMessage :: "'w Channel \<Rightarrow> 'w Channel" where
  "OnBatchMessage ch = ch\<lparr>chOnBatch := True, chPipeline := (chPipeline ch)\<lparr>hasOnBatch := Some True\<rparr>\<rparr>"

definition ch_OnReady :: "('w \<Rightarrow> 'w) \<Rightarrow> 'w Channel \<Rightarrow> 'w Channel" where
  "ch_OnReady fn ch = ch\<lparr>chHooks := OnReady fn (chHooks ch)\<rparr>"

definition ch_OnError :: "(goerr \<Rightarrow> 'w \<Rightarrow> 'w) \<Rightarrow> 'w Channel \<Rightarrow> 'w Channel" where
  "ch_OnError fn ch = ch\<lparr>chHooks := OnError fn (chHooks ch)\<rparr>"

definition ch_OnReconnecting :: "('w \<Rightarrow> 'w) \<Rightarrow> 'w Channel \<Rightarrow> 'w Channel" where
  "ch_OnReconnecting fn ch = ch\<lparr>chHooks := OnReconnecting fn (chHooks ch)\<rparr>"

definition ch_OnReconnected :: "('w \<Rightarrow> 'w) \<Rightarrow> 'w Channel \<Rightarrow> 'w Channel" where
  "ch_OnReconnected fn ch = ch\<lparr>chHooks := OnReconnected fn (chHooks ch)\<rparr>"

definition ch_OnDisconnected :: "('w \<Rightarrow> 'w) \<Rightarrow> 'w Channel \<Rightarrow> 'w Channel" where
  "ch_OnDisconnected fn ch = ch\<lparr>chHooks := OnDisconnected fn (chHooks ch)\<rparr>"

section \<open>Policy, identity, lifecycle\<close>

definition UpdatePolicy :: "PolicyConfig \<Rightarrow> 'w Channel \<Rightarrow> 'w Channel" where
  "UpdatePolicy cfg ch = ch\<lparr>chPipeline := pl_UpdatePolicy cfg (chPipeline ch)\<rparr>"

definition GetPolicy :: "'w Channel \<Rightarrow> PolicyConfig" where
  "GetPolicy ch = Policy (cfgSafety (chCfg ch))"

definition GetBotIdentity ::
  "('s \<Rightarrow> (goerr + BotIdentity) \<times> 's) \<Rightarrow> ('s \<Rightarrow> time) \<Rightarrow> 'w Channel \<Rightarrow> 's
     \<Rightarrow> BotIdentity option \<times> 'w Channel \<times> 's" where
  "GetBotIdentity fetcher clock ch s =
     (case bot_Get fetcher clock (chBot ch) s of
        (b, provider, s') \<Rightarrow>
          let ch' = ch\<lparr>chBot := provider\<rparr> in
          (case b of
             None \<Rightarrow> (None, ch', s')
           | Some ident \<Rightarrow>
               (Some ident, ch'\<lparr>chPipeline := pl_SetBotIdentity (RobotCode ident) (chPipeline ch')\<rparr>, s')))"

definition errNoHandler :: goerr where
  "errNoHandler = PlainErr ''OnMessage handler not registered''"

definition http_has_no_connection :: goerr where
  "http_has_no_connection = PlainErr (''http mode has no long-running connection; ''
     @ ''serve c.HTTPCallbackHandler() per HTTP request instead of Start()'')"

definition Start :: "'w Channel \<Rightarrow> pass list \<Rightarrow> goerr + run_log" where
  "Start ch passes =
     (if \<not> chOnMessage ch \<and> \<not> chOnBatch ch then Inl errNoHandler
      else
        (case validateTransport (chCfg ch) of
           Some err \<Rightarrow> Inl err
         | None \<Rightarrow>
             if Transport (chCfg ch) = TransportHTTP then Inl http_has_no_connection
             else Inr (Run (reconnectEnabled (chCfg ch)) True 0 True passes)))"

definition ch_Close :: "string list \<Rightarrow> 'w Channel \<Rightarrow> 'w Channel" where
  "ch_Close iteration ch =
     ch\<lparr>chConn := Close (chConn ch), chPipeline := pl_Dispose iteration (chPipeline ch)\<rparr>"

text \<open>
  \<open>lockConversation\<close>: one mutex per conversation, made on first use. The call returns when the mutex is free,
  and the function it returns unlocks it; \<open>None\<close> while it is held.
\<close>

definition lockConversation :: "string \<Rightarrow> (string \<rightharpoonup> bool) \<Rightarrow> (string \<rightharpoonup> bool) option" where
  "lockConversation i convLocks = (if convLocks i = Some True then None else Some (convLocks(i \<mapsto> True)))"

definition unlockConversation :: "string \<Rightarrow> (string \<rightharpoonup> bool) \<Rightarrow> (string \<rightharpoonup> bool)" where
  "unlockConversation i convLocks = convLocks(i \<mapsto> False)"

lemma conversations_independent:
  "i \<noteq> j \<Longrightarrow> lockConversation i l = Some l' \<Longrightarrow> (lockConversation j l' = None) = (lockConversation j l = None)"
  "lockConversation i l = Some l' \<Longrightarrow> lockConversation i l' = None"
  "lockConversation i (unlockConversation i l) \<noteq> None"
  by (auto simp: lockConversation_def unlockConversation_def split: if_splits)

section \<open>Frames\<close>

text \<open>
  The closures \<open>New\<close> gives the pipeline return nil when the user has registered nothing; \<open>err\<close> says
  whether the user's handler returned an error.
\<close>

definition closure_error :: "'w Channel \<Rightarrow> bool \<Rightarrow> bool" where
  "closure_error ch err \<longleftrightarrow> (chOnMessage ch \<or> chOnBatch ch) \<and> err"

datatype outcome =
    Unsubscribed
  | NoHandler
  | BadPayload goerr
  | Pushed "CardAction dispatch"
  | ActionPushed "((string \<times> (unit, CardAction pl_task) cq_event) + bool) option"

definition processIncoming ::
  "clock \<Rightarrow> bool \<Rightarrow> string list \<Rightarrow> string \<Rightarrow> IncomingMessage \<Rightarrow> 'w Channel \<Rightarrow> outcome \<times> 'w Channel" where
  "processIncoming clock err iteration protoID m ch =
     (case PushMessage clock (closure_error ch err) iteration protoID m (chPipeline ch) of
        (d, p) \<Rightarrow> (Pushed d, ch\<lparr>chPipeline := p\<rparr>))"

definition handleBotMessage ::
  "callback_decoder \<Rightarrow> content_decoder \<Rightarrow> clock \<Rightarrow> bool \<Rightarrow> string list \<Rightarrow> frame \<Rightarrow> 'w Channel
     \<Rightarrow> outcome \<times> 'w Channel" where
  "handleBotMessage decode dec clock err iteration f ch =
     (case NormalizeIncoming decode dec (Data f) of
        Inl e \<Rightarrow> (BadPayload e, ch)
      | Inr m \<Rightarrow> processIncoming clock err iteration (messageID f) m ch)"

text \<open>The anonymous struct of the card callback.\<close>

record card_callback =
  ccOutTrackID :: string
  ccUserID :: string
  ccDataContent :: string

type_synonym card_decoder = "string \<Rightarrow> goerr + card_callback"

definition action_scope :: "card_callback \<Rightarrow> string" where
  "action_scope d = ''card:'' @ ccOutTrackID d"

definition action_fingerprint :: "card_callback \<Rightarrow> string" where
  "action_fingerprint d = ContentFingerprint (action_scope d) 0 (ccUserID d) (ccDataContent d)"

definition card_action :: "card_callback \<Rightarrow> string \<Rightarrow> CardAction" where
  "card_action d raw =
     \<lparr>caOutTrackID = ccOutTrackID d, caUserID = ccUserID d, caDataContent = ccDataContent d, caRaw = raw\<rparr>"

definition handleCardAction ::
  "card_decoder \<Rightarrow> clock \<Rightarrow> bool \<Rightarrow> frame \<Rightarrow> 'w Channel \<Rightarrow> outcome \<times> 'w Channel" where
  "handleCardAction decode clock err f ch =
     (if \<not> chOnCardAction ch then (NoHandler, ch)
      else
        (case decode (Data f) of
           Inl e \<Rightarrow> (BadPayload e, ch)
         | Inr d \<Rightarrow>
             (case PushAction clock err (messageID f) (action_scope d) (card_action d (Data f))
                     [action_fingerprint d] (chPipeline ch) of
                (r, p) \<Rightarrow> (ActionPushed r, ch\<lparr>chPipeline := p\<rparr>))))"

text \<open>\<open>dispatchFrame\<close>; what it returns for the acknowledgement is always empty.\<close>

definition dispatchFrame ::
  "callback_decoder \<Rightarrow> content_decoder \<Rightarrow> card_decoder \<Rightarrow> clock \<Rightarrow> bool \<Rightarrow> string list \<Rightarrow> frame \<Rightarrow> 'w Channel
     \<Rightarrow> outcome \<times> 'w Channel" where
  "dispatchFrame decode dec cdec clock err iteration f ch =
     (if topic f = topicBotMessage then handleBotMessage decode dec clock err iteration f ch
      else if topic f = topicCardInstanceCB then handleCardAction cdec clock err f ch
      else (Unsubscribed, ch))"

section \<open>HTTP mode\<close>

definition HandleHTTPCallback ::
  "callback_decoder \<Rightarrow> content_decoder \<Rightarrow> time \<Rightarrow> clock \<Rightarrow> bool \<Rightarrow> string list \<Rightarrow> string \<Rightarrow> string \<Rightarrow> string
     \<Rightarrow> 'w Channel \<Rightarrow> goerr option \<times> 'w Channel" where
  "HandleHTTPCallback decode dec now clock err iteration data timestamp sign ch =
     (if \<not> chOnMessage ch \<and> \<not> chOnBatch ch then (Some errNoHandler, ch)
      else
        (case verifyHTTPSign (ClientSecret (chCfg ch)) timestamp sign (HTTPTimestampTolerance (chCfg ch)) now of
           Some e \<Rightarrow> (Some e, ch)
         | None \<Rightarrow>
             (case NormalizeIncoming decode dec data of
                Inl e \<Rightarrow> (Some (PlainErr (''http mode: bad bot message payload: '' @ Error e)), ch)
              | Inr m \<Rightarrow> (None, snd (processIncoming clock err iteration (msg_id m) m ch)))))"

record http_request =
  hrMethod :: string
  hrTimestamp :: string
  hrSign :: string
  hrBody :: "goerr + string"

definition body_limit :: nat where "body_limit = 4194304"

text \<open>
  \<open>io.LimitReader\<close> ends the body after the limit without an error; \<open>http.Error\<close> writes the status and the
  text on a line.
\<close>

definition http_error :: "int \<Rightarrow> string \<Rightarrow> int \<times> string" where
  "http_error code txt = (code, txt @ [CHR 0x0A])"

definition HTTPCallbackHandler ::
  "callback_decoder \<Rightarrow> content_decoder \<Rightarrow> time \<Rightarrow> clock \<Rightarrow> bool \<Rightarrow> string list \<Rightarrow> http_request \<Rightarrow> 'w Channel
     \<Rightarrow> (int \<times> string) \<times> 'w Channel" where
  "HTTPCallbackHandler decode dec now clock err iteration r ch =
     (if hrMethod r \<noteq> ''POST'' then (http_error 405 ''method not allowed'', ch)
      else
        (case hrBody r of
           Inl e \<Rightarrow> (http_error 400 ''read body failed'', ch)
         | Inr data \<Rightarrow>
             (case HandleHTTPCallback decode dec now clock err iteration (take body_limit data)
                     (hrTimestamp r) (hrSign r) ch of
                (Some e, ch') \<Rightarrow> (http_error 401 (Error e), ch')
              | (None, ch') \<Rightarrow> ((200, []), ch'))))"

section \<open>Downloads\<close>

definition plain_get :: "string \<Rightarrow> request" where
  "plain_get url = \<lparr>req_method = ''GET'', req_url = url, req_headers = [], req_body = []\<rparr>"

definition fetch_file :: "'w out_env \<Rightarrow> string \<Rightarrow> 'w api_state \<Rightarrow> (goerr + string) \<times> 'w api_state" where
  "fetch_file env url st =
     (case env_api (out_api env) (plain_get url) (apiWorld st) of
        (ans, w) \<Rightarrow>
          ((case ans of
              Inl e \<Rightarrow> Inl e
            | Inr resp \<Rightarrow>
                if resp_status resp \<noteq> 200
                then Inl (PlainErr (''download failed: http '' @ encode_rune (nat (resp_status resp))))
                else Inr (resp_raw resp)),
           st\<lparr>apiWorld := w, apiLog := apiLog st @ [Sent (plain_get url) ans]\<rparr>))"

text \<open>The URL parser, the reader of IP addresses and the resolver are those of \<open>SSRFGuard\<close>.\<close>

definition DownloadFile ::
  "'w out_env \<Rightarrow> 'w Config \<Rightarrow> (string \<Rightarrow> goerr + string) \<Rightarrow> (string \<Rightarrow> goerr + parsed_url) \<Rightarrow> (string \<Rightarrow> ip option)
     \<Rightarrow> (string \<Rightarrow> goerr + ip list) \<Rightarrow> string \<Rightarrow> string \<Rightarrow> 'w api_state \<Rightarrow> ((goerr + string) \<times> 'w api_state) option" where
  "DownloadFile env cfg decode parse parse_ip lookup downloadCode msgID st =
     (if downloadCode = [] then Some (Inl (PlainErr ''downloadCode cannot be empty''), st)
      else
        (case DownloadURL env cfg decode downloadCode msgID st of
           None \<Rightarrow> None
         | Some (Inl e, st') \<Rightarrow> Some (Inl e, st')
         | Some (Inr url, st') \<Rightarrow>
             if url = [] then Some (Inl (PlainErr ''empty download URL''), st')
             else
               (case AssertPublicURLWithAllowlist parse parse_ip lookup url (SSRFAllowlist cfg) of
                  Some e \<Rightarrow> Some (Inl e, st')
                | None \<Rightarrow> Some (fetch_file env url st'))))"


section \<open>Facts\<close>

text \<open>A card action in the default mode: its keys are marked when it gets past the deduplication.\<close>

lemma action_known_dropped:
  assumes "fst (Has no_redis (c 1) (i # extra) (seen p))"
  shows "fst (PushAction c err i scope act extra p) = None"
proof -
  have "fst (seen_query c (i # extra) p)"
    using assms by (auto simp: seen_query_def CheckAndMark_def case_prod_beta split: prod.splits bool.splits)
  then show ?thesis by (simp add: PushAction_def Let_def case_prod_beta)
qed

lemma action_marked:
  assumes "fst (PushAction c err i scope act extra p) \<noteq> None" and "\<not> markAfterHandler p"
  shows "seen (snd (PushAction c err i scope act extra p))
    = Add no_redis (c 2) (i # extra) (snd (Has no_redis (c 1) (i # extra) (seen p)))"
proof -
  have new: "\<not> fst (Has no_redis (c 1) (i # extra) (seen p))" by (rule contrapos_nn [OF assms(1)]) (rule action_known_dropped)
  have q: "\<not> fst (seen_query c (i # extra) p)"
      "seen (snd (seen_query c (i # extra) p))
         = Add no_redis (c 2) (i # extra) (snd (Has no_redis (c 1) (i # extra) (seen p)))"
    using new assms(2) by (auto simp: seen_query_def CheckAndMark_def case_prod_beta split: prod.splits bool.splits)
  then show ?thesis
    using assms(2) by (simp add: PushAction_def action_runner_def Let_def case_prod_beta)
qed

lemma mark_then_known:
  assumes "sc_inv (seen p)" and "seen p1 = Add no_redis t ks (snd (Has no_redis t' ks (seen p)))"
    and "k \<in> set ks" and "k \<noteq> []" and "set ks \<subseteq> insert k T" and "k \<notin> T" and "finite T"
    and "int (card T) < MaxEntries (scCfg (seen p))"
    and "\<And>op. op \<in> set ops \<Longrightarrow> op_within t (TTL (scCfg (seen p))) (insert k T) op"
    and "now < t + TTL (scCfg (seen p))" and "k \<in> set ks'"
  shows "fst (Has no_redis now ks' (seen (pl_run ops p1)))"
proof -
  let ?ttl = "TTL (scCfg (seen p))"
  let ?has = "snd (Has no_redis t' ks (seen p))"
  have has: "sc_inv ?has" "scCfg ?has = scCfg (seen p)"
    by (rule sc_inv_Has [OF assms(1)], rule Has_frame(1) [OF assms(1)])
  have cfg: "scCfg (seen p1) = scCfg (seen p)" by (simp add: assms(2) Add_def frame_simps has)
  have "guarded T k (t + ?ttl) (seen p1)"
    unfolding assms(2) Add_def time_add_eq has(2) using assms has by (intro add_keys_guards) auto
  then have "guarded T k (t + ?ttl) (seen (pl_run ops p1))"
    using pl_run_guarded [of T k t p1 ops] assms cfg by simp
  then show ?thesis using assms by (intro has_hit_guarded) auto
qed

section \<open>Properties\<close>

text \<open>
  C8. The HTTP entry of a channel with a handler. A method other than POST, and nothing else, is answered
  405; a POST whose body cannot be read 400; one whose signature is not valid at that time 401. The answer
  is 200 exactly for a POST with a readable body, a valid signature and a payload (of at most 4 MB) that
  normalises, and then the channel is the one that processed that message under its own message id. Every
  other answer, also the one for a payload that does not parse, is an error status, and nothing has changed.
\<close>

theorem http_callback_contract:
  assumes "HTTPCallbackHandler decode dec now clock err it r ch = ((status, txt), ch')"
    and "chOnMessage ch \<or> chOnBatch ch"
    and "sig_ok \<longleftrightarrow> verifyHTTPSign (ClientSecret (chCfg ch)) (hrTimestamp r) (hrSign r) (HTTPTimestampTolerance (chCfg ch)) now = None"
  shows "(status = 405 \<longleftrightarrow> hrMethod r \<noteq> ''POST'')
    \<and> (hrMethod r = ''POST'' \<and> (\<exists>e. hrBody r = Inl e) \<longrightarrow> status = 400)
    \<and> (hrMethod r = ''POST'' \<and> (\<exists>data. hrBody r = Inr data) \<and> \<not> sig_ok \<longrightarrow> status = 401)
    \<and> (status = 200 \<longleftrightarrow> hrMethod r = ''POST'' \<and> sig_ok
         \<and> (\<exists>data m. hrBody r = Inr data \<and> NormalizeIncoming decode dec (take body_limit data) = Inr m))
    \<and> (\<forall>data m. status = 200 \<and> hrBody r = Inr data \<and> NormalizeIncoming decode dec (take body_limit data) = Inr m
         \<longrightarrow> ch' = snd (processIncoming clock err it (msg_id m) m ch))
    \<and> (status \<noteq> 200 \<longrightarrow> 400 \<le> status \<and> ch' = ch)"
proof (cases "hrMethod r = ''POST'' \<and> (\<exists>data. hrBody r = Inr data)")
  case True
  then obtain data where data: "hrBody r = Inr data" by blast
  let ?n = "NormalizeIncoming decode dec (take body_limit data)"
  have h: "HandleHTTPCallback decode dec now clock err it (take body_limit data) (hrTimestamp r) (hrSign r) ch
      = (if sig_ok then (case ?n of Inl e \<Rightarrow> (Some (PlainErr (''http mode: bad bot message payload: '' @ Error e)), ch)
                                  | Inr m \<Rightarrow> (None, snd (processIncoming clock err it (msg_id m) m ch)))
         else (verifyHTTPSign (ClientSecret (chCfg ch)) (hrTimestamp r) (hrSign r) (HTTPTimestampTolerance (chCfg ch)) now, ch))"
    using assms(2,3) by (auto simp: HandleHTTPCallback_def split: option.splits sum.splits)
  show ?thesis
    using assms(1,3) True data h
    by (cases sig_ok; cases ?n) (auto simp: HTTPCallbackHandler_def http_error_def split: option.splits)
next
  case False
  then show ?thesis
    using assms(1) by (cases "hrBody r") (auto simp: HTTPCallbackHandler_def http_error_def split: if_splits)
qed

text \<open>
  The comment on the handler gives 400 to a payload that does not parse. The code answers 401, as it does
  when no handler is registered.
\<close>

lemma bad_payload_answered_401:
  assumes "hrMethod r = ''POST''" and "hrBody r = Inr data"
    and "verifyHTTPSign (ClientSecret (chCfg ch)) (hrTimestamp r) (hrSign r) (HTTPTimestampTolerance (chCfg ch)) now = None"
    and "NormalizeIncoming decode dec (take body_limit data) = Inl e \<or> \<not> (chOnMessage ch \<or> chOnBatch ch)"
  shows "fst (fst (HTTPCallbackHandler decode dec now clock err it r ch)) = 401"
  using assms by (auto simp: HTTPCallbackHandler_def HandleHTTPCallback_def http_error_def)

text \<open>
  C16. A card action runs once in the default mode, in which keys are marked on arrival and not after the
  handler. After a card callback has been taken on, every callback frame with the same card, user and
  content that is handled after it, whatever its delivery id says, is dropped for the whole TTL of the
  deduplication, through any other operations of the pipeline within that time, one after the other, as long
  as the keys they touch, with the delivery id, are fewer than \<open>MaxEntries\<close>.
\<close>

theorem card_action_once:
  assumes "handleCardAction decode c err f ch = (ActionPushed (Some r), ch1)"
    and "decode (Data f) = Inr d" and "decode (Data f') = Inr d"
    and "sc_inv (seen (chPipeline ch))" and "\<not> markAfterHandler (chPipeline ch)"
    and "k = action_fingerprint d" and "messageID f \<in> insert k T" and "k \<notin> T" and "finite T"
    and "int (card T) < MaxEntries (scCfg (seen (chPipeline ch)))"
    and "\<And>op. op \<in> set ops \<Longrightarrow> op_within (c 2) (TTL (scCfg (seen (chPipeline ch)))) (insert k T) op"
    and "c' 1 < c 2 + TTL (scCfg (seen (chPipeline ch)))"
  shows "fst (handleCardAction decode c' err' f' (ch1\<lparr>chPipeline := pl_run ops (chPipeline ch1)\<rparr>)) = ActionPushed None"
proof -
  let ?p = "chPipeline ch"
  let ?push = "PushAction c err (messageID f) (action_scope d) (card_action d (Data f)) [action_fingerprint d] ?p"
  have on: "chOnCardAction ch" using assms(1) by (auto simp: handleCardAction_def split: if_splits)
  then have p: "fst ?push = Some r" "chPipeline ch1 = snd ?push" "chOnCardAction ch1"
    using assms(1,2) by (auto simp: handleCardAction_def split: prod.splits)
  then have "fst ?push \<noteq> None" by simp
  note marked = action_marked [OF this assms(5)]
  have "fst (Has no_redis (c' 1) [messageID f', action_fingerprint d] (seen (pl_run ops (snd ?push))))"
    by (rule mark_then_known [OF assms(4) marked, where k = k and T = T])
      (use assms in \<open>auto simp: action_fingerprint_def ContentFingerprint_def\<close>)
  then have "fst (PushAction c' err' (messageID f') (action_scope d) (card_action d (Data f')) [action_fingerprint d]
      (pl_run ops (snd ?push))) = None" by (rule action_known_dropped)
  then show ?thesis using p assms(3) by (simp add: handleCardAction_def case_prod_beta)
qed


lemma download_url_log:
  assumes "DownloadURL env cfg decode code mid st = Some (r, st')"
  shows "\<exists>h. apiLog st' = apiLog st @ h
    \<and> list_all (sent_as (api_request cfg ''GET'' (download_path cfg code mid) None)) h"
proof -
  obtain q where q: "callRaw (out_api env) cfg ''GET'' (download_path cfg code mid) None (Some decode) st = Some (q, st')"
    using assms by (auto simp: DownloadURL_def split: option.splits sum.splits prod.splits)
  from callRaw_history [OF q] call_history_events show ?thesis by blast
qed

definition guarded_get ::
  "(string \<Rightarrow> goerr + parsed_url) \<Rightarrow> (string \<Rightarrow> ip option) \<Rightarrow> (string \<Rightarrow> goerr + ip list) \<Rightarrow> string list
     \<Rightarrow> request \<Rightarrow> bool" where
  "guarded_get parse parse_ip lookup allowlist req \<longleftrightarrow>
     (\<exists>url. req = plain_get url \<and> url \<noteq> [] \<and> AssertPublicURLWithAllowlist parse parse_ip lookup url allowlist = None)"

text \<open>
  C19. The requests of a download: the API requests that ask for the download URL, and at most one other, a
  plain GET of a URL the guard has accepted for the allowlist. The file is the body of its 200 answer.
\<close>

theorem download_guarded:
  assumes "DownloadFile env cfg decode parse parse_ip lookup code mid st = Some (r, st')"
  shows "\<exists>h g. apiLog st' = apiLog st @ h @ g
    \<and> list_all (sent_as (api_request cfg ''GET'' (download_path cfg code mid) None)) h
    \<and> (g = [] \<and> (\<exists>e. r = Inl e)
       \<or> (\<exists>req ans. g = [Sent req ans] \<and> guarded_get parse parse_ip lookup (SSRFAllowlist cfg) req
            \<and> (\<forall>file. r = Inr file \<longrightarrow> (\<exists>resp. ans = Inr resp \<and> resp_status resp = 200 \<and> resp_raw resp = file))))"
proof (cases "code = []")
  case True
  then have "apiLog st' = apiLog st @ [] @ []" "\<exists>e. r = Inl e"
    using assms by (auto simp: DownloadFile_def)
  then show ?thesis by (intro exI [of _ "[]"]) simp
next
  case False
  obtain u st1 where d: "DownloadURL env cfg decode code mid st = Some (u, st1)"
    using assms False by (auto simp: DownloadFile_def split: option.splits)
  obtain h where h: "apiLog st1 = apiLog st @ h"
      "list_all (sent_as (api_request cfg ''GET'' (download_path cfg code mid) None)) h"
    using download_url_log [OF d] by blast
  show ?thesis
  proof (cases "\<exists>url. u = Inr url \<and> url \<noteq> [] \<and> AssertPublicURLWithAllowlist parse parse_ip lookup url (SSRFAllowlist cfg) = None")
    case True
    then obtain url where url: "u = Inr url" "url \<noteq> []"
        "AssertPublicURLWithAllowlist parse parse_ip lookup url (SSRFAllowlist cfg) = None" by blast
    then have f: "fetch_file env url st1 = (r, st')" using assms False d by (simp add: DownloadFile_def)
    obtain ans w where "env_api (out_api env) (plain_get url) (apiWorld st1) = (ans, w)" by fastforce
    then have g: "apiLog st' = apiLog st1 @ [Sent (plain_get url) ans]"
      "\<forall>file. r = Inr file \<longrightarrow> (\<exists>resp. ans = Inr resp \<and> resp_status resp = 200 \<and> resp_raw resp = file)"
      using f by (auto simp: fetch_file_def split: sum.splits if_splits)
    have "guarded_get parse parse_ip lookup (SSRFAllowlist cfg) (plain_get url)"
      using url by (auto simp: guarded_get_def)
    then show ?thesis using g h by (intro exI [of _ h] exI [of _ "[Sent (plain_get url) ans]"]) auto
  next
    case no: False
    then have "st' = st1" "\<exists>e. r = Inl e"
      using assms False d by (auto simp: DownloadFile_def split: sum.splits if_splits option.splits)
    then show ?thesis using h by (intro exI [of _ h] exI [of _ "[]"]) auto
  qed
qed

section \<open>What the wiring leaves out\<close>

text \<open>
  A new channel's connection has no hooks, and no operation of the channel gives it any: registered hooks
  are never called. \<open>GetPolicy\<close> does not see what \<open>UpdatePolicy\<close> sets.
\<close>

lemma hooks_never_fire:
  "fire_all (chConnHooks (ch_OnError f (ch_OnReady g (New cfg)))) evs w = w"
  by (simp add: fire_all_def ch_OnError_def ch_OnReady_def New_def Let_def)

lemma get_policy_stale: "GetPolicy (UpdatePolicy pc ch) = GetPolicy ch"
  by (simp add: GetPolicy_def UpdatePolicy_def)

section \<open>Instances\<close>

definition demo_channel :: "time Channel" where
  "demo_channel = OnCardAction (OnMessage (New plain_config))"

definition demo_card_callback :: card_callback where
  "demo_card_callback = \<lparr>ccOutTrackID = ''card1'', ccUserID = ''u1'', ccDataContent = ''{}''\<rparr>"

definition card_frame :: "string \<Rightarrow> frame" where
  "card_frame i = \<lparr>SpecVersion = ''1.0'', frame_Type = ''CALLBACK'', frame_Time = 0,
     Headers = [''topic'' \<mapsto> topicCardInstanceCB, ''messageId'' \<mapsto> i], Data = ''data''\<rparr>"

lemma card_frame_simps [simp]: "messageID (card_frame i) = i" "Data (card_frame i) = ''data''"
  by (simp_all add: card_frame_def messageID_def header_def)

lemma demo_channel_seen:
  "memory_only (seen (chPipeline demo_channel))" "sc_inv (seen (chPipeline demo_channel))"
  "\<not> live (seen (chPipeline demo_channel)) t k" "\<not> markAfterHandler (chPipeline demo_channel)"
  "scCfg (seen (chPipeline demo_channel)) = \<lparr>TTL = 12 * Hour, MaxEntries = 5000, SweepInterval = 5 * Minute\<rparr>"
  "queueOn (chPipeline demo_channel)" "locks (lock (chPipeline demo_channel)) = Map.empty" "chOnCardAction demo_channel"
  by (simp_all add: demo_channel_def OnCardAction_def OnMessage_def New_def Let_def in_range_fill_id in_range_def
      plain_config_def NewSafetyPipeline_def pipeline_options_def DefaultSafetyConfig_def memory_only_def
      DefaultDedupConfigExtended_def fillDedupConfig_def cqm_Enabled_def NewChatQueueManager_def NewProcessingLock_def
      fill_def fill_fields_def DefaultChatQueueConfig_def)

lemma demo_card_taken:
  "handleCardAction (\<lambda>_. Inr demo_card_callback) (\<lambda>_. 5) False (card_frame ''p1'') demo_channel
     = (ActionPushed (Some (Inl (''card:card1'', EvRun (TAction ''p1'' [''p1'', action_fingerprint demo_card_callback]
          (card_action demo_card_callback ''data''))))),
        snd (handleCardAction (\<lambda>_. Inr demo_card_callback) (\<lambda>_. 5) False (card_frame ''p1'') demo_channel))"
proof -
  have "\<not> fst (seen_query (\<lambda>_. 5) [''p1'', action_fingerprint demo_card_callback] (chPipeline demo_channel))"
    using demo_channel_seen(3) by (simp add: seen_query_fst [OF demo_channel_seen(1)])
  then show ?thesis
    by (simp add: handleCardAction_def demo_channel_seen PushAction_def Acquire_def Let_def case_prod_beta action_scope_def)
      (simp add: demo_card_callback_def)
qed

theorem card_action_once_witness:
  "fst (handleCardAction (\<lambda>_. Inr demo_card_callback) (\<lambda>_. 90) False (card_frame ''p2'')
     (let ch1 = snd (handleCardAction (\<lambda>_. Inr demo_card_callback) (\<lambda>_. 5) False (card_frame ''p1'') demo_channel)
      in ch1\<lparr>chPipeline := pl_run [OpSweepSeen 30] (chPipeline ch1)\<rparr>)) = ActionPushed None"
  unfolding Let_def
  by (rule card_action_once [OF demo_card_taken _ _ _ _ refl, where T = "{''p1''}"])
    (auto simp: demo_channel_seen op_within_def action_fingerprint_def ContentFingerprint_def)

definition http_post :: http_request where
  "http_post = \<lparr>hrMethod = ''POST'', hrTimestamp = format_int 1700000000000,
     hrSign = http_signature ''secret'' (format_int 1700000000000), hrBody = Inr ''raw''\<rparr>"

abbreviation post_time :: time where "post_time \<equiv> 1700000000000 * Millisecond"

abbreviation http_run :: "(int \<times> string) \<times> time Channel" where
  "http_run \<equiv> HTTPCallbackHandler (demo_decoder ''1'' ''text'' ''hi'') (\<lambda>_. None) post_time (\<lambda>_. post_time) False []
     http_post demo_channel"

lemma post_signed:
  "verifyHTTPSign ''secret'' (format_int 1700000000000) (http_signature ''secret'' (format_int 1700000000000)) Hour
     post_time = None"
  by (simp add: verify_accepts_iff ParseInt_format int64_ok_def min_int64_def max_int64_def timestamp_ms_def
      HttpMode.in_window_def age_ms_def unix_milli_def wrap64_id Let_def)

lemma demo_channel_config:
  "ClientSecret (chCfg demo_channel) = ''secret''" "HTTPTimestampTolerance (chCfg demo_channel) = Hour"
  "chOnMessage demo_channel"
  by (simp_all add: demo_channel_def OnCardAction_def OnMessage_def New_def Let_def plain_config_def fill_def
      fill_fields_def DefaultSafetyConfig_def)

lemma http_run_accepted: "http_run = ((200, []), snd http_run)"
proof -
  obtain m where "NormalizeIncoming (demo_decoder ''1'' ''text'' ''hi'') (\<lambda>_. None) ''raw'' = Inr m"
    by (simp add: NormalizeIncoming_def parseContent_def demo_callback_def Let_def)
  then show ?thesis
    by (simp add: HTTPCallbackHandler_def HandleHTTPCallback_def http_post_def body_limit_def demo_channel_config
        post_signed [simplified])
qed

theorem http_callback_contract_witness:
  "\<exists>m. NormalizeIncoming (demo_decoder ''1'' ''text'' ''hi'') (\<lambda>_. None) (take body_limit ''raw'') = Inr m
     \<and> snd http_run = snd (processIncoming (\<lambda>_. post_time) False [] (msg_id m) m demo_channel)"
  using http_callback_contract [OF http_run_accepted _ refl] demo_channel_config(3) by (auto simp: http_post_def)

definition corp_config :: "time Config" where
  "corp_config = plain_config\<lparr>SSRFAllowlist := [''*.corp'']\<rparr>"

definition corp_log :: "api_event list" where
  "corp_log = [Granted_at 0, Sent (api_request corp_config ''GET'' (download_path corp_config ''dc'' ''m1'') None ''T'') (Inr ok_answer),
     Sent (plain_get ''x.corp'') (Inr ok_answer)]"

lemma corp_request:
  "do_request (out_api (calm_env ok_answer)) corp_config method path None (Some (\<lambda>_. Inr ''x.corp'')) (calm_state es)
     = (Inr (''ok'', Some ''x.corp''), calm_state (es @ [Sent (api_request corp_config method path None ''T'') (Inr ok_answer)]))"
  by (simp add: do_request_def calm_state_def Token_Get_def token_fresh_def calm_env_def api_accept_def
      ok_answer_def Let_def)

lemma corp_download:
  "DownloadFile (calm_env ok_answer) corp_config (\<lambda>_. Inr ''x.corp'') demo_parse (\<lambda>h. None) demo_lookup ''dc'' ''m1'' demo_state
     = Some (Inr ''ok'', calm_state corp_log)"
proof -
  have url: "DownloadURL (calm_env ok_answer) corp_config (\<lambda>_. Inr ''x.corp'') ''dc'' ''m1'' demo_state
      = Some (Inr ''x.corp'', calm_state [Granted_at 0,
          Sent (api_request corp_config ''GET'' (download_path corp_config ''dc'' ''m1'') None ''T'') (Inr ok_answer)])"
    by (simp add: DownloadURL_def callRaw_def calm_wait corp_request)
  have allowed: "SSRFAllowlist corp_config = [''*.corp'']" by (simp add: corp_config_def)
  show ?thesis
    by (simp add: DownloadFile_def url allowed demo_assert fetch_file_def)
      (simp add: calm_env_def calm_state_def corp_log_def ok_answer_def)
qed

theorem download_guarded_witness:
  "\<exists>h g. corp_log = h @ g \<and> (\<exists>req ans. g = [Sent req ans]
     \<and> guarded_get demo_parse (\<lambda>h. None) demo_lookup [''*.corp''] req)"
  using download_guarded [OF corp_download] by (auto simp: calm_state_def demo_state_def corp_config_def)

end
