(* ===== verification/ChannelRun.thy ===== *)
theory ChannelRun
  imports Channel
begin

text \<open>
  A channel over many frames. The connection starts a goroutine for every business frame after its
  acknowledgement, so the frames are handled in any order; here the order is a list, and each handling
  (\<open>dispatchFrame\<close>) is one step. Two handlings that overlap inside \<open>PushMessage\<close> are not among these runs:
  \<open>Pipeline.interleaved_deliveries_run_twice\<close> shows what they can do.
\<close>

record handling =
  hClock :: clock
  hErr :: bool
  hIteration :: "string list"

fun serve ::
  "callback_decoder \<Rightarrow> content_decoder \<Rightarrow> card_decoder \<Rightarrow> (handling \<times> frame) list \<Rightarrow> 'w Channel
     \<Rightarrow> outcome list \<times> 'w Channel" where
  "serve decode dec cdec [] ch = ([], ch)"
| "serve decode dec cdec ((h, f) # xs) ch =
     (case dispatchFrame decode dec cdec (hClock h) (hErr h) (hIteration h) f ch of
        (oc, ch1) \<Rightarrow> (case serve decode dec cdec xs ch1 of (ocs, ch2) \<Rightarrow> (oc # ocs, ch2)))"

text \<open>The deduplication keys a frame touches.\<close>

definition frame_keys :: "callback_decoder \<Rightarrow> content_decoder \<Rightarrow> card_decoder \<Rightarrow> frame \<Rightarrow> string set" where
  "frame_keys decode dec cdec f =
     (if topic f = topicBotMessage
      then (case NormalizeIncoming decode dec (Data f) of Inl e \<Rightarrow> {} | Inr m \<Rightarrow> set (dedup_keys (messageID f) m))
      else if topic f = topicCardInstanceCB
      then (case cdec (Data f) of Inl e \<Rightarrow> {} | Inr d \<Rightarrow> {messageID f, action_fingerprint d})
      else {})"

text \<open>A handling does one operation of the pipeline or none.\<close>

lemma dispatch_op:
  assumes "dispatchFrame decode dec cdec c err it f ch = (oc, ch')"
  shows "\<exists>ops. chPipeline ch' = pl_run ops (chPipeline ch)
    \<and> (\<forall>op \<in> set ops. pl_clock op = c \<and> pl_keys op \<subseteq> frame_keys decode dec cdec f)"
proof -
  consider (bot) "topic f = topicBotMessage" | (action) "topic f \<noteq> topicBotMessage" "topic f = topicCardInstanceCB"
    | (other) "topic f \<noteq> topicBotMessage" "topic f \<noteq> topicCardInstanceCB" by blast
  then show ?thesis
  proof cases
    case bot
    show ?thesis
    proof (cases "NormalizeIncoming decode dec (Data f)")
      case (Inl e)
      then show ?thesis using assms bot
        by (intro exI [of _ "[]"]) (simp add: dispatchFrame_def handleBotMessage_def pl_run_def)
    next
      case (Inr m)
      then show ?thesis using assms bot
        by (intro exI [of _ "[OpMessage c (closure_error ch err) it (messageID f) m]"])
          (auto simp: dispatchFrame_def handleBotMessage_def processIncoming_def pl_run_def frame_keys_def
            split: prod.splits)
    qed
  next
    case action
    show ?thesis
    proof (cases "chOnCardAction ch \<and> (\<exists>d. cdec (Data f) = Inr d)")
      case True
      then obtain d where d: "cdec (Data f) = Inr d" by blast
      then show ?thesis using assms action True
        by (intro exI [of _ "[OpAction c err (messageID f) (action_scope d) (card_action d (Data f)) [action_fingerprint d]]"])
          (auto simp: dispatchFrame_def handleCardAction_def pl_run_def frame_keys_def split: prod.splits)
    next
      case False
      then show ?thesis using assms action
        by (intro exI [of _ "[]"]) (auto simp: dispatchFrame_def handleCardAction_def pl_run_def split: sum.splits if_splits)
    qed
  next
    case other
    then show ?thesis using assms by (intro exI [of _ "[]"]) (simp add: dispatchFrame_def pl_run_def)
  qed
qed

lemma pl_run_append: "pl_run (xs @ ys) p = pl_run ys (pl_run xs p)"
  by (simp add: pl_run_def)

lemma serve_ops:
  assumes "serve decode dec cdec xs ch = (ocs, ch')"
  shows "\<exists>ops. chPipeline ch' = pl_run ops (chPipeline ch)
    \<and> (\<forall>op \<in> set ops. \<exists>(h, f) \<in> set xs. pl_clock op = hClock h \<and> pl_keys op \<subseteq> frame_keys decode dec cdec f)"
  using assms
proof (induction xs arbitrary: ch ocs)
  case Nil
  then show ?case by (intro exI [of _ "[]"]) (simp add: pl_run_def)
next
  case (Cons x xs)
  obtain h f where x: "x = (h, f)" by fastforce
  obtain oc ch1 where d: "dispatchFrame decode dec cdec (hClock h) (hErr h) (hIteration h) f ch = (oc, ch1)" by fastforce
  obtain ocs1 where s: "serve decode dec cdec xs ch1 = (ocs1, ch')"
    using Cons.prems x d by (auto split: prod.splits)
  obtain ops1 ops2 where ops: "chPipeline ch1 = pl_run ops1 (chPipeline ch)"
    "\<forall>op \<in> set ops1. pl_clock op = hClock h \<and> pl_keys op \<subseteq> frame_keys decode dec cdec f"
    "chPipeline ch' = pl_run ops2 (chPipeline ch1)"
    "\<forall>op \<in> set ops2. \<exists>(h, f) \<in> set xs. pl_clock op = hClock h \<and> pl_keys op \<subseteq> frame_keys decode dec cdec f"
    using dispatch_op [OF d] Cons.IH [OF s] by blast
  have "chPipeline ch' = pl_run (ops1 @ ops2) (chPipeline ch)" using ops(1,3) by (simp add: pl_run_append)
  moreover have "\<forall>op \<in> set (ops1 @ ops2). \<exists>(h, f) \<in> set (x # xs). pl_clock op = hClock h \<and> pl_keys op \<subseteq> frame_keys decode dec cdec f"
    using ops(2,4) x by fastforce
  ultimately show ?case by blast
qed

lemma serve_append:
  "serve decode dec cdec (xs @ ys) ch =
     (case serve decode dec cdec xs ch of (o1, ch1) \<Rightarrow> (case serve decode dec cdec ys ch1 of (o2, ch2) \<Rightarrow> (o1 @ o2, ch2)))"
  by (induction decode dec cdec xs ch rule: serve.induct) (auto split: prod.splits)

lemma serve_length: "serve decode dec cdec xs ch = (ocs, ch') \<Longrightarrow> length ocs = length xs"
  by (induction decode dec cdec xs ch arbitrary: ocs rule: serve.induct) (auto split: prod.splits)

text \<open>
  C3. End to end from the socket, in the default mode, which marks the keys of a message on arrival, and for
  frames that are handled one after the other: after a frame with a bot message has been taken on, every later
  frame with a message that shares a key with it (the delivery id after a reconnect, the message id, or the
  content fingerprint) is rejected as stale or duplicate, for the whole TTL and whatever other frames of either
  kind are handled in between, as long as they touch fewer than \<open>MaxEntries\<close> other keys.
\<close>

theorem redelivery_rejected:
  assumes "serve decode dec cdec ((h, f) # xs @ [(h', f')]) ch = (Pushed d # ocs, ch')"
    and "topic f = topicBotMessage" and "NormalizeIncoming decode dec (Data f) = Inr m" and "\<forall>r. d \<noteq> Rejected r"
    and "topic f' = topicBotMessage" and "NormalizeIncoming decode dec (Data f') = Inr m'"
    and "k \<in> set (dedup_keys (messageID f) m)" and "k \<in> set (dedup_keys (messageID f') m')" and "k \<noteq> []"
    and "sc_inv (seen (chPipeline ch))" and "\<not> markAfterHandler (chPipeline ch)"
    and "\<And>g e. (g, e) \<in> set ((h, f) # xs) \<Longrightarrow> frame_keys decode dec cdec e \<subseteq> insert k T"
    and "k \<notin> T" and "finite T" and "int (card T) < MaxEntries (scCfg (seen (chPipeline ch)))"
    and "\<And>g e n. (g, e) \<in> set xs \<Longrightarrow>
           hClock h 2 \<le> hClock g n \<and> hClock g n < hClock h 2 + TTL (scCfg (seen (chPipeline ch)))"
    and "hClock h' 1 < hClock h 2 + TTL (scCfg (seen (chPipeline ch)))"
  shows "last ocs \<in> {Pushed (Rejected Stale), Pushed (Rejected Duplicate)}"
proof -
  let ?p = "chPipeline ch"
  obtain ch1 where first: "dispatchFrame decode dec cdec (hClock h) (hErr h) (hIteration h) f ch = (Pushed d, ch1)"
    and rest: "serve decode dec cdec (xs @ [(h', f')]) ch1 = (ocs, ch')"
    using assms(1) by (auto split: prod.splits)
  let ?push = "PushMessage (hClock h) (closure_error ch (hErr h)) (hIteration h) (messageID f) m ?p"
  have push: "fst ?push = d" "chPipeline ch1 = snd ?push"
    using first assms(2,3) by (auto simp: dispatchFrame_def handleBotMessage_def processIncoming_def split: prod.splits)
  have adm: "fst (admit (hClock h) (messageID f) m ?p) = None"
    using push(1) assms(4) rejected_push by (metis option.exhaust)
  have marked: "seen (chPipeline ch1) = Add no_redis (hClock h 2) (dedup_keys (messageID f) m)
      (snd (Has no_redis (hClock h 1) (dedup_keys (messageID f) m) (seen ?p)))"
    using push(2) guarded_kept_PushMessage [OF adm assms(11)] admitted_marked [OF adm assms(11)] by simp
  obtain ocs1 ch2 where mid: "serve decode dec cdec xs ch1 = (ocs1, ch2)" by fastforce
  obtain oc where fin: "dispatchFrame decode dec cdec (hClock h') (hErr h') (hIteration h') f' ch2 = (oc, ch')"
    and ocs: "ocs = ocs1 @ [oc]"
    using rest mid by (auto simp: serve_append split: prod.splits)
  obtain ops where ops: "chPipeline ch2 = pl_run ops (chPipeline ch1)"
    "\<forall>op \<in> set ops. \<exists>(g, e) \<in> set xs. pl_clock op = hClock g \<and> pl_keys op \<subseteq> frame_keys decode dec cdec e"
    using serve_ops [OF mid] by blast
  have within: "op_within (hClock h 2) (TTL (scCfg (seen ?p))) (insert k T) op" if op: "op \<in> set ops" for op
  proof -
    obtain g e where g: "(g, e) \<in> set xs" "pl_clock op = hClock g" "pl_keys op \<subseteq> frame_keys decode dec cdec e"
      using ops(2) op by blast
    have "frame_keys decode dec cdec e \<subseteq> insert k T" using assms(12) [of g e] g(1) by simp
    then show ?thesis using assms(16) [OF g(1)] g(2,3) unfolding op_within_def by (metis subset_trans)
  qed
  have keys: "set (dedup_keys (messageID f) m) \<subseteq> insert k T"
    using assms(12) [of h f] assms(2,3) by (simp add: frame_keys_def)
  have "fst (Has no_redis (hClock h' 1) (dedup_keys (messageID f') m') (seen (chPipeline ch2)))"
    unfolding ops(1)
    by (rule mark_then_known [OF assms(10) marked assms(7,9) keys assms(13-15) within assms(17,8)])
  then have "fst (admit (hClock h') (messageID f') m' (chPipeline ch2)) \<in> {Some Stale, Some Duplicate}"
    by (rule duplicate_rejected)
  then have "oc \<in> {Pushed (Rejected Stale), Pushed (Rejected Duplicate)}"
    using fin assms(5,6) rejected_push
    by (auto simp: dispatchFrame_def handleBotMessage_def processIncoming_def PushMessage_def split: prod.splits)
  then show ?thesis by (simp add: ocs)
qed


section \<open>Instances\<close>

definition bot_frame :: "string \<Rightarrow> frame" where
  "bot_frame i = (card_frame i)\<lparr>Headers := [''topic'' \<mapsto> topicBotMessage, ''messageId'' \<mapsto> i]\<rparr>"

definition at_time :: "time \<Rightarrow> handling" where
  "at_time t = \<lparr>hClock = (\<lambda>_. t), hErr = False, hIteration = []\<rparr>"

lemma bot_frame_simps [simp]:
  "messageID (bot_frame i) = i" "Data (bot_frame i) = ''data''" "topic (bot_frame i) = topicBotMessage"
  by (simp_all add: bot_frame_def card_frame_def messageID_def topic_def header_def)

lemma at_time_simps [simp]: "hClock (at_time t) n = t" "hErr (at_time t) = False" "hIteration (at_time t) = []"
  by (simp_all add: at_time_def)

abbreviation hi_decoder :: callback_decoder where "hi_decoder \<equiv> demo_decoder ''1'' ''text'' ''hi''"

definition hi_msg :: IncomingMessage where
  "hi_msg = projr (NormalizeIncoming hi_decoder (\<lambda>_. None) ''data'')"

lemma hi_normalized: "NormalizeIncoming hi_decoder (\<lambda>_. None) ''data'' = Inr hi_msg"
  unfolding hi_msg_def by (simp add: NormalizeIncoming_def parseContent_def demo_callback_def Let_def)

lemma hi_msg_simps [simp]:
  "msg_id hi_msg = ''m1''" "CreateAt (body hi_msg) = 0" "ConversationKind (body hi_msg) = ConversationTypeDM"
  "SenderID (body hi_msg) = ''u2''"
  by (simp_all add: hi_msg_def NormalizeIncoming_def parseContent_def demo_callback_def normalizeConversationType_def Let_def)

lemma hi_keys: "dedup_keys i hi_msg = [i, ''m1'']"
  by (simp add: dedup_keys_def)

lemma hi_admitted: "fst (admit c i hi_msg (chPipeline demo_channel)) = None"
proof -
  have policy: "gateCfg (policy (chPipeline demo_channel)) = DefaultPolicyConfigExtended"
    "botRobotCode (chPipeline demo_channel) = []"
    by (simp_all add: demo_channel_def OnCardAction_def OnMessage_def New_def Let_def in_range_fill_id in_range_def
        plain_config_def NewSafetyPipeline_def pipeline_options_def DefaultSafetyConfig_def NewPolicyGate_def
        fill_def fill_fields_def)
  have "first_failing (guards c i hi_msg (chPipeline demo_channel)) = None"
    using demo_channel_seen(3)
    by (simp add: guards_def policy IsStale_def is_self_def demo_channel_seen lock_held_def hi_keys
        policy_spec_find first_violation_def policy_checks_def policy_admin_def effective_def
        DefaultPolicyConfigExtended_def zero_PolicyConfig_def ConversationTypeDM_def ConversationTypeGroup_def)
  then show ?thesis by (simp add: admit_guards [OF demo_channel_seen(1)])
qed


lemma hi_pushed: "fst (PushMessage c err it i hi_msg (chPipeline demo_channel)) \<noteq> Rejected r"
proof -
  obtain p1 where a: "admit c i hi_msg (chPipeline demo_channel) = (None, p1)"
    using hi_admitted [of c i] by (metis prod.collapse)
  have "queueOn p1" using admit_frame(3) [of c i hi_msg "chPipeline demo_channel"] a by (simp add: demo_channel_seen)
  then show ?thesis by (simp add: PushMessage_def a)
qed

abbreviation hi_frames :: "(handling \<times> frame) list" where
  "hi_frames \<equiv> [(at_time 5, bot_frame ''p1''), (at_time 90, bot_frame ''p2'')]"

abbreviation hi_serve :: "(handling \<times> frame) list \<Rightarrow> outcome list \<times> time Channel" where
  "hi_serve xs \<equiv> serve hi_decoder (\<lambda>_. None) (\<lambda>_. Inl Canceled) xs demo_channel"

lemma hi_served: "\<exists>d ocs ch'. hi_serve hi_frames = (Pushed d # ocs, ch') \<and> (\<forall>r. d \<noteq> Rejected r) \<and> ocs \<noteq> []"
  using hi_pushed
  by (simp add: dispatchFrame_def handleBotMessage_def hi_normalized processIncoming_def split: prod.splits) (metis fst_conv)

theorem redelivery_rejected_witness:
  "last (fst (hi_serve hi_frames)) \<in> {Pushed (Rejected Stale), Pushed (Rejected Duplicate)}"
proof -
  obtain d ocs ch' where s: "hi_serve ((at_time 5, bot_frame ''p1'') # [] @ [(at_time 90, bot_frame ''p2'')]) = (Pushed d # ocs, ch')"
    and d: "\<forall>r. d \<noteq> Rejected r" and ne: "ocs \<noteq> []"
    using hi_served by auto
  have "last ocs \<in> {Pushed (Rejected Stale), Pushed (Rejected Duplicate)}"
    by (rule redelivery_rejected [OF s _ _ d, where m = hi_msg and m' = hi_msg and k = "''m1''" and T = "{''p1''}"])
      (simp_all add: hi_normalized hi_keys demo_channel_seen frame_keys_def)
  then show ?thesis using s ne by simp
qed

end
