(* ===== verification/Json.thy ===== *)
theory Json
  imports Http Decimal
begin

text \<open>
  Reading JSON as \<open>encoding/json\<close> does it. \<open>parse_json\<close> accepts the texts its scanner accepts: the grammar of RFC
  8259, at most 10000 containers deep, with white space at the end. Strings are unquoted as by \<open>unquote\<close>:
  a pair of surrogate escapes is one rune, a lone surrogate and every invalid byte become U+FFFD. A member of
  an object keeps the text of its value, which is what a \<open>json.RawMessage\<close> receives. The main lemma,
  \<open>parse_marshal\<close>, says that \<open>Marshal\<close> is read back.
\<close>

section \<open>Values\<close>

datatype jtree =
    TNull
  | TBool bool
  | TNum string
  | TStr string
  | TArr "jtree list"
  | TObj "(string \<times> string \<times> jtree) list"

definition json_space :: "char \<Rightarrow> bool" where
  "json_space c \<longleftrightarrow> ord c \<in> {0x20, 0x09, 0x0A, 0x0D}"

definition skip_space :: "string \<Rightarrow> string" where
  "skip_space s = dropWhile json_space s"

lemma length_skip_space: "length (skip_space s) \<le> length s"
  by (simp add: skip_space_def length_dropWhile_le)

lemma skip_space_simps [simp]:
  "skip_space [] = []"
  "skip_space (c # cs) = (if json_space c then skip_space cs else c # cs)"
  by (simp_all add: skip_space_def)

section \<open>Strings\<close>

definition hex_value :: "char \<Rightarrow> nat option" where
  "hex_value c =
     (let n = ord c in
      if 48 \<le> n \<and> n \<le> 57 then Some (n - 48)
      else if 97 \<le> n \<and> n \<le> 102 then Some (n - 87)
      else if 65 \<le> n \<and> n \<le> 70 then Some (n - 55)
      else None)"

text \<open>Four hexadecimal digits and what follows them.\<close>

fun hex4 :: "string \<Rightarrow> (nat \<times> string) option" where
  "hex4 (a # b # c # d # r) =
     (case (hex_value a, hex_value b, hex_value c, hex_value d) of
        (Some w, Some x, Some y, Some z) \<Rightarrow> Some (((w * 16 + x) * 16 + y) * 16 + z, r)
      | _ \<Rightarrow> None)"
| "hex4 _ = None"

text \<open>The rune of a surrogate escape and the escape after it, when they are a pair.\<close>

definition low_surrogate :: "nat \<Rightarrow> string \<Rightarrow> (nat \<times> string) option" where
  "low_surrogate u r =
     (if 0xD800 \<le> u \<and> u < 0xDC00
      then
        (case r of
           a # b # r1 \<Rightarrow>
             if a = backslash \<and> b = CHR ''u''
             then
               (case hex4 r1 of
                  Some (v, r2) \<Rightarrow>
                    if 0xDC00 \<le> v \<and> v < 0xE000 then Some ((u - 0xD800) * 1024 + (v - 0xDC00) + 0x10000, r2) else None
                | None \<Rightarrow> None)
             else None
         | _ \<Rightarrow> None)
      else None)"

definition simple_escape :: "char \<Rightarrow> string option" where
  "simple_escape e =
     (if e \<in> {quote_char, backslash, CHR ''/''} then Some [e]
      else if e = CHR ''b'' then Some [char_of (8 :: nat)]
      else if e = CHR ''f'' then Some [char_of (12 :: nat)]
      else if e = CHR ''n'' then Some [char_of (10 :: nat)]
      else if e = CHR ''r'' then Some [char_of (13 :: nat)]
      else if e = CHR ''t'' then Some [char_of (9 :: nat)]
      else None)"

definition put :: "string \<Rightarrow> (string \<times> 'a) option \<Rightarrow> (string \<times> 'a) option" where
  "put s res = map_option (\<lambda>(t, r). (s @ t, r)) res"

lemma put_simps [simp]: "put s None = None" "put s (Some (t, r)) = Some (s @ t, r)"
  by (simp_all add: put_def)

lemma put_Some [simp]: "put s res = Some (t, r) \<longleftrightarrow> (\<exists>u. res = Some (u, r) \<and> t = s @ u)"
  by (cases res) auto

lemma put_cong [fundef_cong]: "s = s' \<Longrightarrow> res = res' \<Longrightarrow> put s res = put s' res'"
  by simp

lemma hex4_length: "hex4 s = Some (n, r) \<Longrightarrow> length r < length s"
  by (induction s rule: hex4.induct) (auto split: option.splits)

lemma low_surrogate_length: "low_surrogate u s = Some (n, r) \<Longrightarrow> length r < length s"
  by (auto simp: low_surrogate_def dest!: hex4_length split: if_splits list.splits option.splits)

text \<open>The text of a string behind its opening quote, and what follows its closing one.\<close>

function parse_chars :: "string \<Rightarrow> (string \<times> string) option" where
  "parse_chars [] = None"
| "parse_chars (c # cs) =
     (if c = quote_char then Some ([], cs)
      else if c = backslash then
        (case cs of
           [] \<Rightarrow> None
         | e # r \<Rightarrow>
             if e = CHR ''u'' then
               (case hex4 r of
                  None \<Rightarrow> None
                | Some (u, r1) \<Rightarrow>
                    (case low_surrogate u r1 of
                       Some (x, r2) \<Rightarrow> put (encode_rune x) (parse_chars r2)
                     | None \<Rightarrow> put (encode_rune u) (parse_chars r1)))
             else
               (case simple_escape e of
                  None \<Rightarrow> None
                | Some x \<Rightarrow> put x (parse_chars r)))
      else if ord c < 0x20 then None
      else put (encode_rune (fst (decode_rune c cs))) (parse_chars (drop (snd (decode_rune c cs)) (c # cs))))"
  by pat_completeness auto
termination
proof (relation "measure length", goal_cases)
  case 5
  then show ?case using decode_rune_size by simp
qed (auto dest!: hex4_length low_surrogate_length)

lemma parse_chars_length: "parse_chars s = Some (t, r) \<Longrightarrow> length r < length s"
proof (induction "length s" arbitrary: s t rule: less_induct)
  case less
  show ?case
  proof (cases s)
    case (Cons c cs)
    have "0 < snd (decode_rune c cs)" by (rule decode_rune_size)
    then have drop: "length (drop (snd (decode_rune c cs)) (c # cs)) < Suc (length cs)" by simp
    have "r = cs \<or> (\<exists>y u. parse_chars y = Some (u, r) \<and> length y < Suc (length cs))"
      using less.prems drop unfolding Cons parse_chars.simps(2)
      by (auto split: if_splits list.splits option.splits dest!: hex4_length low_surrogate_length simp del: drop_Suc_Cons)
        (force simp del: drop_Suc_Cons)+
    then show ?thesis using less.hyps unfolding Cons by fastforce
  qed (use less.prems in simp)
qed

declare parse_chars.simps(2) [simp del]

section \<open>Numbers\<close>

definition int_part :: "string \<Rightarrow> (string \<times> string) option" where
  "int_part s =
     (case s of
        [] \<Rightarrow> None
      | c # cs \<Rightarrow>
          if c = CHR ''0'' then Some ([c], cs)
          else if is_digit c then Some (takeWhile is_digit s, dropWhile is_digit s)
          else None)"

definition digits_after :: "string \<Rightarrow> string \<Rightarrow> (string \<times> string) option" where
  "digits_after pre s =
     (if takeWhile is_digit s = [] then None else Some (pre @ takeWhile is_digit s, dropWhile is_digit s))"

definition frac_part :: "string \<Rightarrow> (string \<times> string) option" where
  "frac_part s =
     (case s of
        [] \<Rightarrow> Some ([], [])
      | c # cs \<Rightarrow> if c = CHR ''.'' then digits_after [c] cs else Some ([], s))"

definition exp_part :: "string \<Rightarrow> (string \<times> string) option" where
  "exp_part s =
     (case s of
        [] \<Rightarrow> Some ([], [])
      | c # cs \<Rightarrow>
          if c = CHR ''e'' \<or> c = CHR ''E''
          then
            (case cs of
               [] \<Rightarrow> None
             | g # ds \<Rightarrow> if g = CHR ''+'' \<or> g = CHR ''-'' then digits_after [c, g] ds else digits_after [c] cs)
          else Some ([], s))"

definition parse_number :: "string \<Rightarrow> (string \<times> string) option" where
  "parse_number s =
     (let (neg, s1) = (case s of [] \<Rightarrow> ([], []) | c # cs \<Rightarrow> if c = CHR ''-'' then ([c], cs) else ([], s)) in
      case int_part s1 of
        None \<Rightarrow> None
      | Some (i, s2) \<Rightarrow>
          (case frac_part s2 of
             None \<Rightarrow> None
           | Some (f, s3) \<Rightarrow>
               (case exp_part s3 of
                  None \<Rightarrow> None
                | Some (e, s4) \<Rightarrow> Some (neg @ i @ f @ e, s4))))"

lemma int_part_split: "int_part s = Some (i, r) \<Longrightarrow> s = i @ r \<and> i \<noteq> []"
  by (auto simp: int_part_def split: list.splits if_splits)

lemma digits_after_split: "digits_after pre s = Some (i, r) \<Longrightarrow> pre @ s = i @ r"
  by (auto simp: digits_after_def split: if_splits)

lemma frac_part_split: "frac_part s = Some (i, r) \<Longrightarrow> s = i @ r"
  by (auto simp: frac_part_def split: list.splits if_splits dest: digits_after_split)

lemma exp_part_split: "exp_part s = Some (i, r) \<Longrightarrow> s = i @ r"
  by (auto simp: exp_part_def split: list.splits if_splits dest: digits_after_split)

lemma parse_number_split: "parse_number s = Some (n, r) \<Longrightarrow> s = n @ r \<and> n \<noteq> []"
  by (auto simp: parse_number_def Let_def split: list.splits option.splits if_splits
      dest!: int_part_split frac_part_split exp_part_split)

section \<open>Values\<close>

lemma skip_space_shorter: "skip_space s = c # cs \<Longrightarrow> length cs < length s"
  using length_skip_space [of s] by simp

text \<open>\<open>d\<close> counts the containers that may still be opened. A list of elements or members is read behind its first bracket.\<close>

function parse_value :: "nat \<Rightarrow> string \<Rightarrow> (jtree \<times> string) option"
  and parse_elements :: "nat \<Rightarrow> string \<Rightarrow> (jtree list \<times> string) option"
  and parse_members :: "nat \<Rightarrow> string \<Rightarrow> ((string \<times> string \<times> jtree) list \<times> string) option" where
  "parse_value d s =
     (case skip_space s of
        [] \<Rightarrow> None
      | c # cs \<Rightarrow>
          if c = quote_char then map_option (\<lambda>(t, r). (TStr t, r)) (parse_chars cs)
          else if c = CHR ''['' then
            (if d = 0 then None
             else
               (case skip_space cs of
                  [] \<Rightarrow> None
                | b # r \<Rightarrow>
                    if b = CHR '']'' then Some (TArr [], r)
                    else map_option (\<lambda>(vs, r). (TArr vs, r)) (parse_elements (d - 1) cs)))
          else if c = CHR ''{'' then
            (if d = 0 then None
             else
               (case skip_space cs of
                  [] \<Rightarrow> None
                | b # r \<Rightarrow>
                    if b = CHR ''}'' then Some (TObj [], r)
                    else map_option (\<lambda>(ms, r). (TObj ms, r)) (parse_members (d - 1) cs)))
          else if has_prefix (c # cs) ''true'' then Some (TBool True, drop 4 (c # cs))
          else if has_prefix (c # cs) ''false'' then Some (TBool False, drop 5 (c # cs))
          else if has_prefix (c # cs) ''null'' then Some (TNull, drop 4 (c # cs))
          else map_option (\<lambda>(n, r). (TNum n, r)) (parse_number (c # cs)))"
| "parse_elements d s =
     (case parse_value d s of
        None \<Rightarrow> None
      | Some (v, r) \<Rightarrow>
          (case skip_space r of
             [] \<Rightarrow> None
           | c # cs \<Rightarrow>
               if c = CHR '']'' then Some ([v], cs)
               else if c = CHR '','' \<and> length cs < length s
               then map_option (\<lambda>(vs, r). (v # vs, r)) (parse_elements d cs)
               else None))"
| "parse_members d s =
     (case skip_space s of
        [] \<Rightarrow> None
      | c # cs \<Rightarrow>
          if c \<noteq> quote_char then None
          else
            (case parse_chars cs of
               None \<Rightarrow> None
             | Some (k, r) \<Rightarrow>
                 (case skip_space r of
                    [] \<Rightarrow> None
                  | b # r1 \<Rightarrow>
                      if b \<noteq> CHR '':'' then None
                      else
                        (case parse_value d r1 of
                           None \<Rightarrow> None
                         | Some (v, r2) \<Rightarrow>
                             (let m = (k, take (length (skip_space r1) - length r2) (skip_space r1), v) in
                              case skip_space r2 of
                                [] \<Rightarrow> None
                              | e # r3 \<Rightarrow>
                                  if e = CHR ''}'' then Some ([m], r3)
                                  else if e = CHR '','' \<and> length r3 < length s
                                  then map_option (\<lambda>(ms, r). (m # ms, r)) (parse_members d r3)
                                  else None)))))"
  by pat_completeness auto
termination
  by (relation "measures [case_sum (\<lambda>x. length (snd x)) (case_sum (\<lambda>x. length (snd x)) (\<lambda>x. length (snd x))),
        case_sum (\<lambda>x. 0) (\<lambda>x. 1)]")
    (auto dest!: skip_space_shorter parse_chars_length)

text \<open>\<open>json.Unmarshal\<close> checks the whole text first.\<close>

definition parse_json :: "string \<Rightarrow> jtree option" where
  "parse_json s =
     (case parse_value 10000 s of
        None \<Rightarrow> None
      | Some (v, r) \<Rightarrow> if skip_space r = [] then Some v else None)"

declare parse_value.simps [simp del] parse_elements.simps [simp del] parse_members.simps [simp del]

text \<open>The tests of the remaining lengths always succeed: they are there for the termination proof only.\<close>

lemma parse_number_length: "parse_number s = Some (n, r) \<Longrightarrow> length r < length s"
  by (auto dest!: parse_number_split)

lemma parse_value_shape:
  assumes "parse_value d s = Some (v, r)"
  shows "length r < length s \<or> (\<exists>cs. length cs < length s \<and>
    ((\<exists>vs. parse_elements (d - 1) cs = Some (vs, r)) \<or> (\<exists>ms. parse_members (d - 1) cs = Some (ms, r))))"
proof (cases "skip_space s")
  case (Cons c cs)
  have less: "length cs < length s" using Cons by (rule skip_space_shorter)
  show ?thesis
    using assms less unfolding parse_value.simps [of d s] Cons
    by (auto simp: less_trans [OF _ less] drop_Suc intro: less split: list.splits if_splits
        dest!: parse_chars_length skip_space_shorter parse_number_length)
qed (use assms in \<open>simp add: parse_value.simps [of d s]\<close>)

lemma parse_elements_shape:
  assumes "parse_elements d s = Some (vs, r)"
  shows "\<exists>v r1. parse_value d s = Some (v, r1)
    \<and> (length r < length r1 \<or> (\<exists>cs ws. length cs < length r1 \<and> parse_elements d cs = Some (ws, r)))"
  using assms unfolding parse_elements.simps [of d s]
  by (auto split: option.splits list.splits if_splits dest!: skip_space_shorter)

lemma parse_members_shape:
  assumes "parse_members d s = Some (ms, r)"
  shows "\<exists>t v r1. length t < length s \<and> parse_value d t = Some (v, r1)
    \<and> (length r < length r1 \<or> (\<exists>cs ws. length cs < length r1 \<and> parse_members d cs = Some (ws, r)))"
  using assms unfolding parse_members.simps [of d s]
  apply (auto simp: Let_def split: option.splits list.splits if_splits dest!: skip_space_shorter parse_chars_length)
  subgoal for t1 a b t v u by (rule exI [of _ t]) auto
  subgoal for t1 a b t v u by (rule exI [of _ t]) auto
  done

lemma parse_lengths:
  shows "parse_value d s = Some (v, r) \<Longrightarrow> length r < length s"
    and "parse_elements d s = Some (vs, r) \<Longrightarrow> length r < length s"
    and "parse_members d s = Some (ms, r) \<Longrightarrow> length r < length s"
proof -
  have "(\<forall>d v. parse_value d s = Some (v, r) \<longrightarrow> length r < length s)
    \<and> (\<forall>d vs. parse_elements d s = Some (vs, r) \<longrightarrow> length r < length s)
    \<and> (\<forall>d ms. parse_members d s = Some (ms, r) \<longrightarrow> length r < length s)" for s r
  proof (induction "length s" arbitrary: s r rule: less_induct)
    case less
    have IH: "length t < length s \<Longrightarrow> parse_value d t = Some (v, u) \<Longrightarrow> length u < length s"
      "length t < length s \<Longrightarrow> parse_elements d t = Some (vs, u) \<Longrightarrow> length u < length s"
      "length t < length s \<Longrightarrow> parse_members d t = Some (ms, u) \<Longrightarrow> length u < length s" for t u d v vs ms
      using less.hyps by (meson less_trans)+
    have 1: "length u < length s" if "parse_value d s = Some (v, u)" for d v u
      using parse_value_shape [OF that] IH by blast
    have 2: "length r < length s" if "parse_elements d s = Some (vs, r)" for d vs
      using parse_elements_shape [OF that] IH(2) 1 less_trans by (metis (no_types, lifting))
    have 3: "length r < length s" if "parse_members d s = Some (ms, r)" for d ms
      using parse_members_shape [OF that] IH less_trans by (metis (no_types, lifting))
    show ?case using 1 2 3 by blast
  qed
  then show "parse_value d s = Some (v, r) \<Longrightarrow> length r < length s"
    and "parse_elements d s = Some (vs, r) \<Longrightarrow> length r < length s"
    and "parse_members d s = Some (ms, r) \<Longrightarrow> length r < length s" by blast+
qed

section \<open>What is marshalled is read back\<close>

text \<open>A string as it comes out of \<open>Marshal\<close>: \<open>strings.ToValidUTF8\<close> with U+FFFD for every invalid byte.\<close>

definition to_valid :: "string \<Rightarrow> string" where
  "to_valid s = encode_runes (decode_runes s)"

definition valid_utf8 :: "string \<Rightarrow> bool" where
  "valid_utf8 s \<longleftrightarrow> to_valid s = s"

lemma valid_utf8_encode: "list_all valid_rune rs \<Longrightarrow> valid_utf8 (encode_runes rs)"
  by (simp add: valid_utf8_def to_valid_def decode_encode)

lemma hex_value_lower: "n < 16 \<Longrightarrow> hex_value (hex_lower n) = Some n"
  by (simp add: hex_value_def hex_lower_def Let_def)

lemma hex4_escape:
  assumes "r < 0x10000"
  shows "hex4 (hex_lower (r div 4096 mod 16) # hex_lower (r div 256 mod 16) # hex_lower (r div 16 mod 16)
    # hex_lower (r mod 16) # rest) = Some (r, rest)"
proof -
  have "r div 16 div 16 = r div 256" "r div 256 div 16 = r div 4096" by (simp_all add: div_mult2_eq [symmetric])
  then have "r div 256 div 16 * 16 + r div 256 mod 16 = r div 256" "r div 256 * 16 + r div 16 mod 16 = r div 16"
    using div_mult_mod_eq [of "r div 16" 16] div_mult_mod_eq [of "r div 256" 16] by simp_all
  moreover have "r div 4096 mod 16 = r div 256 div 16"
    using assms by (simp add: div_mult2_eq [symmetric] less_mult_imp_div_less)
  moreover have "hex_value (hex_lower (r div 256 div 16)) = Some (r div 256 div 16)"
    using assms by (intro hex_value_lower) (simp add: div_mult2_eq [symmetric] less_mult_imp_div_less)
  ultimately show ?thesis by (simp add: hex_value_lower)
qed

lemma parse_u_escape:
  assumes "r < 0xD800 \<or> 0xE000 \<le> r" and "r < 0x10000"
  shows "parse_chars (u_escape r @ rest) = put (encode_rune r) (parse_chars rest)"
  using assms hex4_escape [OF assms(2)]
  by (auto simp: u_escape_def parse_chars.simps(2) low_surrogate_def)

lemma parse_plain_rune:
  assumes "0x20 \<le> r" and "r \<noteq> 0x22" and "r \<noteq> 0x5C"
  shows "parse_chars (encode_rune r @ rest) = put (encode_rune r) (parse_chars rest)"
proof -
  let ?v = "if valid_rune r then r else RuneError"
  have "valid_rune ?v" by simp
  then obtain c cs where c: "encode_valid ?v = c # cs" "decode_rune c (cs @ rest) = (?v, Suc (length cs))"
    using decode_encode_valid by metis
  have v: "0x20 \<le> ?v" "?v \<noteq> 0x22" "?v \<noteq> 0x5C" using assms by (simp_all add: RuneError_def)
  have o: "0x20 \<le> ord c \<and> ord c \<noteq> 0x22 \<and> ord c \<noteq> 0x5C"
  proof (cases "ord c < 0x80")
    case True
    then have "fst (decode_rune c (cs @ rest)) = ord c" by (simp add: decode_rune_def)
    then show ?thesis using c(2) v by simp
  qed simp
  then have "c \<noteq> quote_char" "c \<noteq> backslash" by auto
  moreover have "encode_rune ?v = encode_rune r" by (simp add: encode_rune_def)
  ultimately show ?thesis
    using o c by (simp add: encode_rune_def parse_chars.simps(2))
qed

lemma parse_json_rune: "parse_chars (json_rune r @ rest) = put (encode_rune r) (parse_chars rest)"
proof -
  consider "r \<in> {0x22, 0x5C, 8, 12, 10, 13, 9}" | "r < 0x20 \<or> r \<in> {0x3C, 0x3E, 0x26, 0x2028, 0x2029}" "r \<notin> {8, 12, 10, 13, 9}"
    | "0x20 \<le> r" "r \<notin> {0x22, 0x5C, 0x3C, 0x3E, 0x26, 0x2028, 0x2029}" by fastforce
  then show ?thesis
  proof cases
    case 1
    have code: "encode_rune r = [char_of r]" if "r < 0x80" for r
      using that by (simp add: encode_rune_def encode_valid_def valid_rune_def)
    have "ord quote_char = 34" "ord backslash = 92" by simp_all
    then have bytes: "byte 34 = quote_char" "byte 92 = backslash" by (metis char_of_char)+
    show ?thesis
      using 1
      by (elim insertE emptyE) (simp_all add: json_rune_def parse_chars.simps(2) simple_escape_def code bytes)
  next
    case 2
    then have "json_rune r = u_escape r" "r < 0xD800 \<or> 0xE000 \<le> r" "r < 0x10000" by (auto simp: json_rune_def)
    then show ?thesis by (simp add: parse_u_escape)
  next
    case 3
    then have "json_rune r = encode_rune r" by (simp add: json_rune_def)
    then show ?thesis using 3 by (simp add: parse_plain_rune)
  qed
qed

lemma parse_json_chars: "parse_chars (json_chars s @ quote_char # rest) = Some (to_valid s, rest)"
proof (induction s rule: json_chars.induct)
  case 1
  then show ?case by (simp add: parse_chars.simps(2) to_valid_def encode_runes_def)
next
  case (2 c cs)
  obtain r n where d: "decode_rune c cs = (r, n)" by fastforce
  let ?x = "if r = RuneError \<and> n = 1 then u_escape RuneError else json_rune r"
  have x: "parse_chars (?x @ t) = put (encode_rune r) (parse_chars t)" for t
    by (simp add: parse_json_rune parse_u_escape RuneError_def)
  have "json_chars (c # cs) @ quote_char # rest = ?x @ json_chars (drop n (c # cs)) @ quote_char # rest"
    using d by simp
  moreover have "parse_chars (json_chars (drop n (c # cs)) @ quote_char # rest) = Some (to_valid (drop n (c # cs)), rest)"
    using 2 d by simp
  moreover have "to_valid (c # cs) = encode_rune r @ to_valid (drop n (c # cs))"
    using d by (simp add: to_valid_def encode_runes_def)
  ultimately show ?case using x by simp
qed

text \<open>What a value is read as, and how many containers its text opens at once at most.\<close>

fun tree_of :: "json \<Rightarrow> jtree" where
  "tree_of JNull = TNull"
| "tree_of (JStr s) = TStr (to_valid s)"
| "tree_of (JInt i) = TNum (format_int i)"
| "tree_of (JBool b) = TBool b"
| "tree_of (JArr js) = TArr (map tree_of js)"
| "tree_of (JObj kvs) = TObj (map (\<lambda>(k, v). (to_valid k, marshal v, tree_of v)) kvs)"

fun nests_within :: "nat \<Rightarrow> json \<Rightarrow> bool" where
  "nests_within d (JArr js) \<longleftrightarrow> 0 < d \<and> list_all (nests_within (d - 1)) js"
| "nests_within d (JObj kvs) \<longleftrightarrow> 0 < d \<and> list_all (\<lambda>(k, v). nests_within (d - 1) v) kvs"
| "nests_within d _ \<longleftrightarrow> True"

text \<open>What may follow a number so that it is read to its end.\<close>

definition ends_value :: "string \<Rightarrow> bool" where
  "ends_value s \<longleftrightarrow> (case s of [] \<Rightarrow> True | c # _ \<Rightarrow> c \<in> {CHR '','', CHR '']'', CHR ''}''} \<or> json_space c)"

lemma ends_value_simps [simp]: "ends_value []" "ends_value (c # cs) \<longleftrightarrow> c \<in> {CHR '','', CHR '']'', CHR ''}''} \<or> json_space c"
  by (simp_all add: ends_value_def)

lemma digits_then:
  assumes "list_all is_digit ds" and "ends_value rest"
  shows "takeWhile is_digit (ds @ rest) = ds" "dropWhile is_digit (ds @ rest) = rest"
proof -
  have "takeWhile is_digit rest = [] \<and> dropWhile is_digit rest = rest"
    using assms(2) by (cases rest) (auto simp: is_digit_def json_space_def)
  then show "takeWhile is_digit (ds @ rest) = ds" "dropWhile is_digit (ds @ rest) = rest"
    using assms(1) by (simp_all add: takeWhile_append2 dropWhile_append2 list_all_iff)
qed

lemma no_tail:
  assumes "ends_value rest"
  shows "frac_part rest = Some ([], rest)" "exp_part rest = Some ([], rest)"
  using assms by (auto simp: frac_part_def exp_part_def json_space_def split: list.split)

lemma nat_digits_hd: "n \<noteq> 0 \<Longrightarrow> hd (nat_digits n) \<noteq> CHR ''0''"
proof (induction n rule: nat_digits.induct)
  case (1 n)
  show ?case
  proof (cases "n < 10")
    case True
    then have "nat_digits n = [char_of (48 + n)]" by (simp add: nat_digits.simps [of n])
    moreover have "ord (byte (48 + n)) \<noteq> ord (CHR ''0'')" using True 1(2) by simp
    ultimately show ?thesis by (metis list.sel(1))
  next
    case False
    moreover have "nat_digits (n div 10) \<noteq> []" by (subst nat_digits.simps) simp
    ultimately show ?thesis using 1 by (simp add: nat_digits.simps [of n])
  qed
qed

lemma nat_digits_Cons: "\<exists>c cs. nat_digits n = c # cs"
proof -
  have "nat_digits n \<noteq> []" by (subst nat_digits.simps) simp
  then show ?thesis by (cases "nat_digits n") auto
qed

lemma parse_nat_digits: "ends_value rest \<Longrightarrow> int_part (nat_digits n @ rest) = Some (nat_digits n, rest)"
proof (cases "n = 0")
  case True
  have "ord (CHR ''0'') = 48" by simp
  then have "byte 48 = CHR ''0''" by (metis char_of_char)
  then show ?thesis using True by (simp add: nat_digits.simps [of 0] int_part_def)
next
  case False
  assume e: "ends_value rest"
  obtain c cs where c: "nat_digits n = c # cs" using nat_digits_Cons by blast
  have "list_all is_digit (nat_digits n)" using nat_digits_digits by (auto simp: list_all_iff)
  from digits_then [OF this e] show ?thesis
    using nat_digits_hd [OF False] nat_digits_digits [of c n] c by (simp add: int_part_def)
qed

lemma parse_format_int: "ends_value rest \<Longrightarrow> parse_number (format_int i @ rest) = Some (format_int i, rest)"
proof -
  assume e: "ends_value rest"
  have "c \<noteq> CHR ''-''" if "nat_digits n = c # cs" for n c cs
    using nat_digits_digits [of c n] that by (auto simp: is_digit_def)
  moreover obtain c cs where c: "nat_digits (nat i) = c # cs" using nat_digits_Cons by blast
  moreover have "int_part (c # cs @ rest) = Some (c # cs, rest)" using parse_nat_digits [OF e, of "nat i"] c by simp
  ultimately show ?thesis
    using parse_nat_digits [OF e] no_tail [OF e]
    by (auto simp: parse_number_def format_int_def)
qed

lemma marshal_hd: "\<exists>c cs. marshal j = c # cs \<and> \<not> json_space c \<and> c \<noteq> CHR '']'' \<and> c \<noteq> CHR ''}''"
proof (cases j)
  case (JInt i)
  obtain c cs where "format_int i = c # cs" using nat_digits_Cons [of "nat i"] by (cases "i < 0") (auto simp: format_int_def)
  moreover have "is_digit c \<or> c = CHR ''-''" using format_int_chars [of c i] calculation by simp
  ultimately show ?thesis using JInt by (auto simp: is_digit_def json_space_def)
qed (auto simp: json_string_def json_space_def)

lemma skip_marshal [simp]: "skip_space (marshal j @ rest) = marshal j @ rest"
  using marshal_hd [of j] by auto

lemma parse_marshalled_elements:
  assumes "js \<noteq> []" and "list_all (nests_within d) js"
    and "\<And>j rest. j \<in> set js \<Longrightarrow> nests_within d j \<Longrightarrow> ends_value rest \<Longrightarrow> parse_value d (marshal j @ rest) = Some (tree_of j, rest)"
  shows "parse_elements d (str_join '','' (map marshal js) @ CHR '']'' # rest) = Some (map tree_of js, rest)"
  using assms
proof (induction js)
  case (Cons j js)
  show ?case
  proof (cases "js = []")
    case True
    then show ?thesis using Cons.prems by (simp add: parse_elements.simps [of d] json_space_def)
  next
    case False
    let ?r = "str_join '','' (map marshal js) @ CHR '']'' # rest"
    have "parse_elements d ?r = Some (map tree_of js, rest)" using Cons False by simp
    moreover have "str_join '','' (map marshal (j # js)) @ CHR '']'' # rest = marshal j @ CHR '','' # ?r"
      using False by (cases js) simp_all
    moreover have "parse_value d (marshal j @ CHR '','' # ?r) = Some (tree_of j, CHR '','' # ?r)"
      using Cons.prems by simp
    ultimately show ?thesis by (simp add: parse_elements.simps [of d] json_space_def)
  qed
qed simp

abbreviation member_text :: "string \<times> json \<Rightarrow> string" where
  "member_text kv \<equiv> json_string (fst kv) @ CHR '':'' # marshal (snd kv)"

lemma parse_marshalled_members:
  assumes "kvs \<noteq> []" and "list_all (\<lambda>kv. nests_within d (snd kv)) kvs"
    and "\<And>kv rest. kv \<in> set kvs \<Longrightarrow> nests_within d (snd kv) \<Longrightarrow> ends_value rest \<Longrightarrow>
      parse_value d (marshal (snd kv) @ rest) = Some (tree_of (snd kv), rest)"
  shows "parse_members d (str_join '','' (map member_text kvs) @ CHR ''}'' # rest)
    = Some (map (\<lambda>kv. (to_valid (fst kv), marshal (snd kv), tree_of (snd kv))) kvs, rest)"
  using assms
proof (induction kvs)
  case (Cons kv kvs)
  obtain k v where kv: "kv = (k, v)" by fastforce
  have first: "parse_members d (member_text (k, v) @ e # r) =
      (if e = CHR ''}'' then Some ([(to_valid k, marshal v, tree_of v)], r)
       else map_option (\<lambda>(ms, r). ((to_valid k, marshal v, tree_of v) # ms, r)) (parse_members d r))"
    if "e \<in> {CHR ''}'', CHR '',''}" for e r
  proof -
    have "parse_value d (marshal v @ e # r) = Some (tree_of v, e # r)" using Cons.prems that kv by force
    moreover have "parse_chars (json_chars k @ quote_char # CHR '':'' # marshal v @ e # r)
        = Some (to_valid k, CHR '':'' # marshal v @ e # r)" by (rule parse_json_chars)
    ultimately show ?thesis
      using that by (auto simp: parse_members.simps [of d] json_string_def json_space_def Let_def)
  qed
  show ?case
  proof (cases "kvs = []")
    case True
    then show ?thesis using first kv by simp
  next
    case False
    then have "str_join '','' (map member_text (kv # kvs)) @ CHR ''}'' # rest
        = member_text kv @ CHR '','' # (str_join '','' (map member_text kvs) @ CHR ''}'' # rest)"
      by (cases kvs) simp_all
    then show ?thesis using first Cons False kv by simp
  qed
qed simp

theorem parse_marshal:
  "nests_within d j \<Longrightarrow> ends_value rest \<Longrightarrow> parse_value d (marshal j @ rest) = Some (tree_of j, rest)"
proof (induction j arbitrary: d rest)
  case JNull
  then show ?case by (simp add: parse_value.simps json_space_def has_prefix_def)
next
  case (JStr s)
  then show ?case by (simp add: parse_value.simps json_string_def json_space_def parse_json_chars)
next
  case (JInt i)
  obtain c cs where c: "format_int i = c # cs" "is_digit c \<or> c = CHR ''-''"
    using marshal_hd [of "JInt i"] format_int_chars by (metis list.set_intros(1) marshal.simps(3))
  moreover have "c \<noteq> quote_char \<and> c \<noteq> CHR ''['' \<and> c \<noteq> CHR ''{'' \<and> c \<noteq> CHR ''t'' \<and> c \<noteq> CHR ''f'' \<and> c \<noteq> CHR ''n'' \<and> \<not> json_space c"
    using c(2) by (auto simp: is_digit_def json_space_def)
  ultimately show ?case
    using parse_format_int [OF JInt(2), of i] by (simp add: parse_value.simps has_prefix_def)
next
  case (JBool b)
  then show ?case by (simp add: parse_value.simps json_space_def has_prefix_def)
next
  case (JArr js)
  show ?case
  proof (cases "js = []")
    case True
    then show ?thesis using JArr by (simp add: parse_value.simps json_space_def)
  next
    case False
    let ?t = "str_join '','' (map marshal js) @ CHR '']'' # rest"
    have "parse_elements (d - 1) ?t = Some (map tree_of js, rest)"
      using JArr False by (intro parse_marshalled_elements) simp_all
    moreover obtain c cs where "?t = c # cs" "\<not> json_space c" "c \<noteq> CHR '']''"
      using marshal_hd [of "hd js"] False by (cases js; cases "tl js") auto
    ultimately show ?thesis using JArr.prems by (auto simp: parse_value.simps json_space_def)
  qed
next
  case (JObj kvs)
  have members: "(\<lambda>(k, v). json_string k @ CHR '':'' # marshal v) = member_text"
    "(\<lambda>(k, v). (to_valid k, marshal v, tree_of v)) = (\<lambda>kv. (to_valid (fst kv), marshal (snd kv), tree_of (snd kv)))" by auto
  show ?case
  proof (cases "kvs = []")
    case True
    then show ?thesis using JObj by (simp add: parse_value.simps json_space_def)
  next
    case False
    let ?t = "str_join '','' (map member_text kvs) @ CHR ''}'' # rest"
    have "parse_members (d - 1) ?t = Some (map (\<lambda>kv. (to_valid (fst kv), marshal (snd kv), tree_of (snd kv))) kvs, rest)"
      using JObj False by (intro parse_marshalled_members) (auto simp: list_all_iff snds.simps split_beta)
    moreover obtain cs where "?t = quote_char # cs"
      using False by (cases kvs; cases "tl kvs") (auto simp: json_string_def)
    ultimately show ?thesis using JObj.prems by (simp add: parse_value.simps members json_space_def)
  qed
qed

lemma parse_json_marshal: "nests_within 10000 j \<Longrightarrow> parse_json (marshal j) = Some (tree_of j)"
  using parse_marshal [of 10000 j "[]"] by (simp add: parse_json_def)

text \<open>\<open>Marshal\<close> writes valid UTF-8, whatever bytes the strings hold.\<close>

definition rune_text :: "string \<Rightarrow> bool" where
  "rune_text s \<longleftrightarrow> (\<exists>rs. list_all valid_rune rs \<and> s = encode_runes rs)"

lemma rune_text_append: "rune_text s \<Longrightarrow> rune_text t \<Longrightarrow> rune_text (s @ t)"
  unfolding rune_text_def by (metis encode_runes_append list_all_append)

lemma rune_text_rune: "rune_text (encode_rune r)"
  by (auto simp: rune_text_def encode_runes_def encode_rune_def intro: exI [of _ "[if valid_rune r then r else RuneError]"])

lemma rune_text_Nil: "rune_text []"
  unfolding rune_text_def by (rule exI [of _ "[]"]) (simp add: encode_runes_def)

lemma rune_text_ascii: "ord c < 0x80 \<Longrightarrow> rune_text s \<Longrightarrow> rune_text (c # s)"
  using rune_text_append [OF rune_text_rune [of "ord c"], of s]
  by (simp add: encode_rune_def encode_valid_def valid_rune_def)

lemma rune_text_asciis: "list_all (\<lambda>c. ord c < 0x80) s \<Longrightarrow> rune_text s"
  by (induction s) (simp_all add: rune_text_Nil rune_text_ascii)

lemma rune_text_join: "(\<And>w. w \<in> set ws \<Longrightarrow> rune_text w) \<Longrightarrow> rune_text sep \<Longrightarrow> rune_text (str_join sep ws)"
  by (induction sep ws rule: str_join.induct) (simp_all add: rune_text_Nil rune_text_append)

lemma rune_text_json_rune: "rune_text (json_rune r)"
proof -
  have hex: "ord (hex_lower n) < 0x80" if "n < 16" for n using that by (simp add: hex_lower_def)
  have "rune_text (u_escape r)" by (rule rune_text_asciis) (simp add: u_escape_def hex)
  then show ?thesis by (auto simp: json_rune_def rune_text_rune intro!: rune_text_asciis)
qed

lemma rune_text_json_chars: "rune_text (json_chars s)"
proof (induction s rule: json_chars.induct)
  case (2 c cs)
  have "rune_text (u_escape RuneError)"
    by (rule rune_text_asciis) (simp add: u_escape_def hex_lower_def RuneError_def)
  then show ?case using 2 by (auto split: prod.split intro!: rune_text_append rune_text_json_rune)
qed (simp add: rune_text_Nil)

lemma rune_text_marshal: "rune_text (marshal j)"
proof (induction j)
  case JNull
  show ?case by (rule rune_text_asciis) simp
next
  case (JStr s)
  show ?case by (auto simp: json_string_def intro!: rune_text_ascii rune_text_append rune_text_json_chars rune_text_Nil)
next
  case (JInt i)
  have "ord c < 0x80" if "c \<in> set (format_int i)" for c using format_int_chars [OF that] by (auto simp: is_digit_def)
  then show ?case by (auto simp: list_all_iff intro: rune_text_asciis)
next
  case (JBool b)
  show ?case by (rule rune_text_asciis) simp
next
  case (JArr js)
  then show ?case by (auto intro!: rune_text_ascii rune_text_append rune_text_join rune_text_Nil)
next
  case (JObj kvs)
  then show ?case
    by (auto simp: json_string_def intro!: rune_text_ascii rune_text_append rune_text_join rune_text_json_chars rune_text_Nil)
qed

lemma valid_marshal [simp]: "valid_utf8 (marshal j)"
  using rune_text_marshal [of j] valid_utf8_encode by (auto simp: rune_text_def)

text \<open>No control character stands in it, so it is one line.\<close>

abbreviation printable :: "string \<Rightarrow> bool" where
  "printable s \<equiv> list_all (\<lambda>c. 0x20 \<le> ord c) s"

lemma printable_rune: "0x20 \<le> r \<Longrightarrow> printable (encode_rune r)"
proof -
  have "(240 + r div 262144) mod 256 = 240 + r div 262144" if "r \<le> 1114111"
    using div_le_mono [OF that, of 262144] by simp
  then show "0x20 \<le> r \<Longrightarrow> printable (encode_rune r)"
    by (auto simp: encode_rune_def encode_valid_def valid_rune_def RuneError_def)
qed

lemma printable_join: "(\<And>w. w \<in> set ws \<Longrightarrow> printable w) \<Longrightarrow> printable sep \<Longrightarrow> printable (str_join sep ws)"
  by (induction sep ws rule: str_join.induct) simp_all

lemma printable_json_rune: "printable (json_rune r)"
proof -
  have hex: "0x20 \<le> ord (hex_lower n)" if "n < 16" for n using that by (simp add: hex_lower_def)
  then have "printable (u_escape r)" by (simp add: u_escape_def)
  then show ?thesis using printable_rune [of r] by (auto simp: json_rune_def)
qed

lemma printable_json_chars: "printable (json_chars s)"
proof (induction s rule: json_chars.induct)
  case (2 c cs)
  have "printable (u_escape RuneError)" by (simp add: u_escape_def hex_lower_def RuneError_def)
  then show ?case using 2 printable_json_rune by (auto split: prod.split)
qed simp

lemma printable_marshal: "printable (marshal j)"
proof (induction j)
  case (JInt i)
  have "0x20 \<le> ord c" if "c \<in> set (format_int i)" for c using format_int_chars [OF that] by (auto simp: is_digit_def)
  then show ?case by (simp add: list_all_iff)
next
  case (JArr js)
  have "printable (str_join '','' (map marshal js))" using JArr by (intro printable_join) auto
  then show ?case by simp
next
  case (JObj kvs)
  have "printable (str_join '','' (map (\<lambda>(k, v). json_string k @ '':'' @ marshal v) kvs))"
    using JObj printable_json_chars by (intro printable_join) (auto simp: json_string_def)
  then show ?case by simp
qed (simp_all add: json_string_def printable_json_chars)

end
