(* ===== verification/Unmarshal.thy ===== *)
theory Unmarshal
  imports Json HttpMode Normalize "HOL-Library.AList"
begin

text \<open>
  \<open>json.Unmarshal\<close> into the types the code declares. A reader takes a value and what the target holds
  and gives what it holds afterwards, or \<open>None\<close> when \<open>Unmarshal\<close> returns an error; the text of the error is not
  modelled, since no caller looks at it. A struct is a list of named fields: a member goes to the field of its
  name, else to the first one whose name is equal up to case, else nowhere. \<open>null\<close> leaves strings, numbers, booleans
  and structs alone. The lemma \<open>read_struct_members\<close> says when a struct is read whole, whatever the order of
  the members and whatever stands between them.
\<close>

section \<open>Basic types\<close>

type_synonym 'a reader = "jtree \<Rightarrow> 'a \<Rightarrow> 'a option"

definition read_string :: "string reader" where
  "read_string v x = (case v of TStr s \<Rightarrow> Some s | TNull \<Rightarrow> Some x | _ \<Rightarrow> None)"

definition read_bool :: "bool reader" where
  "read_bool v x = (case v of TBool b \<Rightarrow> Some b | TNull \<Rightarrow> Some x | _ \<Rightarrow> None)"

definition read_int64 :: "int reader" where
  "read_int64 v x = (case v of TNum n \<Rightarrow> ParseInt n | TNull \<Rightarrow> Some x | _ \<Rightarrow> None)"

text \<open>An element of a slice is read onto the element that stood at its place.\<close>

fun read_items :: "'a reader \<Rightarrow> 'a \<Rightarrow> jtree list \<Rightarrow> 'a list \<Rightarrow> 'a list option" where
  "read_items rd zero [] old = Some []"
| "read_items rd zero (v # vs) old =
     (case rd v (case old of [] \<Rightarrow> zero | x # _ \<Rightarrow> x) of
        None \<Rightarrow> None
      | Some y \<Rightarrow> map_option ((#) y) (read_items rd zero vs (tl old)))"

definition read_slice :: "'a reader \<Rightarrow> 'a \<Rightarrow> 'a list reader" where
  "read_slice rd zero v old =
     (case v of TArr vs \<Rightarrow> read_items rd zero vs old | TNull \<Rightarrow> Some [] | _ \<Rightarrow> None)"

text \<open>The members of a \<open>map[string]string\<close> are added to the map that is there.\<close>

fun read_entries :: "(string \<times> string \<times> jtree) list \<Rightarrow> (string \<rightharpoonup> string) \<Rightarrow> (string \<rightharpoonup> string) option" where
  "read_entries [] m = Some m"
| "read_entries ((k, raw, v) # ms) m =
     (case read_string v [] of None \<Rightarrow> None | Some s \<Rightarrow> read_entries ms (m(k \<mapsto> s)))"

definition read_map :: "(string \<rightharpoonup> string) reader" where
  "read_map v m = (case v of TObj ms \<Rightarrow> read_entries ms m | TNull \<Rightarrow> Some Map.empty | _ \<Rightarrow> None)"

section \<open>Interface values\<close>

text \<open>
  A number becomes a \<open>float64\<close>, and one that is too large is an error: \<open>ParseFloat\<close> rounds to even, so the first
  value that overflows lies half a step above the greatest \<open>float64\<close>. Its exponent stops growing at 10000.
\<close>

definition float_exponent :: "string \<Rightarrow> int" where
  "float_exponent s =
     (let value = (\<lambda>ds. foldl (\<lambda>e c. if e < 10000 then 10 * e + int (digit_value c) else e) 0 ds) in
      case s of
        [] \<Rightarrow> 0
      | _ # cs \<Rightarrow>
          (case cs of
             [] \<Rightarrow> 0
           | g # ds \<Rightarrow> if g = CHR ''-'' then - value ds else if g = CHR ''+'' then value ds else value cs))"

definition float_in_range :: "string \<Rightarrow> bool" where
  "float_in_range n =
     (let s = dropWhile (\<lambda>c. c = CHR ''-'') n;
          whole = takeWhile is_digit s; s1 = dropWhile is_digit s;
          frac = (case s1 of [] \<Rightarrow> [] | c # cs \<Rightarrow> if c = CHR ''.'' then takeWhile is_digit cs else []);
          s2 = dropWhile (\<lambda>c. is_digit c \<or> c = CHR ''.'') s1;
          k = float_exponent s2 - int (length frac);
          limit = 2 ^ 1024 - 2 ^ 970
      in if 0 \<le> k then digits_value (whole @ frac) * 10 ^ nat k < limit
         else digits_value (whole @ frac) < limit * 10 ^ nat (- k))"

fun interface_value :: "jtree \<Rightarrow> jval option" where
  "interface_value TNull = Some VOther"
| "interface_value (TBool b) = Some VOther"
| "interface_value (TNum n) = (if float_in_range n then Some VOther else None)"
| "interface_value (TStr s) = Some (VStr s)"
| "interface_value (TArr vs) = map_option VArr (those (map interface_value vs))"
| "interface_value (TObj ms) =
     map_option (\<lambda>kvs. VObj (foldl (\<lambda>m (k, v). AList.update k v m) [] kvs))
       (those (map (\<lambda>(k, _, v). map_option (Pair k) (interface_value v)) ms))"

definition read_jmap :: "string \<Rightarrow> jmap option" where
  "read_jmap s =
     (case parse_json s of
        Some TNull \<Rightarrow> Some []
      | Some (TObj ms) \<Rightarrow> (case interface_value (TObj ms) of Some (VObj m) \<Rightarrow> Some m | _ \<Rightarrow> None)
      | _ \<Rightarrow> None)"

section \<open>Structs\<close>

text \<open>
  \<open>foldName\<close> of \<open>encoding/json\<close>, as far as it can reach an ASCII name: besides the letters only U+017F and
  U+212A fold to one.
\<close>

definition fold_rune :: "nat \<Rightarrow> nat" where
  "fold_rune r = (if 97 \<le> r \<and> r \<le> 122 then r - 32 else if r = 0x17F then 83 else if r = 0x212A then 75 else r)"

definition fold_name :: "string \<Rightarrow> nat list" where
  "fold_name k = map fold_rune (decode_runes k)"

text \<open>A field takes the text of the member's value, its value and the struct.\<close>

type_synonym 'r field = "string \<times> (string \<Rightarrow> jtree \<Rightarrow> 'r \<Rightarrow> 'r option)"

definition struct_field ::
  "string \<Rightarrow> ('r \<Rightarrow> 'a) \<Rightarrow> (('a \<Rightarrow> 'a) \<Rightarrow> 'r \<Rightarrow> 'r) \<Rightarrow> 'a reader \<Rightarrow> 'r field" where
  "struct_field name get upd rd = (name, \<lambda>raw v r. map_option (\<lambda>y. upd (\<lambda>_. y) r) (rd v (get r)))"

text \<open>A \<open>json.RawMessage\<close> takes the text, also of \<open>null\<close>.\<close>

definition raw_field :: "string \<Rightarrow> ((string \<Rightarrow> string) \<Rightarrow> 'r \<Rightarrow> 'r) \<Rightarrow> 'r field" where
  "raw_field name upd = (name, \<lambda>raw v r. Some (upd (\<lambda>_. raw) r))"

definition find_field :: "'r field list \<Rightarrow> string \<Rightarrow> (string \<Rightarrow> jtree \<Rightarrow> 'r \<Rightarrow> 'r option) option" where
  "find_field fs k =
     (case map_of fs k of
        Some f \<Rightarrow> Some f
      | None \<Rightarrow> map_option snd (find (\<lambda>(n, _). fold_name n = fold_name k) fs))"

fun read_members :: "'r field list \<Rightarrow> (string \<times> string \<times> jtree) list \<Rightarrow> 'r \<Rightarrow> 'r option" where
  "read_members fs [] r = Some r"
| "read_members fs ((k, raw, v) # ms) r =
     (case find_field fs k of
        None \<Rightarrow> read_members fs ms r
      | Some f \<Rightarrow> (case f raw v r of None \<Rightarrow> None | Some r' \<Rightarrow> read_members fs ms r'))"

definition read_struct :: "'r field list \<Rightarrow> 'r reader" where
  "read_struct fs v r = (case v of TObj ms \<Rightarrow> read_members fs ms r | TNull \<Rightarrow> Some r | _ \<Rightarrow> None)"

definition unmarshal :: "'r reader \<Rightarrow> 'r \<Rightarrow> string \<Rightarrow> 'r option" where
  "unmarshal rd zero s = (case parse_json s of None \<Rightarrow> None | Some v \<Rightarrow> rd v zero)"

section \<open>Reading a struct whole\<close>

lemma find_field_SomeD:
  assumes "find_field fs k = Some f"
  shows "\<exists>n. (n, f) \<in> set fs \<and> fold_name n = fold_name k"
  using assms by (auto simp: find_field_def find_Some_iff split: option.splits dest!: map_of_SomeD) (metis nth_mem)

lemma find_field_NoneD: "find_field fs k = None \<Longrightarrow> (n, f) \<in> set fs \<Longrightarrow> fold_name n \<noteq> fold_name k"
  by (auto simp: find_field_def find_None_iff split: option.splits)

lemma find_field_exact: "distinct (map fst fs) \<Longrightarrow> (n, f) \<in> set fs \<Longrightarrow> find_field fs n = Some f"
  by (simp add: find_field_def)

text \<open>
  \<open>agrees n x y\<close> is to say that two structs have the same value in the field \<open>n\<close>. A member sets its field when it
  makes the struct agree with the target there, from a struct whose field is still zero, and changes no other.
\<close>

definition sets_field ::
  "(string \<Rightarrow> 'r \<Rightarrow> 'r \<Rightarrow> bool) \<Rightarrow> string \<Rightarrow> 'r \<Rightarrow> 'r \<Rightarrow> ('r \<Rightarrow> 'r option) \<Rightarrow> bool" where
  "sets_field agrees n zero target f \<longleftrightarrow>
     (\<forall>x. agrees n x zero \<longrightarrow>
        (\<exists>y. f x = Some y \<and> agrees n y target \<and> (\<forall>m z. m \<noteq> n \<and> agrees m x z \<longrightarrow> agrees m y z)))"

lemma read_members_whole:
  assumes "distinct (map (fold_name \<circ> fst) ms)"
    and "\<And>k raw v f n. (k, raw, v) \<in> set ms \<Longrightarrow> (n, f) \<in> set fs \<Longrightarrow> fold_name n = fold_name k \<Longrightarrow>
      sets_field agrees n zero target (f raw v)"
    and "\<And>n f k raw v. (n, f) \<in> set fs \<Longrightarrow> (k, raw, v) \<in> set ms \<Longrightarrow> fold_name n = fold_name k \<Longrightarrow> agrees n x zero"
    and "distinct (map (fold_name \<circ> fst) fs)"
  shows "\<exists>y. read_members fs ms x = Some y
    \<and> (\<forall>(n, f) \<in> set fs. if \<exists>(k, raw, v) \<in> set ms. fold_name n = fold_name k
        then agrees n y target else \<forall>z. agrees n x z \<longrightarrow> agrees n y z)"
  using assms(1,2,3)
proof (induction ms arbitrary: x)
  case Nil
  then show ?case by auto
next
  case (Cons m ms)
  obtain k raw v where m: "m = (k, raw, v)" by (rule prod_cases3)
  have once: "n = n' \<and> f = f'" if "(n, f) \<in> set fs" "(n', f') \<in> set fs" "fold_name n = fold_name n'" for n n' f f'
    using assms(4) that by (fastforce simp: distinct_map inj_on_def)
  have tl: "distinct (map (fold_name \<circ> fst) ms)" "fold_name k \<notin> (fold_name \<circ> fst) ` set ms"
    using Cons.prems(1) m by (simp_all add: comp_def)
  have set: "sets_field agrees n zero target (f raw v)"
    if "(k, raw, v) \<in> set ms" "(n, f) \<in> set fs" "fold_name n = fold_name k" for k raw v f n
    by (rule Cons.prems(2)) (use that in auto)
  have fresh: "agrees n x zero" if "(n, f) \<in> set fs" "(k, raw, v) \<in> set ms" "fold_name n = fold_name k" for n f k raw v
    by (rule Cons.prems(3)) (use that in auto)
  show ?case
  proof (cases "find_field fs k")
    case None
    have "\<exists>y. read_members fs ms x = Some y
        \<and> (\<forall>(n, f) \<in> set fs. if \<exists>(k, raw, v) \<in> set ms. fold_name n = fold_name k
            then agrees n y target else \<forall>z. agrees n x z \<longrightarrow> agrees n y z)"
    proof (rule Cons.IH)
      show "distinct (map (fold_name \<circ> fst) ms)" by (rule tl(1))
      show "sets_field agrees n zero target (f raw v)"
        if "(k, raw, v) \<in> set ms" "(n, f) \<in> set fs" "fold_name n = fold_name k" for k raw v f n
        by (rule set [OF that])
      show "agrees n x zero" if "(n, f) \<in> set fs" "(k, raw, v) \<in> set ms" "fold_name n = fold_name k" for n f k raw v
        by (rule fresh [OF that])
    qed
    then obtain y where y: "read_members fs ms x = Some y"
      "\<And>l g. (l, g) \<in> set fs \<Longrightarrow> if \<exists>(k, raw, v) \<in> set ms. fold_name l = fold_name k
          then agrees l y target else \<forall>z. agrees l x z \<longrightarrow> agrees l y z" by blast
    have "if \<exists>(k, raw, v) \<in> set (m # ms). fold_name l = fold_name k
        then agrees l y target else \<forall>z. agrees l x z \<longrightarrow> agrees l y z" if l: "(l, g) \<in> set fs" for l g
      using y(2) [OF l] find_field_NoneD [OF None l] m by auto
    then have "\<forall>(l, g) \<in> set fs. if \<exists>(k, raw, v) \<in> set (m # ms). fold_name l = fold_name k
        then agrees l y target else \<forall>z. agrees l x z \<longrightarrow> agrees l y z"
      unfolding Ball_def split_paired_All prod.case by blast
    moreover have "read_members fs (m # ms) x = Some y" using None y(1) m by simp
    ultimately show ?thesis by blast
  next
    case (Some f)
    then obtain n where n: "(n, f) \<in> set fs" "fold_name n = fold_name k" using find_field_SomeD by metis
    have "agrees n x zero" by (rule Cons.prems(3)) (use n m in auto)
    moreover have "sets_field agrees n zero target (f raw v)" by (rule Cons.prems(2)) (use n m in auto)
    ultimately obtain x1 where x1: "f raw v x = Some x1" "agrees n x1 target"
      "\<And>l z. l \<noteq> n \<Longrightarrow> agrees l x z \<Longrightarrow> agrees l x1 z" unfolding sets_field_def by blast
    have other: "l \<noteq> n" if "(l, g) \<in> set fs" "(k', raw', v') \<in> set ms" "fold_name l = fold_name k'" for l g k' raw' v'
      using that tl(2) n(2) by (force simp: image_iff)
    have "\<exists>y. read_members fs ms x1 = Some y
        \<and> (\<forall>(n, f) \<in> set fs. if \<exists>(k, raw, v) \<in> set ms. fold_name n = fold_name k
            then agrees n y target else \<forall>z. agrees n x1 z \<longrightarrow> agrees n y z)"
    proof (rule Cons.IH)
      show "distinct (map (fold_name \<circ> fst) ms)" by (rule tl(1))
      show "sets_field agrees n zero target (f raw v)"
        if "(k, raw, v) \<in> set ms" "(n, f) \<in> set fs" "fold_name n = fold_name k" for k raw v f n
        by (rule set [OF that])
      show "agrees l x1 zero" if "(l, g) \<in> set fs" "(k', raw', v') \<in> set ms" "fold_name l = fold_name k'"
        for l g k' raw' v'
        by (rule x1(3) [OF other [OF that] fresh [OF that]])
    qed
    then obtain y where y: "read_members fs ms x1 = Some y"
      "\<And>l g. (l, g) \<in> set fs \<Longrightarrow> if \<exists>(k, raw, v) \<in> set ms. fold_name l = fold_name k
          then agrees l y target else \<forall>z. agrees l x1 z \<longrightarrow> agrees l y z" by blast
    have "if \<exists>(k, raw, v) \<in> set (m # ms). fold_name l = fold_name k
        then agrees l y target else \<forall>z. agrees l x z \<longrightarrow> agrees l y z" if l: "(l, g) \<in> set fs" for l g
    proof (cases "l = n")
      case True
      have "\<not> (\<exists>(k, raw, v) \<in> set ms. fold_name l = fold_name k)" using other [OF l] True by blast
      then show ?thesis using y(2) [OF l] x1(2) True n(2) m by auto
    next
      case False
      then have "fold_name l \<noteq> fold_name k" using once [OF l n(1)] n(2) by auto
      then show ?thesis using y(2) [OF l] x1(3) [OF False] m by auto
    qed
    then have "\<forall>(l, g) \<in> set fs. if \<exists>(k, raw, v) \<in> set (m # ms). fold_name l = fold_name k
        then agrees l y target else \<forall>z. agrees l x z \<longrightarrow> agrees l y z"
      unfolding Ball_def split_paired_All prod.case by blast
    moreover have "read_members fs (m # ms) x = Some y" using Some x1(1) y(1) m by simp
    ultimately show ?thesis by blast
  qed
qed

text \<open>
  An object that has these members, in any order and with any others between them, but no two names that are
  equal up to case; and one without a member of a name.
\<close>

definition has_members :: "(string \<times> json) list \<Rightarrow> (string \<times> json) list \<Rightarrow> bool" where
  "has_members members kvs \<longleftrightarrow> distinct (map (\<lambda>kv. fold_name (to_valid (fst kv))) kvs) \<and> set members \<subseteq> set kvs"

definition lacks :: "string \<Rightarrow> (string \<times> json) list \<Rightarrow> bool" where
  "lacks n kvs \<longleftrightarrow> (\<forall>kv \<in> set kvs. fold_name (to_valid (fst kv)) \<noteq> fold_name n)"

definition object_with :: "(string \<times> json) list \<Rightarrow> (string \<times> json) list \<Rightarrow> bool" where
  "object_with members kvs \<longleftrightarrow> nests_within 10000 (JObj kvs) \<and> has_members members kvs"

lemma unmarshal_marshal: "nests_within 10000 j \<Longrightarrow> unmarshal rd zero (marshal j) = rd (tree_of j) zero"
  by (simp add: unmarshal_def parse_json_marshal)

text \<open>
  Such an object is read whole when every field either has a member that sets it or has none and is zero in the
  target.
\<close>

lemma read_object:
  assumes "distinct (map (\<lambda>kv. fold_name (to_valid (fst kv))) kvs)"
    and "distinct (map (fold_name \<circ> fst) fs)"
    and "\<And>n f. (n, f) \<in> set fs \<Longrightarrow> to_valid n = n \<and> agrees n zero zero"
    and "\<And>n f. (n, f) \<in> set fs \<Longrightarrow>
      (\<exists>j. (n, j) \<in> set kvs \<and> sets_field agrees n zero target (f (marshal j) (tree_of j)))
      \<or> agrees n zero target \<and> lacks n kvs"
  shows "\<exists>y. read_struct fs (tree_of (JObj kvs)) zero = Some y \<and> (\<forall>(n, f) \<in> set fs. agrees n y target)"
proof -
  define ms where "ms = map (\<lambda>(k, v). (to_valid k, marshal v, tree_of v)) kvs"
  have u: "read_struct fs (tree_of (JObj kvs)) zero = read_members fs ms zero"
    by (simp add: read_struct_def ms_def)
  have distinct: "distinct (map (fold_name \<circ> fst) ms)"
    using assms(1) by (simp add: ms_def comp_def split_beta)
  have sets: "sets_field agrees n zero target (f raw v)"
    if p: "(k, raw, v) \<in> set ms" "(n, f) \<in> set fs" "fold_name n = fold_name k" for k raw v f n
  proof -
    obtain k0 j0 where m: "(k0, j0) \<in> set kvs" "k = to_valid k0" "raw = marshal j0" "v = tree_of j0"
      using p(1) by (auto simp: ms_def)
    obtain j where j: "(n, j) \<in> set kvs" "sets_field agrees n zero target (f (marshal j) (tree_of j))"
      using assms(4) [OF p(2)] m(1,2) p(3) by (fastforce simp: lacks_def)
    have "(k0, j0) = (n, j)"
      using assms(1) m(1,2) j(1) p(3) assms(3) [OF p(2)] by (force simp: distinct_map inj_on_def)
    then show ?thesis using j(2) m(3,4) by simp
  qed
  have "\<exists>y. read_members fs ms zero = Some y
    \<and> (\<forall>(n, f) \<in> set fs. if \<exists>(k, raw, v) \<in> set ms. fold_name n = fold_name k
        then agrees n y target else \<forall>z. agrees n zero z \<longrightarrow> agrees n y z)"
  proof (rule read_members_whole [OF distinct])
    show "sets_field agrees n zero target (f raw v)"
      if "(k, raw, v) \<in> set ms" "(n, f) \<in> set fs" "fold_name n = fold_name k" for k raw v f n
      by (rule sets [OF that])
    show "agrees n zero zero" if "(n, f) \<in> set fs" "(k, raw, v) \<in> set ms" "fold_name n = fold_name k" for n f k raw v
      using assms(3) [OF that(1)] by blast
    show "distinct (map (fold_name \<circ> fst) fs)" by (rule assms(2))
  qed
  then obtain y where y: "read_members fs ms zero = Some y"
    "\<And>n f. (n, f) \<in> set fs \<Longrightarrow> if \<exists>(k, raw, v) \<in> set ms. fold_name n = fold_name k
        then agrees n y target else \<forall>z. agrees n zero z \<longrightarrow> agrees n y z" by blast
  have "agrees n y target" if "(n, f) \<in> set fs" for n f
    using assms(4) [OF that]
  proof (elim disjE exE conjE)
    fix j
    assume "(n, j) \<in> set kvs"
    then have "(to_valid n, marshal j, tree_of j) \<in> set ms" by (force simp: ms_def)
    then show ?thesis using y(2) [OF that] assms(3) [OF that] by (metis (mono_tags, lifting) case_prodI)
  next
    assume a: "agrees n zero target" "lacks n kvs"
    have "\<not> (\<exists>(k, raw, v) \<in> set ms. fold_name n = fold_name k)" using a(2) by (fastforce simp: ms_def lacks_def)
    then show ?thesis using y(2) [OF that] a(1) by simp
  qed
  then show ?thesis using u y(1) by auto
qed

text \<open>The same with the members listed in the order of the fields they set; the rest of the fields have none.\<close>

lemma read_object_with:
  assumes "has_members ms kvs" and "distinct (map (fold_name \<circ> fst) (fs @ rest))"
    and "list_all (\<lambda>F. to_valid (fst F) = fst F) (fs @ rest)" and "\<And>n x. agrees n x x"
    and "list_all2 (\<lambda>F m. fst F = fst m \<and> sets_field agrees (fst F) zero target (snd F (marshal (snd m)) (tree_of (snd m)))) fs ms"
    and "list_all (\<lambda>F. agrees (fst F) zero target \<and> lacks (fst F) kvs) rest"
  shows "\<exists>y. read_struct (fs @ rest) (tree_of (JObj kvs)) zero = Some y \<and> (\<forall>(n, f) \<in> set (fs @ rest). agrees n y target)"
proof (rule read_object [OF _ assms(2)])
  show "distinct (map (\<lambda>kv. fold_name (to_valid (fst kv))) kvs)" using assms(1) by (simp add: has_members_def)
  show "to_valid n = n \<and> agrees n zero zero" if "(n, f) \<in> set (fs @ rest)" for n f
    using bspec [OF assms(3) [unfolded list_all_iff] that] assms(4) by simp
  show "(\<exists>j. (n, j) \<in> set kvs \<and> sets_field agrees n zero target (f (marshal j) (tree_of j)))
      \<or> agrees n zero target \<and> lacks n kvs"
    if n: "(n, f) \<in> set (fs @ rest)" for n f
  proof (cases "(n, f) \<in> set fs")
    case True
    then obtain i where i: "i < length fs" "fs ! i = (n, f)" by (metis in_set_conv_nth)
    then obtain j where "ms ! i = (n, j)" "sets_field agrees n zero target (f (marshal j) (tree_of j))"
      using list_all2_nthD [OF assms(5) i(1)] by (metis fst_conv snd_conv prod.collapse)
    moreover have "ms ! i \<in> set ms" using list_all2_lengthD [OF assms(5)] i(1) by (intro nth_mem) simp
    ultimately show ?thesis using assms(1) unfolding has_members_def by (metis subsetD)
  next
    case False
    then show ?thesis using assms(6) n by (auto simp: list_all_iff)
  qed
qed

corollary read_object_all:
  assumes "has_members ms kvs" and "distinct (map (fold_name \<circ> fst) fs)"
    and "list_all (\<lambda>F. to_valid (fst F) = fst F) fs" and "\<And>n x. agrees n x x"
    and "list_all2 (\<lambda>F m. fst F = fst m \<and> sets_field agrees (fst F) zero target (snd F (marshal (snd m)) (tree_of (snd m)))) fs ms"
  shows "\<exists>y. read_struct fs (tree_of (JObj kvs)) zero = Some y \<and> (\<forall>(n, f) \<in> set fs. agrees n y target)"
  using read_object_with [where rest = "[]" and fs = fs, OF assms(1) _ _ assms(4,5)] assms(2,3)
  by (simp del: tree_of.simps)

text \<open>\<open>Unmarshal\<close> of an object with a member for every field.\<close>

lemma unmarshal_object:
  assumes "object_with ms kvs" and "distinct (map (fold_name \<circ> fst) fs)" and "list_all (\<lambda>F. to_valid (fst F) = fst F) fs"
    and "\<And>n x. agrees n x x"
    and "list_all2 (\<lambda>F m. fst F = fst m \<and> sets_field agrees (fst F) zero target (snd F (marshal (snd m)) (tree_of (snd m)))) fs ms"
    and "\<And>y. list_all (\<lambda>F. agrees (fst F) y target) fs \<Longrightarrow> y = target"
  shows "unmarshal (read_struct fs) zero (marshal (JObj kvs)) = Some target"
proof -
  obtain y where "read_struct fs (tree_of (JObj kvs)) zero = Some y" "list_all (\<lambda>F. agrees (fst F) y target) fs"
    using read_object_all [OF _ assms(2-5)] assms(1) by (fastforce simp: list_all_iff object_with_def simp del: tree_of.simps)
  with assms(6) have "read_struct fs (tree_of (JObj kvs)) zero = Some target" by simp
  then show ?thesis
    using assms(1) by (simp add: unmarshal_marshal object_with_def del: marshal.simps tree_of.simps nests_within.simps)
qed

text \<open>An object with the given members, where one whose value is zero may be missing.\<close>

definition zero_json :: "json \<Rightarrow> bool" where "zero_json j \<longleftrightarrow> j = JStr [] \<or> j = JInt 0"

definition sends :: "(string \<times> json) list \<Rightarrow> (string \<times> json) list \<Rightarrow> bool" where
  "sends ms kvs \<longleftrightarrow> nests_within 10000 (JObj kvs) \<and> distinct (map (\<lambda>kv. fold_name (to_valid (fst kv))) kvs)
     \<and> (\<forall>(n, j) \<in> set ms. (n, j) \<in> set kvs \<or> zero_json j \<and> lacks n kvs)"

lemma unmarshal_sent:
  assumes "sends ms kvs" and "distinct (map (fold_name \<circ> fst) fs)" and "list_all (\<lambda>F. to_valid (fst F) = fst F) fs"
    and "\<And>n x. agrees n x x"
    and "list_all2 (\<lambda>F m. fst F = fst m \<and> sets_field agrees (fst F) zero target (snd F (marshal (snd m)) (tree_of (snd m)))
      \<and> (zero_json (snd m) \<longrightarrow> agrees (fst F) zero target)) fs ms"
    and "\<And>y. list_all (\<lambda>F. agrees (fst F) y target) fs \<Longrightarrow> y = target"
  shows "unmarshal (read_struct fs) zero (marshal (JObj kvs)) = Some target"
proof -
  have "\<exists>y. read_struct fs (tree_of (JObj kvs)) zero = Some y \<and> (\<forall>(n, f) \<in> set fs. agrees n y target)"
  proof (rule read_object [OF _ assms(2)])
    show "distinct (map (\<lambda>kv. fold_name (to_valid (fst kv))) kvs)" using assms(1) by (simp add: sends_def)
    show "to_valid n = n \<and> agrees n zero zero" if "(n, f) \<in> set fs" for n f
      using bspec [OF assms(3) [unfolded list_all_iff] that] assms(4) by simp
    show "(\<exists>j. (n, j) \<in> set kvs \<and> sets_field agrees n zero target (f (marshal j) (tree_of j)))
        \<or> agrees n zero target \<and> lacks n kvs"
      if n: "(n, f) \<in> set fs" for n f
    proof -
      obtain i where i: "i < length fs" "fs ! i = (n, f)" using n by (metis in_set_conv_nth)
      then obtain j where j: "ms ! i = (n, j)" "sets_field agrees n zero target (f (marshal j) (tree_of j))"
        "zero_json j \<longrightarrow> agrees n zero target"
        using list_all2_nthD [OF assms(5) i(1)] by (metis fst_conv snd_conv prod.collapse)
      have "ms ! i \<in> set ms" using list_all2_lengthD [OF assms(5)] i(1) by (intro nth_mem) simp
      then have "(n, j) \<in> set kvs \<or> zero_json j \<and> lacks n kvs" using assms(1) j(1) unfolding sends_def by auto
      then show ?thesis using j(2,3) by blast
    qed
  qed
  then obtain y where "read_struct fs (tree_of (JObj kvs)) zero = Some y" "list_all (\<lambda>F. agrees (fst F) y target) fs"
    by (fastforce simp: list_all_iff)
  with assms(6) have "read_struct fs (tree_of (JObj kvs)) zero = Some target" by simp
  then show ?thesis using assms(1) by (simp add: unmarshal_marshal sends_def del: marshal.simps tree_of.simps nests_within.simps)
qed

lemma field_name [simp]: "fst (struct_field n get upd rd) = n" "fst (raw_field n upd') = n"
  by (simp_all add: struct_field_def raw_field_def)

lemma sets_struct_field:
  assumes "\<And>x. agrees n x zero \<Longrightarrow> rd v (get x) = Some w"
    and "\<And>x. agrees n (upd (\<lambda>_. w) x) target"
    and "\<And>x m z. m \<noteq> n \<Longrightarrow> agrees m x z \<Longrightarrow> agrees m (upd (\<lambda>_. w) x) z"
  shows "sets_field agrees n zero target (snd (struct_field name get upd rd) raw v)"
  using assms by (simp add: sets_field_def struct_field_def)

lemma sets_raw_field:
  assumes "\<And>x. agrees n (upd (\<lambda>_. raw) x) target"
    and "\<And>x m z. m \<noteq> n \<Longrightarrow> agrees m x z \<Longrightarrow> agrees m (upd (\<lambda>_. raw) x) z"
  shows "sets_field agrees n zero target (snd (raw_field name upd) raw v)"
  using assms by (simp add: sets_field_def raw_field_def)

text \<open>Reading back values the code writes, or is sent, field by field.\<close>

lemma read_back [simp]:
  "valid_utf8 s \<Longrightarrow> read_string (tree_of (JStr s)) x = Some s"
  "read_bool (tree_of (JBool b)) c = Some b"
  "int64_ok i \<Longrightarrow> read_int64 (tree_of (JInt i)) k = Some i"
  by (simp_all add: read_string_def read_bool_def read_int64_def valid_utf8_def ParseInt_format)

lemma read_slice_back:
  assumes "\<And>a y. a \<in> set as \<Longrightarrow> rd (tree_of (f a)) y = Some a"
  shows "read_slice rd zero (tree_of (JArr (map f as))) old = Some as"
proof -
  have "read_items rd zero (map tree_of (map f as)) old = Some as"
    using assms by (induction as arbitrary: old) auto
  then show ?thesis by (simp add: read_slice_def)
qed

lemma read_map_back:
  assumes "distinct (map fst hs)" and "list_all (\<lambda>(k, v). valid_utf8 k \<and> valid_utf8 v) hs"
  shows "read_map (tree_of (JObj (map (\<lambda>(k, v). (k, JStr v)) hs))) Map.empty = Some (map_of hs)"
proof -
  have "read_entries (map (\<lambda>(k, v). (to_valid k, marshal v, tree_of v)) (map (\<lambda>(k, v). (k, JStr v)) hs)) m = Some (m ++ map_of hs)" for m
    using assms
  proof (induction hs arbitrary: m)
    case (Cons h hs)
    obtain k v where h: "h = (k, v)" by fastforce
    then have "map_of hs k = None" "to_valid k = k" "to_valid v = v"
      using Cons.prems by (simp_all add: map_of_eq_None_iff valid_utf8_def)
    then show ?case using Cons h by (auto simp: read_string_def map_add_def fun_eq_iff split: option.splits)
  qed simp
  from this [of Map.empty] show ?thesis by (simp add: read_map_def)
qed

text \<open>Letters of ASCII are folded alone, so plain names can be compared.\<close>

lemma to_valid_ascii: "list_all (\<lambda>c. ord c < 0x80) s \<Longrightarrow> to_valid s = s"
proof (induction s)
  case (Cons c cs)
  then have "decode_rune c cs = (ord c, 1)" "valid_rune (ord c)" by (simp_all add: decode_rune_def valid_rune_def)
  then show ?case
    using Cons by (simp add: to_valid_def encode_runes_def encode_rune_def encode_valid_def)
qed (simp add: to_valid_def encode_runes_def)

lemma fold_ascii: "list_all (\<lambda>c. ord c < 0x80) s \<Longrightarrow> fold_name s = map (\<lambda>c. fold_rune (ord c)) s"
  by (induction s) (simp_all add: fold_name_def decode_rune_def)

section \<open>Structs with one field\<close>

lemma read_one_field:
  assumes "has_members [(n, j)] kvs" and "to_valid n = n" and "rd (tree_of j) (get x) = Some w"
  shows "read_struct [struct_field n get upd rd] (tree_of (JObj kvs)) x = Some (upd (\<lambda>_. w) x)"
proof -
  have "\<exists>y. read_struct [struct_field n get upd rd] (tree_of (JObj kvs)) x = Some y
      \<and> (\<forall>(m, f) \<in> set [struct_field n get upd rd]. (\<lambda>m a b. m = n \<longrightarrow> a = b) m y (upd (\<lambda>_. w) x))"
    by (rule read_object_all [OF assms(1)]) (simp_all add: assms(2,3) sets_field_def struct_field_def)
  then show ?thesis by (simp add: struct_field_def)
qed

lemma read_no_field:
  assumes "has_members [] kvs" and "to_valid n = n" and "lacks n kvs"
  shows "read_struct [struct_field n get upd rd] (tree_of (JObj kvs)) x = Some x"
proof -
  have "\<exists>y. read_struct ([] @ [struct_field n get upd rd]) (tree_of (JObj kvs)) x = Some y
      \<and> (\<forall>(m, f) \<in> set ([] @ [struct_field n get upd rd]). (\<lambda>m a b. m = n \<longrightarrow> a = b) m y x)"
    by (rule read_object_with [OF assms(1)]) (simp_all add: assms(2,3))
  then show ?thesis by (simp add: struct_field_def)
qed

end
