(* ===== verification/Decode.thy ===== *)
theory Decode
  imports Unmarshal ChannelRun
begin

text \<open>
  The structs the SDK reads JSON into, with the tags of their fields: the callback of a robot message and the
  content of a message (\<open>internal/normalize\<close>), the frame of the connection (\<open>frame.go\<close>) and the card callback
  (\<open>channel.go\<close>). These are the decoders that \<open>Normalize\<close>, \<open>Connection\<close> and \<open>Channel\<close> leave as arguments; here
  the code is put together with them. The lemmas say that what is sent arrives, in whatever order the members
  come and with whatever members the code does not know between them.
\<close>

section \<open>The decoders\<close>

text \<open>The text of the error is not modelled.\<close>

definition json_error :: goerr where "json_error = PlainErr ''json''"

definition decoded :: "'a option \<Rightarrow> goerr + 'a" where
  "decoded res = (case res of None \<Rightarrow> Inl json_error | Some x \<Rightarrow> Inr x)"

lemma decoded_Inr [simp]: "decoded res = Inr x \<longleftrightarrow> res = Some x"
  by (auto simp: decoded_def split: option.splits)

definition zero_AtUser :: AtUser where "zero_AtUser = \<lparr>DingtalkID = [], StaffID = []\<rparr>"

definition AtUser_fields :: "AtUser field list" where
  "AtUser_fields =
     [struct_field ''dingtalkId'' DingtalkID DingtalkID_update read_string,
      struct_field ''staffId'' StaffID StaffID_update read_string]"

definition zero_botCallbackData :: botCallbackData where
  "zero_botCallbackData =
     \<lparr>cbConversationID = [], cbAtUsers = [], cbChatbotCorpID = [], cbChatbotUserID = [], cbMsgID = [],
      cbSenderNick = [], cbIsAdmin = False, cbSenderStaffID = [], cbSessionWebhookExpiredTime = 0,
      cbCreateAt = 0, cbSenderCorpID = [], cbConversationType = [], cbSenderID = [], cbConversationTitle = [],
      cbIsInAtList = False, cbSessionWebhook = [], cbTextContent = [], cbMsgType = [], cbContent = []\<rparr>"

definition text_fields :: "botCallbackData field list" where
  "text_fields = [struct_field ''content'' cbTextContent cbTextContent_update read_string]"

definition botCallbackData_fields :: "botCallbackData field list" where
  "botCallbackData_fields =
     [struct_field ''conversationId'' cbConversationID cbConversationID_update read_string,
      struct_field ''atUsers'' cbAtUsers cbAtUsers_update (read_slice (read_struct AtUser_fields) zero_AtUser),
      struct_field ''chatbotCorpId'' cbChatbotCorpID cbChatbotCorpID_update read_string,
      struct_field ''chatbotUserId'' cbChatbotUserID cbChatbotUserID_update read_string,
      struct_field ''msgId'' cbMsgID cbMsgID_update read_string,
      struct_field ''senderNick'' cbSenderNick cbSenderNick_update read_string,
      struct_field ''isAdmin'' cbIsAdmin cbIsAdmin_update read_bool,
      struct_field ''senderStaffId'' cbSenderStaffID cbSenderStaffID_update read_string,
      struct_field ''sessionWebhookExpiredTime'' cbSessionWebhookExpiredTime cbSessionWebhookExpiredTime_update read_int64,
      struct_field ''createAt'' cbCreateAt cbCreateAt_update read_int64,
      struct_field ''senderCorpId'' cbSenderCorpID cbSenderCorpID_update read_string,
      struct_field ''conversationType'' cbConversationType cbConversationType_update read_string,
      struct_field ''senderId'' cbSenderID cbSenderID_update read_string,
      struct_field ''conversationTitle'' cbConversationTitle cbConversationTitle_update read_string,
      struct_field ''isInAtList'' cbIsInAtList cbIsInAtList_update read_bool,
      struct_field ''sessionWebhook'' cbSessionWebhook cbSessionWebhook_update read_string,
      (''text'', \<lambda>raw. read_struct text_fields),
      struct_field ''msgtype'' cbMsgType cbMsgType_update read_string,
      raw_field ''content'' cbContent_update]"

definition decode_callback :: callback_decoder where
  "decode_callback s = decoded (unmarshal (read_struct botCallbackData_fields) zero_botCallbackData s)"

definition zero_card_callback :: card_callback where
  "zero_card_callback = \<lparr>ccOutTrackID = [], ccUserID = [], ccDataContent = []\<rparr>"

definition card_callback_fields :: "card_callback field list" where
  "card_callback_fields =
     [struct_field ''outTrackId'' ccOutTrackID ccOutTrackID_update read_string,
      struct_field ''userId'' ccUserID ccUserID_update read_string,
      raw_field ''dataContent'' ccDataContent_update]"

definition decode_card :: card_decoder where
  "decode_card s = decoded (unmarshal (read_struct card_callback_fields) zero_card_callback s)"

definition zero_frame :: frame where
  "zero_frame = \<lparr>SpecVersion = [], frame_Type = [], frame_Time = 0, Headers = Map.empty, Data = []\<rparr>"

definition frame_fields :: "frame field list" where
  "frame_fields =
     [struct_field ''specVersion'' SpecVersion SpecVersion_update read_string,
      struct_field ''type'' frame_Type frame_Type_update read_string,
      struct_field ''time'' frame_Time frame_Time_update read_int64,
      struct_field ''headers'' Headers Headers_update read_map,
      struct_field ''data'' Data Data_update read_string]"

definition decode_frame :: "string \<Rightarrow> goerr + frame" where
  "decode_frame s = decoded (unmarshal (read_struct frame_fields) zero_frame s)"

section \<open>The programs that use them\<close>

definition normalizeIncoming :: "string \<Rightarrow> goerr + IncomingMessage" where
  "normalizeIncoming raw = NormalizeIncoming decode_callback read_jmap raw"

text \<open>\<open>handleFrame\<close> on the text of a message of the socket.\<close>

definition handle_text :: "bool \<Rightarrow> string \<Rightarrow> action list" where
  "handle_text onFrame raw = handleFrame onFrame (decode_frame raw)"

section \<open>What is sent arrives\<close>

definition AtUser_json :: "AtUser \<Rightarrow> json" where
  "AtUser_json u = JObj [(''dingtalkId'', JStr (DingtalkID u)), (''staffId'', JStr (StaffID u))]"

text \<open>The members of a callback; \<open>content\<close> is left out of text messages.\<close>

definition callback_members :: "botCallbackData \<Rightarrow> json option \<Rightarrow> (string \<times> json) list" where
  "callback_members d content =
     [(''conversationId'', JStr (cbConversationID d)), (''atUsers'', JArr (map AtUser_json (cbAtUsers d))),
      (''chatbotCorpId'', JStr (cbChatbotCorpID d)), (''chatbotUserId'', JStr (cbChatbotUserID d)),
      (''msgId'', JStr (cbMsgID d)), (''senderNick'', JStr (cbSenderNick d)), (''isAdmin'', JBool (cbIsAdmin d)),
      (''senderStaffId'', JStr (cbSenderStaffID d)),
      (''sessionWebhookExpiredTime'', JInt (cbSessionWebhookExpiredTime d)), (''createAt'', JInt (cbCreateAt d)),
      (''senderCorpId'', JStr (cbSenderCorpID d)), (''conversationType'', JStr (cbConversationType d)),
      (''senderId'', JStr (cbSenderID d)), (''conversationTitle'', JStr (cbConversationTitle d)),
      (''isInAtList'', JBool (cbIsInAtList d)), (''sessionWebhook'', JStr (cbSessionWebhook d)),
      (''text'', JObj [(''content'', JStr (cbTextContent d))]), (''msgtype'', JStr (cbMsgType d))]
     @ (case content of None \<Rightarrow> [] | Some j \<Rightarrow> [(''content'', j)])"

definition AtUser_ok :: "AtUser \<Rightarrow> bool" where
  "AtUser_ok u \<longleftrightarrow> valid_utf8 (DingtalkID u) \<and> valid_utf8 (StaffID u)"

definition callback_ok :: "botCallbackData \<Rightarrow> bool" where
  "callback_ok d \<longleftrightarrow> list_all valid_utf8
       [cbConversationID d, cbChatbotCorpID d, cbChatbotUserID d, cbMsgID d, cbSenderNick d, cbSenderStaffID d,
        cbSenderCorpID d, cbConversationType d, cbSenderID d, cbConversationTitle d, cbSessionWebhook d,
        cbTextContent d, cbMsgType d]
     \<and> int64_ok (cbSessionWebhookExpiredTime d) \<and> int64_ok (cbCreateAt d) \<and> list_all AtUser_ok (cbAtUsers d)"

lemma AtUser_back: "AtUser_ok u \<Longrightarrow> read_struct AtUser_fields (tree_of (AtUser_json u)) x = Some u"
  by (simp add: AtUser_ok_def valid_utf8_def AtUser_json_def read_struct_def AtUser_fields_def find_field_def
      struct_field_def to_valid_ascii read_string_def)

lemma text_back: "valid_utf8 t \<Longrightarrow> read_struct text_fields (tree_of (JObj [(''content'', JStr t)])) d = Some (d\<lparr>cbTextContent := t\<rparr>)"
  by (simp add: valid_utf8_def read_struct_def text_fields_def find_field_def
      struct_field_def to_valid_ascii read_string_def)

text \<open>Two callbacks with the same value in the field of the given name.\<close>

definition same_callback_field :: "string \<Rightarrow> botCallbackData \<Rightarrow> botCallbackData \<Rightarrow> bool" where
  "same_callback_field n x y \<longleftrightarrow>
     (n = ''conversationId'' \<longrightarrow> cbConversationID x = cbConversationID y) \<and>
     (n = ''atUsers'' \<longrightarrow> cbAtUsers x = cbAtUsers y) \<and>
     (n = ''chatbotCorpId'' \<longrightarrow> cbChatbotCorpID x = cbChatbotCorpID y) \<and>
     (n = ''chatbotUserId'' \<longrightarrow> cbChatbotUserID x = cbChatbotUserID y) \<and>
     (n = ''msgId'' \<longrightarrow> cbMsgID x = cbMsgID y) \<and>
     (n = ''senderNick'' \<longrightarrow> cbSenderNick x = cbSenderNick y) \<and>
     (n = ''isAdmin'' \<longrightarrow> cbIsAdmin x = cbIsAdmin y) \<and>
     (n = ''senderStaffId'' \<longrightarrow> cbSenderStaffID x = cbSenderStaffID y) \<and>
     (n = ''sessionWebhookExpiredTime'' \<longrightarrow> cbSessionWebhookExpiredTime x = cbSessionWebhookExpiredTime y) \<and>
     (n = ''createAt'' \<longrightarrow> cbCreateAt x = cbCreateAt y) \<and>
     (n = ''senderCorpId'' \<longrightarrow> cbSenderCorpID x = cbSenderCorpID y) \<and>
     (n = ''conversationType'' \<longrightarrow> cbConversationType x = cbConversationType y) \<and>
     (n = ''senderId'' \<longrightarrow> cbSenderID x = cbSenderID y) \<and>
     (n = ''conversationTitle'' \<longrightarrow> cbConversationTitle x = cbConversationTitle y) \<and>
     (n = ''isInAtList'' \<longrightarrow> cbIsInAtList x = cbIsInAtList y) \<and>
     (n = ''sessionWebhook'' \<longrightarrow> cbSessionWebhook x = cbSessionWebhook y) \<and>
     (n = ''text'' \<longrightarrow> cbTextContent x = cbTextContent y) \<and>
     (n = ''msgtype'' \<longrightarrow> cbMsgType x = cbMsgType y) \<and>
     (n = ''content'' \<longrightarrow> cbContent x = cbContent y)"

lemmas callback_sets = sets_struct_field [where agrees = same_callback_field] sets_raw_field [where agrees = same_callback_field]

lemma callback_struct_sets:
  assumes "callback_ok d"
  shows "list_all2 (\<lambda>F m. fst F = fst m
    \<and> sets_field same_callback_field (fst F) zero_botCallbackData (d\<lparr>cbContent := c\<rparr>)
        (snd F (marshal (snd m)) (tree_of (snd m)))) (butlast botCallbackData_fields) (callback_members d None)"
proof -
  have ok: "valid_utf8 (cbConversationID d)" "valid_utf8 (cbChatbotCorpID d)" "valid_utf8 (cbChatbotUserID d)"
    "valid_utf8 (cbMsgID d)" "valid_utf8 (cbSenderNick d)" "valid_utf8 (cbSenderStaffID d)"
    "valid_utf8 (cbSenderCorpID d)" "valid_utf8 (cbConversationType d)" "valid_utf8 (cbSenderID d)"
    "valid_utf8 (cbConversationTitle d)" "valid_utf8 (cbSessionWebhook d)" "valid_utf8 (cbTextContent d)"
    "valid_utf8 (cbMsgType d)" "int64_ok (cbSessionWebhookExpiredTime d)" "int64_ok (cbCreateAt d)"
    using assms by (simp_all add: callback_ok_def)
  have users: "read_slice (read_struct AtUser_fields) zero_AtUser (tree_of (JArr (map AtUser_json (cbAtUsers d)))) x
      = Some (cbAtUsers d)" for x
    using assms by (intro read_slice_back AtUser_back) (auto simp: callback_ok_def list_all_iff)
  have nested: "sets_field same_callback_field ''text'' zero_botCallbackData (d\<lparr>cbContent := c\<rparr>)
      (read_struct text_fields (tree_of (JObj [(''content'', JStr (cbTextContent d))])))"
    using text_back [OF ok(12)] by (simp add: sets_field_def same_callback_field_def)
  show ?thesis
    unfolding botCallbackData_fields_def callback_members_def
    by (simp del: tree_of.simps marshal.simps)
      (intro conjI nested callback_sets; ((rule read_back ok users)+)?;
        (simp add: same_callback_field_def del: tree_of.simps marshal.simps)?)
qed

lemma callback_names:
  "distinct (map (fold_name \<circ> fst) botCallbackData_fields)"
  "list_all (\<lambda>F. to_valid (fst F) = fst F) botCallbackData_fields"
  by (simp_all add: botCallbackData_fields_def fold_ascii fold_rune_def to_valid_ascii)

lemma same_callback:
  assumes "\<forall>(n, f) \<in> set botCallbackData_fields. same_callback_field n x y"
  shows "x = y"
proof -
  have "list_all (\<lambda>n. same_callback_field n x y) (map fst botCallbackData_fields)"
    using assms by (auto simp: list_all_iff)
  then show ?thesis
    by (intro botCallbackData.equality) (simp_all add: botCallbackData_fields_def same_callback_field_def)
qed

lemma callback_decoded:
  assumes "callback_ok d" and obj: "object_with (callback_members d content) kvs"
    and none: "content = None \<Longrightarrow> lacks ''content'' kvs"
  shows "decode_callback (marshal (JObj kvs)) = Inr (d\<lparr>cbContent := (case content of None \<Rightarrow> [] | Some j \<Rightarrow> marshal j)\<rparr>)"
proof -
  let ?t = "d\<lparr>cbContent := (case content of None \<Rightarrow> [] | Some j \<Rightarrow> marshal j)\<rparr>"
  let ?fs = "butlast botCallbackData_fields" and ?c = "raw_field ''content'' cbContent_update"
  have split: "botCallbackData_fields = ?fs @ [?c]" by (simp add: botCallbackData_fields_def)
  have o: "nests_within 10000 (JObj kvs)" "has_members (callback_members d content) kvs" using obj by (simp_all add: object_with_def)
  note whole = read_object_with [where agrees = same_callback_field and zero = zero_botCallbackData and target = ?t, OF o(2)]
  have "\<exists>y. read_struct botCallbackData_fields (tree_of (JObj kvs)) zero_botCallbackData = Some y
      \<and> (\<forall>(n, f) \<in> set botCallbackData_fields. same_callback_field n y ?t)"
  proof (cases content)
    case None
    then have "list_all2 (\<lambda>F m. fst F = fst m
        \<and> sets_field same_callback_field (fst F) zero_botCallbackData ?t (snd F (marshal (snd m)) (tree_of (snd m))))
        ?fs (callback_members d content)"
      using callback_struct_sets [OF assms(1)] by simp
    then show ?thesis
      using whole [of ?fs "[?c]", folded split, OF callback_names] none None
      by (simp add: same_callback_field_def zero_botCallbackData_def del: tree_of.simps)
  next
    case (Some j)
    have "sets_field same_callback_field ''content'' zero_botCallbackData ?t (snd ?c (marshal j) (tree_of j))"
      by (rule callback_sets(2)) (simp_all add: same_callback_field_def Some)
    then have "list_all2 (\<lambda>F m. fst F = fst m
        \<and> sets_field same_callback_field (fst F) zero_botCallbackData ?t (snd F (marshal (snd m)) (tree_of (snd m))))
        (?fs @ [?c]) (callback_members d None @ [(''content'', j)])"
      by (intro list_all2_appendI callback_struct_sets [OF assms(1)]) simp
    moreover have "callback_members d None @ [(''content'', j)] = callback_members d content"
      using Some by (simp add: callback_members_def)
    ultimately show ?thesis
      using whole [of botCallbackData_fields "[]"] callback_names split
      by (simp add: same_callback_field_def del: tree_of.simps)
  qed
  then show ?thesis using same_callback o(1) by (auto simp: decode_callback_def unmarshal_marshal simp del: tree_of.simps marshal.simps)
qed

section \<open>Frames and card callbacks\<close>

definition frame_members :: "frame \<Rightarrow> (string \<times> string) list \<Rightarrow> (string \<times> json) list" where
  "frame_members f hs =
     [(''specVersion'', JStr (SpecVersion f)), (''type'', JStr (frame_Type f)), (''time'', JInt (frame_Time f)),
      (''headers'', JObj (map (\<lambda>(k, v). (k, JStr v)) hs)), (''data'', JStr (Data f))]"

definition frame_ok :: "frame \<Rightarrow> (string \<times> string) list \<Rightarrow> bool" where
  "frame_ok f hs \<longleftrightarrow> list_all valid_utf8 [SpecVersion f, frame_Type f, Data f] \<and> int64_ok (frame_Time f)
     \<and> distinct (map fst hs) \<and> list_all (\<lambda>(k, v). valid_utf8 k \<and> valid_utf8 v) hs \<and> Headers f = map_of hs"

definition same_frame_field :: "string \<Rightarrow> frame \<Rightarrow> frame \<Rightarrow> bool" where
  "same_frame_field n x y \<longleftrightarrow>
     (n = ''specVersion'' \<longrightarrow> SpecVersion x = SpecVersion y) \<and>
     (n = ''type'' \<longrightarrow> frame_Type x = frame_Type y) \<and>
     (n = ''time'' \<longrightarrow> frame_Time x = frame_Time y) \<and>
     (n = ''headers'' \<longrightarrow> Headers x = Headers y) \<and>
     (n = ''data'' \<longrightarrow> Data x = Data y)"

lemmas frame_sets = sets_struct_field [where agrees = same_frame_field]

lemma frame_decoded:
  assumes "frame_ok f hs" and obj: "object_with (frame_members f hs) kvs"
  shows "decode_frame (marshal (JObj kvs)) = Inr f"
proof -
  have ok: "valid_utf8 (SpecVersion f)" "valid_utf8 (frame_Type f)" "valid_utf8 (Data f)" "int64_ok (frame_Time f)"
    "Headers f = map_of hs" "distinct (map fst hs)" "list_all (\<lambda>(k, v). valid_utf8 k \<and> valid_utf8 v) hs"
    using assms(1) by (simp_all add: frame_ok_def)
  have "sets_field same_frame_field ''headers'' zero_frame f (snd (struct_field ''headers'' Headers Headers_update read_map)
      (marshal (JObj (map (\<lambda>(k, v). (k, JStr v)) hs))) (tree_of (JObj (map (\<lambda>(k, v). (k, JStr v)) hs))))"
  proof (rule frame_sets)
    show "read_map (tree_of (JObj (map (\<lambda>(k, v). (k, JStr v)) hs))) (Headers x) = Some (map_of hs)"
      if "same_frame_field ''headers'' x zero_frame" for x
      using that read_map_back [OF ok(6,7)] by (simp add: same_frame_field_def zero_frame_def del: tree_of.simps)
  qed (simp_all add: same_frame_field_def ok(5))
  then have "list_all2 (\<lambda>F m. fst F = fst m
      \<and> sets_field same_frame_field (fst F) zero_frame f (snd F (marshal (snd m)) (tree_of (snd m)))) frame_fields (frame_members f hs)"
    unfolding frame_fields_def frame_members_def
    by (simp del: tree_of.simps marshal.simps)
      (intro conjI frame_sets; ((rule read_back ok)+)?; (simp add: same_frame_field_def del: tree_of.simps marshal.simps)?)
  then show ?thesis
    unfolding decode_frame_def decoded_Inr
    by (intro unmarshal_object [where agrees = same_frame_field, OF obj])
      (simp_all add: frame_fields_def same_frame_field_def struct_field_def fold_ascii fold_rune_def to_valid_ascii
        del: tree_of.simps marshal.simps)
qed

definition card_members :: "card_callback \<Rightarrow> json \<Rightarrow> (string \<times> json) list" where
  "card_members d content =
     [(''outTrackId'', JStr (ccOutTrackID d)), (''userId'', JStr (ccUserID d)), (''dataContent'', content)]"

definition same_card_field :: "string \<Rightarrow> card_callback \<Rightarrow> card_callback \<Rightarrow> bool" where
  "same_card_field n x y \<longleftrightarrow>
     (n = ''outTrackId'' \<longrightarrow> ccOutTrackID x = ccOutTrackID y) \<and>
     (n = ''userId'' \<longrightarrow> ccUserID x = ccUserID y) \<and>
     (n = ''dataContent'' \<longrightarrow> ccDataContent x = ccDataContent y)"

lemmas card_sets = sets_struct_field [where agrees = same_card_field] sets_raw_field [where agrees = same_card_field]

lemma card_decoded:
  assumes "valid_utf8 (ccOutTrackID d)" and "valid_utf8 (ccUserID d)" and "ccDataContent d = marshal content"
    and obj: "object_with (card_members d content) kvs"
  shows "decode_card (marshal (JObj kvs)) = Inr d"
proof -
  have "list_all2 (\<lambda>F m. fst F = fst m
      \<and> sets_field same_card_field (fst F) zero_card_callback d (snd F (marshal (snd m)) (tree_of (snd m))))
      card_callback_fields (card_members d content)"
    unfolding card_callback_fields_def card_members_def
    by (simp del: tree_of.simps marshal.simps)
      (intro conjI card_sets; ((rule read_back assms)+)?; (simp add: same_card_field_def assms(3) del: tree_of.simps marshal.simps)?)
  then show ?thesis
    unfolding decode_card_def decoded_Inr
    by (intro unmarshal_object [where agrees = same_card_field, OF obj])
      (simp_all add: card_callback_fields_def same_card_field_def struct_field_def raw_field_def fold_ascii fold_rune_def
        to_valid_ascii del: tree_of.simps marshal.simps)
qed

section \<open>From the socket to the pipeline\<close>

text \<open>What the message has of the callback.\<close>

definition message_of :: "botCallbackData \<Rightarrow> string \<Rightarrow> IncomingMessage \<Rightarrow> bool" where
  "message_of d raw m \<longleftrightarrow>
     ConversationID (body m) = cbConversationID d \<and> ConversationTitle (body m) = cbConversationTitle d
     \<and> (ConversationKind (body m) = ConversationTypeDM \<longleftrightarrow> cbConversationType d = ''1'')
     \<and> SenderID (body m) = cbSenderID d \<and> SenderStaffID (body m) = cbSenderStaffID d
     \<and> SenderNick (body m) = cbSenderNick d \<and> SenderCorpID (body m) = cbSenderCorpID d
     \<and> MsgType (body m) = cbMsgType d \<and> AtUsers (body m) = cbAtUsers d \<and> MsgID (body m) = cbMsgID d
     \<and> SessionWebhook (body m) = cbSessionWebhook d \<and> WebhookExpiredAt (body m) = cbSessionWebhookExpiredTime d
     \<and> CreateAt (body m) = cbCreateAt d \<and> IsAdmin (body m) = cbIsAdmin d \<and> IsInAtList (body m) = cbIsInAtList d
     \<and> (cbMsgType d \<in> {[], ''text''} \<and> cbConversationType d = ''1'' \<longrightarrow> msg_text m = TrimSpace (cbTextContent d))
     \<and> Raw (body m) = raw"

lemma message_arrives:
  assumes "callback_ok d" and "object_with (callback_members d content) kvs"
    and "content = None \<Longrightarrow> lacks ''content'' kvs"
  shows "\<exists>m. normalizeIncoming (marshal (JObj kvs)) = Inr m \<and> message_of d (marshal (JObj kvs)) m
    \<and> Content (body m) = (case content of None \<Rightarrow> [] | Some j \<Rightarrow> marshal j)"
  using callback_decoded [OF assms]
  by (auto simp: normalizeIncoming_def NormalizeIncoming_def message_of_def message_text_def normalizeConversationType_def
      ConversationTypeDM_def ConversationTypeGroup_def Let_def simp del: marshal.simps split: prod.splits)

text \<open>
  C4. From the text on the socket to the pipeline: a robot message, sent as the data of a frame, is acknowledged
  under its id and dispatched, and the pipeline gets the message with every field of the callback, under the
  delivery id of the frame. The members of both objects may come in any order and with any others between
  them; only names that are equal up to case are excluded.
\<close>

theorem wire_to_pipeline:
  assumes "frame_ok f hs" and "object_with (frame_members f hs) fkvs" and "topic f = topicBotMessage"
    and "frame_Type f \<noteq> subSystem" and "Data f = marshal (JObj kvs)" and "callback_ok d"
    and "object_with (callback_members d content) kvs"
    and "content = None \<Longrightarrow> lacks ''content'' kvs"
  shows "handle_text True (marshal (JObj fkvs)) = [WriteAck (successAck (messageID f) []), Dispatch f]
    \<and> (\<exists>m. message_of d (Data f) m \<and> Content (body m) = (case content of None \<Rightarrow> [] | Some j \<Rightarrow> marshal j)
        \<and> dispatchFrame decode_callback read_jmap decode_card clock err it f ch
            = processIncoming clock err it (messageID f) m ch)"
proof
  show "handle_text True (marshal (JObj fkvs)) = [WriteAck (successAck (messageID f) []), Dispatch f]"
    using frame_decoded [OF assms(1,2)] assms(4)
    by (simp add: handle_text_def handleFrame_def del: marshal.simps)
  obtain m where "normalizeIncoming (Data f) = Inr m" "message_of d (Data f) m"
    "Content (body m) = (case content of None \<Rightarrow> [] | Some j \<Rightarrow> marshal j)"
    using message_arrives [OF assms(6-8)] assms(5) by auto
  then show "\<exists>m. message_of d (Data f) m \<and> Content (body m) = (case content of None \<Rightarrow> [] | Some j \<Rightarrow> marshal j)
      \<and> dispatchFrame decode_callback read_jmap decode_card clock err it f ch
          = processIncoming clock err it (messageID f) m ch"
    using assms(3) by (intro exI [of _ m]) (simp add: dispatchFrame_def handleBotMessage_def normalizeIncoming_def)
qed

definition wire_callback :: "(string \<times> json) list" where
  "wire_callback = (''robotCode'', JStr ''r'') # rev (callback_members (demo_callback ''1'' ''text'' '' @bot hi '') None)"

definition wire_headers :: "(string \<times> string) list" where
  "wire_headers = [(''topic'', topicBotMessage), (''messageId'', ''p1'')]"

definition wire_frame :: frame where
  "wire_frame = \<lparr>SpecVersion = ''1.0'', frame_Type = subCallback, frame_Time = 5, Headers = map_of wire_headers,
     Data = marshal (JObj wire_callback)\<rparr>"

lemma wire_frame_simps:
  "Data wire_frame = marshal (JObj wire_callback)" "topic wire_frame = topicBotMessage" "messageID wire_frame = ''p1''"
  "frame_Type wire_frame \<noteq> subSystem"
  by (simp_all add: wire_frame_def topic_def messageID_def header_def wire_headers_def subCallback_def subSystem_def
      del: marshal.simps)

lemma wire_ok:
  "callback_ok (demo_callback ''1'' ''text'' '' @bot hi '')" "frame_ok wire_frame wire_headers"
  by (simp_all add: callback_ok_def AtUser_ok_def demo_callback_def valid_utf8_def to_valid_ascii int64_ok_def min_int64_def
      max_int64_def frame_ok_def wire_frame_def wire_headers_def subCallback_def topicBotMessage_def
      valid_marshal [unfolded valid_utf8_def] del: marshal.simps)

lemma wire_objects:
  "object_with (callback_members (demo_callback ''1'' ''text'' '' @bot hi '') None) wire_callback"
  "object_with (frame_members wire_frame wire_headers) (rev (frame_members wire_frame wire_headers))"
  "lacks ''content'' wire_callback"
  by (simp_all add: object_with_def has_members_def lacks_def wire_callback_def callback_members_def frame_members_def
      wire_headers_def demo_callback_def AtUser_json_def to_valid_ascii fold_ascii fold_rune_def)

theorem wire_to_pipeline_witness:
  "handle_text True (marshal (JObj (rev (frame_members wire_frame wire_headers)))) = [WriteAck (successAck ''p1'' []), Dispatch wire_frame]
   \<and> (\<exists>m. MsgID (body m) = ''m1'' \<and> msg_text m = ''@bot hi''
       \<and> dispatchFrame decode_callback read_jmap decode_card (\<lambda>_. 5) False [] wire_frame demo_channel
           = processIncoming (\<lambda>_. 5) False [] ''p1'' m demo_channel)"
proof -
  let ?d = "demo_callback ''1'' ''text'' '' @bot hi ''"
  have "msg_text m = ''@bot hi'' \<and> MsgID (body m) = ''m1''" if "message_of ?d raw m" for m raw
    using that trim_at_bot(1) by (simp add: message_of_def demo_callback_def)
  then show ?thesis
    using wire_to_pipeline [OF wire_ok(2) wire_objects(2) wire_frame_simps(2,4,1) wire_ok(1) wire_objects(1) wire_objects(3),
        of "\<lambda>_. 5" False "[]" demo_channel]
    unfolding wire_frame_simps(3) by blast
qed

end
