(* ===== verification/ApiDecode.thy ===== *)
theory ApiDecode
  imports Decode
begin

text \<open>
  The answers of the APIs: the structs \<open>token.go\<close>, \<open>oapi.go\<close>, \<open>bot_identity.go\<close>, \<open>stream.go\<close>, \<open>reply.go\<close> and \<open>card.go\<close> decode
  a body into, and \<open>json_client\<close>, which makes the HTTP client the models of these files take from one that answers
  with a status and bytes. The lemmas say what a caller gets when the body is an object with the fields, in any
  order, zero values left out or not, and with any others between them.
\<close>

section \<open>The structs\<close>

definition token_fields :: "token_reply field list" where
  "token_fields =
     [struct_field ''accessToken'' accessToken accessToken_update read_string,
      struct_field ''expireIn'' expireIn expireIn_update read_int64]"

definition decode_token :: "string \<Rightarrow> goerr + token_reply" where
  "decode_token s = decoded (unmarshal (read_struct token_fields) \<lparr>accessToken = [], expireIn = 0\<rparr> s)"

definition oapi_fields :: "oapi_reply field list" where
  "oapi_fields =
     [struct_field ''errcode'' ErrCode ErrCode_update read_int64,
      struct_field ''errmsg'' ErrMsg ErrMsg_update read_string,
      struct_field ''access_token'' AccessToken AccessToken_update read_string,
      struct_field ''expires_in'' ExpiresIn ExpiresIn_update read_int64]"

definition zero_oapi_reply :: oapi_reply where
  "zero_oapi_reply = \<lparr>ErrCode = 0, ErrMsg = [], AccessToken = [], ExpiresIn = 0\<rparr>"

definition decode_oapi :: "string \<Rightarrow> goerr + oapi_reply" where
  "decode_oapi s = decoded (unmarshal (read_struct oapi_fields) zero_oapi_reply s)"

definition upload_fields :: "upload_reply field list" where
  "upload_fields =
     [struct_field ''errcode'' UpErrCode UpErrCode_update read_int64,
      struct_field ''errmsg'' UpErrMsg UpErrMsg_update read_string,
      struct_field ''media_id'' UpMediaID UpMediaID_update read_string,
      struct_field ''type'' UpType UpType_update read_string,
      struct_field ''created_at'' UpCreatedAt UpCreatedAt_update read_int64]"

definition zero_upload_reply :: upload_reply where
  "zero_upload_reply = \<lparr>UpErrCode = 0, UpErrMsg = [], UpMediaID = [], UpType = [], UpCreatedAt = 0\<rparr>"

definition decode_upload :: "string \<Rightarrow> goerr + upload_reply" where
  "decode_upload s = decoded (unmarshal (read_struct upload_fields) zero_upload_reply s)"

definition robot_fields :: "robot_info field list" where
  "robot_fields =
     [struct_field ''robotCode'' info_Code info_Code_update read_string,
      struct_field ''robotName'' info_Name info_Name_update read_string,
      struct_field ''avatar'' info_Avatar info_Avatar_update read_string]"

definition decode_robot :: "string \<Rightarrow> goerr + robot_info" where
  "decode_robot s = decoded (unmarshal (read_struct robot_fields) \<lparr>info_Code = [], info_Name = [], info_Avatar = []\<rparr> s)"

definition gateway_fields :: "gateway_reply field list" where
  "gateway_fields =
     [struct_field ''endpoint'' Endpoint Endpoint_update read_string,
      struct_field ''ticket'' Ticket Ticket_update read_string]"

definition decode_gateway :: "string \<Rightarrow> goerr + gateway_reply" where
  "decode_gateway s = decoded (unmarshal (read_struct gateway_fields) \<lparr>Endpoint = [], Ticket = []\<rparr> s)"

text \<open>The struct of \<open>DownloadURL\<close> has one field, so it is that field.\<close>

definition download_fields :: "string field list" where
  "download_fields = [struct_field ''downloadUrl'' (\<lambda>x. x) (\<lambda>f. f) read_string]"

definition decode_download :: "string \<Rightarrow> goerr + string" where
  "decode_download s = decoded (unmarshal (read_struct download_fields) [] s)"

text \<open>
  The error of an API answer, the code and the message. Here the code ignores the error of \<open>Unmarshal\<close>, which goes on
  after a value of the wrong type and leaves that field alone: what counts is what it has left in the struct.
\<close>

definition read_string_if :: "string reader" where
  "read_string_if v x = Some (case v of TStr s \<Rightarrow> s | _ \<Rightarrow> x)"

definition api_error_fields :: "error_reply field list" where
  "api_error_fields =
     [struct_field ''code'' fst apfst read_string_if, struct_field ''message'' snd apsnd read_string_if]"

definition decode_api_error :: "string \<Rightarrow> error_reply" where
  "decode_api_error s = (case unmarshal (read_struct api_error_fields) ([], []) s of None \<Rightarrow> ([], []) | Some e \<Rightarrow> e)"

section \<open>The client\<close>

type_synonym 'w byte_client = "request \<Rightarrow> 'w \<Rightarrow> (goerr + int \<times> string) \<times> 'w"

definition answer_of :: "(string \<Rightarrow> goerr + 'a) \<Rightarrow> int \<times> string \<Rightarrow> 'a response" where
  "answer_of decode = (\<lambda>(status, raw). \<lparr>resp_status = status, resp_raw = raw, resp_json = decode raw\<rparr>)"

definition json_client :: "(string \<Rightarrow> goerr + 'a) \<Rightarrow> 'w byte_client \<Rightarrow> ('w, 'a) http_client" where
  "json_client decode client r w =
     (case client r w of
        (Inl err, w') \<Rightarrow> (Inl err, w')
      | (Inr answer, w') \<Rightarrow> (Inr (answer_of decode answer), w'))"

section \<open>What is sent arrives\<close>

definition token_members :: "token_reply \<Rightarrow> (string \<times> json) list" where
  "token_members r = [(''accessToken'', JStr (accessToken r)), (''expireIn'', JInt (expireIn r))]"

definition same_token :: "string \<Rightarrow> token_reply \<Rightarrow> token_reply \<Rightarrow> bool" where
  "same_token n x y \<longleftrightarrow>
     (n = ''accessToken'' \<longrightarrow> accessToken x = accessToken y) \<and>
     (n = ''expireIn'' \<longrightarrow> expireIn x = expireIn y)"

lemmas token_sets = sets_struct_field [where agrees = same_token]

lemma token_arrives:
  assumes "sends (token_members r) kvs" and "valid_utf8 (accessToken r) \<and> int64_ok (expireIn r)"
  shows "decode_token (marshal (JObj kvs)) = Inr r"
  unfolding decode_token_def decoded_Inr
proof (rule unmarshal_sent [where agrees = same_token, OF assms(1)])
  show "list_all2 (\<lambda>F m. fst F = fst m
      \<and> sets_field same_token (fst F) \<lparr>accessToken = [], expireIn = 0\<rparr> r (snd F (marshal (snd m)) (tree_of (snd m)))
      \<and> (zero_json (snd m) \<longrightarrow> same_token (fst F) \<lparr>accessToken = [], expireIn = 0\<rparr> r)) token_fields (token_members r)"
    using assms(2) unfolding token_fields_def token_members_def
    by (simp del: tree_of.simps marshal.simps)
      (intro conjI token_sets; simp add: same_token_def zero_json_def del: tree_of.simps marshal.simps)
qed (simp_all add: token_fields_def same_token_def struct_field_def fold_ascii fold_rune_def to_valid_ascii)

definition oapi_members :: "oapi_reply \<Rightarrow> (string \<times> json) list" where
  "oapi_members r =
     [(''errcode'', JInt (ErrCode r)),
      (''errmsg'', JStr (ErrMsg r)),
      (''access_token'', JStr (AccessToken r)),
      (''expires_in'', JInt (ExpiresIn r))]"

definition same_oapi :: "string \<Rightarrow> oapi_reply \<Rightarrow> oapi_reply \<Rightarrow> bool" where
  "same_oapi n x y \<longleftrightarrow>
     (n = ''errcode'' \<longrightarrow> ErrCode x = ErrCode y) \<and>
     (n = ''errmsg'' \<longrightarrow> ErrMsg x = ErrMsg y) \<and>
     (n = ''access_token'' \<longrightarrow> AccessToken x = AccessToken y) \<and>
     (n = ''expires_in'' \<longrightarrow> ExpiresIn x = ExpiresIn y)"

lemmas oapi_sets = sets_struct_field [where agrees = same_oapi]

lemma oapi_arrives:
  assumes "sends (oapi_members r) kvs" and "int64_ok (ErrCode r) \<and> valid_utf8 (ErrMsg r) \<and> valid_utf8 (AccessToken r) \<and> int64_ok (ExpiresIn r)"
  shows "decode_oapi (marshal (JObj kvs)) = Inr r"
  unfolding decode_oapi_def decoded_Inr
proof (rule unmarshal_sent [where agrees = same_oapi, OF assms(1)])
  show "list_all2 (\<lambda>F m. fst F = fst m
      \<and> sets_field same_oapi (fst F) zero_oapi_reply r (snd F (marshal (snd m)) (tree_of (snd m)))
      \<and> (zero_json (snd m) \<longrightarrow> same_oapi (fst F) zero_oapi_reply r)) oapi_fields (oapi_members r)"
    using assms(2) unfolding oapi_fields_def oapi_members_def
    by (simp del: tree_of.simps marshal.simps)
      (intro conjI oapi_sets; simp add: same_oapi_def zero_json_def zero_oapi_reply_def del: tree_of.simps marshal.simps)
qed (simp_all add: oapi_fields_def same_oapi_def struct_field_def fold_ascii fold_rune_def to_valid_ascii)

definition upload_members :: "upload_reply \<Rightarrow> (string \<times> json) list" where
  "upload_members r =
     [(''errcode'', JInt (UpErrCode r)),
      (''errmsg'', JStr (UpErrMsg r)),
      (''media_id'', JStr (UpMediaID r)),
      (''type'', JStr (UpType r)),
      (''created_at'', JInt (UpCreatedAt r))]"

definition same_upload :: "string \<Rightarrow> upload_reply \<Rightarrow> upload_reply \<Rightarrow> bool" where
  "same_upload n x y \<longleftrightarrow>
     (n = ''errcode'' \<longrightarrow> UpErrCode x = UpErrCode y) \<and>
     (n = ''errmsg'' \<longrightarrow> UpErrMsg x = UpErrMsg y) \<and>
     (n = ''media_id'' \<longrightarrow> UpMediaID x = UpMediaID y) \<and>
     (n = ''type'' \<longrightarrow> UpType x = UpType y) \<and>
     (n = ''created_at'' \<longrightarrow> UpCreatedAt x = UpCreatedAt y)"

lemmas upload_sets = sets_struct_field [where agrees = same_upload]

lemma upload_arrives:
  assumes "sends (upload_members r) kvs" and "int64_ok (UpErrCode r) \<and> valid_utf8 (UpErrMsg r) \<and> valid_utf8 (UpMediaID r) \<and> valid_utf8 (UpType r) \<and> int64_ok (UpCreatedAt r)"
  shows "decode_upload (marshal (JObj kvs)) = Inr r"
  unfolding decode_upload_def decoded_Inr
proof (rule unmarshal_sent [where agrees = same_upload, OF assms(1)])
  show "list_all2 (\<lambda>F m. fst F = fst m
      \<and> sets_field same_upload (fst F) zero_upload_reply r (snd F (marshal (snd m)) (tree_of (snd m)))
      \<and> (zero_json (snd m) \<longrightarrow> same_upload (fst F) zero_upload_reply r)) upload_fields (upload_members r)"
    using assms(2) unfolding upload_fields_def upload_members_def
    by (simp del: tree_of.simps marshal.simps)
      (intro conjI upload_sets; simp add: same_upload_def zero_json_def zero_upload_reply_def del: tree_of.simps marshal.simps)
qed (simp_all add: upload_fields_def same_upload_def struct_field_def fold_ascii fold_rune_def to_valid_ascii)

definition robot_members :: "robot_info \<Rightarrow> (string \<times> json) list" where
  "robot_members r =
     [(''robotCode'', JStr (info_Code r)),
      (''robotName'', JStr (info_Name r)),
      (''avatar'', JStr (info_Avatar r))]"

definition same_robot :: "string \<Rightarrow> robot_info \<Rightarrow> robot_info \<Rightarrow> bool" where
  "same_robot n x y \<longleftrightarrow>
     (n = ''robotCode'' \<longrightarrow> info_Code x = info_Code y) \<and>
     (n = ''robotName'' \<longrightarrow> info_Name x = info_Name y) \<and>
     (n = ''avatar'' \<longrightarrow> info_Avatar x = info_Avatar y)"

lemmas robot_sets = sets_struct_field [where agrees = same_robot]

lemma robot_arrives:
  assumes "sends (robot_members r) kvs" and "valid_utf8 (info_Code r) \<and> valid_utf8 (info_Name r) \<and> valid_utf8 (info_Avatar r)"
  shows "decode_robot (marshal (JObj kvs)) = Inr r"
  unfolding decode_robot_def decoded_Inr
proof (rule unmarshal_sent [where agrees = same_robot, OF assms(1)])
  show "list_all2 (\<lambda>F m. fst F = fst m
      \<and> sets_field same_robot (fst F) \<lparr>info_Code = [], info_Name = [], info_Avatar = []\<rparr> r (snd F (marshal (snd m)) (tree_of (snd m)))
      \<and> (zero_json (snd m) \<longrightarrow> same_robot (fst F) \<lparr>info_Code = [], info_Name = [], info_Avatar = []\<rparr> r)) robot_fields (robot_members r)"
    using assms(2) unfolding robot_fields_def robot_members_def
    by (simp del: tree_of.simps marshal.simps)
      (intro conjI robot_sets; simp add: same_robot_def zero_json_def del: tree_of.simps marshal.simps)
qed (simp_all add: robot_fields_def same_robot_def struct_field_def fold_ascii fold_rune_def to_valid_ascii)

definition gateway_members :: "gateway_reply \<Rightarrow> (string \<times> json) list" where
  "gateway_members r =
     [(''endpoint'', JStr (Endpoint r)),
      (''ticket'', JStr (Ticket r))]"

definition same_gateway :: "string \<Rightarrow> gateway_reply \<Rightarrow> gateway_reply \<Rightarrow> bool" where
  "same_gateway n x y \<longleftrightarrow>
     (n = ''endpoint'' \<longrightarrow> Endpoint x = Endpoint y) \<and>
     (n = ''ticket'' \<longrightarrow> Ticket x = Ticket y)"

lemmas gateway_sets = sets_struct_field [where agrees = same_gateway]

lemma gateway_arrives:
  assumes "sends (gateway_members r) kvs" and "valid_utf8 (Endpoint r) \<and> valid_utf8 (Ticket r)"
  shows "decode_gateway (marshal (JObj kvs)) = Inr r"
  unfolding decode_gateway_def decoded_Inr
proof (rule unmarshal_sent [where agrees = same_gateway, OF assms(1)])
  show "list_all2 (\<lambda>F m. fst F = fst m
      \<and> sets_field same_gateway (fst F) \<lparr>Endpoint = [], Ticket = []\<rparr> r (snd F (marshal (snd m)) (tree_of (snd m)))
      \<and> (zero_json (snd m) \<longrightarrow> same_gateway (fst F) \<lparr>Endpoint = [], Ticket = []\<rparr> r)) gateway_fields (gateway_members r)"
    using assms(2) unfolding gateway_fields_def gateway_members_def
    by (simp del: tree_of.simps marshal.simps)
      (intro conjI gateway_sets; simp add: same_gateway_def zero_json_def del: tree_of.simps marshal.simps)
qed (simp_all add: gateway_fields_def same_gateway_def struct_field_def fold_ascii fold_rune_def to_valid_ascii)

lemma download_arrives:
  assumes "sends [(''downloadUrl'', JStr url)] kvs" and "valid_utf8 url"
  shows "decode_download (marshal (JObj kvs)) = Inr url"
  unfolding decode_download_def decoded_Inr
proof (rule unmarshal_sent [where agrees = "\<lambda>n x y. n = ''downloadUrl'' \<longrightarrow> x = y", OF assms(1)])
  show "list_all2 (\<lambda>F m. fst F = fst m
      \<and> sets_field (\<lambda>n x y. n = ''downloadUrl'' \<longrightarrow> x = y) (fst F) [] url (snd F (marshal (snd m)) (tree_of (snd m)))
      \<and> (zero_json (snd m) \<longrightarrow> fst F = ''downloadUrl'' \<longrightarrow> [] = url)) download_fields [(''downloadUrl'', JStr url)]"
    using assms(2) unfolding download_fields_def
    by (simp del: tree_of.simps marshal.simps)
      (intro conjI sets_struct_field; simp add: zero_json_def del: tree_of.simps marshal.simps)
qed (simp_all add: download_fields_def struct_field_def fold_ascii fold_rune_def to_valid_ascii)

definition same_api_error :: "string \<Rightarrow> error_reply \<Rightarrow> error_reply \<Rightarrow> bool" where
  "same_api_error n x y \<longleftrightarrow> (n = ''code'' \<longrightarrow> fst x = fst y) \<and> (n = ''message'' \<longrightarrow> snd x = snd y)"

lemmas api_error_sets = sets_struct_field [where agrees = same_api_error]

lemma api_error_arrives:
  assumes "sends [(''code'', JStr c), (''message'', JStr m)] kvs" and "valid_utf8 c \<and> valid_utf8 m"
  shows "decode_api_error (marshal (JObj kvs)) = (c, m)"
proof -
  have "unmarshal (read_struct api_error_fields) ([], []) (marshal (JObj kvs)) = Some (c, m)"
  proof (rule unmarshal_sent [where agrees = same_api_error, OF assms(1)])
    show "list_all2 (\<lambda>F m'. fst F = fst m'
        \<and> sets_field same_api_error (fst F) ([], []) (c, m) (snd F (marshal (snd m')) (tree_of (snd m')))
        \<and> (zero_json (snd m') \<longrightarrow> same_api_error (fst F) ([], []) (c, m))) api_error_fields
        [(''code'', JStr c), (''message'', JStr m)]"
      using assms(2) unfolding api_error_fields_def
      by (simp del: tree_of.simps marshal.simps)
        (intro conjI api_error_sets; simp add: same_api_error_def zero_json_def read_string_if_def valid_utf8_def del: marshal.simps)
  qed (simp_all add: api_error_fields_def same_api_error_def struct_field_def fold_ascii fold_rune_def to_valid_ascii prod_eq_iff)
  then show ?thesis by (simp add: decode_api_error_def del: marshal.simps)
qed

section \<open>From the bytes to the caller\<close>

lemma answer_of_simps [simp]:
  "resp_status (answer_of decode (st, raw)) = st" "resp_raw (answer_of decode (st, raw)) = raw"
  "resp_json (answer_of decode (st, raw)) = decode raw"
  by (simp_all add: answer_of_def)

lemma token_fetched:
  assumes "\<not> token_fresh (clock w) t" and "client (token_request cfg) w = (Inr (200, marshal (JObj kvs)), w')"
    and "sends (token_members r) kvs" and "valid_utf8 (accessToken r) \<and> int64_ok (expireIn r)" and "accessToken r \<noteq> []"
  shows "Token_Get cfg (json_client decode_token client) clock w t
    = (Inr (accessToken r), \<lparr>token = accessToken r,
        expiresAt = time_add (clock w') (duration_seconds (default_expiry (expireIn r)))\<rparr>, w')"
  using assms(1,2,5) token_arrives [OF assms(3,4)]
  by (simp add: Token_Get_def json_client_def token_accept_def del: marshal.simps)

text \<open>Both requests of an upload: the token of the first goes into the second, whose answer gives the identifiers.\<close>

lemma media_uploaded:
  assumes "\<not> token_fresh (clock w) t" and "client (gettoken_request cfg) w = (Inr (st, marshal (JObj kvs)), w1)"
    and "client (upload_request cfg form (AccessToken r) mediaType filename data) w1 = (Inr (st', marshal (JObj kvs')), w2)"
    and "sends (oapi_members r) kvs" and "sends (upload_members u) kvs'"
    and "ErrCode r = 0" and "AccessToken r \<noteq> []" and "UpErrCode u = 0"
    and "valid_utf8 (ErrMsg r) \<and> valid_utf8 (AccessToken r) \<and> int64_ok (ExpiresIn r)"
    and "valid_utf8 (UpErrMsg u) \<and> valid_utf8 (UpMediaID u) \<and> valid_utf8 (UpType u) \<and> int64_ok (UpCreatedAt u)"
  shows "\<exists>t'. UploadMedia cfg (json_client decode_oapi client) (json_client decode_upload client) clock form mediaType filename
      contentType data w t
    = (Inr \<lparr>MediaID = strip_at (UpMediaID u), RawMediaID = UpMediaID u, MediaType = UpType u, CreatedAt = UpCreatedAt u,
         DownloadURL = ''https://down.dingtalk.com/media/'' @ strip_at (UpMediaID u)\<rparr>, t', w2) \<and> token t' = AccessToken r"
proof -
  have zero: "int64_ok (0 :: int)" by (simp add: int64_ok_def min_int64_def max_int64_def)
  have "decode_oapi (marshal (JObj kvs)) = Inr r"
    using assms(6,9) zero by (intro oapi_arrives [OF assms(4)]) simp
  moreover have "decode_upload (marshal (JObj kvs')) = Inr u"
    using assms(8,10) zero by (intro upload_arrives [OF assms(5)]) simp
  ultimately show ?thesis
    using assms(1-3,6-8)
    by (simp add: UploadMedia_def getToken_def json_client_def gettoken_accept_def upload_accept_def del: marshal.simps)
qed

lemma identity_fetched:
  assumes "get_token w t = (Inr tok, t', w')"
    and "client (info_request cfg tok) w' = (Answered (answer_of decode_robot (200, marshal (JObj kvs))), w'')"
    and "sends (robot_members r) kvs" and "valid_utf8 (info_Code r) \<and> valid_utf8 (info_Name r) \<and> valid_utf8 (info_Avatar r)"
  shows "fetch cfg get_token client w t = (Inr (info_identity cfg r), t', w'')"
  using assms(1,2) robot_arrives [OF assms(3,4)]
  by (simp add: fetch_def info_result_def info_accept_def del: marshal.simps)

lemma gateway_opened:
  assumes "sends (gateway_members r) kvs" and "valid_utf8 (Endpoint r) \<and> valid_utf8 (Ticket r)"
    and "Endpoint r \<noteq> []" and "Ticket r \<noteq> []"
  shows "open_result (Inr (answer_of decode_gateway (200, marshal (JObj kvs)))) = Inr r"
  using assms(3,4) gateway_arrives [OF assms(1,2)] by (simp add: open_result_def del: marshal.simps)

lemma download_accepted:
  assumes "sends [(''downloadUrl'', JStr url)] kvs" and "valid_utf8 url" and "st < 400"
  shows "api_accept (Some decode_download) (answer_of dec (st, marshal (JObj kvs))) = Inr (marshal (JObj kvs), Some url)"
  using assms(3) download_arrives [OF assms(1,2)] by (simp add: api_accept_def)

lemma api_error_accepted:
  assumes "sends [(''code'', JStr c), (''message'', JStr m)] kvs" and "valid_utf8 c \<and> valid_utf8 m" and "400 \<le> st"
  shows "api_accept dest (answer_of (Inr \<circ> decode_api_error) (st, marshal (JObj kvs)))
    = Inl (ApiErr \<lparr>Status = st, Code = c, Msg = m, Body = marshal (JObj kvs)\<rparr>)"
  using assms(3) api_error_arrives [OF assms(1,2)]
  by (simp add: api_accept_def api_error_of_def del: marshal.simps)

text \<open>A code that is a number is lost, but the message behind it is kept.\<close>

lemma numeric_code: "decode_api_error (marshal (JObj [(''code'', JInt n), (''message'', JStr ''busy'')])) = ([], ''busy'')"
  by (simp add: decode_api_error_def unmarshal_marshal read_struct_def api_error_fields_def find_field_def struct_field_def
      read_string_if_def to_valid_ascii del: marshal.simps)

end
