(* ===== verification/Agent.thy ===== *)
theory Agent
  imports Unmarshal CardSystem
begin

text \<open>
  The example agent, \<open>example/agent/main.go\<close>: it answers every message with a card that shows the stream of a
  language model. The model has the history of the conversations, the choice of a provider, the request, the
  reader of the server-sent events, and the handler, which is described by the calls it makes to the SDK. The
  terminal output is left out. The HTTP client is an argument: it answers a request with an error or with a
  status, the bytes of the body and the error that ends the reading of it, if any.
\<close>

section \<open>History\<close>

record turn =
  Role :: string
  turn_Text :: string

type_synonym history = "string \<rightharpoonup> turn list"

definition histCap :: nat where "histCap = 20"

definition turns_of :: "history \<Rightarrow> string \<Rightarrow> turn list" where
  "turns_of h cid = (case h cid of None \<Rightarrow> [] | Some ts \<Rightarrow> ts)"

definition historyAppend :: "string \<Rightarrow> turn \<Rightarrow> history \<Rightarrow> turn list \<times> history" where
  "historyAppend cid t h =
     (let xs = turns_of h cid @ [t];
          ys = (if histCap < length xs then drop (length xs - histCap) xs else xs)
      in (ys, h(cid \<mapsto> ys)))"

section \<open>Provider\<close>

datatype provider = provNone | provOpenAI | provAnthropic

record llmConfig =
  kind :: provider
  base :: string
  token :: string
  model :: string

definition or_default :: "string \<Rightarrow> string \<Rightarrow> string" where
  "or_default s d = (if s = [] then d else s)"

definition trim_slashes :: "string \<Rightarrow> string" where
  "trim_slashes s = trim_right (\<lambda>c. c = CHR ''/'') s"

text \<open>The argument is \<open>os.Getenv\<close>, which is empty for a variable that is not set.\<close>

definition llmFromEnv :: "(string \<Rightarrow> string) \<Rightarrow> llmConfig" where
  "llmFromEnv getenv =
     (if getenv ''DEEPSEEK_API_KEY'' \<noteq> []
      then \<lparr>kind = provOpenAI,
            base = trim_slashes (or_default (getenv ''DEEPSEEK_BASE_URL'') ''https://api.deepseek.com''),
            token = getenv ''DEEPSEEK_API_KEY'', model = or_default (getenv ''AGENT_MODEL'') ''deepseek-chat''\<rparr>
      else if getenv ''ANTHROPIC_AUTH_TOKEN'' \<noteq> [] \<and> getenv ''ANTHROPIC_BASE_URL'' \<noteq> []
      then \<lparr>kind = provAnthropic, base = trim_slashes (getenv ''ANTHROPIC_BASE_URL''),
            token = getenv ''ANTHROPIC_AUTH_TOKEN'', model = or_default (getenv ''AGENT_MODEL'') ''glm-4.7''\<rparr>
      else \<lparr>kind = provNone, base = [], token = [], model = []\<rparr>)"

section \<open>Events of the stream\<close>

record openai_delta = odContent :: string
record openai_choice = ocDelta :: openai_delta
record event_error = eeMessage :: string

record openai_event =
  oeChoices :: "openai_choice list"
  oeError :: "event_error option"

record anthropic_delta = adText :: string

record anthropic_event =
  aeType :: string
  aeDelta :: anthropic_delta
  aeError :: "event_error option"

definition read_pointer :: "'a reader \<Rightarrow> 'a \<Rightarrow> 'a option reader" where
  "read_pointer rd zero v old =
     (case v of TNull \<Rightarrow> Some None | _ \<Rightarrow> map_option Some (rd v (case old of None \<Rightarrow> zero | Some x \<Rightarrow> x)))"

definition error_fields :: "event_error field list" where
  "error_fields = [struct_field ''message'' eeMessage eeMessage_update read_string]"

definition read_error :: "event_error option reader" where
  "read_error = read_pointer (read_struct error_fields) \<lparr>eeMessage = []\<rparr>"

definition openai_delta_fields :: "openai_delta field list" where
  "openai_delta_fields = [struct_field ''content'' odContent odContent_update read_string]"

definition openai_choice_fields :: "openai_choice field list" where
  "openai_choice_fields = [struct_field ''delta'' ocDelta ocDelta_update (read_struct openai_delta_fields)]"

definition openai_fields :: "openai_event field list" where
  "openai_fields =
     [struct_field ''choices'' oeChoices oeChoices_update
        (read_slice (read_struct openai_choice_fields) \<lparr>ocDelta = \<lparr>odContent = []\<rparr>\<rparr>),
      struct_field ''error'' oeError oeError_update read_error]"

definition anthropic_delta_fields :: "anthropic_delta field list" where
  "anthropic_delta_fields = [struct_field ''text'' adText adText_update read_string]"

definition anthropic_fields :: "anthropic_event field list" where
  "anthropic_fields =
     [struct_field ''type'' aeType aeType_update read_string,
      struct_field ''delta'' aeDelta aeDelta_update (read_struct anthropic_delta_fields),
      struct_field ''error'' aeError aeError_update read_error]"

text \<open>The text of an event and the message of an error.\<close>

definition extractDelta :: "provider \<Rightarrow> string \<Rightarrow> string \<times> string" where
  "extractDelta k payload =
     (if k = provOpenAI then
        (case unmarshal (read_struct openai_fields) \<lparr>oeChoices = [], oeError = None\<rparr> payload of
           None \<Rightarrow> ([], [])
         | Some ev \<Rightarrow>
             (case oeError ev of
                Some e \<Rightarrow> ([], eeMessage e)
              | None \<Rightarrow> (case oeChoices ev of [] \<Rightarrow> ([], []) | ch # _ \<Rightarrow> (odContent (ocDelta ch), []))))
      else
        (case unmarshal (read_struct anthropic_fields) \<lparr>aeType = [], aeDelta = \<lparr>adText = []\<rparr>, aeError = None\<rparr> payload of
           None \<Rightarrow> ([], [])
         | Some ev \<Rightarrow>
             (case aeError ev of
                Some e \<Rightarrow> ([], eeMessage e)
              | None \<Rightarrow> if aeType ev = ''content_block_delta'' then (adText (aeDelta ev), []) else ([], []))))"

section \<open>The call\<close>

definition turn_json :: "turn \<Rightarrow> json" where
  "turn_json t = JObj [(''role'', JStr (Role t)), (''content'', JStr (turn_Text t))]"

definition llm_url :: "llmConfig \<Rightarrow> string" where
  "llm_url c = base c @ (if kind c = provOpenAI then ''/v1/chat/completions'' else ''/v1/messages'')"

definition llm_body :: "llmConfig \<Rightarrow> string \<Rightarrow> turn list \<Rightarrow> json" where
  "llm_body c system turns =
     (if kind c = provOpenAI
      then JObj [(''max_tokens'', JInt 1024),
                 (''messages'', JArr (map turn_json (\<lparr>Role = ''system'', turn_Text = system\<rparr> # turns))),
                 (''model'', JStr (model c)), (''stream'', JBool True)]
      else JObj [(''max_tokens'', JInt 1024), (''messages'', JArr (map turn_json turns)), (''model'', JStr (model c)),
                 (''stream'', JBool True), (''system'', JStr system)])"

definition llm_request :: "llmConfig \<Rightarrow> string \<Rightarrow> turn list \<Rightarrow> request" where
  "llm_request c system turns =
     \<lparr>req_method = ''POST'', req_url = llm_url c,
      req_headers =
        [(''Content-Type'', ''application/json''), (''Authorization'', ''Bearer '' @ token c)]
        @ (if kind c = provAnthropic then [(''x-api-key'', token c), (''anthropic-version'', ''2023-06-01'')] else []),
      req_body = marshal (llm_body c system turns)\<rparr>"

record llm_response =
  lr_status :: int
  lr_body :: string
  lr_error :: "goerr option"

type_synonym 'w llm_client = "request \<Rightarrow> 'w \<Rightarrow> (goerr + llm_response) \<times> 'w"

definition truncate :: "string \<Rightarrow> nat \<Rightarrow> string" where
  "truncate s n =
     (let r = decode_runes s in if length r \<le> n then s else encode_runes (take n r) @ ''...'')"

definition llmErr :: "int \<Rightarrow> string \<Rightarrow> goerr" where
  "llmErr status txt = PlainErr (''llm http '' @ format_int status @ '': '' @ txt)"

text \<open>
  The lines of a \<open>bufio.Scanner\<close> with a buffer of a megabyte: what stands between newlines, without a carriage
  return at the end; the last line also without a newline, unless it is empty. A line that fills the buffer is
  an error, and nothing after it is read. The error of the reader comes after the last line. (The reader is
  taken to report the end of the body in a read of its own.)
\<close>

definition max_token :: nat where "max_token = 1024 * 1024"

definition ErrTooLong :: goerr where "ErrTooLong = PlainErr ''bufio.Scanner: token too long''"

definition drop_cr :: "string \<Rightarrow> string" where
  "drop_cr l = (if l \<noteq> [] \<and> last l = CHR 0x0D then butlast l else l)"

fun scan_lines :: "string list \<Rightarrow> goerr option \<Rightarrow> string list \<times> goerr option" where
  "scan_lines [] err = ([], err)"
| "scan_lines (l # ls) err =
     (if max_token \<le> length l then ([], Some ErrTooLong)
      else if ls = [] then (if l = [] then [] else [drop_cr l], err)
      else (case scan_lines ls err of (rest, e) \<Rightarrow> (drop_cr l # rest, e)))"

definition scan_body :: "llm_response \<Rightarrow> string list \<times> goerr option" where
  "scan_body r = scan_lines (str_split (CHR 0x0A) (lr_body r)) (lr_error r)"

text \<open>The loop over the lines: the text so far, and the state that \<open>onDelta\<close> changes.\<close>

fun consume :: "provider \<Rightarrow> (string \<Rightarrow> 's \<Rightarrow> 's) \<Rightarrow> string list \<Rightarrow> string \<Rightarrow> 's \<Rightarrow> string \<times> 's \<times> goerr option" where
  "consume k onDelta [] full s = (full, s, None)"
| "consume k onDelta (line # ls) full s =
     (if \<not> has_prefix line ''data:'' then consume k onDelta ls full s
      else
        (let payload = TrimSpace (drop 5 line) in
         if payload = [] \<or> payload = ''[DONE]'' then consume k onDelta ls full s
         else
           (case extractDelta k payload of
              (d, msg) \<Rightarrow>
                if msg \<noteq> [] then (full, s, Some (PlainErr (''llm stream error: '' @ msg)))
                else if d \<noteq> [] then consume k onDelta ls (full @ d) (onDelta d s)
                else consume k onDelta ls full s)))"

definition callLLMStream ::
  "'w llm_client \<Rightarrow> llmConfig \<Rightarrow> string \<Rightarrow> turn list \<Rightarrow> (string \<Rightarrow> 's \<Rightarrow> 's) \<Rightarrow> 's \<times> 'w
     \<Rightarrow> (string \<times> goerr option) \<times> 's \<times> 'w" where
  "callLLMStream client c system turns onDelta sw =
     (case sw of
        (s, w) \<Rightarrow>
          if kind c = provNone then (([], Some (PlainErr ''no llm provider configured'')), s, w)
          else
            (case client (llm_request c system turns) w of
               (Inl err, w') \<Rightarrow> (([], Some err), s, w')
             | (Inr r, w') \<Rightarrow>
                 if lr_status r \<noteq> 200 then (([], Some (llmErr (lr_status r) (truncate (lr_body r) 300))), s, w')
                 else
                   (case scan_body r of
                      (ls, serr) \<Rightarrow>
                        (case consume (kind c) onDelta ls [] s of
                           (full, s', Some e) \<Rightarrow> ((full, Some e), s', w')
                         | (full, s', None) \<Rightarrow> ((full, serr), s', w')))))"

section \<open>The handler\<close>

text \<open>The calls to the SDK: the status badge, the card and the operations on its streamer.\<close>

datatype sdk_call = MarkThinkingCall string string | RecallThinkingCall string string | StreamCall | OnCard operation

definition newlines :: string where "newlines = [CHR 0x0A, CHR 0x0A]"

definition quoted_message :: "IncomingMessage \<Rightarrow> string" where
  "quoted_message m = ''> **'' @ SenderNick (body m) @ ''**: '' @ msg_text m @ newlines"

definition failure_note :: string where
  "failure_note = newlines @ ''---'' @ [CHR 0x0A, CHR 0xE2, CHR 0x9A, CHR 0xA0, CHR 0xEF, CHR 0xB8, CHR 0x8F] @ '' LLM ''
     @ [CHR 0xE8, CHR 0xB0, CHR 0x83, CHR 0xE7, CHR 0x94, CHR 0xA8, CHR 0xE5, CHR 0xA4, CHR 0xB1, CHR 0xE8, CHR 0xB4, CHR 0xA5]
     @ '': `''"

text \<open>The closure given to \<open>callLLMStream\<close>: it extends the text of the card and appends all of it.\<close>

definition show_delta :: "string \<Rightarrow> string \<times> sdk_call list \<Rightarrow> string \<times> sdk_call list" where
  "show_delta d s = (case s of (shown, calls) \<Rightarrow> (shown @ d, calls @ [OnCard (Append (shown @ d))]))"

text \<open>The handler of a message; \<open>streamErr\<close> is the error of \<open>reply.Stream\<close>. It always returns nil.\<close>

definition handle_message ::
  "'w llm_client \<Rightarrow> llmConfig \<Rightarrow> string \<Rightarrow> goerr option \<Rightarrow> IncomingMessage \<Rightarrow> history \<times> 'w
     \<Rightarrow> sdk_call list \<times> history \<times> 'w" where
  "handle_message client llm sys streamErr m hw =
     (case hw of
        (h, w) \<Rightarrow>
          let cid = ConversationID (body m); opening = [MarkThinkingCall cid (MsgID (body m)), StreamCall];
              closing = [RecallThinkingCall cid (MsgID (body m))]
          in case streamErr of
               Some e \<Rightarrow> (opening @ closing, h, w)
             | None \<Rightarrow>
                 if kind llm = provNone
                 then (opening @ [OnCard (Finish (''**echo**: '' @ msg_text m))] @ closing, h, w)
                 else
                   (case historyAppend cid \<lparr>Role = ''user'', turn_Text = msg_text m\<rparr> h of
                      (turns, h1) \<Rightarrow>
                        (case callLLMStream client llm sys turns show_delta ((quoted_message m, []), w) of
                           ((full, Some e), (shown, calls), w1) \<Rightarrow>
                             (opening @ calls @ [OnCard (Finish (shown @ failure_note @ Error e @ ''`''))] @ closing, h1, w1)
                         | ((full, None), (shown, calls), w1) \<Rightarrow>
                             (opening @ calls @ [OnCard (Finish shown)] @ closing,
                              snd (historyAppend cid \<lparr>Role = ''assistant'', turn_Text = full\<rparr> h1), w1))))"

section \<open>The program\<close>

text \<open>
  \<open>main\<close>: the settings of the channel, the system message and the provider, or nothing (the program exits with
  status 2) without credentials. It then registers the handler and runs the channel.
\<close>

definition default_system :: string where
  "default_system =
     [CHR 0xE4, CHR 0xBD, CHR 0xA0, CHR 0xE6, CHR 0x98, CHR 0xAF, CHR 0xE9, CHR 0x92, CHR 0x89, CHR 0xE9, CHR 0x92,
     CHR 0x89, CHR 0xE7, CHR 0xBE, CHR 0xA4, CHR 0xE9, CHR 0x87, CHR 0x8C, CHR 0xE7, CHR 0x9A, CHR 0x84] @ '' AI ''
     @ [CHR 0xE5, CHR 0x8A, CHR 0xA9, CHR 0xE6, CHR 0x89, CHR 0x8B, CHR 0xE3, CHR 0x80, CHR 0x82, CHR 0xE5, CHR
     0x9B, CHR 0x9E, CHR 0xE7, CHR 0xAD, CHR 0x94, CHR 0xE7, CHR 0xAE, CHR 0x80, CHR 0xE6, CHR 0xB4, CHR 0x81, CHR
     0xE3, CHR 0x80, CHR 0x81, CHR 0xE7, CHR 0x94, CHR 0xA8] @ '' Markdown'' @ [CHR 0xEF, CHR 0xBC, CHR 0x9B, CHR
     0xE4, CHR 0xBB, CHR 0xA3, CHR 0xE7, CHR 0xA0, CHR 0x81, CHR 0xE7, CHR 0x94, CHR 0xA8, CHR 0xE4, CHR 0xBB, CHR
     0xA3, CHR 0xE7, CHR 0xA0, CHR 0x81, CHR 0xE5, CHR 0x9D, CHR 0x97, CHR 0xE3, CHR 0x80, CHR 0x82]"

record agent_setup =
  as_ClientID :: string
  as_ClientSecret :: string
  as_system :: string
  as_llm :: llmConfig

definition agent_main :: "(string \<Rightarrow> string) \<Rightarrow> agent_setup option" where
  "agent_main getenv =
     (if getenv ''DD_CLIENT_ID'' = [] \<or> getenv ''DD_CLIENT_SECRET'' = [] then None
      else Some \<lparr>as_ClientID = getenv ''DD_CLIENT_ID'', as_ClientSecret = getenv ''DD_CLIENT_SECRET'',
        as_system = or_default (getenv ''AGENT_SYS'') default_system, as_llm = llmFromEnv getenv\<rparr>)"

section \<open>The history keeps the last turns\<close>

definition append_all :: "(string \<times> turn) list \<Rightarrow> history \<Rightarrow> history" where
  "append_all evs h = foldl (\<lambda>h (cid, t). snd (historyAppend cid t h)) h evs"

definition turns_in :: "string \<Rightarrow> (string \<times> turn) list \<Rightarrow> turn list" where
  "turns_in cid evs = map snd (filter (\<lambda>(c, _). c = cid) evs)"

definition last_turns :: "turn list \<Rightarrow> turn list" where
  "last_turns ts = drop (length ts - 20) ts"

lemma last_turns_snoc: "last_turns (last_turns ts @ [t]) = last_turns (ts @ [t])"
proof (cases "20 \<le> length ts")
  case True
  then have "Suc (length ts - 20) = length ts - 19" by arith
  with True show ?thesis by (simp add: last_turns_def)
qed (simp add: last_turns_def)

lemma historyAppend_turns:
  "turns_of (snd (historyAppend cid t h)) c = (if c = cid then fst (historyAppend cid t h) else turns_of h c)"
  "fst (historyAppend cid t h) = last_turns (turns_of h cid @ [t])"
  by (auto simp: historyAppend_def Let_def turns_of_def last_turns_def histCap_def)

text \<open>
  Whatever the order in which the handlers of all conversations append to the history, a conversation has the
  last twenty turns appended for it, and these, with the new one, are what \<open>historyAppend\<close> returns.
\<close>

lemma history_keeps_last:
  "turns_of (append_all evs Map.empty) cid = last_turns (turns_in cid evs)
   \<and> fst (historyAppend cid t (append_all evs Map.empty)) = last_turns (turns_in cid evs @ [t])"
proof -
  have "turns_of (append_all evs Map.empty) cid = last_turns (turns_in cid evs)"
  proof (induction evs rule: rev_induct)
    case Nil
    then show ?case by (simp add: append_all_def turns_of_def turns_in_def last_turns_def)
  next
    case (snoc e evs)
    then show ?case
      by (cases e) (auto simp: append_all_def turns_in_def historyAppend_turns last_turns_snoc)
  qed
  then show ?thesis by (simp add: historyAppend_turns last_turns_snoc)
qed

section \<open>Reading the stream\<close>

text \<open>
  What the servers send: an object whose text stands in \<open>choices[0].delta.content\<close>, or in \<open>delta.text\<close> of an event of
  type \<open>content_block_delta\<close>. The text may be missing or null, members may come in any order, and there may be others.
\<close>

definition delta_text :: "string \<Rightarrow> (string \<times> json) list \<Rightarrow> string \<Rightarrow> bool" where
  "delta_text n kvs d \<longleftrightarrow>
     valid_utf8 d \<and> has_members [(n, JStr d)] kvs
     \<or> d = [] \<and> (has_members [(n, JNull)] kvs \<or> has_members [] kvs \<and> lacks n kvs)"

definition openai_chunk :: "(string \<times> json) list \<Rightarrow> string \<Rightarrow> bool" where
  "openai_chunk kvs d \<longleftrightarrow> lacks ''error'' kvs \<and>
     (d = [] \<and> has_members [(''choices'', JArr [])] kvs
      \<or> (\<exists>choice delta. has_members [(''choices'', JArr [JObj choice])] kvs \<and> has_members [(''delta'', JObj delta)] choice
           \<and> delta_text ''content'' delta d))"

definition anthropic_chunk :: "(string \<times> json) list \<Rightarrow> string \<Rightarrow> bool" where
  "anthropic_chunk kvs d \<longleftrightarrow> lacks ''error'' kvs \<and>
     ((\<exists>delta. has_members [(''type'', JStr ''content_block_delta''), (''delta'', JObj delta)] kvs \<and> delta_text ''text'' delta d)
      \<or> (\<exists>ty. d = [] \<and> ty \<noteq> ''content_block_delta'' \<and> valid_utf8 ty \<and> has_members [(''type'', JStr ty)] kvs \<and> lacks ''delta'' kvs))"

definition event_text :: "provider \<Rightarrow> json \<Rightarrow> string \<Rightarrow> bool" where
  "event_text k j d \<longleftrightarrow> nests_within 10000 j
     \<and> (\<exists>kvs. j = JObj kvs \<and> (if k = provOpenAI then openai_chunk kvs d else anthropic_chunk kvs d))"

lemma read_delta_text:
  assumes "delta_text n kvs d" and "to_valid n = n" and "get x = []" and "upd (\<lambda>_. []) x = x"
  shows "read_struct [struct_field n get upd read_string] (tree_of (JObj kvs)) x = Some (upd (\<lambda>_. d) x)"
  using assms(1) unfolding delta_text_def
proof (elim disjE conjE)
  assume "valid_utf8 d" "has_members [(n, JStr d)] kvs"
  then show ?thesis
    using assms(2) by (intro read_one_field [of n "JStr d"]) (simp_all add: read_string_def valid_utf8_def)
next
  assume "d = []" "has_members [(n, JNull)] kvs"
  then show ?thesis using assms(2,3) by (intro read_one_field [of n JNull]) (simp_all add: read_string_def)
next
  assume "d = []" "has_members [] kvs" "lacks n kvs"
  then show ?thesis using read_no_field [of kvs n get upd read_string x] assms(2,4) by simp
qed

definition same_openai :: "string \<Rightarrow> openai_event \<Rightarrow> openai_event \<Rightarrow> bool" where
  "same_openai n x y \<longleftrightarrow> (n = ''choices'' \<longrightarrow> oeChoices x = oeChoices y) \<and> (n = ''error'' \<longrightarrow> oeError x = oeError y)"

definition same_anthropic :: "string \<Rightarrow> anthropic_event \<Rightarrow> anthropic_event \<Rightarrow> bool" where
  "same_anthropic n x y \<longleftrightarrow> (n = ''type'' \<longrightarrow> aeType x = aeType y) \<and> (n = ''delta'' \<longrightarrow> aeDelta x = aeDelta y)
     \<and> (n = ''error'' \<longrightarrow> aeError x = aeError y)"

lemma openai_delta:
  assumes "openai_chunk kvs d" and "nests_within 10000 (JObj kvs)"
  shows "extractDelta provOpenAI (marshal (JObj kvs)) = (d, [])"
proof -
  let ?choice = "\<lparr>ocDelta = \<lparr>odContent = []\<rparr>\<rparr>" and ?zero = "\<lparr>oeChoices = [], oeError = None\<rparr>"
  let ?rd = "read_slice (read_struct openai_choice_fields) ?choice"
  obtain js cs where js: "has_members [(''choices'', JArr js)] kvs" "?rd (tree_of (JArr js)) [] = Some cs"
    and d: "d = (case cs of [] \<Rightarrow> [] | ch # _ \<Rightarrow> odContent (ocDelta ch))"
  proof -
    consider "d = []" "has_members [(''choices'', JArr [])] kvs"
      | choice delta where "has_members [(''choices'', JArr [JObj choice])] kvs" "has_members [(''delta'', JObj delta)] choice"
          "delta_text ''content'' delta d" using assms(1) by (auto simp: openai_chunk_def)
    then show thesis
    proof cases
      case 1
      then show ?thesis by (intro that [of "[]" "[]"]) (simp_all add: read_slice_def)
    next
      case 2
      have "read_struct openai_delta_fields (tree_of (JObj delta)) \<lparr>odContent = []\<rparr> = Some \<lparr>odContent = d\<rparr>"
        using read_delta_text [OF 2(3), of odContent "\<lparr>odContent = []\<rparr>" odContent_update]
        by (simp add: openai_delta_fields_def to_valid_ascii del: tree_of.simps)
      then have "read_struct openai_choice_fields (tree_of (JObj choice)) ?choice = Some \<lparr>ocDelta = \<lparr>odContent = d\<rparr>\<rparr>"
        unfolding openai_choice_fields_def
        by (subst read_one_field [OF 2(2)]) (simp_all add: to_valid_ascii del: tree_of.simps)
      then have "?rd (tree_of (JArr [JObj choice])) [] = Some [\<lparr>ocDelta = \<lparr>odContent = d\<rparr>\<rparr>]"
        by (simp add: read_slice_def)
      with 2(1) show ?thesis by (rule that) simp
    qed
  qed
  have "\<exists>y. read_struct openai_fields (tree_of (JObj kvs)) ?zero = Some y
      \<and> (\<forall>(n, f) \<in> set openai_fields. same_openai n y \<lparr>oeChoices = cs, oeError = None\<rparr>)"
  proof -
    have sets: "sets_field same_openai ''choices'' ?zero \<lparr>oeChoices = cs, oeError = None\<rparr>
        (snd (struct_field ''choices'' oeChoices oeChoices_update ?rd) (marshal (JArr js)) (tree_of (JArr js)))"
      by (rule sets_struct_field) (use js(2) in \<open>simp_all add: same_openai_def del: tree_of.simps\<close>)
    have split: "openai_fields = [struct_field ''choices'' oeChoices oeChoices_update ?rd]
        @ [struct_field ''error'' oeError oeError_update read_error]" by (simp add: openai_fields_def)
    show ?thesis
      unfolding split
      by (rule read_object_with [where agrees = same_openai, OF js(1)])
        (use sets assms(1) in \<open>simp_all add: to_valid_ascii fold_ascii fold_rune_def openai_chunk_def del: tree_of.simps marshal.simps\<close>,
          simp_all add: same_openai_def)
  qed
  then obtain y where "read_struct openai_fields (tree_of (JObj kvs)) ?zero = Some y" "oeChoices y = cs" "oeError y = None"
    by (auto simp: openai_fields_def struct_field_def same_openai_def simp del: tree_of.simps)
  then show ?thesis
    using assms(2) d by (simp add: extractDelta_def unmarshal_marshal del: tree_of.simps marshal.simps split: list.splits)
qed

lemma anthropic_delta:
  assumes "anthropic_chunk kvs d" and "nests_within 10000 (JObj kvs)" and "k \<noteq> provOpenAI"
  shows "extractDelta k (marshal (JObj kvs)) = (d, [])"
proof -
  let ?zero = "\<lparr>aeType = [], aeDelta = \<lparr>adText = []\<rparr>, aeError = None\<rparr>"
  let ?ty = "struct_field ''type'' aeType aeType_update read_string"
    and ?dl = "struct_field ''delta'' aeDelta aeDelta_update (read_struct anthropic_delta_fields)"
    and ?er = "struct_field ''error'' aeError aeError_update read_error"
  have names: "distinct (map (fold_name \<circ> fst) [?ty, ?dl, ?er])" "list_all (\<lambda>F. to_valid (fst F) = fst F) [?ty, ?dl, ?er]"
    by (simp_all add: fold_ascii fold_rune_def to_valid_ascii)
  have err: "lacks ''error'' kvs" using assms(1) by (simp add: anthropic_chunk_def)
  obtain ty t where y: "\<exists>y. read_struct anthropic_fields (tree_of (JObj kvs)) ?zero = Some y
      \<and> (\<forall>(n, f) \<in> set anthropic_fields. same_anthropic n y \<lparr>aeType = ty, aeDelta = \<lparr>adText = t\<rparr>, aeError = None\<rparr>)"
    and d: "d = (if ty = ''content_block_delta'' then t else [])"
  proof -
    consider delta where "has_members [(''type'', JStr ''content_block_delta''), (''delta'', JObj delta)] kvs" "delta_text ''text'' delta d"
      | ty where "d = []" "ty \<noteq> ''content_block_delta''" "valid_utf8 ty" "has_members [(''type'', JStr ty)] kvs" "lacks ''delta'' kvs"
      using assms(1) by (auto simp: anthropic_chunk_def)
    then show thesis
    proof cases
      case 1
      let ?t = "\<lparr>aeType = ''content_block_delta'', aeDelta = \<lparr>adText = d\<rparr>, aeError = None\<rparr>"
      have "read_struct anthropic_delta_fields (tree_of (JObj delta)) \<lparr>adText = []\<rparr> = Some \<lparr>adText = d\<rparr>"
        using read_delta_text [OF 1(2), of adText "\<lparr>adText = []\<rparr>" adText_update]
        by (simp add: anthropic_delta_fields_def to_valid_ascii del: tree_of.simps)
      then have "sets_field same_anthropic ''delta'' ?zero ?t (snd ?dl (marshal (JObj delta)) (tree_of (JObj delta)))"
        by (intro sets_struct_field) (simp_all add: same_anthropic_def del: tree_of.simps)
      moreover have "sets_field same_anthropic ''type'' ?zero ?t
          (snd ?ty (marshal (JStr ''content_block_delta'')) (tree_of (JStr ''content_block_delta'')))"
        by (rule sets_struct_field) (simp_all add: same_anthropic_def read_string_def to_valid_ascii)
      ultimately have l: "list_all2 (\<lambda>F m. fst F = fst m
          \<and> sets_field same_anthropic (fst F) ?zero ?t (snd F (marshal (snd m)) (tree_of (snd m))))
          [?ty, ?dl] [(''type'', JStr ''content_block_delta''), (''delta'', JObj delta)]"
        by (simp del: tree_of.simps marshal.simps)
      have split: "anthropic_fields = [?ty, ?dl] @ [?er]" by (simp add: anthropic_fields_def)
      have "\<exists>y. read_struct anthropic_fields (tree_of (JObj kvs)) ?zero = Some y
          \<and> (\<forall>(n, f) \<in> set anthropic_fields. same_anthropic n y ?t)"
        unfolding split
        by (rule read_object_with [where agrees = same_anthropic, OF 1(1) _ _ _ l])
          (use names err in \<open>simp_all add: same_anthropic_def\<close>)
      then show thesis by (rule that) simp
    next
      case 2
      let ?t = "\<lparr>aeType = ty, aeDelta = \<lparr>adText = []\<rparr>, aeError = None\<rparr>"
      have "sets_field same_anthropic ''type'' ?zero ?t (snd ?ty (marshal (JStr ty)) (tree_of (JStr ty)))"
        by (rule sets_struct_field) (use 2(3) in \<open>simp_all add: same_anthropic_def read_string_def valid_utf8_def\<close>)
      then have l: "list_all2 (\<lambda>F m. fst F = fst m
          \<and> sets_field same_anthropic (fst F) ?zero ?t (snd F (marshal (snd m)) (tree_of (snd m)))) [?ty] [(''type'', JStr ty)]"
        by (simp del: tree_of.simps marshal.simps)
      have split: "anthropic_fields = [?ty] @ [?dl, ?er]" by (simp add: anthropic_fields_def)
      have "\<exists>y. read_struct anthropic_fields (tree_of (JObj kvs)) ?zero = Some y
          \<and> (\<forall>(n, f) \<in> set anthropic_fields. same_anthropic n y ?t)"
        unfolding split
        by (rule read_object_with [where agrees = same_anthropic, OF 2(4) _ _ _ l])
          (use names err 2(5) in \<open>simp_all add: same_anthropic_def\<close>)
      then show thesis by (rule that) (use 2(1,2) in simp)
    qed
  qed
  then obtain y where "read_struct anthropic_fields (tree_of (JObj kvs)) ?zero = Some y" "aeType y = ty" "adText (aeDelta y) = t"
    "aeError y = None" by (auto simp: anthropic_fields_def struct_field_def same_anthropic_def simp del: tree_of.simps)
  then show ?thesis
    using assms(2,3) d by (simp add: extractDelta_def unmarshal_marshal del: tree_of.simps marshal.simps)
qed

lemma event_text_delta: "event_text k j d \<Longrightarrow> extractDelta k (marshal j) = (d, [])"
  using openai_delta anthropic_delta
  by (cases "k = provOpenAI") (auto simp: event_text_def simp del: marshal.simps nests_within.simps)

text \<open>
  An event of the stream: lines of other fields and comments, the line of its data, an empty line. The stream of
  OpenAI ends with a line of its own.
\<close>

definition other_line :: "string \<Rightarrow> bool" where
  "other_line l \<longleftrightarrow> CHR 0x0A \<notin> set l \<and> \<not> has_prefix l ''data:'' \<and> length l < max_token"

definition event_lines :: "string list \<times> json \<Rightarrow> string list" where
  "event_lines ev = fst ev @ [''data: '' @ marshal (snd ev), []]"

definition done_lines :: "string list" where "done_lines = [''data: [DONE]'', []]"

definition unlines :: "string list \<Rightarrow> string" where
  "unlines ls = concat (map (\<lambda>l. l @ [CHR 0x0A]) ls)"

definition event_ok :: "provider \<Rightarrow> string list \<times> json \<Rightarrow> string \<Rightarrow> bool" where
  "event_ok k ev d \<longleftrightarrow> list_all other_line (fst ev) \<and> event_text k (snd ev) d \<and> length (marshal (snd ev)) + 6 < max_token"

lemma scan_unlines:
  assumes "list_all (\<lambda>l. CHR 0x0A \<notin> set l \<and> length l < max_token) ls"
  shows "scan_lines (str_split (CHR 0x0A) (unlines ls)) err = (map drop_cr ls, err)"
  using assms
proof (induction ls)
  case (Cons l ls)
  have "str_split (CHR 0x0A) (unlines (l # ls)) = l # str_split (CHR 0x0A) (unlines ls)"
    using Cons.prems by (simp add: unlines_def str_split_append)
  then show ?case using Cons by simp
qed (simp add: unlines_def max_token_def)

lemma consume_append:
  "consume k f (xs @ ys) full s =
     (case consume k f xs full s of (full', s', None) \<Rightarrow> consume k f ys full' s' | res \<Rightarrow> res)"
  by (induction k f xs full s rule: consume.induct) (auto simp: Let_def split: option.splits prod.splits)

lemma consume_others: "list_all other_line ls \<Longrightarrow> consume k f (map drop_cr ls) full s = (full, s, None)"
proof (induction ls)
  case (Cons l ls)
  have "\<not> has_prefix (drop_cr l) ''data:''"
  proof
    assume "has_prefix (drop_cr l) ''data:''"
    then obtain r where "drop_cr l = ''data:'' @ r" by (auto simp: has_prefix_iff)
    then have "has_prefix l ''data:''"
      unfolding has_prefix_iff drop_cr_def by (metis append.assoc append_butlast_last_id)
    then show False using Cons.prems by (simp add: other_line_def)
  qed
  then show ?case using Cons by simp
qed simp

lemma marshal_line: "CHR 0x0A \<notin> set (marshal j)" "marshal j = [] \<or> last (marshal j) \<noteq> CHR 0x0D"
proof -
  have p: "0x20 \<le> ord c" if "c \<in> set (marshal j)" for c using printable_marshal [of j] that by (simp add: list_all_iff)
  show "CHR 0x0A \<notin> set (marshal j)" using p by fastforce
  show "marshal j = [] \<or> last (marshal j) \<noteq> CHR 0x0D" using p last_in_set by fastforce
qed

lemma consume_event:
  assumes "event_ok k ev d"
  shows "consume k f (map drop_cr (event_lines ev)) full s = (full @ d, if d = [] then s else f d s, None)"
proof -
  obtain pre j where ev: "ev = (pre, j)" by fastforce
  have j: "list_all other_line pre" "event_text k j d" using assms ev by (simp_all add: event_ok_def)
  obtain kvs where kvs: "j = JObj kvs" using j(2) by (auto simp: event_text_def)
  obtain mid where mid: "marshal j = CHR ''{'' # mid @ [CHR ''}'']" using kvs by simp
  have line: "drop_cr (''data: '' @ marshal j) = ''data:'' @ '' '' @ marshal j"
    using marshal_line(2) [of j] mid by (simp add: drop_cr_def)
  have payload: "TrimSpace ('' '' @ marshal j) = marshal j"
    unfolding mid by (rule TrimSpace_framed) (simp_all add: unicode_space_def)
  have "marshal j \<noteq> [] \<and> marshal j \<noteq> ''[DONE]''" using mid by simp
  then have "consume k f [''data:'' @ '' '' @ marshal j, []] full s = (full @ d, if d = [] then s else f d s, None)"
    using payload event_text_delta [OF j(2)] by (simp add: has_prefix_def)
  then show ?thesis
    using line
    by (simp add: event_lines_def ev consume_append consume_others [OF j(1)] drop_cr_def [of "[]"] del: consume.simps(2))
qed

section \<open>The answer\<close>

text \<open>The texts the handler appends: what the card shows before the stream, longer by every piece that is not empty.\<close>

fun growing :: "string \<Rightarrow> string list \<Rightarrow> string list" where
  "growing shown [] = []"
| "growing shown (d # ds) = (if d = [] then growing shown ds else (shown @ d) # growing (shown @ d) ds)"

lemma show_delta_text: "show_delta d (s, cs) = (s @ d, cs @ [OnCard (Append (s @ d))])"
  by (simp add: show_delta_def)

lemma consume_events:
  assumes "list_all2 (event_ok k) evs ds"
  shows "consume k show_delta (map drop_cr (concat (map event_lines evs))) full (shown, calls)
    = (full @ concat ds, (shown @ concat ds, calls @ map (OnCard \<circ> Append) (growing shown ds)), None)"
  using assms
proof (induction arbitrary: full shown calls)
  case (Cons ev evs d ds)
  show ?case
    by (simp add: consume_append consume_event [OF Cons.hyps(1)] Cons.IH show_delta_text)
qed simp

lemma consume_done: "consume k f (map drop_cr done_lines) full s = (full, s, None)"
proof -
  have "TrimSpace ('' '' @ CHR ''['' # ''DONE'' @ [CHR '']'']) = CHR ''['' # ''DONE'' @ [CHR '']'']"
    by (rule TrimSpace_framed) (simp_all add: unicode_space_def)
  then show ?thesis by (simp add: done_lines_def drop_cr_def has_prefix_def)
qed

lemma event_lines_ok:
  assumes "event_ok k ev d"
  shows "list_all (\<lambda>l. CHR 0x0A \<notin> set l \<and> length l < max_token) (event_lines ev)"
  using assms marshal_line(1) [of "snd ev"]
  by (auto simp: event_ok_def event_lines_def other_line_def list_all_iff max_token_def)

text \<open>
  C39. The answer of the agent. When the server answers with the events of the texts \<open>ds\<close>, for either provider and with
  whatever other members, lines and empty texts between them, the handler shows a card, marks the message,
  finishes the card with the quoted message followed by all the texts, takes the mark away, and adds the message
  and the answer to the history of the conversation; the request carries the last twenty turns.
\<close>

theorem agent_answers:
  assumes "kind llm \<noteq> provNone" and "list_all2 (event_ok (kind llm)) evs ds" and "closing \<in> {[], done_lines}"
    and "cid = ConversationID (body m)" and "historyAppend cid \<lparr>Role = ''user'', turn_Text = msg_text m\<rparr> h = (turns, h1)"
    and "client (llm_request llm sys turns) w
      = (Inr \<lparr>lr_status = 200, lr_body = unlines (concat (map event_lines evs) @ closing), lr_error = None\<rparr>, w')"
  shows "turns = last_turns (turns_of h cid @ [\<lparr>Role = ''user'', turn_Text = msg_text m\<rparr>])
    \<and> handle_message client llm sys None m (h, w) =
     ([MarkThinkingCall cid (MsgID (body m)), StreamCall] @ map (OnCard \<circ> Append) (growing (quoted_message m) ds)
        @ [OnCard (Finish (quoted_message m @ concat ds)), RecallThinkingCall cid (MsgID (body m))],
      snd (historyAppend cid \<lparr>Role = ''assistant'', turn_Text = concat ds\<rparr> h1), w')"
proof
  show "turns = last_turns (turns_of h cid @ [\<lparr>Role = ''user'', turn_Text = msg_text m\<rparr>])"
    using historyAppend_turns(2) assms(5) by (metis fst_conv)
  let ?ls = "concat (map event_lines evs) @ closing"
  have "list_all (\<lambda>l. CHR 0x0A \<notin> set l \<and> length l < max_token) (concat (map event_lines evs))"
    using assms(2) by (induction rule: list_all2_induct) (use event_lines_ok in auto)
  moreover have "list_all (\<lambda>l. CHR 0x0A \<notin> set l \<and> length l < max_token) closing"
    using assms(3) by (auto simp: done_lines_def max_token_def)
  ultimately have scan: "scan_lines (str_split (CHR 0x0A) (unlines ?ls)) None = (map drop_cr ?ls, None)"
    by (intro scan_unlines) simp
  have "consume (kind llm) show_delta (map drop_cr ?ls) [] (quoted_message m, [])
      = (concat ds, (quoted_message m @ concat ds, map (OnCard \<circ> Append) (growing (quoted_message m) ds)), None)"
    using assms(3) by (auto simp: consume_append consume_events [OF assms(2)] consume_done)
  then have "callLLMStream client llm sys turns show_delta ((quoted_message m, []), w)
      = ((concat ds, None), (quoted_message m @ concat ds, map (OnCard \<circ> Append) (growing (quoted_message m) ds)), w')"
    using assms(1,6) scan by (simp add: callLLMStream_def scan_body_def)
  then show "handle_message client llm sys None m (h, w) =
     ([MarkThinkingCall cid (MsgID (body m)), StreamCall] @ map (OnCard \<circ> Append) (growing (quoted_message m) ds)
        @ [OnCard (Finish (quoted_message m @ concat ds)), RecallThinkingCall cid (MsgID (body m))],
      snd (historyAppend cid \<lparr>Role = ''assistant'', turn_Text = concat ds\<rparr> h1), w')"
    using assms(1,4,5) by (simp add: handle_message_def Let_def)
qed

section \<open>Every outcome\<close>

lemma consume_grows:
  assumes "consume k show_delta ls full (shown, calls) = (full', (shown', calls'), res)"
  shows "\<exists>ds. [] \<notin> set ds \<and> full' = full @ concat ds \<and> shown' = shown @ concat ds
    \<and> calls' = calls @ map (OnCard \<circ> Append) (growing shown ds)"
  using assms
proof (induction ls arbitrary: full shown calls)
  case Nil
  then show ?case by (intro exI [of _ "[]"]) simp
next
  case (Cons l ls)
  obtain d msg where dm: "extractDelta k (TrimSpace (drop 5 l)) = (d, msg)" by fastforce
  consider "consume k show_delta ls full (shown, calls) = (full', (shown', calls'), res)"
    | "d \<noteq> []" "consume k show_delta ls (full @ d) (shown @ d, calls @ [OnCard (Append (shown @ d))]) = (full', (shown', calls'), res)"
    | "full' = full" "shown' = shown" "calls' = calls"
    using Cons.prems by (auto simp: Let_def dm show_delta_text split: if_splits)
  then show ?case
  proof cases
    case 1
    then show ?thesis by (rule Cons.IH)
  next
    case 2
    then obtain ds where "[] \<notin> set ds" "full' = (full @ d) @ concat ds" "shown' = (shown @ d) @ concat ds"
      "calls' = (calls @ [OnCard (Append (shown @ d))]) @ map (OnCard \<circ> Append) (growing (shown @ d) ds)"
      using Cons.IH by blast
    with 2(1) show ?thesis by (intro exI [of _ "d # ds"]) simp
  next
    case 3
    then show ?thesis by (intro exI [of _ "[]"]) simp
  qed
qed

lemma call_grows:
  assumes "callLLMStream client c sys turns show_delta ((shown, []), w) = ((full, e), (shown', calls), w')"
  shows "\<exists>ds. [] \<notin> set ds \<and> full = concat ds \<and> shown' = shown @ full \<and> calls = map (OnCard \<circ> Append) (growing shown ds)"
proof -
  have stay: ?thesis if "full = []" "shown' = shown" "calls = []"
    using that by (intro exI [of _ "[]"]) simp
  have go: ?thesis if "consume (kind c) show_delta ls [] (shown, []) = (full, (shown', calls), res)" for ls res
    using consume_grows [OF that] by auto
  show ?thesis
    using assms stay go
    by (auto simp: callLLMStream_def split: if_splits prod.splits sum.splits option.splits)
qed

text \<open>
  Whatever the server sends and however the call fails, the badge is set first and taken away last, and a card that
  was opened is finished exactly once, after its appends: with the quoted message, the texts received and, after a
  failure, the note with its error. The conversation keeps the user's turn, and the answer only when it came to its
  end. Without a card nothing is asked and nothing is kept; without a provider the card shows an echo.
\<close>

lemma finishes_card:
  "case handle_message client llm sys streamErr m (h, w) of
     (calls, h', w') \<Rightarrow>
       let cid = ConversationID (body m);
           around = (\<lambda>ops. [MarkThinkingCall cid (MsgID (body m)), StreamCall] @ map OnCard ops @ [RecallThinkingCall cid (MsgID (body m))]);
           user = \<lparr>Role = ''user'', turn_Text = msg_text m\<rparr>
       in if streamErr \<noteq> None then calls = around [] \<and> h' = h \<and> w' = w
          else if kind llm = provNone then calls = around [Finish (''**echo**: '' @ msg_text m)] \<and> h' = h \<and> w' = w
          else (\<exists>ds e. [] \<notin> set ds
            \<and> calls = around (map Append (growing (quoted_message m) ds) @ [Finish (quoted_message m @ concat ds
                @ (case e of None \<Rightarrow> [] | Some err \<Rightarrow> failure_note @ Error err @ ''`''))])
            \<and> turns_of h' cid = last_turns (turns_of h cid @ user
                # (case e of None \<Rightarrow> [\<lparr>Role = ''assistant'', turn_Text = concat ds\<rparr>] | Some _ \<Rightarrow> []))
            \<and> (\<forall>c. c = cid \<or> turns_of h' c = turns_of h c))"
proof (cases "streamErr = None \<and> kind llm \<noteq> provNone")
  case False
  then show ?thesis by (cases streamErr) (auto simp: handle_message_def Let_def)
next
  case True
  let ?cid = "ConversationID (body m)" and ?user = "\<lparr>Role = ''user'', turn_Text = msg_text m\<rparr>"
  obtain turns h1 where app: "historyAppend ?cid ?user h = (turns, h1)" by fastforce
  obtain full e shown calls w1 where call:
    "callLLMStream client llm sys turns show_delta ((quoted_message m, []), w) = ((full, e), (shown, calls), w1)"
    by (metis prod.exhaust)
  obtain ds where ds: "[] \<notin> set ds" "full = concat ds" "shown = quoted_message m @ full"
    "calls = map (OnCard \<circ> Append) (growing (quoted_message m) ds)" using call_grows [OF call] by blast
  have h1: "turns_of h1 c = (if c = ?cid then last_turns (turns_of h ?cid @ [?user]) else turns_of h c)" for c
    using historyAppend_turns [of ?cid ?user h] app by (metis fst_conv snd_conv)
  have h2: "turns_of (snd (historyAppend ?cid t h1)) c
      = (if c = ?cid then last_turns (turns_of h ?cid @ [?user, t]) else turns_of h c)" for t c
    using last_turns_snoc [of "turns_of h ?cid @ [?user]" t] by (simp add: historyAppend_turns h1)
  show ?thesis
  proof (cases e)
    case None
    then show ?thesis
      using True app call ds h2
      by (simp add: handle_message_def Let_def, intro exI [of _ ds] conjI exI [of _ None]) simp_all
  next
    case (Some err)
    then show ?thesis
      using True app call ds h1
      by (simp add: handle_message_def Let_def, intro exI [of _ ds] conjI exI [of _ "Some err"]) simp_all
  qed
qed

text \<open>
  \<open>Append\<close> takes what is new, but the handler gives it the whole text every time: until the card is finished, the
  streamer holds the beginning of the answer once for every piece.
\<close>

lemma agent_repeats:
  "a \<noteq> [] \<Longrightarrow> b \<noteq> [] \<Longrightarrow> concat (growing q [a, b]) = q @ a @ q @ a @ b"
  by simp

text \<open>One text in one event, with another member before it.\<close>

definition hi_event :: json where
  "hi_event = JObj [(''id'', JInt 7), (''choices'', JArr [JObj [(''delta'', JObj [(''content'', JStr ''hi'')])]])]"

definition asked :: IncomingMessage where
  "asked = Message (empty_fields\<lparr>ConversationID := ''c1'', MsgID := ''m1'', SenderNick := ''Ann'', Text := ''?''\<rparr>) []"

definition demo_llm :: llmConfig where
  "demo_llm = \<lparr>kind = provOpenAI, base = ''http://llm'', token = ''k'', model = ''m''\<rparr>"

definition hi_answer :: "unit llm_client" where
  "hi_answer r w = (Inr \<lparr>lr_status = 200, lr_body = unlines (event_lines ([''event: x''], hi_event) @ done_lines), lr_error = None\<rparr>, w)"

lemma json_chars_plain:
  "list_all (\<lambda>c. 0x20 \<le> ord c \<and> ord c < 0x80 \<and> ord c \<notin> {0x22, 0x5C, 0x3C, 0x3E, 0x26}) s \<Longrightarrow> json_chars s = s"
proof (induction s)
  case (Cons c cs)
  then have "decode_rune c cs = (ord c, 1)" "json_rune (ord c) = [c]"
    by (simp_all add: decode_rune_def json_rune_def encode_rune_def valid_rune_def encode_valid_def)
  then show ?case using Cons by (simp add: RuneError_def)
qed simp

lemma hi_event_ok: "event_ok provOpenAI ([''event: x''], hi_event) ''hi''"
proof -
  have "openai_chunk [(''id'', JInt 7), (''choices'', JArr [JObj [(''delta'', JObj [(''content'', JStr ''hi'')])]])] ''hi''"
    unfolding openai_chunk_def delta_text_def
    by (simp add: has_members_def lacks_def fold_ascii fold_rune_def to_valid_ascii valid_utf8_def)
  moreover have "nests_within 10000 hi_event" by (simp add: hi_event_def)
  ultimately have "event_text provOpenAI hi_event ''hi''" by (simp add: event_text_def hi_event_def)
  moreover have "length (marshal hi_event) = 47"
    by (simp add: hi_event_def json_string_def json_chars_plain format_int_def nat_digits.simps [of 7] del: json_chars.simps)
  then have "length (marshal hi_event) + 6 < max_token" by (simp add: max_token_def)
  ultimately show ?thesis by (simp add: event_ok_def other_line_def has_prefix_def max_token_def)
qed

theorem agent_answers_witness:
  "handle_message hi_answer demo_llm [] None asked (Map.empty, ())
     = ([MarkThinkingCall ''c1'' ''m1'', StreamCall, OnCard (Append (quoted_message asked @ ''hi'')),
         OnCard (Finish (quoted_message asked @ ''hi'')), RecallThinkingCall ''c1'' ''m1''],
        [''c1'' \<mapsto> [\<lparr>Role = ''user'', turn_Text = ''?''\<rparr>, \<lparr>Role = ''assistant'', turn_Text = ''hi''\<rparr>]], ())"
proof -
  let ?user = "\<lparr>Role = ''user'', turn_Text = ''?''\<rparr>"
  have "list_all2 (event_ok (kind demo_llm)) [([''event: x''], hi_event)] [''hi'']"
    using hi_event_ok by (simp add: demo_llm_def)
  moreover have "''c1'' = ConversationID (body asked)" by (simp add: asked_def)
  moreover have "historyAppend ''c1'' \<lparr>Role = ''user'', turn_Text = msg_text asked\<rparr> Map.empty = ([?user], [''c1'' \<mapsto> [?user]])"
    by (simp add: historyAppend_def Let_def turns_of_def histCap_def asked_def)
  moreover have "hi_answer r () = (Inr \<lparr>lr_status = 200,
      lr_body = unlines (concat (map event_lines [([''event: x''], hi_event)]) @ done_lines), lr_error = None\<rparr>, ())" for r
    by (simp add: hi_answer_def)
  ultimately show ?thesis
    using agent_answers [of demo_llm "[([''event: x''], hi_event)]" "[''hi'']" done_lines "''c1''" asked Map.empty "[?user]"
        "[''c1'' \<mapsto> [?user]]" hi_answer "[]" "()" "()"]
    by (simp add: demo_llm_def asked_def historyAppend_def Let_def turns_of_def histCap_def)
qed

text \<open>An error that is not an object is taken for an event without text: the answer ends early and counts as complete.\<close>

lemma string_error_ignored:
  "extractDelta provOpenAI (marshal (JObj [(''error'', JStr ''overloaded'')])) = ([], [])"
  by (subst extractDelta_def, subst unmarshal_marshal)
    (simp_all add: read_struct_def openai_fields_def find_field_def struct_field_def to_valid_ascii read_error_def read_pointer_def)

end
