(* ===== verification/AgentRun.thy ===== *)
theory AgentRun
  imports Agent
begin

text \<open>
  The example agent on the streaming handle: the operations of its handler, run by the goroutines of
  \<open>CardSystem\<close>. What the handler finishes the card with reaches the user, whatever the model service and the card
  API answer.
\<close>

section \<open>Streamers that are only appended to and finished\<close>

text \<open>The tasks of \<open>Append\<close>, of \<open>Finish\<close> with one text, and of the flush timers.\<close>

definition peaceful :: "string \<Rightarrow> task \<Rightarrow> bool" where
  "peaceful txt t \<longleftrightarrow> t \<notin> {AbortT, WatchdogT} \<and> (\<forall>e. t \<noteq> FailT e) \<and> (\<forall>x. t = FinishT x \<longrightarrow> x = txt)"

definition peaceful_inv :: "string \<Rightarrow> system \<Rightarrow> bool" where
  "peaceful_inv txt y \<longleftrightarrow> list_all (peaceful txt) (tasks y) \<and> the_card (streamer y) \<noteq> None
     \<and> (closed (streamer y) \<longrightarrow> UpdateCalled txt True \<in> set (history y))"

definition finish_pending :: "string \<Rightarrow> system \<Rightarrow> bool" where
  "finish_pending txt y \<longleftrightarrow> FinishT txt \<in> set (tasks y) \<or> closed (streamer y)"

lemma step_peaceful:
  assumes "task_step cfg now res t s = (es, ts, s')" and "peaceful txt t" and "the_card s \<noteq> None" and "txt \<noteq> []"
  shows "list_all (peaceful txt) ts" and "the_card s' \<noteq> None"
    and "closed s' \<Longrightarrow> closed s \<or> UpdateCalled txt True \<in> set es"
    and "closed s \<or> t = FinishT txt \<Longrightarrow> closed s'"
  using assms
  by (cases t; auto simp: step_defs peaceful_def split: if_splits option.splits prod.splits)+

lemma peaceful_run_task:
  assumes "peaceful_inv txt y" and "i < length (tasks y)" and "txt \<noteq> []"
  shows "peaceful_inv txt (run_task cfg i res y)" and "finish_pending txt y \<Longrightarrow> finish_pending txt (run_task cfg i res y)"
proof -
  obtain es ts s where st: "task_step cfg (clock y) res (tasks y ! i) (streamer y) = (es, ts, s)"
    by (metis prod_cases3)
  have inv: "list_all (peaceful txt) (tasks y)" "the_card (streamer y) \<noteq> None"
    "closed (streamer y) \<longrightarrow> UpdateCalled txt True \<in> set (history y)" using assms(1) by (simp_all add: peaceful_inv_def)
  have "peaceful txt (tasks y ! i)" using inv(1) assms(2) by (simp add: list_all_length)
  note step = step_peaceful [OF st this inv(2) assms(3)]
  have "tasks y = take i (tasks y) @ tasks y ! i # drop (Suc i) (tasks y)" by (rule id_take_nth_drop [OF assms(2)])
  then have split: "set (tasks y) = insert (tasks y ! i) (set (take i (tasks y)) \<union> set (drop (Suc i) (tasks y)))"
    by (metis Un_insert_right list.simps(15) set_append)
  have y': "tasks (run_task cfg i res y) = take i (tasks y) @ ts @ drop (Suc i) (tasks y)"
    "streamer (run_task cfg i res y) = s" using st by (simp_all add: run_task_def)
  show "peaceful_inv txt (run_task cfg i res y)"
    using inv step(1-3) split unfolding peaceful_inv_def y' set_history_run_task [OF st] list_all_iff by auto
  show "finish_pending txt (run_task cfg i res y)" if "finish_pending txt y"
    using that step(4) split unfolding finish_pending_def y' by auto
qed

definition peaceful_action :: "string \<Rightarrow> action \<Rightarrow> bool" where
  "peaceful_action txt a \<longleftrightarrow> a \<noteq> WatchdogExpires \<and> (\<forall>op. a = Start op \<longrightarrow> peaceful txt (entry op))"

lemma peaceful_step:
  assumes "system_step cfg a y = Some y'" and "peaceful_action txt a" and "peaceful_inv txt y" and "txt \<noteq> []"
  shows "peaceful_inv txt y'" and "finish_pending txt y \<or> a = Start (Finish txt) \<Longrightarrow> finish_pending txt y'"
  using assms(1)
proof (atomize (full), cases rule: system_step_cases)
  case (task i res)
  then show "peaceful_inv txt y' \<and> (finish_pending txt y \<or> a = Start (Finish txt) \<longrightarrow> finish_pending txt y')"
    using peaceful_run_task [OF assms(3) _ assms(4)] by simp
next
  case (start op)
  then show "peaceful_inv txt y' \<and> (finish_pending txt y \<or> a = Start (Finish txt) \<longrightarrow> finish_pending txt y')"
    using assms(2,3) by (auto simp: peaceful_inv_def finish_pending_def peaceful_action_def)
qed (use assms(2,3) in \<open>auto simp: peaceful_inv_def finish_pending_def peaceful_action_def\<close>)

lemma peaceful_run:
  "run cfg acts y = Some y' \<Longrightarrow> list_all (peaceful_action txt) acts \<Longrightarrow> peaceful_inv txt y \<Longrightarrow> txt \<noteq> [] \<Longrightarrow>
   peaceful_inv txt y' \<and> (finish_pending txt y \<or> Start (Finish txt) \<in> set acts \<longrightarrow> finish_pending txt y')"
proof (induction acts arbitrary: y)
  case (Cons a acts)
  then obtain z where z: "system_step cfg a y = Some z" "run cfg acts z = Some y'" by (auto split: option.splits)
  show ?case
    using Cons.IH [OF z(2)] Cons.prems(2-4) peaceful_step [OF z(1)] by auto
qed simp

text \<open>One \<open>Finish\<close>, no \<open>Abort\<close>, no \<open>Fail\<close> and no watchdog: the text of the \<open>Finish\<close> is settled when the work has ended.\<close>

lemma finish_settles:
  assumes "run cfg acts (new_system (new_streamer (Some inst)) now) = Some y" and "tasks y = []"
    and "list_all (peaceful_action txt) acts" and "Start (Finish txt) \<in> set acts" and "txt \<noteq> []"
  shows "settled cfg txt (set (history y))"
proof -
  have "peaceful_inv txt (new_system (new_streamer (Some inst)) now)"
    by (simp add: peaceful_inv_def new_system_def new_streamer_def)
  then have "peaceful_inv txt y \<and> finish_pending txt y" using peaceful_run [OF assms(1,3) _ assms(5)] assms(4) by blast
  then have "UpdateCalled txt True \<in> set (history y)" using assms(2) by (simp add: finish_pending_def peaceful_inv_def)
  then show ?thesis by (rule finish_settled [OF assms(1,2)])
qed

section \<open>The agent\<close>

fun card_ops :: "sdk_call list \<Rightarrow> operation list" where
  "card_ops [] = []"
| "card_ops (OnCard op # cs) = op # card_ops cs"
| "card_ops (c # cs) = card_ops cs"

fun starts :: "action list \<Rightarrow> operation list" where
  "starts [] = []"
| "starts (Start op # acts) = op # starts acts"
| "starts (a # acts) = starts acts"

lemma starts_iff: "op \<in> set (starts acts) \<longleftrightarrow> Start op \<in> set acts"
  by (induction acts rule: starts.induct) auto

lemma card_ops_append: "card_ops (xs @ ys) = card_ops xs @ card_ops ys"
  by (induction xs rule: card_ops.induct) simp_all

lemma card_ops_OnCard: "card_ops (map OnCard ops) = ops"
  by (induction ops) simp_all

text \<open>What the handler finishes the card with, from the texts received and the error.\<close>

definition final_text :: "llmConfig \<Rightarrow> IncomingMessage \<Rightarrow> string list \<Rightarrow> goerr option \<Rightarrow> string" where
  "final_text llm m ds e =
     (if kind llm = provNone then ''**echo**: '' @ msg_text m
      else quoted_message m @ concat ds @ (case e of None \<Rightarrow> [] | Some err \<Rightarrow> failure_note @ Error err @ ''`''))"

lemma handler_outcome:
  assumes "handle_message client llm sys None m (h, w) = (calls, h', w')"
  shows "\<exists>ds e. card_ops calls = (if kind llm = provNone then [] else map Append (growing (quoted_message m) ds))
        @ [Finish (final_text llm m ds e)]
    \<and> turns_of h' (ConversationID (body m)) = (if kind llm = provNone then turns_of h (ConversationID (body m))
        else last_turns (turns_of h (ConversationID (body m)) @ \<lparr>Role = ''user'', turn_Text = msg_text m\<rparr>
          # (case e of None \<Rightarrow> [\<lparr>Role = ''assistant'', turn_Text = concat ds\<rparr>] | Some _ \<Rightarrow> [])))"
proof (cases "kind llm = provNone")
  case True
  then have "calls = [MarkThinkingCall (ConversationID (body m)) (MsgID (body m)), StreamCall,
      OnCard (Finish (''**echo**: '' @ msg_text m)), RecallThinkingCall (ConversationID (body m)) (MsgID (body m))]" "h' = h"
    using assms by (auto simp: handle_message_def Let_def)
  with True show ?thesis by (simp add: final_text_def)
next
  case False
  with finishes_card [where client = client and llm = llm and sys = sys and streamErr = None and m = m and h = h and w = w] assms
  obtain ds e where "calls = [MarkThinkingCall (ConversationID (body m)) (MsgID (body m)), StreamCall]
      @ map OnCard (map Append (growing (quoted_message m) ds) @ [Finish (quoted_message m @ concat ds
          @ (case e of None \<Rightarrow> [] | Some err \<Rightarrow> failure_note @ Error err @ ''`''))])
      @ [RecallThinkingCall (ConversationID (body m)) (MsgID (body m))]"
    "turns_of h' (ConversationID (body m)) = last_turns (turns_of h (ConversationID (body m))
        @ \<lparr>Role = ''user'', turn_Text = msg_text m\<rparr>
        # (case e of None \<Rightarrow> [\<lparr>Role = ''assistant'', turn_Text = concat ds\<rparr>] | Some _ \<Rightarrow> []))"
    by (auto simp: Let_def)
  with False show ?thesis
    by (intro exI [of _ ds] exI [of _ e]) (simp add: final_text_def card_ops_append card_ops_OnCard flip: map_map)
qed

text \<open>
  C40. From the answer of the model service to the card. Whatever the service does, the handler of the agent appends
  growing texts and finishes the card once, with the message quoted, the texts received and the note of the
  error, or with an echo when there is no service. When the goroutines that these operations start have done
  their work, in any order and whatever the card API answers, and the watchdog has not closed the card before,
  that final text is on the card, with what does not fit a frame sent on, or was sent through the fallback. The
  conversation keeps the user's turn, and the answer unless an error ended it.
\<close>

theorem agent_reaches_user:
  assumes "handle_message client llm sys None m (h, w) = (calls, h', w')"
    and "run cfg acts (new_system (new_streamer (Some inst)) now) = Some y" and "tasks y = []"
    and "WatchdogExpires \<notin> set acts" and "starts acts = card_ops calls"
  shows "\<exists>ds e. card_ops calls = (if kind llm = provNone then [] else map Append (growing (quoted_message m) ds))
        @ [Finish (final_text llm m ds e)]
    \<and> settled cfg (final_text llm m ds e) (set (history y))
    \<and> turns_of h' (ConversationID (body m)) = (if kind llm = provNone then turns_of h (ConversationID (body m))
        else last_turns (turns_of h (ConversationID (body m)) @ \<lparr>Role = ''user'', turn_Text = msg_text m\<rparr>
          # (case e of None \<Rightarrow> [\<lparr>Role = ''assistant'', turn_Text = concat ds\<rparr>] | Some _ \<Rightarrow> [])))"
proof -
  obtain ds e where calls: "card_ops calls = (if kind llm = provNone then [] else map Append (growing (quoted_message m) ds))
      @ [Finish (final_text llm m ds e)]"
    and kept: "turns_of h' (ConversationID (body m)) = (if kind llm = provNone then turns_of h (ConversationID (body m))
        else last_turns (turns_of h (ConversationID (body m)) @ \<lparr>Role = ''user'', turn_Text = msg_text m\<rparr>
          # (case e of None \<Rightarrow> [\<lparr>Role = ''assistant'', turn_Text = concat ds\<rparr>] | Some _ \<Rightarrow> [])))"
    using handler_outcome [OF assms(1)] by blast
  let ?t = "final_text llm m ds e"
  have ops: "op \<in> set (card_ops calls) \<Longrightarrow> op = Finish ?t \<or> (\<exists>d. op = Append d)" for op
    using calls by (auto split: if_splits)
  have "list_all (peaceful_action ?t) acts"
    unfolding list_all_iff peaceful_action_def
  proof (intro ballI conjI allI impI)
    show "a \<noteq> WatchdogExpires" if "a \<in> set acts" for a using that assms(4) by blast
    show "peaceful ?t (entry op)" if "a \<in> set acts" "a = Start op" for a op
      using ops [of op] starts_iff [of op acts] that assms(5) by (auto simp: peaceful_def)
  qed
  moreover have "Start (Finish ?t) \<in> set acts"
    using starts_iff [of "Finish ?t" acts] calls assms(5) by simp
  moreover have "?t \<noteq> []" by (simp add: final_text_def quoted_message_def)
  ultimately have "settled cfg ?t (set (history y))" by (rule finish_settles [OF assms(2,3)])
  with calls kept show ?thesis by blast
qed

text \<open>A service that cannot be reached.\<close>

definition dead_service :: "unit llm_client" where
  "dead_service r w = (Inl (PlainErr ''down''), w)"

definition apology_text :: string where
  "apology_text = quoted_message asked @ failure_note @ ''down`''"

definition apology_schedule :: "action list" where
  "apology_schedule = Start (Finish apology_text) # replicate 7 (RunTask 0 None)"

lemma apology_run:
  "\<exists>y. run demo_setup apology_schedule (new_system (new_streamer (Some (demo_card True))) 0) = Some y \<and> tasks y = []"
proof -
  have "apology_text \<noteq> []" by (simp add: apology_text_def quoted_message_def)
  then show ?thesis
    by (simp add: apology_schedule_def demo_setup_def demo_card_def run_task_def step_defs new_system_def new_streamer_def
        zero_time_def cardFrameGap_def started_def time_sub_def min_int64_def max_int64_def numeral_nat)
qed

theorem agent_reaches_user_witness:
  "\<exists>y. run demo_setup apology_schedule (new_system (new_streamer (Some (demo_card True))) 0) = Some y
     \<and> settled demo_setup apology_text (set (history y))"
proof -
  let ?user = "\<lparr>Role = ''user'', turn_Text = ''?''\<rparr>"
  have handled: "handle_message dead_service demo_llm [] None asked (Map.empty, ())
      = ([MarkThinkingCall ''c1'' ''m1'', StreamCall, OnCard (Finish apology_text), RecallThinkingCall ''c1'' ''m1''],
         [''c1'' \<mapsto> [?user]], ())"
    by (simp add: handle_message_def callLLMStream_def dead_service_def demo_llm_def asked_def historyAppend_def Let_def
        turns_of_def histCap_def apology_text_def)
  obtain y where y: "run demo_setup apology_schedule (new_system (new_streamer (Some (demo_card True))) 0) = Some y" "tasks y = []"
    using apology_run by blast
  have "starts apology_schedule = [Finish apology_text]" "WatchdogExpires \<notin> set apology_schedule"
    by (simp_all add: apology_schedule_def numeral_nat)
  then obtain ds e where "[Finish apology_text] = map Append (growing (quoted_message asked) ds) @ [Finish (final_text demo_llm asked ds e)]"
    "settled demo_setup (final_text demo_llm asked ds e) (set (history y))"
    using agent_reaches_user [OF handled y] by (auto simp: demo_llm_def)
  then show ?thesis using y(1) by (cases "growing (quoted_message asked) ds") auto
qed

end
