(* ===== verification/Spec2Isabelle.thy ===== *)
theory Spec2Isabelle
  imports Dedup Batching PipelineQueue Retry Splitter RateLimit Connection BotIdentity Cooldown SSRFGuard CardLive Normalize HttpMode ChannelRun ApiDecode AgentRun
begin

text \<open>
  A verification development for the DingTalk channel SDK for Go (\<open>src/\<close>, packages \<open>channel\<close>, \<open>types\<close>,
  \<open>internal/normalize\<close>, \<open>internal/safety\<close> and \<open>internal/outbound\<close>). The SDK connects a robot to the DingTalk
  platform. Frames arrive over a long-lived connection (or HTTP callbacks), are normalised to messages, pass
  the safety pipeline, and reach the user's handler; the handler answers through a reply handle, with posts to
  a webhook, with proactive messages, or with a card that is updated while its text is produced.

  \<^bold>\<open>How the parts call each other.\<close>
  \<open>Connection\<close> (\<open>stream.go\<close>, \<open>frame.go\<close>) acknowledges a frame and hands it to \<open>Channel.dispatchFrame\<close>
  (\<open>channel.go\<close>); HTTP callbacks come in through \<open>Channel.HTTPCallbackHandler\<close>, which checks the signature of
  \<open>HttpMode\<close> first. Both go through \<open>Normalize.NormalizeIncoming\<close> into \<open>Pipeline.PushMessage\<close>
  (\<open>internal/safety/pipeline.go\<close>), which asks \<open>StaleDetector\<close>, \<open>SeenCache\<close>, the self filter, \<open>PolicyGate\<close> and
  \<open>ProcessingLock\<close> in this order and routes an admitted message to the queue of its conversation (\<open>ChatQueue\<close>,
  together in \<open>PipelineQueue\<close>), to a media batch (\<open>MediaPipeline\<close>) or straight to the handler. Card callbacks
  go to \<open>Pipeline.PushAction\<close> with a content fingerprint of \<open>Digest\<close>. On the way out \<open>Reply\<close> (\<open>reply.go\<close>) cuts a
  text with \<open>Splitter\<close>, posts the chunks under \<open>Retry\<close> and falls back to \<open>Outbound\<close> (\<open>send.go\<close>) when
  \<open>Errors\<close> classifies an answer as a target that is gone. The card client \<open>CardClient\<close> (\<open>card.go\<close>) sends every
  API call behind the token bucket of \<open>RateLimit\<close> with an access token of \<open>Token\<close>; the streaming handle is
  \<open>CardStreamer\<close>, and \<open>CardSystem\<close> runs its goroutines in every order. \<open>Decode\<close> puts the decoders of the JSON the SDK
  receives in front of this, and \<open>Agent\<close> (\<open>example/agent\<close>) is a program on top of it.

  \<^bold>\<open>Representation.\<close>
  Times and durations are Go's \<open>int64\<close> nanoseconds as \<open>int\<close> with the wrap-around and the saturation of
  \<open>time.Sub\<close> written out where the code can reach them (\<open>Prelude\<close>); strings are byte strings, and code that
  works on runes goes through \<open>Utf8\<close>; SHA-256, IP networks and UTF-8 use machine words. Mutexes make a critical
  section one step; a component with several goroutines is a relation or a schedule of such steps, so its
  theorems hold for every interleaving. User callbacks, the network, the clock, regular
  expression matching for URLs and the resolver are arguments: functions on a world \<open>'w\<close>, or, for a callback, the
  flag whether it returned an error. The decoders of JSON are arguments as well, so that the theorems of a component
  hold for anything that parses; \<open>Decode\<close> instantiates those of frames and callbacks, \<open>ApiDecode\<close> those of API
  answers. Errors are values of \<open>Errors.goerr\<close>; a call that has not returned is \<open>None\<close>. Logs (\<open>pl_log\<close>, \<open>apiLog\<close>, \<open>history\<close>) are ghost fields that only record.

  \<^bold>\<open>Theories, in the order of the data flow, and what their lemmas show.\<close>
  \<^item> \<open>Prelude\<close>, \<open>Types\<close>, \<open>Decimal\<close>, \<open>Utf8\<close>, \<open>Trim\<close>, \<open>Digest\<close>, \<open>Http\<close>: the clock, byte strings, \<open>types/types.go\<close> and
    \<open>types/safety_config.go\<close>, decimal output, UTF-8 round trip, \<open>TrimSpace\<close>, SHA-256 and the fingerprint,
    JSON output and the shape of an HTTP client.
  \<^item> \<open>Config\<close> (\<open>config.go\<close>, \<open>outbound_retry.go\<close>): defaults and checks; \<open>fill\<close> reaches every range and is idempotent.
  \<^item> \<open>Normalize\<close> (\<open>internal/normalize\<close>): well-formed messages, and where the text of one comes from.
  \<^item> \<open>HttpMode\<close> (\<open>http_mode.go\<close>): when a signature is accepted, and the replay window.
  \<^item> \<open>StaleDetector\<close>, \<open>PolicyGate\<close>, \<open>SeenCache\<close>, \<open>Dedup\<close>, \<open>ProcessingLock\<close>: the guards of the pipeline; a reference
    policy as a list of prioritised checks, an LRU list as the abstraction of the cache, retention of marks under
    eviction and sweeping, mutual exclusion. \<open>DedupContract\<close> and \<open>TtlGate\<close> are the locales their clients use.
  \<^item> \<open>ChatQueue\<close>, \<open>Batching\<close>, \<open>MediaPipeline\<close> over the locale \<open>Coalescer\<close>: nothing pushed is lost, duplicated or
    reordered; the queue stays bounded and drains.
  \<^item> \<open>Pipeline\<close>, \<open>PipelineQueue\<close>: the decision of \<open>PushMessage\<close>, at most once in the default mode, retry after a failed
    handler with \<open>MarkAfterHandler\<close>, and the
    order of the batches of a chat from admission to the handler.
  \<^item> \<open>Errors\<close>, \<open>Retry\<close>, \<open>Attempts\<close>: classification, the history of a retried operation, and (the locales
    \<open>logged_operation\<close> and \<open>logged_loop\<close>) what such an operation, or a loop of them, leaves in a log.
  \<^item> \<open>Splitter\<close>, \<open>Markdown\<close>: chunks of a text, their bounds and, read as Markdown, their code blocks; code blocks
    survive the normalisation for cards.
  \<^item> \<open>RateLimit\<close>, \<open>Token\<close>, \<open>BotIdentity\<close>, \<open>SSRFGuard\<close>, \<open>Cooldown\<close>: the rate and liveness of the bucket, cached
    credentials (locale \<open>credential\<close>), the refused address ranges, the cooldown of fallback texts.
  \<^item> \<open>Lifecycle\<close>, \<open>Connection\<close>: acknowledgement of frames, the reconnect schedule (of passes without a
    disconnect frame; after one the code waits where its documentation says immediately), and when \<open>Run\<close> returns.
  \<^item> \<open>CardClient\<close>, \<open>CardStreamer\<close>, \<open>CardSystem\<close>: the history of an API call; a card is closed once, nothing
    appended is dropped, frames show prefixes, the work ends, a finished text reaches the user. The schedules
    of \<open>CardSystem\<close> choose the outcomes of calls freely; \<open>CardLive\<close> makes the calls with the real client and shows
    that its runs are among them, that their requests are those of the calls in the history, and that the first
    and the final frame keep their distance.
  \<^item> \<open>Outbound\<close>, \<open>Reply\<close>, \<open>Emotion\<close>, \<open>Channel\<close>, \<open>ChannelRun\<close>: requests and results of proactive sends, chunks of a reply in
    order, the HTTP entry, card actions at most once, guarded downloads. \<open>ChannelRun\<close> handles any sequence of
    frames and rejects redeliveries end to end.
  \<^item> \<open>Json\<close>, \<open>Unmarshal\<close>, \<open>Decode\<close>: Go's JSON parser and \<open>json.Unmarshal\<close> into structs; printing and parsing again
    gives the value (\<open>parse_marshal\<close>), and a callback or frame arrives as sent whatever the order of its members
    and whatever unknown ones it has. \<open>ApiDecode\<close> does the same for the answers of the APIs, up to the token, the
    upload, the identity, the gateway and the API error their callers get.
  \<^item> \<open>Agent\<close>, \<open>AgentRun\<close>: the history of the example agent, its event stream, and the calls its handler makes in every
    outcome; put on the goroutines of \<open>CardSystem\<close>, what it finishes a card with reaches the user.

  \<^bold>\<open>Bounds and fuel.\<close>
  No definition uses fuel; the JSON parser carries the depth 10000 at which Go's decoder gives up. Loops recurse on their
  data or on a measure: \<open>retry_loop\<close> on the attempts left,
  \<open>waitFor\<close> on the rounds the environment gives (a wait whose rounds run out has not returned), \<open>Run\<close> on the
  passes the environment gives. Schedules of \<open>ChatQueue\<close> and \<open>CardSystem\<close> are lists of steps, with a computed
  bound on their length. The token bucket counts in \<open>rat\<close> where the code uses \<open>float64\<close>; \<open>delay_exact\<close> in \<open>Retry\<close>
  says up to where the delay computed by \<open>math.Pow\<close> is exact.

  \<^bold>\<open>Not modelled.\<close>
  \<open>aliases.go\<close> (re-exports without behaviour, but for the name \<open>normalizeIncoming\<close>), the debug log and the terminal
  output of the example, the websocket and HTTP libraries, and Redis beyond the operations \<open>RedisClient\<close> names.
  \<open>Unmarshal\<close> leaves out what the structs of the SDK do not use (embedded structs, custom unmarshalers, floats outside \<open>any\<close>),
  and takes the elements past the end of a slice as fresh, also when the same object gave a longer one before. Fields that goroutines read outside
  a mutex are read atomically. A hook or handler that changes a value it was given in place is one that returns
  the changed value. The goroutines that tick the sweepers are not modelled, only what a tick does, at any time.
\<close>

end
